(* ===== verification/Prelude.thy ===== *)
theory Prelude
  imports
    Main
    "HOL-Library.Finite_Map"
    "HOL-Library.List_Lexorder"
    "HOL-Library.Char_ord"
    "HOL-Library.Signed_Division"
    "HOL-Library.Word"
begin

text \<open>
  Vocabulary shared by every component: cluster names, Go error values with their
  wrapping structure, Go maps as finite maps with an explicit iteration order, loops that
  return on the first error, and time stamps and durations as the sources use them.
\<close>

named_theorems ctx_simps "rewrite rules for Go contexts"
named_theorems lease_simps "rewrite rules for lease records"

subsection \<open>Names\<close>

text \<open>\<open>multicluster.ClusterName\<close> is a Go string; \<open>LocalCluster\<close> is the empty one.\<close>

type_synonym cluster_name = string

definition Empty :: "cluster_name \<Rightarrow> bool" where
  "Empty n \<longleftrightarrow> n = ''''"

text \<open>
  A \<open>cluster.Cluster\<close> is an object of controller-runtime behind an interface: a handle that
  is passed around and compared. Multicluster-aware components are handles too.
\<close>

type_synonym cluster_h = nat
type_synonym aware_h = nat

text \<open>
  \<open>types.NamespacedName\<close> and \<open>client.ObjectKey\<close>: a datatype of its own, ordered by
  namespace and then by name, so that sets of keys can be listed in order.
\<close>

datatype nsname = NsName (nn_namespace: string) (nn_name: string)

instantiation nsname :: linorder
begin

definition less_eq_nsname :: "nsname \<Rightarrow> nsname \<Rightarrow> bool" where
  "less_eq_nsname a b \<longleftrightarrow>
     nn_namespace a < nn_namespace b \<or>
     nn_namespace a = nn_namespace b \<and> nn_name a \<le> nn_name b"

definition less_nsname :: "nsname \<Rightarrow> nsname \<Rightarrow> bool" where
  "less_nsname a b \<longleftrightarrow> a \<le> b \<and> \<not> b \<le> a"

instance
proof
  fix x y z :: nsname
  show "(x < y) = (x \<le> y \<and> \<not> y \<le> x)" by (simp add: less_nsname_def)
  show "x \<le> x" by (simp add: less_eq_nsname_def)
  show "x \<le> y \<Longrightarrow> y \<le> z \<Longrightarrow> x \<le> z"
    unfolding less_eq_nsname_def by auto
  show "x \<le> y \<Longrightarrow> y \<le> x \<Longrightarrow> x = y"
    unfolding less_eq_nsname_def by (auto intro: nsname.expand)
  show "x \<le> y \<or> y \<le> x"
    unfolding less_eq_nsname_def by auto
qed

end

text \<open>\<open>NamespacedName.String()\<close>: namespace, separator, name.\<close>

definition nsname_string :: "nsname \<Rightarrow> string" where
  "nsname_string k = nn_namespace k @ ''/'' @ nn_name k"

subsection \<open>Go errors\<close>

text \<open>
  \<open>Errorf fmt args cause\<close> is the value \<open>fmt.Errorf\<close> (or \<open>errors.New\<close>, with no arguments)
  returns: the format string and its arguments as the source writes them, and the error
  that a \<open>%w\<close> verb wraps. \<open>ErrJoin\<close> is \<open>errors.Join\<close>, \<open>ErrCtx\<close> the error of a done context,
  \<open>ErrApi\<close> an API status error and \<open>ErrExt\<close> an error that other code produced.
\<close>

datatype api_error = NotFound | AlreadyExists | Conflict | OtherApi string

datatype go_error =
    ErrClusterNotFound
  | Errorf string "string list" "go_error option"
  | ErrJoin "go_error list"
  | ErrCtx
  | ErrApi api_error
  | ErrExt string

text \<open>\<open>errors.Is(err, ErrClusterNotFound)\<close>: the sentinel anywhere along the wrapping.\<close>

fun is_cluster_not_found :: "go_error \<Rightarrow> bool" where
  "is_cluster_not_found ErrClusterNotFound = True"
| "is_cluster_not_found (Errorf f as (Some e)) = is_cluster_not_found e"
| "is_cluster_not_found (Errorf f as None) = False"
| "is_cluster_not_found (ErrJoin es) = list_ex is_cluster_not_found es"
| "is_cluster_not_found ErrCtx = False"
| "is_cluster_not_found (ErrApi a) = False"
| "is_cluster_not_found (ErrExt s) = False"

text \<open>\<open>errors.Join(errs, err)\<close>: nil arguments are dropped, and the join of none is nil.\<close>

definition errors_join :: "go_error option \<Rightarrow> go_error option \<Rightarrow> go_error option" where
  "errors_join a b =
     (case (a, b) of
        (None, None) \<Rightarrow> None
      | (Some x, None) \<Rightarrow> Some (ErrJoin [x])
      | (None, Some y) \<Rightarrow> Some (ErrJoin [y])
      | (Some x, Some y) \<Rightarrow> Some (ErrJoin [x, y]))"

lemma errors_join_None_iff [simp]: "errors_join a b = None \<longleftrightarrow> a = None \<and> b = None"
  by (auto simp: errors_join_def split: option.splits)

subsection \<open>Loops\<close>

text \<open>A loop over a slice whose body returns the enclosing function on an error.\<close>

fun first_error :: "('a \<Rightarrow> go_error option) \<Rightarrow> 'a list \<Rightarrow> go_error option" where
  "first_error f [] = None"
| "first_error f (x # xs) = (case f x of Some e \<Rightarrow> Some e | None \<Rightarrow> first_error f xs)"

lemma first_error_None_iff: "first_error f xs = None \<longleftrightarrow> (\<forall>x \<in> set xs. f x = None)"
  by (induction xs) (auto split: option.splits)

lemma first_error_SomeE:
  assumes "first_error f xs = Some e"
  obtains ys x zs where "xs = ys @ x # zs" "\<forall>y \<in> set ys. f y = None" "f x = Some e"
  using assms
proof (induction xs arbitrary: thesis)
  case Nil
  then show ?case by simp
next
  case (Cons a xs)
  show ?case
  proof (cases "f a")
    case None
    with Cons.prems(2) have "first_error f xs = Some e" by simp
    then obtain ys x zs where "xs = ys @ x # zs" "\<forall>y \<in> set ys. f y = None" "f x = Some e"
      using Cons.IH by blast
    with None Cons.prems(1)[of "a # ys" x zs] show ?thesis by simp
  next
    case (Some e')
    with Cons.prems show ?thesis by (auto intro: Cons.prems(1)[of "[]"])
  qed
qed

subsection \<open>Go maps\<close>

text \<open>
  A Go map is a finite map. Ranging over it visits every key once in an order the language
  does not fix, so an operation that ranges takes the order as an argument and its theorems
  hold for every order.
\<close>

definition iter_order :: "('k, 'v) fmap \<Rightarrow> 'k list \<Rightarrow> bool" where
  "iter_order m ord \<longleftrightarrow> distinct ord \<and> set ord = fset (fmdom m)"

lemma iter_order_iff: "iter_order m ord \<Longrightarrow> n \<in> set ord \<longleftrightarrow> (\<exists>v. fmlookup m n = Some v)"
  by (auto simp: iter_order_def fmlookup_dom_iff)

text \<open>\<open>slices.Sorted(maps.Keys(m))\<close>.\<close>

definition sorted_keys :: "('k::linorder, 'v) fmap \<Rightarrow> 'k list" where
  "sorted_keys m = sorted_list_of_fset (fmdom m)"

lemma set_sorted_keys [simp]: "set (sorted_keys m) = fset (fmdom m)"
  by (simp add: sorted_keys_def sorted_list_of_fset.rep_eq)

lemma sorted_sorted_keys [simp]: "sorted (sorted_keys m)"
  by (simp add: sorted_keys_def sorted_list_of_fset.rep_eq)

lemma distinct_sorted_keys [simp]: "distinct (sorted_keys m)"
  by (simp add: sorted_keys_def sorted_list_of_fset.rep_eq)

lemma iter_order_sorted_keys: "iter_order m (sorted_keys m)"
  by (simp add: iter_order_def)

lemma fmlookup_in_dom: "fmlookup m k = Some v \<Longrightarrow> k |\<in>| fmdom m"
  by (simp add: fmdomI)

lemma not_in_fmdom [simp]: "k |\<notin>| fmdom m \<longleftrightarrow> fmlookup m k = None"
  by (simp add: fmdom_notD fmdom_notI iffI)

lemma fmupd_fmdrop [simp]: "fmupd k v (fmdrop k m) = fmupd k v m"
  by (rule fmap_ext) simp

lemma fmdrop_fmupd_single [simp]: "fmdrop k (fmupd k v m) = fmdrop k m"
  by (rule fmap_ext) simp

lemma fmdrop_fmupd_other: "k \<noteq> j \<Longrightarrow> fmdrop j (fmupd k v m) = fmupd k v (fmdrop j m)"
  by (rule fmap_ext) simp

subsection \<open>Time\<close>

text \<open>
  Time stamps and \<open>time.Duration\<close> values are integers in nanoseconds. Go's integer division
  truncates (\<open>sdiv\<close>), and \<open>int32(d / time.Second)\<close> keeps the low 32 bits as a signed number.
  Multiplying such a number by \<open>time.Second\<close> stays below \<open>2 ^ 63\<close>, so that product does not wrap.
\<close>

definition second :: int where "second = 1000000000"
definition millisecond :: int where "millisecond = 1000000"

definition int32_of :: "int \<Rightarrow> int" where
  "int32_of n = signed_take_bit 31 n"

definition to_seconds32 :: "int \<Rightarrow> int" where
  "to_seconds32 d = int32_of (d sdiv second)"

lemma int32_of_bounds: "- (2 ^ 31) \<le> int32_of n \<and> int32_of n < 2 ^ 31"
  unfolding int32_of_def
  by (metis signed_take_bit_int_greater_eq_minus_exp signed_take_bit_int_less_exp)

lemma seconds_product_fits: "\<bar>int32_of n * second\<bar> < 2 ^ 63"
  using int32_of_bounds[of n] by (simp add: second_def abs_less_iff)

text \<open>\<open>metav1.MicroTime\<close> travels to the API server with microseconds, the rest is cut off.\<close>

definition micro :: "int \<Rightarrow> int" where
  "micro t = t - t mod 1000"

lemma micro_le: "micro t \<le> t"
  by (simp add: micro_def)

lemma micro_mono: "s \<le> t \<Longrightarrow> micro s \<le> micro t"
proof -
  assume "s \<le> t"
  then have "1000 * (s div 1000) \<le> 1000 * (t div 1000)"
    by (simp add: zdiv_mono1)
  moreover have "micro u = 1000 * (u div 1000)" for u
    unfolding micro_def using minus_mod_eq_mult_div[of u 1000] by simp
  ultimately show ?thesis by simp
qed

end
