(* ===== verification/Sanitize.thy ===== *)
theory Sanitize
  imports Prelude
begin

text \<open>
  The name sanitizer of \<open>pkg/util/sanitize\<close>. Go strings are byte sequences, and ranging
  over one decodes UTF-8; \<open>go_runes\<close> is that decoding, with U+FFFD for each byte that
  starts no valid sequence. The two trimming loops are kept as loops over indices and
  proved equal to cutting off the non-alphanumeric ends.
\<close>

subsection \<open>Ranging over a string\<close>

definition rune_error :: nat where "rune_error = 65533"

definition cont_byte :: "nat \<Rightarrow> bool" where
  "cont_byte b \<longleftrightarrow> 128 \<le> b \<and> b \<le> 191"

text \<open>The first rune of a byte sequence and the number of bytes it takes.\<close>

fun decode_rune :: "nat list \<Rightarrow> nat \<times> nat" where
  "decode_rune [] = (rune_error, 0)"
| "decode_rune (b0 # bs) =
     (if b0 < 128 then (b0, 1)
      else if 194 \<le> b0 \<and> b0 \<le> 223 then
        (case bs of
           b1 # _ \<Rightarrow> if cont_byte b1 then ((b0 - 192) * 64 + (b1 - 128), 2) else (rune_error, 1)
         | _ \<Rightarrow> (rune_error, 1))
      else if 224 \<le> b0 \<and> b0 \<le> 239 then
        (case bs of
           b1 # b2 # _ \<Rightarrow>
             if cont_byte b1 \<and> (b0 = 224 \<longrightarrow> 160 \<le> b1) \<and> (b0 = 237 \<longrightarrow> b1 \<le> 159) \<and> cont_byte b2
             then ((b0 - 224) * 4096 + (b1 - 128) * 64 + (b2 - 128), 3) else (rune_error, 1)
         | _ \<Rightarrow> (rune_error, 1))
      else if 240 \<le> b0 \<and> b0 \<le> 244 then
        (case bs of
           b1 # b2 # b3 # _ \<Rightarrow>
             if cont_byte b1 \<and> (b0 = 240 \<longrightarrow> 144 \<le> b1) \<and> (b0 = 244 \<longrightarrow> b1 \<le> 143) \<and>
                cont_byte b2 \<and> cont_byte b3
             then ((b0 - 240) * 262144 + (b1 - 128) * 4096 + (b2 - 128) * 64 + (b3 - 128), 4)
             else (rune_error, 1)
         | _ \<Rightarrow> (rune_error, 1))
      else (rune_error, 1))"

function go_runes :: "nat list \<Rightarrow> nat list" where
  "go_runes [] = []"
| "go_runes (b # bs) =
     fst (decode_rune (b # bs)) # go_runes (drop (snd (decode_rune (b # bs)) - 1) bs)"
  by pat_completeness auto
termination by (relation "measure length") (simp_all del: decode_rune.simps)

lemma go_runes_ascii: "\<forall>b \<in> set bs. b < 128 \<Longrightarrow> go_runes bs = bs"
  by (induction bs) auto

subsection \<open>The sanitizer\<close>

definition lower_alnum :: "nat \<Rightarrow> bool" where
  "lower_alnum r \<longleftrightarrow> 97 \<le> r \<and> r \<le> 122 \<or> 48 \<le> r \<and> r \<le> 57"

definition dns_rune :: "nat \<Rightarrow> nat" where
  "dns_rune r =
     (if 65 \<le> r \<and> r \<le> 90 then r + (97 - 65)
      else if 97 \<le> r \<and> r \<le> 122 \<or> 48 \<le> r \<and> r \<le> 57 \<or> r = 45 \<or> r = 46 then r
      else 45)"

function trim_start :: "nat list \<Rightarrow> nat \<Rightarrow> nat \<Rightarrow> nat" where
  "trim_start b start end =
     (if start < end then
        (if lower_alnum (b ! start) then start else trim_start b (Suc start) end)
      else start)"
  by pat_completeness auto
termination by (relation "measure (\<lambda>(b, start, end). end - start)") auto

fun trim_end :: "nat list \<Rightarrow> nat \<Rightarrow> nat \<Rightarrow> nat" where
  "trim_end b start end =
     (if start < end then
        (if lower_alnum (b ! (end - 1)) then end else trim_end b start (end - 1))
      else end)"

declare trim_start.simps [simp del] trim_end.simps [simp del]

definition DNS1123 :: "string \<Rightarrow> string" where
  "DNS1123 s =
     (let b = map dns_rune (go_runes (map of_char s));
          start = trim_start b 0 (length b);
          end = trim_end b start (length b)
      in if start \<ge> end then ''unknown''
         else map char_of (drop start (take end b)))"

subsection \<open>The loops trim\<close>

lemma trim_start_dropWhile:
  "start \<le> length b \<Longrightarrow>
   drop (trim_start b start (length b)) b = dropWhile (\<lambda>r. \<not> lower_alnum r) (drop start b) \<and>
   start \<le> trim_start b start (length b) \<and> trim_start b start (length b) \<le> length b"
proof (induction "length b - start" arbitrary: start)
  case 0
  then show ?case by (subst (1 2 3) trim_start.simps) simp
next
  case (Suc n)
  then have lt: "start < length b" by simp
  then have d: "drop start b = b ! start # drop (Suc start) b"
    by (simp add: Cons_nth_drop_Suc)
  have ih: "drop (trim_start b (Suc start) (length b)) b =
        dropWhile (\<lambda>r. \<not> lower_alnum r) (drop (Suc start) b)"
      "Suc start \<le> trim_start b (Suc start) (length b)"
      "trim_start b (Suc start) (length b) \<le> length b"
    using Suc.hyps(1)[of "Suc start"] Suc.hyps(2) lt by simp_all
  show ?case
    using ih lt by (subst (1 2 3) trim_start.simps) (simp add: d)
qed

lemma trim_end_dropWhile:
  "start \<le> end \<Longrightarrow> end \<le> length b \<Longrightarrow>
   drop start (take (trim_end b start end) b) =
     rev (dropWhile (\<lambda>r. \<not> lower_alnum r) (rev (drop start (take end b)))) \<and>
   start \<le> trim_end b start end \<and> trim_end b start end \<le> end"
proof (induction b start "end" rule: trim_end.induct)
  case (1 b start e)
  show ?case
  proof (cases "start < e")
    case False
    with "1.prems" show ?thesis by (subst (1 2 3) trim_end.simps) auto
  next
    case True
    have "take e b = take (e - 1) b @ [b ! (e - 1)]"
      using True "1.prems" take_Suc_conv_app_nth[of "e - 1" b] by simp
    then have split: "drop start (take e b) = drop start (take (e - 1) b) @ [b ! (e - 1)]"
      using True "1.prems" by simp
    show ?thesis
    proof (cases "lower_alnum (b ! (e - 1))")
      case True
      with \<open>start < e\<close> show ?thesis by (subst (1 2 3) trim_end.simps) (simp add: split)
    next
      case False
      with \<open>start < e\<close> "1.prems" "1.IH" have
        "drop start (take (trim_end b start (e - 1)) b) =
           rev (dropWhile (\<lambda>r. \<not> lower_alnum r) (rev (drop start (take (e - 1) b))))"
        "start \<le> trim_end b start (e - 1)" "trim_end b start (e - 1) \<le> e - 1"
        by simp_all
      with \<open>start < e\<close> False show ?thesis
        by (subst (1 2 3) trim_end.simps) (simp add: split)
    qed
  qed
qed

definition trim_alnum :: "nat list \<Rightarrow> nat list" where
  "trim_alnum b =
     rev (dropWhile (\<lambda>r. \<not> lower_alnum r) (rev (dropWhile (\<lambda>r. \<not> lower_alnum r) b)))"

lemma DNS1123_eq:
  "DNS1123 s =
     (let t = trim_alnum (map dns_rune (go_runes (map of_char s)))
      in if t = [] then ''unknown'' else map char_of t)"
proof -
  define b where "b = map dns_rune (go_runes (map of_char s))"
  define i where "i = trim_start b 0 (length b)"
  define e where "e = trim_end b i (length b)"
  have i: "drop i b = dropWhile (\<lambda>r. \<not> lower_alnum r) b" "i \<le> length b"
    using trim_start_dropWhile[of 0 b] by (simp_all add: i_def)
  have e: "drop i (take e b) = rev (dropWhile (\<lambda>r. \<not> lower_alnum r) (rev (drop i b)))"
      "i \<le> e" "e \<le> length b"
    using trim_end_dropWhile[of i "length b" b] i(2) by (simp_all add: e_def)
  have "drop i (take e b) = trim_alnum b"
    by (simp add: e(1) i(1) trim_alnum_def)
  moreover have "(i \<ge> e) = (drop i (take e b) = [])"
    using e(2,3) by auto
  ultimately show ?thesis
    by (simp add: DNS1123_def Let_def flip: b_def i_def e_def)
qed

subsection \<open>What the result looks like\<close>

definition dns_char :: "nat \<Rightarrow> bool" where
  "dns_char r \<longleftrightarrow> lower_alnum r \<or> r = 45 \<or> r = 46"

text \<open>Lower-case alphanumerics, dashes and dots, with alphanumeric ends.\<close>

definition dns_name :: "string \<Rightarrow> bool" where
  "dns_name s \<longleftrightarrow> s \<noteq> [] \<and> (\<forall>c \<in> set s. dns_char (of_char c)) \<and>
     lower_alnum (of_char (hd s)) \<and> lower_alnum (of_char (last s))"

lemma dns_char_dns_rune: "dns_char (dns_rune r)"
  by (auto simp: dns_char_def dns_rune_def lower_alnum_def)

lemma dns_rune_id: "dns_char r \<Longrightarrow> dns_rune r = r"
  by (auto simp: dns_char_def dns_rune_def lower_alnum_def)

lemma dns_char_less: "dns_char r \<Longrightarrow> r < 128"
  by (auto simp: dns_char_def lower_alnum_def)

lemma trim_alnum_ends:
  "trim_alnum b \<noteq> [] \<Longrightarrow> lower_alnum (hd (trim_alnum b)) \<and> lower_alnum (last (trim_alnum b))"
proof -
  let ?d = "dropWhile (\<lambda>r. \<not> lower_alnum r) b"
  let ?r = "dropWhile (\<lambda>r. \<not> lower_alnum r) (rev ?d)"
  assume "trim_alnum b \<noteq> []"
  then have r: "?r \<noteq> []" by (simp add: trim_alnum_def)
  then have d: "?d \<noteq> []" by fastforce
  have "last ?r = last (takeWhile (\<lambda>r. \<not> lower_alnum r) (rev ?d) @ ?r)"
    using r by (simp only: last_append if_False)
  also have "\<dots> = last (rev ?d)" by (simp only: takeWhile_dropWhile_id)
  also have "\<dots> = hd ?d" using d by (simp add: last_rev)
  finally have "lower_alnum (last ?r)" using d hd_dropWhile by metis
  moreover have "lower_alnum (hd ?r)" using r hd_dropWhile by metis
  ultimately show ?thesis using r by (simp add: trim_alnum_def hd_rev last_rev)
qed

lemma set_trim_alnum: "set (trim_alnum b) \<subseteq> set b"
  by (auto simp: trim_alnum_def dest!: set_dropWhileD)

lemma trim_alnum_id:
  "b \<noteq> [] \<Longrightarrow> lower_alnum (hd b) \<Longrightarrow> lower_alnum (last b) \<Longrightarrow> trim_alnum b = b"
proof -
  assume b: "b \<noteq> []" "lower_alnum (hd b)" "lower_alnum (last b)"
  have keep: "dropWhile (\<lambda>r. \<not> lower_alnum r) c = c" if "c \<noteq> []" "lower_alnum (hd c)" for c
    using that by (cases c) auto
  show ?thesis using b by (simp add: trim_alnum_def keep hd_rev)
qed

lemma of_char_char_of_small: "r < 256 \<Longrightarrow> of_char (char_of r) = (r :: nat)"
  by simp

lemma dns_name_DNS1123: "dns_name (DNS1123 s)"
proof -
  define t where "t = trim_alnum (map dns_rune (go_runes (map of_char s)))"
  have chars: "dns_char r" if "r \<in> set t" for r
    using that set_trim_alnum by (force simp: t_def dns_char_dns_rune)
  show ?thesis
  proof (cases "t = []")
    case True
    then have "DNS1123 s = ''unknown''" by (simp add: DNS1123_eq flip: t_def)
    then show ?thesis by (simp add: dns_name_def dns_char_def lower_alnum_def)
  next
    case False
    have small: "r < 256" if "r \<in> set t" for r
      using dns_char_less[OF chars[OF that]] by simp
    have "DNS1123 s = map char_of t" using False by (simp add: DNS1123_eq flip: t_def)
    with False chars small trim_alnum_ends[of "map dns_rune (go_runes (map of_char s))"]
    show ?thesis
      by (auto simp: dns_name_def hd_map last_map of_char_char_of_small simp flip: t_def)
  qed
qed

lemma DNS1123_id: "dns_name s \<Longrightarrow> DNS1123 s = s"
proof -
  assume v: "dns_name s"
  then have c: "\<forall>r \<in> set (map of_char s). dns_char r" by (auto simp: dns_name_def)
  then have "go_runes (map of_char s) = map of_char s"
    by (intro go_runes_ascii) (auto dest!: dns_char_less)
  moreover have "map dns_rune (map of_char s) = map of_char s"
    using c by (intro map_idI) (auto simp: dns_rune_id)
  moreover have "trim_alnum (map of_char s) = map of_char s"
    using v by (intro trim_alnum_id) (auto simp: dns_name_def hd_map last_map)
  ultimately have "trim_alnum (map dns_rune (go_runes (map of_char s))) = map of_char s"
    by metis
  with v show ?thesis by (simp add: DNS1123_eq dns_name_def comp_def)
qed

subsection \<open>The subdomain grammar\<close>

text \<open>
  A DNS-1123 subdomain is a dot-separated sequence of labels, each of which begins and
  ends alphanumeric.
\<close>

fun dns_labels :: "string \<Rightarrow> string list" where
  "dns_labels [] = [[]]"
| "dns_labels (c # cs) =
     (if c = CHR ''.'' then [] # dns_labels cs
      else (case dns_labels cs of l # ls \<Rightarrow> (c # l) # ls | [] \<Rightarrow> [[c]]))"

definition dns_subdomain :: "string \<Rightarrow> bool" where
  "dns_subdomain s \<longleftrightarrow> (\<forall>l \<in> set (dns_labels s). dns_name l)"

subsection \<open>Properties\<close>

text \<open>
  C35: \<open>DNS1123\<close> returns, for every input string (invalid UTF-8 included), a non-empty string
  of lower-case alphanumerics, dashes and dots that begins and ends alphanumeric; such a
  string it leaves alone, so that sanitizing twice is sanitizing once.
\<close>

theorem DNS1123_wellformed:
  "dns_name (DNS1123 s) \<and> DNS1123 (DNS1123 s) = DNS1123 s"
  using dns_name_DNS1123 DNS1123_id by blast

text \<open>
  The result need not be a DNS-1123 subdomain, and different names collide. Labels may be
  empty or begin with a dash, which the API server rejects in a Lease name; and two cluster
  names that differ in a replaced character become one name, so that they share one fence.
\<close>

theorem DNS1123_gaps:
  "\<not> dns_subdomain (DNS1123 ''a..b'') \<and> \<not> dns_subdomain (DNS1123 ''a.-b'') \<and>
   DNS1123 ''team_a'' = DNS1123 ''team-a''"
  by code_simp

end
