(* ===== verification/Sharder.thy ===== *)
theory Sharder
  imports Prelude
begin

text \<open>
  \<open>pkg/manager/coordinator/sharded/sharder\<close>: the peers that take part in sharding, the
  rendezvous hash that picks the owner of a cluster, and the contract of the \<open>Sharder\<close>
  interface as a locale that the HRW implementation interprets. Hashes and scores are
  64-bit words, so the product of hash and weight wraps around as it does in Go.
\<close>

unbundle bit_operations_syntax

record PeerInfo =
  ID :: string
  Weight :: "32 word"

subsection \<open>FNV-1a, 64 bit\<close>

definition fnv_offset :: "64 word" where "fnv_offset = 14695981039346656037"
definition fnv_prime :: "64 word" where "fnv_prime = 1099511628211"

fun fnv_write :: "64 word \<Rightarrow> string \<Rightarrow> 64 word" where
  "fnv_write h [] = h"
| "fnv_write h (c # cs) = fnv_write ((h XOR of_char c) * fnv_prime) cs"

definition hash64 :: "string \<Rightarrow> 64 word" where
  "hash64 s = fnv_write fnv_offset s"

subsection \<open>Highest random weight\<close>

definition hrw_norm :: "PeerInfo \<Rightarrow> PeerInfo" where
  "hrw_norm p = (if Weight p = 0 then p\<lparr>Weight := 1\<rparr> else p)"

definition weighted_score :: "64 word \<Rightarrow> 32 word \<Rightarrow> 64 word" where
  "weighted_score h w = h * ucast w"

definition hrw_score :: "string \<Rightarrow> PeerInfo \<Rightarrow> 64 word" where
  "hrw_score clusterID p =
     weighted_score (hash64 (clusterID @ ''|'' @ ID p)) (Weight (hrw_norm p))"

fun hrw_loop :: "string \<Rightarrow> PeerInfo list \<Rightarrow> PeerInfo \<Rightarrow> 64 word \<Rightarrow> PeerInfo" where
  "hrw_loop clusterID [] best bestScore = best"
| "hrw_loop clusterID (p # ps) best bestScore =
     (let score = hrw_score clusterID p
      in if score \<ge> bestScore then hrw_loop clusterID ps (hrw_norm p) score
         else hrw_loop clusterID ps best bestScore)"

definition hrw_best :: "string \<Rightarrow> PeerInfo list \<Rightarrow> PeerInfo" where
  "hrw_best clusterID peers = hrw_loop clusterID peers \<lparr>ID = '''', Weight = 0\<rparr> 0"

definition ShouldOwn :: "string \<Rightarrow> PeerInfo list \<Rightarrow> PeerInfo \<Rightarrow> bool" where
  "ShouldOwn clusterID peers self =
     (if length peers = 0 then True
      else ID (hrw_best clusterID peers) = ID self)"

subsection \<open>The winner has the highest score\<close>

lemma ID_hrw_norm [simp]: "ID (hrw_norm p) = ID p"
  by (simp add: hrw_norm_def)

lemma hrw_loop_spec:
  "(\<forall>q \<in> set ps. hrw_score c q < s) \<and> hrw_loop c ps b s = b \<or>
   (\<exists>p \<in> set ps. s \<le> hrw_score c p \<and> hrw_loop c ps b s = hrw_norm p \<and>
      (\<forall>q \<in> set ps. hrw_score c q \<le> hrw_score c p))"
proof (induction ps arbitrary: b s)
  case Nil
  then show ?case by simp
next
  case (Cons a ps)
  show ?case
  proof (cases "s \<le> hrw_score c a")
    case True
    with Cons.IH[of "hrw_score c a" "hrw_norm a"] show ?thesis
      by (fastforce simp: Let_def intro: less_imp_le)
  next
    case False
    with Cons.IH[of s b] show ?thesis
      by (fastforce simp: Let_def not_le)
  qed
qed

lemma hrw_best_max:
  assumes "ps \<noteq> []"
  obtains p where "p \<in> set ps" "hrw_best c ps = hrw_norm p"
    "\<forall>q \<in> set ps. hrw_score c q \<le> hrw_score c p"
  using assms hrw_loop_spec[of ps c 0 "\<lparr>ID = '''', Weight = 0\<rparr>"]
  by (cases ps) (auto simp: hrw_best_def)

lemma ShouldOwn_iff:
  "ps \<noteq> [] \<Longrightarrow> ShouldOwn c ps self \<longleftrightarrow> ID (hrw_best c ps) = ID self"
  by (simp add: ShouldOwn_def)

lemma ShouldOwn_member:
  "ps \<noteq> [] \<Longrightarrow> \<exists>p \<in> set ps. ShouldOwn c ps p"
  by (metis ID_hrw_norm ShouldOwn_iff hrw_best_max)

text \<open>Without a tie the winner depends on the set of peers only.\<close>

lemma hrw_best_unique:
  assumes "inj_on (hrw_score c) (set ps)" and "p \<in> set ps"
    and "\<forall>q \<in> set ps. hrw_score c q \<le> hrw_score c p"
  shows "hrw_best c ps = hrw_norm p"
proof -
  from assms(2) have "ps \<noteq> []" by auto
  then obtain p' where p': "p' \<in> set ps" "hrw_best c ps = hrw_norm p'"
    "\<forall>q \<in> set ps. hrw_score c q \<le> hrw_score c p'"
    by (rule hrw_best_max[of ps c])
  with assms(2,3) have "hrw_score c p = hrw_score c p'" by (intro order_antisym) auto
  with assms(1,2) p' show ?thesis by (auto dest: inj_onD)
qed

lemma hrw_best_subset:
  assumes "inj_on (hrw_score c) (set ps)" and "set qs \<subseteq> set ps" and "qs \<noteq> []"
    and "ShouldOwn c ps w" and "\<forall>p \<in> set ps. ID p = ID w \<longrightarrow> p \<in> set qs"
  shows "ID (hrw_best c qs) = ID w"
proof -
  from assms(2,3) have "ps \<noteq> []" by auto
  then obtain p where p: "p \<in> set ps" "hrw_best c ps = hrw_norm p"
    "\<forall>q \<in> set ps. hrw_score c q \<le> hrw_score c p"
    by (rule hrw_best_max[of ps c])
  from assms(4) p(2) \<open>ps \<noteq> []\<close> have id: "ID p = ID w" by (simp add: ShouldOwn_iff)
  with assms(5) p(1) have "p \<in> set qs" by blast
  moreover have "inj_on (hrw_score c) (set qs)"
    using assms(1,2) by (rule inj_on_subset)
  ultimately have "hrw_best c qs = hrw_norm p"
    using p(3) assms(2) by (intro hrw_best_unique) auto
  with id show ?thesis by simp
qed

subsection \<open>The Sharder interface\<close>

text \<open>
  What a caller of \<open>Sharder.ShouldOwn\<close> relies on: over a non-empty snapshot somebody in the
  snapshot owns the cluster, owners agree in their ID, and only the ID of the asking peer
  matters.
\<close>

locale sharder =
  fixes should_own :: "string \<Rightarrow> PeerInfo list \<Rightarrow> PeerInfo \<Rightarrow> bool"
  assumes some_owner: "ps \<noteq> [] \<Longrightarrow> \<exists>p \<in> set ps. should_own c ps p"
    and owner_id: "ps \<noteq> [] \<Longrightarrow> should_own c ps a \<Longrightarrow> should_own c ps b \<Longrightarrow> ID a = ID b"
    and id_only: "ID a = ID b \<Longrightarrow> should_own c ps a \<Longrightarrow> should_own c ps b"
begin

lemma one_owner:
  assumes "ps \<noteq> []" and "distinct (map ID ps)"
  shows "\<exists>!p. p \<in> set ps \<and> should_own c ps p"
proof -
  from assms(1) obtain p where p: "p \<in> set ps" "should_own c ps p"
    using some_owner by blast
  have "q = p" if "q \<in> set ps" "should_own c ps q" for q
  proof -
    have "ID q = ID p" using owner_id[OF assms(1) that(2) p(2)] .
    moreover have "inj_on ID (set ps)" using assms(2) by (simp add: distinct_map)
    ultimately show ?thesis using that(1) p(1) by (auto dest: inj_onD)
  qed
  with p show ?thesis by blast
qed

lemma not_both:
  assumes "ps \<noteq> []" and "ID a \<noteq> ID b"
  shows "\<not> (should_own c ps a \<and> should_own c ps b)"
  using owner_id[OF assms(1)] assms(2) by blast

end

interpretation hrw: sharder ShouldOwn
proof unfold_locales
  show "\<exists>p \<in> set ps. ShouldOwn c ps p" if "ps \<noteq> []" for ps c
    using that by (rule ShouldOwn_member)
  show "ID a = ID b" if "ps \<noteq> []" "ShouldOwn c ps a" "ShouldOwn c ps b" for ps c a b
    using that by (simp add: ShouldOwn_iff)
  show "ShouldOwn c ps b" if "ID a = ID b" "ShouldOwn c ps a" for ps c a b
    using that by (simp add: ShouldOwn_def split: if_splits)
qed

subsection \<open>Weights wrap around\<close>

text \<open>Multiplying by an odd number permutes the 64-bit words.\<close>

lemma odd_mult_inj:
  assumes "odd (unat w)" shows "inj (\<lambda>h :: 64 word. h * w)"
proof (rule injI)
  fix a b :: "64 word"
  assume "a * w = b * w"
  then have "(a - b) * w = 0" by (simp add: algebra_simps)
  then have "unat (a - b) * unat w mod 2 ^ 64 = 0"
    using unat_word_ariths(2)[of "a - b" w] by simp
  then have "2 ^ 64 dvd unat (a - b) * unat w" by (simp add: dvd_eq_mod_eq_0)
  moreover have "coprime ((2::nat) ^ 64) (unat w)"
    using assms by (metis coprime_power_left_iff coprime_left_2_iff_odd)
  ultimately have "2 ^ 64 dvd unat (a - b)" by (metis coprime_dvd_mult_left_iff)
  moreover have "unat (a - b) < 2 ^ 64" using unsigned_less[of "a - b"] by simp
  ultimately have "unat (a - b) = 0" by (metis dvd_imp_le gr0I linorder_not_less)
  then have "a - b = 0" by (simp add: unat_eq_zero)
  then show "a = b" by simp
qed

lemma odd_mult_card:
  assumes "odd (unat w)"
  shows "card {h :: 64 word. t \<le> h * w} = card {h. t \<le> h}"
proof -
  let ?f = "\<lambda>h :: 64 word. h * w"
  have inj: "inj ?f" using assms by (rule odd_mult_inj)
  then have "surj ?f" by (intro finite_UNIV_inj_surj) simp
  then have "?f ` {h. t \<le> ?f h} = {h. t \<le> h}" by (auto simp: surj_def)
  moreover have "card (?f ` {h. t \<le> ?f h}) = card {h. t \<le> ?f h}"
    by (rule card_image) (rule inj_on_subset[OF inj], simp)
  ultimately show ?thesis by simp
qed

subsection \<open>Properties\<close>

definition demo_peers3 :: "PeerInfo list" where
  "demo_peers3 = [\<lparr>ID = ''p'', Weight = 1\<rparr>, \<lparr>ID = ''q'', Weight = 2\<rparr>, \<lparr>ID = ''r'', Weight = 0\<rparr>]"

text \<open>
  C11: over a non-empty peer set without duplicate identities the HRW sharder gives every
  cluster exactly one owner among the peers.
\<close>

theorem HRW_exactly_one_owner:
  assumes "peers \<noteq> []" and "distinct (map ID peers)"
  shows "\<exists>!p. p \<in> set peers \<and> ShouldOwn clusterID peers p"
  using assms by (rule hrw.one_owner)

theorem HRW_exactly_one_owner_witness:
  "\<exists>!p. p \<in> set demo_peers3 \<and> ShouldOwn ''zoo'' demo_peers3 p"
  using HRW_exactly_one_owner[of demo_peers3 "''zoo''"] by (simp add: demo_peers3_def)

text \<open>
  C12: peers that leave or join move only their own clusters. If the scores of a cluster do not
  tie, the owner over a peer set stays the owner over every subset it belongs to: removing
  other peers never moves its clusters, and adding peers can only move a cluster to one of
  the new ones.
\<close>

theorem HRW_minimal_disruption:
  assumes "inj_on (hrw_score clusterID) (set peers)" and "set rest \<subseteq> set peers"
    and "w \<in> set rest" and "distinct (map ID peers)" and "ShouldOwn clusterID peers w"
  shows "ShouldOwn clusterID rest w"
proof -
  have "\<forall>p \<in> set peers. ID p = ID w \<longrightarrow> p \<in> set rest"
    using assms(2-4) by (auto simp: distinct_map dest: inj_onD)
  moreover have "rest \<noteq> []" using assms(3) by auto
  ultimately have "ID (hrw_best clusterID rest) = ID w"
    using assms(1,2,5) by (intro hrw_best_subset)
  with \<open>rest \<noteq> []\<close> show ?thesis by (simp add: ShouldOwn_iff)
qed

theorem HRW_minimal_disruption_witness:
  "ShouldOwn ''zoo'' [\<lparr>ID = ''p'', Weight = 1\<rparr>, \<lparr>ID = ''r'', Weight = 0\<rparr>] \<lparr>ID = ''r'', Weight = 0\<rparr>"
proof -
  have inj: "inj_on (hrw_score ''zoo'') (set demo_peers3)"
    and own: "ShouldOwn ''zoo'' demo_peers3 \<lparr>ID = ''r'', Weight = 0\<rparr>" by code_simp+
  have d: "distinct (map ID demo_peers3)" by (simp add: demo_peers3_def)
  show ?thesis
    by (rule HRW_minimal_disruption[OF inj _ _ d own]) (simp_all add: demo_peers3_def)
qed

text \<open>
  An odd weight gives no larger share. The score is the product of the hash and the weight
  modulo \<open>2 ^ 64\<close>. Multiplying by an odd number permutes the 64-bit words, so for every
  threshold as many hash values reach it as with weight one: the weight shuffles the scores
  but does not raise them.
\<close>

theorem odd_weight_no_bias:
  assumes "odd (unat w)"
  shows "card {h. t \<le> weighted_score h w} = card {h. t \<le> weighted_score h 1}"
proof -
  have "odd (unat (ucast w :: 64 word))" using assms by (simp add: unsigned_ucast_eq take_bit_nat_eq_self)
  from odd_mult_card[OF this, of t] show ?thesis by (simp add: weighted_score_def)
qed

theorem odd_weight_no_bias_witness:
  "card {h. 5 \<le> weighted_score h 3} = card {h. 5 \<le> weighted_score h 1}"
  using odd_weight_no_bias[of 3 5] by simp

end
