(* ===== verification/KubeApi.thy ===== *)
theory KubeApi
  imports Prelude
begin

text \<open>
  Leases as the sources see them, and the API client as a parameter. The client and the API
  server behind it are not code of this repository: an operation that talks to them takes
  the client's functions as an argument. The locale \<open>lease_api\<close> states the documented
  behaviour the fencing relies on (optimistic concurrency through resource versions); reads
  may be stale, and a call that reports an error may or may not have taken effect. An
  in-memory API server shows that the laws can hold.
\<close>

subsection \<open>Lease objects\<close>

record lease =
  l_key :: nsname
  l_rv :: nat
  l_labels :: "(string, string) fmap"
  l_annotations :: "(string, string) fmap option"
  HolderIdentity :: "string option"
  LeaseDurationSeconds :: "int option"
  AcquireTime :: "int option"
  RenewTime :: "int option"

text \<open>A Lease object as its literal in the source builds it: no resource version yet.\<close>

definition new_lease :: "nsname \<Rightarrow> lease" where
  "new_lease k =
     \<lparr>l_key = k, l_rv = 0, l_labels = fmempty, l_annotations = None, HolderIdentity = None,
      LeaseDurationSeconds = None, AcquireTime = None, RenewTime = None\<rparr>"

text \<open>What the server stores of an object it is sent: time stamps have microseconds.\<close>

definition wire :: "lease \<Rightarrow> lease" where
  "wire l = l\<lparr>AcquireTime := map_option micro (AcquireTime l),
              RenewTime := map_option micro (RenewTime l)\<rparr>"

lemma wire_sel [simp, lease_simps]:
  "l_key (wire l) = l_key l" "l_rv (wire l) = l_rv l" "HolderIdentity (wire l) = HolderIdentity l"
  "LeaseDurationSeconds (wire l) = LeaseDurationSeconds l"
  "RenewTime (wire l) = map_option micro (RenewTime l)"
  "AcquireTime (wire l) = map_option micro (AcquireTime l)"
  "l_labels (wire l) = l_labels l" "l_annotations (wire l) = l_annotations l"
  by (simp_all add: wire_def)

text \<open>The instant a lease ends, when it says one.\<close>

definition expiry :: "lease \<Rightarrow> int option" where
  "expiry l =
     (case (RenewTime l, LeaseDurationSeconds l) of
        (Some r, Some d) \<Rightarrow> Some (r + d * second)
      | _ \<Rightarrow> None)"

subsection \<open>The client\<close>

record 's lease_client =
  api_get :: "'s \<Rightarrow> nsname \<Rightarrow> (api_error + lease) \<times> 's"
  api_create :: "'s \<Rightarrow> lease \<Rightarrow> api_error option \<times> 's"
  api_update :: "'s \<Rightarrow> lease \<Rightarrow> api_error option \<times> 's"
  api_list :: "'s \<Rightarrow> string \<Rightarrow> (string, string) fmap \<Rightarrow> (api_error + lease list) \<times> 's"

text \<open>
  \<open>st s k\<close> is the object the server stores under a key and \<open>vs s k\<close> every version it ever
  stored there. A write either leaves both alone or stores the object under a new version.
\<close>

definition api_same ::
  "('s \<Rightarrow> nsname \<Rightarrow> lease option) \<Rightarrow> ('s \<Rightarrow> nsname \<Rightarrow> lease set) \<Rightarrow> 's \<Rightarrow> 's \<Rightarrow> bool" where
  "api_same st vs s s' \<longleftrightarrow> st s' = st s \<and> vs s' = vs s"

definition api_commit ::
  "('s \<Rightarrow> nsname \<Rightarrow> lease option) \<Rightarrow> ('s \<Rightarrow> nsname \<Rightarrow> lease set) \<Rightarrow> 's \<Rightarrow> lease \<Rightarrow> 's \<Rightarrow> bool" where
  "api_commit st vs s l s' \<longleftrightarrow>
     (\<exists>v. st s' = (st s)(l_key l := Some ((wire l)\<lparr>l_rv := v\<rparr>)) \<and>
          vs s' = (vs s)(l_key l := insert ((wire l)\<lparr>l_rv := v\<rparr>) (vs s (l_key l))))"

locale lease_api =
  fixes C :: "'s lease_client"
    and st :: "'s \<Rightarrow> nsname \<Rightarrow> lease option"
    and vs :: "'s \<Rightarrow> nsname \<Rightarrow> lease set"
    and ok :: "'s \<Rightarrow> bool"
  assumes stored_version: "ok s \<Longrightarrow> st s k = Some l \<Longrightarrow> l \<in> vs s k"
    and rv_unique: "ok s \<Longrightarrow> l \<in> vs s k \<Longrightarrow> l' \<in> vs s k \<Longrightarrow> l_rv l = l_rv l' \<Longrightarrow> l = l'"
    and version_key: "ok s \<Longrightarrow> l \<in> vs s k \<Longrightarrow> l_key l = k"
    and get_law: "ok s \<Longrightarrow> api_get C s k = (g, s') \<Longrightarrow>
      ok s' \<and> api_same st vs s s' \<and> (\<forall>l. g = Inr l \<longrightarrow> l \<in> vs s k)"
    and create_law: "ok s \<Longrightarrow> api_create C s l = (r, s') \<Longrightarrow>
      ok s' \<and> (api_same st vs s s' \<and> r \<noteq> None \<or>
               st s (l_key l) = None \<and> api_commit st vs s l s')"
    and update_law: "ok s \<Longrightarrow> api_update C s l = (r, s') \<Longrightarrow>
      ok s' \<and> (api_same st vs s s' \<and> r \<noteq> None \<or>
               (\<exists>l0. st s (l_key l) = Some l0 \<and> l_rv l0 = l_rv l) \<and> api_commit st vs s l s')"
begin

text \<open>A successful update replaces exactly the version it was computed from.\<close>

lemma update_replaces_read:
  assumes "ok s" and "l \<in> vs s k" and "l_key l' = k" and "l_rv l' = l_rv l"
    and "api_update C s l' = (r, s')" and "\<not> api_same st vs s s' \<or> r = None"
  shows "st s k = Some l \<and> api_commit st vs s l' s'"
proof -
  from update_law[OF assms(1,5)] assms(6)
  obtain l0 where l0: "st s (l_key l') = Some l0" "l_rv l0 = l_rv l'" "api_commit st vs s l' s'"
    by auto
  from l0(1) assms(1,3) have "l0 \<in> vs s k" by (auto intro: stored_version)
  with l0(2) assms(1,2,4) have "l0 = l" by (intro rv_unique[of s l0 k l]) auto
  with l0 assms(3) show ?thesis by simp
qed

lemma commit_stored:
  "api_commit st vs s l s' \<Longrightarrow>
     \<exists>l'. st s' (l_key l) = Some l' \<and> HolderIdentity l' = HolderIdentity l \<and>
       LeaseDurationSeconds l' = LeaseDurationSeconds l \<and>
       RenewTime l' = map_option micro (RenewTime l) \<and>
       AcquireTime l' = map_option micro (AcquireTime l)"
  by (auto simp: api_commit_def)

lemma commit_other: "api_commit st vs s l s' \<Longrightarrow> k \<noteq> l_key l \<Longrightarrow> st s' k = st s k"
  by (auto simp: api_commit_def)

lemma commit_versions: "api_commit st vs s l s' \<Longrightarrow> vs s k \<subseteq> vs s' k"
  by (auto simp: api_commit_def)

lemma write_versions:
  "api_same st vs s s' \<or> api_commit st vs s l s' \<Longrightarrow> vs s k \<subseteq> vs s' k"
  by (auto simp: api_same_def dest: commit_versions[of s l s' k])

end

subsection \<open>An in-memory API server\<close>

record api_server =
  sv_rev :: nat
  sv_objs :: "(nsname, lease) fmap"
  sv_hist :: "lease list"
  sv_down :: bool

definition mem_store :: "api_server \<Rightarrow> lease \<Rightarrow> api_server" where
  "mem_store s l =
     (let l' = (wire l)\<lparr>l_rv := sv_rev s\<rparr>
      in s\<lparr>sv_rev := Suc (sv_rev s), sv_objs := fmupd (l_key l) l' (sv_objs s),
           sv_hist := l' # sv_hist s\<rparr>)"

definition mem_get :: "api_server \<Rightarrow> nsname \<Rightarrow> (api_error + lease) \<times> api_server" where
  "mem_get s k =
     (if sv_down s then (Inl (OtherApi ''unavailable''), s)
      else (case fmlookup (sv_objs s) k of None \<Rightarrow> (Inl NotFound, s) | Some l \<Rightarrow> (Inr l, s)))"

definition mem_create :: "api_server \<Rightarrow> lease \<Rightarrow> api_error option \<times> api_server" where
  "mem_create s l =
     (if sv_down s then (Some (OtherApi ''unavailable''), s)
      else (case fmlookup (sv_objs s) (l_key l) of
              None \<Rightarrow> (None, mem_store s l)
            | Some _ \<Rightarrow> (Some AlreadyExists, s)))"

definition mem_update :: "api_server \<Rightarrow> lease \<Rightarrow> api_error option \<times> api_server" where
  "mem_update s l =
     (if sv_down s then (Some (OtherApi ''unavailable''), s)
      else (case fmlookup (sv_objs s) (l_key l) of
              None \<Rightarrow> (Some NotFound, s)
            | Some l0 \<Rightarrow> if l_rv l0 = l_rv l then (None, mem_store s l) else (Some Conflict, s)))"

definition mem_list ::
  "api_server \<Rightarrow> string \<Rightarrow> (string, string) fmap \<Rightarrow> (api_error + lease list) \<times> api_server" where
  "mem_list s ns sel =
     (if sv_down s then (Inl (OtherApi ''unavailable''), s)
      else (Inr (filter (\<lambda>l. nn_namespace (l_key l) = ns \<and> sel \<subseteq>\<^sub>f l_labels l)
                   (map (\<lambda>k. the (fmlookup (sv_objs s) k)) (sorted_keys (sv_objs s)))), s))"

definition mem_client :: "api_server lease_client" where
  "mem_client = \<lparr>api_get = mem_get, api_create = mem_create, api_update = mem_update,
                 api_list = mem_list\<rparr>"

definition mem_server :: api_server where
  "mem_server = \<lparr>sv_rev = 1, sv_objs = fmempty, sv_hist = [], sv_down = False\<rparr>"

definition mem_stored :: "api_server \<Rightarrow> nsname \<Rightarrow> lease option" where
  "mem_stored s k = fmlookup (sv_objs s) k"

definition mem_versions :: "api_server \<Rightarrow> nsname \<Rightarrow> lease set" where
  "mem_versions s k = {l \<in> set (sv_hist s). l_key l = k}"

definition mem_ok :: "api_server \<Rightarrow> bool" where
  "mem_ok s \<longleftrightarrow>
     (\<forall>l \<in> set (sv_hist s). l_rv l < sv_rev s) \<and> inj_on l_rv (set (sv_hist s)) \<and>
     (\<forall>k l. fmlookup (sv_objs s) k = Some l \<longrightarrow> l \<in> set (sv_hist s) \<and> l_key l = k)"

lemma mem_server_ok: "mem_ok mem_server"
  by (simp add: mem_ok_def mem_server_def)

lemma mem_store_ok: "mem_ok s \<Longrightarrow> mem_ok (mem_store s l)"
  by (auto simp: mem_ok_def mem_store_def Let_def inj_on_def less_Suc_eq)

lemma mem_store_commit: "api_commit mem_stored mem_versions s l (mem_store s l)"
  by (rule exI[of _ "sv_rev s", THEN api_commit_def[THEN iffD2]])
     (auto simp: mem_stored_def mem_versions_def mem_store_def Let_def fun_eq_iff)

lemma api_same_refl [simp]: "api_same st vs s s"
  by (simp add: api_same_def)

interpretation mem: lease_api mem_client mem_stored mem_versions mem_ok
proof unfold_locales
  fix s k and l l' :: lease
  assume ok: "mem_ok s"
  show "mem_stored s k = Some l \<Longrightarrow> l \<in> mem_versions s k"
    using ok by (auto simp: mem_ok_def mem_stored_def mem_versions_def)
  show "l \<in> mem_versions s k \<Longrightarrow> l' \<in> mem_versions s k \<Longrightarrow> l_rv l = l_rv l' \<Longrightarrow> l = l'"
    using ok by (auto simp: mem_ok_def mem_versions_def dest: inj_onD)
  show "l \<in> mem_versions s k \<Longrightarrow> l_key l = k"
    by (simp add: mem_versions_def)
next
  fix s k and r :: "api_error + lease" and s'
  assume "mem_ok s" "api_get mem_client s k = (r, s')"
  then show "mem_ok s' \<and> api_same mem_stored mem_versions s s' \<and>
      (\<forall>l. r = Inr l \<longrightarrow> l \<in> mem_versions s k)"
    by (auto simp: mem_client_def mem_get_def mem_ok_def mem_versions_def
        split: if_splits option.splits)
next
  fix s and l :: lease and r s'
  assume "mem_ok s" "api_create mem_client s l = (r, s')"
  then show "mem_ok s' \<and> (api_same mem_stored mem_versions s s' \<and> r \<noteq> None \<or>
      mem_stored s (l_key l) = None \<and> api_commit mem_stored mem_versions s l s')"
    by (auto simp: mem_client_def mem_create_def mem_store_ok mem_store_commit mem_stored_def
        split: if_splits option.splits)
next
  fix s and l :: lease and r s'
  assume "mem_ok s" "api_update mem_client s l = (r, s')"
  then show "mem_ok s' \<and> (api_same mem_stored mem_versions s s' \<and> r \<noteq> None \<or>
      (\<exists>l0. mem_stored s (l_key l) = Some l0 \<and> l_rv l0 = l_rv l) \<and>
      api_commit mem_stored mem_versions s l s')"
    by (auto simp: mem_client_def mem_update_def mem_store_ok mem_store_commit mem_stored_def
        split: if_splits option.splits)
qed

end
