(* ===== verification/Peers.thy ===== *)
theory Peers
  imports Sharder Sanitize KubeApi
begin

text \<open>
  \<open>pkg/manager/coordinator/sharded/peers/registry.go\<close>: every process publishes a Lease of its
  own and lists the Leases of its peers. The weight travels as a decimal annotation, so the
  theory also has the two \<open>strconv\<close> functions. The operations take the client and the instants
  that \<open>time.Now()\<close> returns.
\<close>

subsection \<open>Unsigned decimals\<close>

definition digit_char :: "nat \<Rightarrow> char" where
  "digit_char d = char_of (48 + d)"

text \<open>\<open>strconv.FormatUint(n, 10)\<close>.\<close>

fun format_uint :: "nat \<Rightarrow> string" where
  "format_uint n =
     (if n < 10 then [digit_char n] else format_uint (n div 10) @ [digit_char (n mod 10)])"

declare format_uint.simps [simp del]

text \<open>\<open>strconv.ParseUint(s, 10, 32)\<close>, \<open>None\<close> when it returns an error.\<close>

definition char_digit :: "char \<Rightarrow> nat option" where
  "char_digit c =
     (let n = of_char c in if 48 \<le> n \<and> n \<le> 57 then Some (n - 48) else None)"

fun parse_digits :: "nat \<Rightarrow> string \<Rightarrow> nat option" where
  "parse_digits acc [] = Some acc"
| "parse_digits acc (c # cs) =
     (case char_digit c of None \<Rightarrow> None | Some d \<Rightarrow> parse_digits (acc * 10 + d) cs)"

definition parse_uint32 :: "string \<Rightarrow> nat option" where
  "parse_uint32 s =
     (if s = '''' then None
      else (case parse_digits 0 s of
              None \<Rightarrow> None
            | Some n \<Rightarrow> if n < 2 ^ 32 then Some n else None))"

lemma char_digit_digit_char [simp]: "d < 10 \<Longrightarrow> char_digit (digit_char d) = Some d"
  by (simp add: char_digit_def digit_char_def of_char_char_of_small)

lemma format_uint_nonempty [simp]: "format_uint n \<noteq> ''''"
  by (subst format_uint.simps) simp

lemma parse_digits_append:
  "parse_digits a (xs @ ys) =
     (case parse_digits a xs of None \<Rightarrow> None | Some b \<Rightarrow> parse_digits b ys)"
  by (induction a xs rule: parse_digits.induct) (auto split: option.splits)

lemma parse_digits_format: "parse_digits 0 (format_uint n) = Some n"
proof (induction n rule: format_uint.induct)
  case (1 n)
  show ?case
  proof (cases "n < 10")
    case True
    then show ?thesis by (subst format_uint.simps) simp
  next
    case False
    with "1.IH" show ?thesis
      by (subst format_uint.simps) (simp add: parse_digits_append)
  qed
qed

lemma parse_format_uint32: "n < 2 ^ 32 \<Longrightarrow> parse_uint32 (format_uint n) = Some n"
  by (simp add: parse_uint32_def parse_digits_format)

subsection \<open>The registry\<close>

definition labelPartOf :: string where "labelPartOf = ''app.kubernetes.io/part-of''"
definition labelPeer :: string where "labelPeer = ''mcr.sigs.k8s.io/peer''"
definition labelPrefix :: string where "labelPrefix = ''mcr.sigs.k8s.io/prefix''"
definition annotWeight :: string where "annotWeight = ''mcr.sigs.k8s.io/weight''"
definition partOfValue :: string where "partOfValue = ''multicluster-runtime''"
definition defaultWeight :: "32 word" where "defaultWeight = 1"

record lease_registry =
  r_ns :: string
  r_namePrefix :: string
  r_self :: PeerInfo
  r_peers :: "(string, PeerInfo) fmap"
  r_ttl :: int
  r_renew :: int
  r_releaseOnCancel :: bool

type_synonym registry_option = "lease_registry \<Rightarrow> lease_registry"

definition WithReleaseOnCancel :: "bool \<Rightarrow> registry_option" where
  "WithReleaseOnCancel on r = r\<lparr>r_releaseOnCancel := on\<rparr>"

text \<open>\<open>hostname\<close> is what \<open>os.Hostname()\<close> returns, empty when it fails.\<close>

definition NewLeaseRegistryWithOptions ::
  "string \<Rightarrow> string \<Rightarrow> string \<Rightarrow> string \<Rightarrow> 32 word \<Rightarrow> registry_option list \<Rightarrow> lease_registry" where
  "NewLeaseRegistryWithOptions hostname ns namePrefix selfID weight opts =
     (let id1 = (if selfID = '''' then (if hostname \<noteq> '''' then hostname else ''unknown'')
                 else selfID);
          id2 = DNS1123 id1;
          w = (if weight = 0 then defaultWeight else weight);
          r = \<lparr>r_ns = ns, r_namePrefix = namePrefix, r_self = \<lparr>ID = id2, Weight = w\<rparr>,
               r_peers = fmempty, r_ttl = 30 * second, r_renew = 10 * second,
               r_releaseOnCancel = False\<rparr>
      in fold (\<lambda>opt r. opt r) opts r)"

definition NewLeaseRegistry ::
  "string \<Rightarrow> string \<Rightarrow> string \<Rightarrow> string \<Rightarrow> 32 word \<Rightarrow> lease_registry" where
  "NewLeaseRegistry hostname ns namePrefix selfID weight =
     NewLeaseRegistryWithOptions hostname ns namePrefix selfID weight []"

definition Self :: "lease_registry \<Rightarrow> PeerInfo" where
  "Self r = r_self r"

definition Snapshot :: "string list \<Rightarrow> lease_registry \<Rightarrow> PeerInfo list" where
  "Snapshot ord r = map (\<lambda>k. the (fmlookup (r_peers r) k)) ord"

definition self_key :: "lease_registry \<Rightarrow> nsname" where
  "self_key r = NsName (r_ns r) (r_namePrefix r @ ''-'' @ ID (r_self r))"

definition weight_string :: "lease_registry \<Rightarrow> string" where
  "weight_string r = format_uint (unat (Weight (r_self r)))"

subsection \<open>Publishing and releasing\<close>

definition self_lease_new :: "lease_registry \<Rightarrow> int \<Rightarrow> lease" where
  "self_lease_new r now =
     (new_lease (self_key r))\<lparr>
        l_labels := fmupd labelPrefix (r_namePrefix r)
                      (fmupd labelPeer ''true'' (fmupd labelPartOf partOfValue fmempty)),
        l_annotations := Some (fmupd annotWeight (weight_string r) fmempty),
        HolderIdentity := Some (ID (r_self r)),
        RenewTime := Some now,
        LeaseDurationSeconds := Some (to_seconds32 (r_ttl r))\<rparr>"

definition self_lease_update :: "lease_registry \<Rightarrow> int \<Rightarrow> lease \<Rightarrow> lease" where
  "self_lease_update r now l =
     (let ann = (case l_annotations l of None \<Rightarrow> fmempty | Some a \<Rightarrow> a)
      in l\<lparr>HolderIdentity := Some (ID (r_self r)), RenewTime := Some now,
           LeaseDurationSeconds := Some (to_seconds32 (r_ttl r)),
           l_annotations := Some (fmupd annotWeight (weight_string r) ann)\<rparr>)"

definition renewSelfLease ::
  "'s lease_client \<Rightarrow> lease_registry \<Rightarrow> int \<Rightarrow> 's \<Rightarrow> api_error option \<times> 's" where
  "renewSelfLease C r now s =
     (let (g, s1) = api_get C s (self_key r)
      in case g of
           Inl NotFound \<Rightarrow> api_create C s1 (self_lease_new r now)
         | Inl e \<Rightarrow> (Some e, s1)
         | Inr l \<Rightarrow> api_update C s1 (self_lease_update r now l))"

definition registry_release :: "'s lease_client \<Rightarrow> lease_registry \<Rightarrow> 's \<Rightarrow> 's" where
  "registry_release C r s =
     (let (g, s1) = api_get C s (self_key r)
      in case g of
           Inl _ \<Rightarrow> s1
         | Inr l \<Rightarrow>
             if HolderIdentity l \<noteq> Some (ID (r_self r)) then s1
             else snd (api_update C s1 (l\<lparr>HolderIdentity := Some ''''\<rparr>)))"

subsection \<open>Refreshing\<close>

text \<open>One iteration of the loop over the listed Leases: the entry it adds, if any.\<close>

definition lease_weight :: "lease \<Rightarrow> 32 word" where
  "lease_weight l =
     (let wStr = (case l_annotations l of
                    None \<Rightarrow> ''''
                  | Some a \<Rightarrow> (case fmlookup a annotWeight of None \<Rightarrow> '''' | Some w \<Rightarrow> w))
      in if wStr \<noteq> ''''
         then (case parse_uint32 wStr of
                 Some w64 \<Rightarrow> if w64 > 0 then of_nat w64 else defaultWeight
               | None \<Rightarrow> defaultWeight)
         else defaultWeight)"

definition lease_peer :: "int \<Rightarrow> lease \<Rightarrow> PeerInfo option" where
  "lease_peer now l =
     (case HolderIdentity l of
        None \<Rightarrow> None
      | Some h \<Rightarrow>
          if h = '''' then None
          else (case (RenewTime l, LeaseDurationSeconds l) of
                  (Some r, Some d) \<Rightarrow>
                    if now > r + d * second then None
                    else Some \<lparr>ID = h, Weight = lease_weight l\<rparr>
                | _ \<Rightarrow> None))"

fun collect_peers ::
  "int \<Rightarrow> lease list \<Rightarrow> (string, PeerInfo) fmap \<Rightarrow> (string, PeerInfo) fmap" where
  "collect_peers now [] m = m"
| "collect_peers now (l # ls) m =
     (case lease_peer now l of
        None \<Rightarrow> collect_peers now ls m
      | Some p \<Rightarrow> collect_peers now ls (fmupd (ID p) p m))"

definition peer_selector :: "lease_registry \<Rightarrow> (string, string) fmap" where
  "peer_selector r = fmupd labelPrefix (r_namePrefix r) (fmupd labelPeer ''true'' fmempty)"

definition refreshPeers ::
  "'s lease_client \<Rightarrow> lease_registry \<Rightarrow> int \<Rightarrow> 's \<Rightarrow> api_error option \<times> lease_registry \<times> 's" where
  "refreshPeers C r now s =
     (let (g, s1) = api_list C s (r_ns r) (peer_selector r)
      in case g of
           Inl e \<Rightarrow> (Some e, r, s1)
         | Inr ls \<Rightarrow>
             (let next = collect_peers now ls fmempty;
                  next' = fmupd (ID (r_self r))
                            \<lparr>ID = ID (r_self r), Weight = Weight (r_self r)\<rparr> next
              in (None, r\<lparr>r_peers := next'\<rparr>, s1)))"

subsection \<open>Run\<close>

text \<open>
  A round renews, refreshes and then waits: \<open>fin\<close> says that the wait ended because the context
  is done. Errors are logged and retried. \<open>registry_run\<close> runs over the rounds that happen;
  it returns the context's error once a round ended the loop, and nothing while it still runs.
\<close>

definition registry_pass ::
  "'s lease_client \<Rightarrow> lease_registry \<Rightarrow> int \<Rightarrow> int \<Rightarrow> 's \<Rightarrow> lease_registry \<times> 's" where
  "registry_pass C r now1 now2 s =
     (let (_, s1) = renewSelfLease C r now1 s; (_, r2, s2) = refreshPeers C r now2 s1
      in (r2, s2))"

fun registry_run ::
  "'s lease_client \<Rightarrow> lease_registry \<Rightarrow> (int \<times> int \<times> bool) list \<Rightarrow> 's \<Rightarrow>
   go_error option \<times> lease_registry \<times> 's" where
  "registry_run C r [] s = (None, r, s)"
| "registry_run C r ((now1, now2, fin) # rounds) s =
     (let (r', s') = registry_pass C r now1 now2 s
      in if fin
         then (Some ErrCtx, r', if r_releaseOnCancel r' then registry_release C r' s' else s')
         else registry_run C r' rounds s')"

subsection \<open>The snapshot\<close>

lemma of_nat_weight_nonzero: "0 < n \<Longrightarrow> n < 2 ^ 32 \<Longrightarrow> (of_nat n :: 32 word) \<noteq> 0"
proof
  assume n: "0 < n" "n < 2 ^ 32" and "(of_nat n :: 32 word) = 0"
  then have "unat (of_nat n :: 32 word) = 0" by simp
  with n show False by (simp add: unsigned_of_nat take_bit_nat_eq_self)
qed

lemma lease_weight_nonzero: "lease_weight l \<noteq> 0"
proof -
  have "defaultWeight \<noteq> 0" by (simp add: defaultWeight_def)
  then show ?thesis
    by (auto simp: lease_weight_def parse_uint32_def Let_def of_nat_weight_nonzero
        split: option.splits if_splits)
qed

text \<open>A lease counts for a peer exactly while it names a holder and has not run out.\<close>

lemma lease_peer_Some_iff:
  "lease_peer now l = Some p \<longleftrightarrow>
     (\<exists>h e. HolderIdentity l = Some h \<and> h \<noteq> '''' \<and> expiry l = Some e \<and> now \<le> e \<and>
        p = \<lparr>ID = h, Weight = lease_weight l\<rparr>)"
  by (auto simp: lease_peer_def expiry_def split: option.splits)

definition listed_peers :: "int \<Rightarrow> lease list \<Rightarrow> PeerInfo set" where
  "listed_peers now ls = {p. \<exists>l \<in> set ls. lease_peer now l = Some p}"

lemma collect_peers_dom:
  "fmdom' (collect_peers now ls m) = fmdom' m \<union> ID ` listed_peers now ls"
  by (induction ls arbitrary: m) (auto simp: listed_peers_def split: option.splits)

lemma collect_peers_from:
  "fmlookup (collect_peers now ls m) k = Some p \<Longrightarrow>
     fmlookup m k = Some p \<or> p \<in> listed_peers now ls \<and> ID p = k"
proof (induction ls arbitrary: m)
  case (Cons l ls)
  show ?case
  proof (cases "lease_peer now l")
    case None
    with Cons show ?thesis by (auto simp: listed_peers_def)
  next
    case (Some q)
    with Cons.prems have "fmlookup (fmupd (ID q) q m) k = Some p \<or>
        p \<in> listed_peers now ls \<and> ID p = k" by (intro Cons.IH) simp
    with Some show ?thesis by (auto simp: listed_peers_def split: if_splits)
  qed
qed simp

definition registry_inv :: "lease_registry \<Rightarrow> bool" where
  "registry_inv r \<longleftrightarrow>
     Weight (r_self r) \<noteq> 0 \<and>
     (\<forall>k p. fmlookup (r_peers r) k = Some p \<longrightarrow> ID p = k \<and> Weight p \<noteq> 0) \<and>
     (r_peers r = fmempty \<or> fmlookup (r_peers r) (ID (r_self r)) = Some (r_self r))"

lemma refreshPeers_error:
  "refreshPeers C r now s = (Some e, r', s') \<Longrightarrow> r' = r"
  by (auto simp: refreshPeers_def Let_def split: prod.splits sum.splits)

lemma refreshPeers_ok:
  assumes "refreshPeers C r now s = (None, r', s')"
  obtains ls where "api_list C s (r_ns r) (peer_selector r) = (Inr ls, s')"
    and "r' = r\<lparr>r_peers := fmupd (ID (r_self r)) (r_self r) (collect_peers now ls fmempty)\<rparr>"
proof -
  have self: "\<lparr>ID = ID (r_self r), Weight = Weight (r_self r)\<rparr> = r_self r" by simp
  show thesis
    using assms that
    unfolding refreshPeers_def self by (auto simp: Let_def split: prod.splits sum.splits)
qed

lemma refreshPeers_inv:
  assumes "registry_inv r" and "refreshPeers C r now s = (e, r', s')"
  shows "registry_inv r'"
proof (cases e)
  case (Some x)
  with assms(2) have "r' = r" by (auto dest: refreshPeers_error)
  with assms(1) show ?thesis by simp
next
  case None
  with assms(2) obtain ls
    where r': "r' = r\<lparr>r_peers := fmupd (ID (r_self r)) (r_self r) (collect_peers now ls fmempty)\<rparr>"
    by (auto elim: refreshPeers_ok)
  have "ID p = k \<and> Weight p \<noteq> 0" if "fmlookup (collect_peers now ls fmempty) k = Some p" for k p
    using collect_peers_from[OF that]
    by (auto simp: listed_peers_def lease_peer_Some_iff lease_weight_nonzero)
  with assms(1) show ?thesis
    by (auto simp: registry_inv_def r')
qed

lemma refreshPeers_frame:
  "refreshPeers C r now s = (e, r', s') \<Longrightarrow>
     r_self r' = r_self r \<and> r_ns r' = r_ns r \<and> r_namePrefix r' = r_namePrefix r \<and>
     r_releaseOnCancel r' = r_releaseOnCancel r"
  by (auto simp: refreshPeers_def Let_def split: prod.splits sum.splits)

lemma registry_run_inv:
  "registry_inv r \<Longrightarrow> registry_run C r rounds s = (e, r', s') \<Longrightarrow>
     registry_inv r' \<and> r_self r' = r_self r"
proof (induction C r rounds s rule: registry_run.induct)
  case (2 C r now1 now2 fin rounds s)
  obtain e1 s1 where a: "renewSelfLease C r now1 s = (e1, s1)" by fastforce
  obtain e2 r2 s2 where b: "refreshPeers C r now2 s1 = (e2, r2, s2)" by (metis prod_cases3)
  have pass: "registry_pass C r now1 now2 s = (r2, s2)"
    by (simp add: registry_pass_def a b)
  have inv: "registry_inv r2" "r_self r2 = r_self r"
    using refreshPeers_inv[OF "2.prems"(1) b] refreshPeers_frame[OF b] by auto
  show ?case
  proof (cases fin)
    case True
    with "2.prems"(2) pass inv show ?thesis by simp
  next
    case False
    with "2.prems"(2) pass have "registry_run C r2 rounds s2 = (e, r', s')" by simp
    with "2.IH"[OF pass[symmetric] refl False inv(1)] inv(2) show ?thesis by simp
  qed
qed simp

text \<open>Constructing a registry: options only change the flag here, so every option list keeps it.\<close>

lemma NewLeaseRegistry_inv: "registry_inv (NewLeaseRegistry hostname ns prefix selfID weight)"
  by (simp add: NewLeaseRegistry_def NewLeaseRegistryWithOptions_def registry_inv_def
      defaultWeight_def Let_def)

lemma set_Snapshot:
  "iter_order (r_peers r) ord \<Longrightarrow>
     set (Snapshot ord r) = {p. \<exists>k. fmlookup (r_peers r) k = Some p}"
  by (auto simp: Snapshot_def iter_order_def fmlookup_dom_iff) (force simp: fmlookup_dom_iff)

lemma Snapshot_distinct:
  assumes "registry_inv r" and "iter_order (r_peers r) ord"
  shows "distinct (map ID (Snapshot ord r))"
proof -
  have "map ID (Snapshot ord r) = ord"
    unfolding Snapshot_def
    using assms by (intro nth_equalityI)
      (auto simp: iter_order_def registry_inv_def fmlookup_dom_iff dest!: nth_mem)
  with assms(2) show ?thesis by (simp add: iter_order_def)
qed

lemma Snapshot_self:
  assumes "registry_inv r" and "r_peers r \<noteq> fmempty" and "iter_order (r_peers r) ord"
  shows "r_self r \<in> set (Snapshot ord r)"
  using assms by (auto simp: set_Snapshot registry_inv_def)

subsection \<open>Membership for sharding\<close>

text \<open>
  What the coordinator expects of a \<open>peers.Registry\<close> together with a \<open>Sharder\<close>: a snapshot
  that lists no peer twice and has the process itself. The lease registry provides it after
  its first refresh, whatever order the snapshot's map is ranged over.
\<close>

locale membership = sharder should_own
  for should_own :: "string \<Rightarrow> PeerInfo list \<Rightarrow> PeerInfo \<Rightarrow> bool" +
  fixes self_of :: "'r \<Rightarrow> PeerInfo"
    and snapshot :: "'r \<Rightarrow> PeerInfo list"
    and good :: "'r \<Rightarrow> bool"
  assumes distinct_ids: "good r \<Longrightarrow> distinct (map ID (snapshot r))"
    and self_listed: "good r \<Longrightarrow> \<exists>p \<in> set (snapshot r). ID p = ID (self_of r)"
begin

lemma snapshot_nonempty: "good r \<Longrightarrow> snapshot r \<noteq> []"
  using self_listed by fastforce

lemma owner_listed:
  "good r \<Longrightarrow> \<exists>!p. p \<in> set (snapshot r) \<and> should_own c (snapshot r) p"
  using snapshot_nonempty distinct_ids by (intro one_owner)

lemma owners_agree:
  assumes "good a" and "snapshot a = snapshot b"
    and "should_own c (snapshot a) (self_of a)" and "should_own c (snapshot b) (self_of b)"
  shows "ID (self_of a) = ID (self_of b)"
proof (rule owner_id[OF snapshot_nonempty[OF assms(1)] assms(3)])
  show "should_own c (snapshot a) (self_of b)" using assms(4) unfolding assms(2) .
qed

end

definition ranged_self :: "lease_registry \<times> string list \<Rightarrow> PeerInfo" where
  "ranged_self x = Self (fst x)"

definition ranged_snapshot :: "lease_registry \<times> string list \<Rightarrow> PeerInfo list" where
  "ranged_snapshot x = Snapshot (snd x) (fst x)"

definition ranged_good :: "lease_registry \<times> string list \<Rightarrow> bool" where
  "ranged_good x \<longleftrightarrow>
     registry_inv (fst x) \<and> r_peers (fst x) \<noteq> fmempty \<and> iter_order (r_peers (fst x)) (snd x)"

interpretation leasePeers: membership ShouldOwn ranged_self ranged_snapshot ranged_good
proof unfold_locales
  fix x assume "ranged_good x"
  then show "distinct (map ID (ranged_snapshot x))"
    by (simp add: ranged_good_def ranged_snapshot_def Snapshot_distinct)
next
  fix x assume "ranged_good x"
  then have "r_self (fst x) \<in> set (ranged_snapshot x)"
    by (simp add: ranged_good_def ranged_snapshot_def Snapshot_self)
  then show "\<exists>p \<in> set (ranged_snapshot x). ID p = ID (ranged_self x)"
    by (rule bexI[rotated]) (simp add: ranged_self_def Self_def)
qed

text \<open>Registries that agree on the members agree on the owner, unless two scores collide.\<close>

lemma same_members_same_best:
  assumes "iter_order (r_peers a) oa" and "iter_order (r_peers b) ob" and "r_peers a = r_peers b"
    and "r_peers a \<noteq> fmempty" and "inj_on (hrw_score c) (set (Snapshot oa a))"
  shows "hrw_best c (Snapshot oa a) = hrw_best c (Snapshot ob b)"
proof -
  have eq: "set (Snapshot oa a) = set (Snapshot ob b)"
    using assms(1-3) by (simp add: set_Snapshot)
  obtain k v where "fmlookup (r_peers a) k = Some v"
    using assms(4) by (metis fmap_ext fmempty_lookup not_None_eq)
  then have "v \<in> set (Snapshot oa a)" using assms(1) by (auto simp: set_Snapshot)
  then have "Snapshot oa a \<noteq> []" by auto
  then obtain p where p: "p \<in> set (Snapshot oa a)" "hrw_best c (Snapshot oa a) = hrw_norm p"
    "\<forall>q \<in> set (Snapshot oa a). hrw_score c q \<le> hrw_score c p"
    by (rule hrw_best_max[of _ c])
  then have "hrw_best c (Snapshot ob b) = hrw_norm p"
    using assms(5) eq by (intro hrw_best_unique) auto
  with p(2) show ?thesis by simp
qed

subsection \<open>Publishing reaches the other peers\<close>

lemma weight_string_round_trip:
  assumes "Weight (r_self r) \<noteq> 0" and "l_annotations l = Some a"
    and "fmlookup a annotWeight = Some (weight_string r)"
  shows "lease_weight l = Weight (r_self r)"
proof -
  have lt: "unat (Weight (r_self r)) < 2 ^ 32"
    using unsigned_less[of "Weight (r_self r)"] by simp
  have "0 < unat (Weight (r_self r))" using assms(1) by (simp add: unat_gt_0)
  then show ?thesis
    by (simp add: lease_weight_def assms(2,3) weight_string_def parse_format_uint32[OF lt])
qed

definition publishes :: "lease_registry \<Rightarrow> int \<Rightarrow> lease \<Rightarrow> bool" where
  "publishes r now l \<longleftrightarrow>
     l_key l = self_key r \<and> HolderIdentity l = Some (ID (r_self r)) \<and> RenewTime l = Some now \<and>
     LeaseDurationSeconds l = Some (to_seconds32 (r_ttl r)) \<and>
     (\<exists>a. l_annotations l = Some a \<and> fmlookup a annotWeight = Some (weight_string r))"

lemma publishes_new: "publishes r now (self_lease_new r now)"
  by (simp add: publishes_def self_lease_new_def new_lease_def)

lemma publishes_update: "l_key l = self_key r \<Longrightarrow> publishes r now (self_lease_update r now l)"
  by (simp add: publishes_def self_lease_update_def Let_def)

lemma publishes_seen:
  assumes "publishes r now l" and "ID (r_self r) \<noteq> ''''" and "Weight (r_self r) \<noteq> 0"
    and "t \<le> micro now + to_seconds32 (r_ttl r) * second"
  shows "lease_peer t ((wire l)\<lparr>l_rv := v\<rparr>) = Some (r_self r)"
proof -
  from assms(1) obtain a where a: "l_annotations l = Some a"
    "fmlookup a annotWeight = Some (weight_string r)" by (auto simp: publishes_def)
  have "lease_weight ((wire l)\<lparr>l_rv := v\<rparr>) = Weight (r_self r)"
    by (rule weight_string_round_trip) (use a assms(3) in simp_all)
  with assms(1,2,4) show ?thesis
    by (simp add: lease_peer_Some_iff publishes_def expiry_def)
qed

context lease_api
begin

lemma renewSelfLease_stores:
  assumes "ok s" and "renewSelfLease C r now s = (None, s')"
  shows "ok s' \<and> (\<exists>l v. publishes r now l \<and> st s' (self_key r) = Some ((wire l)\<lparr>l_rv := v\<rparr>))"
proof -
  obtain q s1 where get: "api_get C s (self_key r) = (q, s1)" by fastforce
  from get_law[OF assms(1) get] have s1: "ok s1" "\<forall>l. q = Inr l \<longrightarrow> l \<in> vs s (self_key r)" by auto
  show ?thesis
  proof (cases q)
    case (Inl e)
    with assms(2) get have c: "api_create C s1 (self_lease_new r now) = (None, s')"
      by (auto simp: renewSelfLease_def split: api_error.splits)
    from create_law[OF s1(1) c] publishes_new[of r now] show ?thesis
      by (fastforce simp: api_commit_def publishes_def)
  next
    case (Inr l)
    with assms(2) get have u: "api_update C s1 (self_lease_update r now l) = (None, s')"
      by (auto simp: renewSelfLease_def)
    have "l_key l = self_key r" using version_key[OF assms(1)] s1(2) Inr by auto
    then have "publishes r now (self_lease_update r now l)" by (rule publishes_update)
    with update_law[OF s1(1) u] show ?thesis
      by (fastforce simp: api_commit_def publishes_def)
  qed
qed

lemma registry_release_drops:
  assumes "ok s" and "registry_release C r s = s'"
  shows "ok s' \<and> (api_same st vs s s' \<or>
     (\<exists>l. st s' (self_key r) = Some l \<and> (\<forall>t. lease_peer t l = None)))"
proof -
  obtain q s1 where get: "api_get C s (self_key r) = (q, s1)" by fastforce
  from get_law[OF assms(1) get] have s1: "ok s1" "api_same st vs s s1"
    "\<forall>l. q = Inr l \<longrightarrow> l \<in> vs s (self_key r)" by auto
  consider "s' = s1" | l c where "q = Inr l"
      "api_update C s1 (l\<lparr>HolderIdentity := Some ''''\<rparr>) = (c, s')"
    using assms(2) get
    by (auto simp: registry_release_def split: sum.splits if_splits) (metis prod.collapse)
  then show ?thesis
  proof cases
    case 1
    with s1 show ?thesis by simp
  next
    case 2
    have "l_key l = self_key r" using version_key[OF assms(1)] s1(3) 2(1) by auto
    with update_law[OF s1(1) 2(2)] s1(2) show ?thesis
      by (auto simp: api_commit_def api_same_def lease_peer_def)
  qed
qed

end

subsection \<open>Properties\<close>

definition demo_registry :: lease_registry where
  "demo_registry = NewLeaseRegistry ''host'' ''ns'' ''mcr-peer'' ''p1'' 3"

lemma demo_registry_eq:
  "demo_registry = \<lparr>r_ns = ''ns'', r_namePrefix = ''mcr-peer'', r_self = \<lparr>ID = ''p1'', Weight = 3\<rparr>,
     r_peers = fmempty, r_ttl = 30 * second, r_renew = 10 * second, r_releaseOnCancel = False\<rparr>"
proof -
  have "DNS1123 ''p1'' = ''p1''" by code_simp
  then show ?thesis
    by (simp add: demo_registry_def NewLeaseRegistry_def NewLeaseRegistryWithOptions_def)
qed

lemma demo_registry_sel:
  "r_ns demo_registry = ''ns''" "r_self demo_registry = \<lparr>ID = ''p1'', Weight = 3\<rparr>"
  "r_ttl demo_registry = 30 * second" "registry_inv demo_registry"
  by (simp_all add: demo_registry_eq registry_inv_def)

definition demo_published :: api_server where
  "demo_published = mem_store mem_server (self_lease_new demo_registry 5)"

lemma demo_publish: "renewSelfLease mem_client demo_registry 5 mem_server = (None, demo_published)"
  by (simp add: renewSelfLease_def mem_client_def mem_get_def mem_create_def mem_server_def
      self_lease_new_def new_lease_def demo_published_def)

lemma demo_list:
  "api_list mem_client demo_published ''ns'' (peer_selector demo_registry) =
     (Inr [(wire (self_lease_new demo_registry 5))\<lparr>l_rv := 1\<rparr>], demo_published)"
  by (simp add: demo_published_def mem_client_def mem_list_def mem_store_def mem_server_def
      sorted_keys_def Let_def sorted_list_of_fset.rep_eq self_lease_new_def new_lease_def
      self_key_def peer_selector_def demo_registry_eq fmsubset_alt_def fmpred_iff
      labelPrefix_def labelPeer_def labelPartOf_def)

lemma demo_listed:
  "lease_peer 6 ((wire (self_lease_new demo_registry 5))\<lparr>l_rv := 1\<rparr>) = Some \<lparr>ID = ''p1'', Weight = 3\<rparr>"
  using publishes_seen[OF publishes_new, of demo_registry 6 5 1]
  by (simp add: demo_registry_sel to_seconds32_def int32_of_def second_def micro_def)

lemma demo_refresh:
  "refreshPeers mem_client demo_registry 6 demo_published =
     (None, demo_registry\<lparr>r_peers := fmupd ''p1'' \<lparr>ID = ''p1'', Weight = 3\<rparr> fmempty\<rparr>, demo_published)"
  by (simp add: refreshPeers_def demo_registry_sel demo_list demo_listed[unfolded One_nat_def] Let_def)

lemma demo_run:
  "registry_run mem_client demo_registry [(5, 6, False)] mem_server =
     (None, demo_registry\<lparr>r_peers := fmupd ''p1'' \<lparr>ID = ''p1'', Weight = 3\<rparr> fmempty\<rparr>, demo_published)"
  by (simp add: registry_pass_def demo_publish demo_refresh)



text \<open>
  A refresh reports exactly the live peers. After a successful refresh the identities in
  the snapshot are this process's and the holders of the listed Leases that name a holder and
  have not expired; released and expired peers are gone. A failed refresh keeps the snapshot.
\<close>

theorem refresh_lists_live_peers:
  assumes "refreshPeers C r now s = (e, r', s')" and "iter_order (r_peers r') ord"
  shows "case e of
      Some _ \<Rightarrow> r' = r
    | None \<Rightarrow> \<exists>ls. api_list C s (r_ns r) (peer_selector r) = (Inr ls, s') \<and>
        set (map ID (Snapshot ord r')) =
          insert (ID (r_self r)) {h. \<exists>l \<in> set ls. HolderIdentity l = Some h \<and> h \<noteq> '''' \<and>
             (\<exists>x. expiry l = Some x \<and> now \<le> x)}"
proof (cases e)
  case (Some x)
  with assms(1) show ?thesis by (simp add: refreshPeers_error)
next
  case None
  with assms(1) obtain ls where ls: "api_list C s (r_ns r) (peer_selector r) = (Inr ls, s')"
    and r': "r' = r\<lparr>r_peers := fmupd (ID (r_self r)) (r_self r) (collect_peers now ls fmempty)\<rparr>"
    by (auto elim: refreshPeers_ok)
  have "set (map ID (Snapshot ord r')) = fmdom' (r_peers r')"
  proof -
    have "ID (the (fmlookup (r_peers r') k)) = k" if "k \<in> set ord" for k
    proof -
      from that assms(2) obtain p where p: "fmlookup (r_peers r') k = Some p"
        by (auto simp: iter_order_def fmlookup_dom_iff)
      then show ?thesis
        using collect_peers_from[of now ls fmempty k p] by (auto simp: r' split: if_splits)
    qed
    then have "map ID (Snapshot ord r') = ord" by (simp add: Snapshot_def map_idI)
    with assms(2) show ?thesis by (simp add: iter_order_def fmdom'_alt_def)
  qed
  moreover have "ID ` listed_peers now ls = {h. \<exists>l \<in> set ls. HolderIdentity l = Some h \<and> h \<noteq> '''' \<and>
      (\<exists>x. expiry l = Some x \<and> now \<le> x)}"
    by (force simp: listed_peers_def lease_peer_Some_iff)
  ultimately show ?thesis using ls None by (simp add: r' collect_peers_dom)
qed

theorem refresh_lists_live_peers_witness:
  "set (map ID (Snapshot [''p1''] (demo_registry\<lparr>r_peers := fmupd ''p1'' \<lparr>ID = ''p1'', Weight = 3\<rparr> fmempty\<rparr>)))
     = {''p1''}"
  using refresh_lists_live_peers[OF demo_refresh, of "[''p1'']"]
  by (auto simp: iter_order_def demo_registry_sel demo_list self_lease_new_def new_lease_def expiry_def)



text \<open>
  Registries that agree on the members never both own a cluster. If two processes with
  different identities have the same peers, each lists its map in an order of its own, and no
  two scores of the cluster tie, at most one of them owns the cluster.
\<close>

theorem agreeing_registries_one_owner:
  assumes "registry_inv a" and "registry_inv b" and "r_peers a = r_peers b" and "r_peers a \<noteq> fmempty"
    and "iter_order (r_peers a) oa" and "iter_order (r_peers b) ob"
    and "inj_on (hrw_score clusterID) (set (Snapshot oa a))" and "ID (Self a) \<noteq> ID (Self b)"
  shows "\<not> (ShouldOwn clusterID (Snapshot oa a) (Self a) \<and> ShouldOwn clusterID (Snapshot ob b) (Self b))"
proof -
  have "ranged_good (a, oa)" "ranged_good (b, ob)" using assms by (simp_all add: ranged_good_def)
  then have ne: "Snapshot oa a \<noteq> []" "Snapshot ob b \<noteq> []"
    using leasePeers.snapshot_nonempty by (fastforce simp: ranged_snapshot_def)+
  have "hrw_best clusterID (Snapshot oa a) = hrw_best clusterID (Snapshot ob b)"
    using assms by (intro same_members_same_best) auto
  with ne assms(8) show ?thesis by (simp add: ShouldOwn_iff)
qed

text \<open>Two processes that see each other, listing their peers in different orders.\<close>

definition demo_side :: "string \<Rightarrow> lease_registry" where
  "demo_side self =
     (NewLeaseRegistry ''host'' ''ns'' ''mcr-peer'' self 1)\<lparr>r_self := \<lparr>ID = self, Weight = 1\<rparr>,
        r_peers := fmupd ''p1'' \<lparr>ID = ''p1'', Weight = 1\<rparr> (fmupd ''p2'' \<lparr>ID = ''p2'', Weight = 1\<rparr> fmempty)\<rparr>"

theorem agreeing_registries_one_owner_witness:
  "\<not> (ShouldOwn ''zoo'' [\<lparr>ID = ''p1'', Weight = 1\<rparr>, \<lparr>ID = ''p2'', Weight = 1\<rparr>] \<lparr>ID = ''p1'', Weight = 1\<rparr> \<and>
      ShouldOwn ''zoo'' [\<lparr>ID = ''p2'', Weight = 1\<rparr>, \<lparr>ID = ''p1'', Weight = 1\<rparr>] \<lparr>ID = ''p2'', Weight = 1\<rparr>)"
proof -
  have inj: "inj_on (hrw_score ''zoo'') (set [\<lparr>ID = ''p1'', Weight = 1\<rparr>, \<lparr>ID = ''p2'', Weight = 1\<rparr>])"
    by code_simp
  have "registry_inv (demo_side ''p1'')" "registry_inv (demo_side ''p2'')"
    by (auto simp: registry_inv_def demo_side_def)
  with agreeing_registries_one_owner[of "demo_side ''p1''" "demo_side ''p2''" "[''p1'', ''p2'']"
      "[''p2'', ''p1'']" "''zoo''"] inj
  show ?thesis
    by (simp add: demo_side_def iter_order_def Snapshot_def Self_def insert_commute)
qed

end
