(* ===== verification/Runtime.thy ===== *)
theory Runtime
  imports Prelude
begin

text \<open>
  The part of Go's standard library that every component shares: contexts. A context is an
  index into a store; it remembers the context it was derived from and whether its own
  cancel function was called. It is done when it or a context it descends from was
  cancelled, which is what \<open>context.WithCancel\<close> promises.
\<close>

type_synonym ctx = nat
type_synonym ctxs = "(ctx option \<times> bool) list"

definition background :: "ctxs \<Rightarrow> ctxs \<times> ctx" where
  "background S = (S @ [(None, False)], length S)"

definition with_cancel :: "ctxs \<Rightarrow> ctx \<Rightarrow> ctxs \<times> ctx" where
  "with_cancel S p = (S @ [(Some p, False)], length S)"

definition cancel :: "ctxs \<Rightarrow> ctx \<Rightarrow> ctxs" where
  "cancel S c = (if c < length S then S[c := (fst (S ! c), True)] else S)"

text \<open>\<open>ctx.Err() != nil\<close>. A context is derived from one that exists already.\<close>

function ctx_err :: "ctxs \<Rightarrow> ctx \<Rightarrow> bool" where
  "ctx_err S c =
     (if c < length S
      then snd (S ! c) \<or>
           (case fst (S ! c) of None \<Rightarrow> False | Some p \<Rightarrow> if p < c then ctx_err S p else False)
      else False)"
  by pat_completeness auto
termination by (relation "measure snd") (auto split: if_splits)

declare ctx_err.simps [simp del]

text \<open>A context together with everything it was derived from.\<close>

function ctx_line :: "ctxs \<Rightarrow> ctx \<Rightarrow> ctx set" where
  "ctx_line S c =
     insert c
       (if c < length S
        then (case fst (S ! c) of None \<Rightarrow> {} | Some p \<Rightarrow> if p < c then ctx_line S p else {})
        else {})"
  by pat_completeness auto
termination by (relation "measure snd") (auto split: if_splits)

declare ctx_line.simps [simp del]

lemma ctx_line_self [simp, intro]: "c \<in> ctx_line S c"
  by (subst ctx_line.simps) simp

lemma ctx_line_le: "a \<in> ctx_line S c \<Longrightarrow> a \<le> c"
proof (induction S c rule: ctx_line.induct)
  case (1 S c)
  from "1.prems" show ?case
    by (subst (asm) ctx_line.simps) (auto split: if_splits option.splits dest: "1.IH")
qed

lemma length_background [simp]: "length (fst (background S)) = Suc (length S)"
  by (simp add: background_def)

lemma length_with_cancel [simp]: "length (fst (with_cancel S p)) = Suc (length S)"
  by (simp add: with_cancel_def)

lemma snd_with_cancel [simp]: "snd (with_cancel S p) = length S"
  by (simp add: with_cancel_def)

lemma snd_background [simp]: "snd (background S) = length S"
  by (simp add: background_def)

lemma length_cancel [simp]: "length (cancel S c) = length S"
  by (simp add: cancel_def)

lemma ctx_err_append: "c < length S \<Longrightarrow> ctx_err (S @ T) c = ctx_err S c"
proof (induction c rule: less_induct)
  case (less c)
  then show ?case
    by (subst (1 2) ctx_err.simps) (auto simp: nth_append split: option.splits)
qed

lemma ctx_err_with_cancel_old [ctx_simps]:
  "c < length S \<Longrightarrow> ctx_err (fst (with_cancel S p)) c = ctx_err S c"
  by (simp add: with_cancel_def ctx_err_append)

lemma ctx_err_with_cancel_new [ctx_simps]:
  "p < length S \<Longrightarrow> ctx_err (fst (with_cancel S p)) (length S) = ctx_err S p"
  by (subst ctx_err.simps) (simp add: with_cancel_def ctx_err_append)

lemma ctx_err_background_old [ctx_simps]:
  "c < length S \<Longrightarrow> ctx_err (fst (background S)) c = ctx_err S c"
  by (simp add: background_def ctx_err_append)

lemma ctx_err_background_new [ctx_simps]: "\<not> ctx_err (fst (background S)) (length S)"
  by (subst ctx_err.simps) (simp add: background_def)

lemma fst_nth_cancel: "d < length S \<Longrightarrow> fst (cancel S c ! d) = fst (S ! d)"
  by (cases "d = c") (auto simp: cancel_def)

lemma snd_nth_cancel:
  "d < length S \<Longrightarrow> snd (cancel S c ! d) \<longleftrightarrow> d = c \<or> snd (S ! d)"
  by (cases "d = c") (auto simp: cancel_def)

text \<open>Cancelling reaches exactly the contexts derived from the cancelled one.\<close>

lemma ctx_err_cancel_iff:
  "d < length S \<Longrightarrow> ctx_err (cancel S c) d \<longleftrightarrow> ctx_err S d \<or> c \<in> ctx_line S d"
proof (induction d rule: less_induct)
  case (less d)
  have step: "ctx_err (cancel S c) p \<longleftrightarrow> ctx_err S p \<or> c \<in> ctx_line S p" if "p < d" for p
    using less that by simp
  show ?case
    using less.prems step
    by (subst (1 2) ctx_err.simps, subst ctx_line.simps)
       (auto simp: fst_nth_cancel snd_nth_cancel split: option.splits)
qed

lemma ctx_err_cancel_self [ctx_simps]: "c < length S \<Longrightarrow> ctx_err (cancel S c) c"
  by (simp add: ctx_err_cancel_iff)

lemma ctx_err_cancel_mono: "ctx_err S d \<Longrightarrow> ctx_err (cancel S c) d"
proof -
  assume e: "ctx_err S d"
  then have "d < length S" by (subst (asm) ctx_err.simps) (simp split: if_splits)
  with e show ?thesis by (simp add: ctx_err_cancel_iff)
qed

lemma ctx_err_cancel_lower: "d < c \<Longrightarrow> d < length S \<Longrightarrow> ctx_err (cancel S c) d = ctx_err S d"
  using ctx_line_le[of c S d] by (auto simp: ctx_err_cancel_iff)

text \<open>A fresh child is not an ancestor of any older context: cancelling it changes nothing else.\<close>

lemma cancel_fresh_child:
  "d < length S \<Longrightarrow> ctx_err (cancel (fst (with_cancel S p)) (length S)) d = ctx_err S d"
  by (simp add: ctx_err_cancel_lower ctx_simps)

lemma ctx_err_less: "ctx_err S c \<Longrightarrow> c < length S"
  by (subst (asm) ctx_err.simps) (simp split: if_splits)

text \<open>Cancelling a list of contexts, in order.\<close>

definition cancel_all :: "ctx list \<Rightarrow> ctxs \<Rightarrow> ctxs" where
  "cancel_all cs S = fold (\<lambda>c T. cancel T c) cs S"

lemma cancel_all_simps [simp]:
  "cancel_all [] S = S"
  "cancel_all (c # cs) S = cancel_all cs (cancel S c)"
  by (simp_all add: cancel_all_def)

lemma length_cancel_all [simp]: "length (cancel_all cs S) = length S"
  by (induction cs arbitrary: S) auto

lemma ctx_err_cancel_all_mono: "ctx_err S d \<Longrightarrow> ctx_err (cancel_all cs S) d"
  by (induction cs arbitrary: S) (auto intro: ctx_err_cancel_mono)

lemma ctx_err_cancel_all:
  "c \<in> set cs \<Longrightarrow> c < length S \<Longrightarrow> ctx_err (cancel_all cs S) c"
  by (induction cs arbitrary: S) (auto simp: ctx_simps intro: ctx_err_cancel_all_mono)

end
