(* ===== verification/LeaseGuard.thy ===== *)
theory LeaseGuard
  imports Runtime KubeApi
begin

text \<open>
  \<open>pkg/manager/coordinator/sharded/leaseguard.go\<close>: one guard fences one cluster with one
  Lease. Every method is the whole method: it takes the client, the guard, the instant that
  \<open>metav1.NowMicro()\<close> returns, the context store and the API state, and returns the changed
  ones. The callback \<open>onLost\<close> is the name its closure captures; the goroutine that renews is
  one iteration function, run by whoever owns the guard.
\<close>

record lease_guard =
  g_ns :: string
  g_nm :: string
  g_id :: string
  g_ldur :: int
  g_renew :: int
  g_onLost :: "cluster_name option"
  g_held :: bool
  g_cancel :: "ctx option"

definition newLeaseGuard ::
  "string \<Rightarrow> string \<Rightarrow> string \<Rightarrow> int \<Rightarrow> int \<Rightarrow> cluster_name option \<Rightarrow> lease_guard" where
  "newLeaseGuard ns name gid ldur renew onLost =
     \<lparr>g_ns = ns, g_nm = name, g_id = gid, g_ldur = ldur, g_renew = renew,
      g_onLost = onLost, g_held = False, g_cancel = None\<rparr>"

definition guard_key :: "lease_guard \<Rightarrow> nsname" where
  "guard_key g = NsName (g_ns g) (g_nm g)"

definition expired :: "lease \<Rightarrow> int \<Rightarrow> bool" where
  "expired ls now =
     (case (RenewTime ls, LeaseDurationSeconds ls) of
        (Some r, Some d) \<Rightarrow> now > r + d * second
      | _ \<Rightarrow> True)"

subsection \<open>TryAcquire\<close>

text \<open>The object that is created when there is none.\<close>

definition acquire_new :: "lease_guard \<Rightarrow> int \<Rightarrow> lease" where
  "acquire_new g now =
     (new_lease (guard_key g))\<lparr>
        HolderIdentity := Some (g_id g),
        LeaseDurationSeconds := Some (to_seconds32 (g_ldur g)),
        AcquireTime := Some now,
        RenewTime := Some now\<rparr>"

text \<open>Adopting an existing object if it is free, expired or ours; \<open>None\<close> if it is not.\<close>

definition acquire_adopt :: "lease_guard \<Rightarrow> int \<Rightarrow> lease \<Rightarrow> lease option" where
  "acquire_adopt g now ls =
     (let ho = (case HolderIdentity ls of None \<Rightarrow> '''' | Some h \<Rightarrow> h)
      in if ho \<noteq> '''' \<and> ho \<noteq> g_id g \<and> \<not> expired ls now then None
         else
           (let ls1 = ls\<lparr>HolderIdentity := Some (g_id g),
                         LeaseDurationSeconds := Some (to_seconds32 (g_ldur g))\<rparr>;
                ls2 = (if ho \<noteq> g_id g \<or> AcquireTime ls1 = None
                       then ls1\<lparr>AcquireTime := Some now\<rparr> else ls1)
            in Some (ls2\<lparr>RenewTime := Some now\<rparr>)))"

definition start_renewer :: "lease_guard \<Rightarrow> ctxs \<Rightarrow> lease_guard \<times> ctxs" where
  "start_renewer g S =
     (let (S1, bg) = background S; (S2, rctx) = with_cancel S1 bg
      in (g\<lparr>g_cancel := Some rctx, g_held := True\<rparr>, S2))"

definition TryAcquire ::
  "'s lease_client \<Rightarrow> lease_guard \<Rightarrow> int \<Rightarrow> ctxs \<Rightarrow> 's \<Rightarrow> bool \<times> lease_guard \<times> ctxs \<times> 's" where
  "TryAcquire C g now S s =
     (if g_held g then (True, g, S, s)
      else
        (let (r, s1) = api_get C s (guard_key g)
         in case r of
              Inl NotFound \<Rightarrow>
                (case api_create C s1 (acquire_new g now) of
                   (Some _, s2) \<Rightarrow> (False, g, S, s2)
                 | (None, s2) \<Rightarrow> (let (g', S') = start_renewer g S in (True, g', S', s2)))
            | Inl _ \<Rightarrow> (False, g, S, s1)
            | Inr ls \<Rightarrow>
                (case acquire_adopt g now ls of
                   None \<Rightarrow> (False, g, S, s1)
                 | Some ls' \<Rightarrow>
                     (case api_update C s1 ls' of
                        (Some _, s2) \<Rightarrow> (False, g, S, s2)
                      | (None, s2) \<Rightarrow>
                          (let (g', S') = start_renewer g S in (True, g', S', s2))))))"

subsection \<open>Renewing and releasing\<close>

definition renew_update :: "lease_guard \<Rightarrow> int \<Rightarrow> lease \<Rightarrow> lease option" where
  "renew_update g now ls =
     (if (case HolderIdentity ls of
            Some h \<Rightarrow> h \<noteq> g_id g \<and> \<not> expired ls now | None \<Rightarrow> False)
      then None
      else Some (ls\<lparr>HolderIdentity := Some (g_id g),
                    LeaseDurationSeconds := Some (to_seconds32 (g_ldur g)),
                    RenewTime := Some now\<rparr>))"

definition renewOnce :: "'s lease_client \<Rightarrow> lease_guard \<Rightarrow> int \<Rightarrow> 's \<Rightarrow> bool \<times> 's" where
  "renewOnce C g now s =
     (let (r, s1) = api_get C s (guard_key g)
      in case r of
           Inl _ \<Rightarrow> (False, s1)
         | Inr ls \<Rightarrow>
             (case renew_update g now ls of
                None \<Rightarrow> (False, s1)
              | Some ls' \<Rightarrow>
                  (case api_update C s1 ls' of
                     (Some _, s2) \<Rightarrow> (False, s2)
                   | (None, s2) \<Rightarrow> (True, s2))))"

definition release_update :: "lease_guard \<Rightarrow> lease \<Rightarrow> lease option" where
  "release_update g ls =
     (if HolderIdentity ls = Some (g_id g) then Some (ls\<lparr>HolderIdentity := Some ''''\<rparr>)
      else None)"

definition cancel_opt :: "ctx option \<Rightarrow> ctxs \<Rightarrow> ctxs" where
  "cancel_opt c S = (case c of None \<Rightarrow> S | Some c \<Rightarrow> cancel S c)"

definition Release ::
  "'s lease_client \<Rightarrow> lease_guard \<Rightarrow> ctxs \<Rightarrow> 's \<Rightarrow> lease_guard \<times> ctxs \<times> 's" where
  "Release C g S s =
     (if \<not> g_held g then (g, S, s)
      else
        (let S' = cancel_opt (g_cancel g) S;
             g' = g\<lparr>g_held := False\<rparr>;
             (r, s1) = api_get C s (guard_key g)
         in case r of
              Inl _ \<Rightarrow> (g', S', s1)
            | Inr ls \<Rightarrow>
                (case release_update g ls of
                   None \<Rightarrow> (g', S', s1)
                 | Some ls' \<Rightarrow> (g', S', snd (api_update C s1 ls')))))"

text \<open>
  One round of \<open>renewLoop\<close>: it ends when its context is done; on a tick it renews, and when
  that fails it calls \<open>onLost\<close> and releases. When the context is done and the ticker has
  fired, \<open>select\<close> takes either case: \<open>seldone\<close> is its choice. \<open>lost\<close> runs the callback on the
  state \<open>w\<close> of its owner. The first component says whether the loop goes on.
\<close>

definition renewLoop_round ::
  "'s lease_client \<Rightarrow> (cluster_name \<Rightarrow> 'w \<times> ctxs \<Rightarrow> 'w \<times> ctxs) \<Rightarrow> lease_guard \<Rightarrow> ctx \<Rightarrow> bool \<Rightarrow> int \<Rightarrow>
   'w \<times> ctxs \<Rightarrow> 's \<Rightarrow> bool \<times> lease_guard \<times> ('w \<times> ctxs) \<times> 's" where
  "renewLoop_round C lost g rctx seldone now w s =
     (if ctx_err (snd w) rctx \<and> seldone then (False, g, w, s)
      else
        (case renewOnce C g now s of
           (True, s1) \<Rightarrow> (True, g, w, s1)
         | (False, s1) \<Rightarrow>
             (let w1 = (case g_onLost g of None \<Rightarrow> w | Some n \<Rightarrow> lost n w);
                  (g', S', s2) = Release C g (snd w1) s1
              in (False, g', (fst w1, S'), s2))))"

subsection \<open>Facts about the decisions\<close>

lemma guard_key_upd [simp]:
  "guard_key (g\<lparr>g_held := h\<rparr>) = guard_key g" "guard_key (g\<lparr>g_cancel := c\<rparr>) = guard_key g"
  by (simp_all add: guard_key_def)

lemma expired_expiry: "expired ls now \<longleftrightarrow> (\<forall>e. expiry ls = Some e \<longrightarrow> now > e)"
  by (auto simp: expired_def expiry_def split: option.splits)

lemma not_expired: "expiry ls = Some e \<Longrightarrow> now \<le> e \<Longrightarrow> \<not> expired ls now"
  by (auto simp: expired_expiry)

lemma acquire_adopt_SomeD:
  assumes "acquire_adopt g now ls = Some ls'"
  shows "(HolderIdentity ls = None \<or> HolderIdentity ls = Some '''' \<or>
          HolderIdentity ls = Some (g_id g) \<or> expired ls now)"
    and "l_key ls' = l_key ls" and "l_rv ls' = l_rv ls"
    and "HolderIdentity ls' = Some (g_id g)"
    and "LeaseDurationSeconds ls' = Some (to_seconds32 (g_ldur g))"
    and "RenewTime ls' = Some now"
  using assms by (auto simp: acquire_adopt_def Let_def split: if_splits option.splits)

lemma acquire_adopt_None_iff:
  "acquire_adopt g now ls = None \<longleftrightarrow>
     (\<exists>h. HolderIdentity ls = Some h \<and> h \<noteq> '''' \<and> h \<noteq> g_id g) \<and> \<not> expired ls now"
  by (auto simp: acquire_adopt_def Let_def split: if_splits option.splits)

lemma acquire_new_sel [simp]:
  "l_key (acquire_new g now) = guard_key g"
  "HolderIdentity (acquire_new g now) = Some (g_id g)"
  "LeaseDurationSeconds (acquire_new g now) = Some (to_seconds32 (g_ldur g))"
  "RenewTime (acquire_new g now) = Some now"
  by (simp_all add: acquire_new_def new_lease_def)

lemma renew_update_SomeD:
  assumes "renew_update g now ls = Some ls'"
  shows "(HolderIdentity ls = None \<or> HolderIdentity ls = Some (g_id g) \<or> expired ls now)"
    and "l_key ls' = l_key ls" and "l_rv ls' = l_rv ls"
    and "HolderIdentity ls' = Some (g_id g)"
    and "LeaseDurationSeconds ls' = Some (to_seconds32 (g_ldur g))"
    and "RenewTime ls' = Some now" and "AcquireTime ls' = AcquireTime ls"
  using assms by (auto simp: renew_update_def split: if_splits option.splits)

lemma release_update_SomeD:
  assumes "release_update g ls = Some ls'"
  shows "HolderIdentity ls = Some (g_id g)" "l_key ls' = l_key ls" "l_rv ls' = l_rv ls"
    "HolderIdentity ls' = Some ''''" "RenewTime ls' = RenewTime ls"
    "AcquireTime ls' = AcquireTime ls" "LeaseDurationSeconds ls' = LeaseDurationSeconds ls"
  using assms by (auto simp: release_update_def split: if_splits)

lemma start_renewer_sel:
  assumes "start_renewer g S = (g', S')"
  shows "g' = g\<lparr>g_cancel := Some (Suc (length S)), g_held := True\<rparr>"
    and "length S' = Suc (Suc (length S))" and "\<not> ctx_err S' (Suc (length S))"
    and "d < length S \<Longrightarrow> ctx_err S' d = ctx_err S d"
proof -
  have S': "S' = fst (with_cancel (fst (background S)) (length S))"
    and g: "g' = g\<lparr>g_cancel := Some (Suc (length S)), g_held := True\<rparr>"
    using assms by (auto simp: start_renewer_def background_def with_cancel_def)
  show "g' = g\<lparr>g_cancel := Some (Suc (length S)), g_held := True\<rparr>" by (rule g)
  show "length S' = Suc (Suc (length S))" by (simp add: S')
  show "\<not> ctx_err S' (Suc (length S))"
    using ctx_err_with_cancel_new[of "length S" "fst (background S)" ]
    by (simp add: S' ctx_simps)
  show "d < length S \<Longrightarrow> ctx_err S' d = ctx_err S d"
    by (simp add: S' ctx_simps)
qed

subsection \<open>The methods\<close>

lemma TryAcquire_held: "g_held g \<Longrightarrow> TryAcquire C g now S s = (True, g, S, s)"
  by (simp add: TryAcquire_def)

text \<open>The ways a call returns: nothing changed in the guard, or the renewer was started.\<close>

lemma TryAcquire_result:
  assumes "TryAcquire C g now S s = (r, g', S', s')" and "\<not> g_held g"
  shows "(if r then start_renewer g S = (g', S') else g' = g \<and> S' = S)"
  using assms
  by (auto simp: TryAcquire_def Let_def split: prod.splits sum.splits api_error.splits option.splits)

lemma TryAcquire_true_held:
  "TryAcquire C g now S s = (True, g', S', s') \<Longrightarrow> g_held g' \<and> g_id g' = g_id g \<and> guard_key g' = guard_key g"
  by (cases "g_held g")
     (auto simp: TryAcquire_held dest!: TryAcquire_result start_renewer_sel(1))

lemma Release_not_held: "\<not> g_held g \<Longrightarrow> Release C g S s = (g, S, s)"
  by (simp add: Release_def)

lemma Release_guard:
  "Release C g S s = (g', S', s') \<Longrightarrow> g' = g\<lparr>g_held := False\<rparr> \<and>
     S' = (if g_held g then cancel_opt (g_cancel g) S else S)"
  by (auto simp: Release_def Let_def split: if_splits prod.splits sum.splits option.splits)

lemma length_cancel_opt [simp]: "length (cancel_opt c S) = length S"
  by (simp add: cancel_opt_def split: option.splits)

lemma ctx_err_cancel_opt_mono: "ctx_err S d \<Longrightarrow> ctx_err (cancel_opt c S) d"
  by (auto simp: cancel_opt_def intro: ctx_err_cancel_mono split: option.splits)

context lease_api
begin

text \<open>After a successful acquisition the server shows this guard's peer as the holder.\<close>

lemma acquire_stores:
  assumes "ok s" and "\<not> g_held g" and "TryAcquire C g now S s = (True, g', S', s')"
  shows "ok s' \<and> (\<exists>l. st s' (guard_key g) = Some l \<and> HolderIdentity l = Some (g_id g) \<and>
     RenewTime l = Some (micro now) \<and> LeaseDurationSeconds l = Some (to_seconds32 (g_ldur g)))"
proof -
  obtain r s1 where get: "api_get C s (guard_key g) = (r, s1)" by fastforce
  from get_law[OF assms(1) get] have s1: "ok s1" "\<forall>l. r = Inr l \<longrightarrow> l \<in> vs s (guard_key g)"
    by auto
  show ?thesis
  proof (cases r)
    case (Inl e)
    with assms(2,3) get have e: "e = NotFound"
      and "fst (api_create C s1 (acquire_new g now)) = None"
      and "snd (api_create C s1 (acquire_new g now)) = s'"
      by (auto simp: TryAcquire_def split: prod.splits option.splits api_error.splits)
    then have c: "api_create C s1 (acquire_new g now) = (None, s')" by (metis prod.collapse)
    from create_law[OF s1(1) c] have "ok s'" "api_commit st vs s1 (acquire_new g now) s'" by auto
    then show ?thesis by (auto dest!: commit_stored)
  next
    case (Inr ls)
    with assms(2,3) get obtain ls' where a: "acquire_adopt g now ls = Some ls'"
      and "fst (api_update C s1 ls') = None" "snd (api_update C s1 ls') = s'"
      by (auto simp: TryAcquire_def split: prod.splits option.splits)
    then have u: "api_update C s1 ls' = (None, s')" by (metis prod.collapse)
    have "l_key ls' = guard_key g"
      using acquire_adopt_SomeD(2)[OF a] version_key[OF assms(1), of ls] s1(2) Inr by auto
    moreover from update_law[OF s1(1) u] have "ok s'" "api_commit st vs s1 ls' s'" by auto
    ultimately show ?thesis
      using acquire_adopt_SomeD(4-6)[OF a] by (auto dest!: commit_stored)
  qed
qed

end

end
