(* ===== verification/Coordinator.thy ===== *)
theory Coordinator
  imports Peers LeaseGuard
begin

text \<open>
  \<open>pkg/manager/coordinator/sharded/coordinator.go\<close> and \<open>options.go\<close>. The state has the maps of
  the struct, a heap of lease guards (a guard is shared by pointer between an engagement, its
  renewer and pending releases), the context store, the API state and the goroutines that
  were started and have not run yet. Each method is the whole method; a goroutine body runs
  as one step. The fence's own calls interleave at the granularity of API calls in the
  theory of fencing.
\<close>

subsection \<open>Configuration\<close>

record Config =
  FenceNS :: string
  FencePrefix :: string
  PerClusterLease :: bool
  LeaseDuration :: int
  LeaseRenew :: int
  FenceThrottle :: int
  PeerPrefix :: string
  PeerWeight :: "32 word"
  PeerReleaseOnCancel :: bool
  Probe :: int
  Rehash :: int

definition defaultConfig :: Config where
  "defaultConfig =
     \<lparr>FenceNS = ''kube-system'', FencePrefix = ''mcr-shard'', PerClusterLease = True,
      LeaseDuration = 20 * second, LeaseRenew = 10 * second, FenceThrottle = 750 * millisecond,
      PeerPrefix = ''mcr-peer'', PeerWeight = 1, PeerReleaseOnCancel = False,
      Probe = 5 * second, Rehash = 15 * second\<rparr>"

text \<open>A peer registry: the lease registry of this repository, or one that was injected.\<close>

datatype registry = LeaseReg lease_registry | CustomReg PeerInfo "PeerInfo list"

fun registry_Self :: "registry \<Rightarrow> PeerInfo" where
  "registry_Self (LeaseReg r) = Self r"
| "registry_Self (CustomReg p ps) = p"

fun registry_Snapshot :: "string list \<Rightarrow> registry \<Rightarrow> PeerInfo list" where
  "registry_Snapshot ord (LeaseReg r) = Snapshot ord r"
| "registry_Snapshot ord (CustomReg p ps) = ps"

subsection \<open>State\<close>

record engagement =
  e_token :: nat
  e_name :: cluster_name
  e_cl :: cluster_h
  e_ctx :: "ctx option"
  e_cancel :: "ctx option"
  e_started :: bool
  e_fence :: "nat option"
  e_nextTry :: int

text \<open>The zero \<open>time.Time\<close>, January 1 of year 1, in nanoseconds of the Unix epoch.\<close>

definition zero_time :: int where "zero_time = - 62135596800 * second"

definition new_engagement :: "nat \<Rightarrow> cluster_name \<Rightarrow> cluster_h \<Rightarrow> nat option \<Rightarrow> engagement" where
  "new_engagement tok name cl fence =
     \<lparr>e_token = tok, e_name = name, e_cl = cl, e_ctx = None, e_cancel = None,
      e_started = False, e_fence = fence, e_nextTry = zero_time\<rparr>"

datatype goroutine =
    Watch ctx cluster_name nat
  | Recompute ctx
  | ReleaseFence nat
  | StartFor ctx cluster_name cluster_h
  | RenewLoop nat ctx

record 's coordinator =
  c_sharder :: "string \<Rightarrow> PeerInfo list \<Rightarrow> PeerInfo \<Rightarrow> bool"
  c_peers :: "registry option"
  c_self :: PeerInfo
  c_cfg :: Config
  c_engaged :: "(cluster_name, engagement) fmap"
  c_awares :: "aware_h list"
  c_guards :: "lease_guard list"
  c_tokens :: nat
  c_ctxs :: ctxs
  c_go :: "goroutine list"
  c_calls :: "(aware_h \<times> ctx \<times> cluster_name \<times> cluster_h) list"
  c_srv :: 's

subsection \<open>Construction and options\<close>

type_synonym 's coordinator_option = "'s coordinator \<Rightarrow> 's coordinator"

definition WithSharder ::
  "(string \<Rightarrow> PeerInfo list \<Rightarrow> PeerInfo \<Rightarrow> bool) option \<Rightarrow> 's coordinator_option" where
  "WithSharder s c = (case s of None \<Rightarrow> c | Some f \<Rightarrow> c\<lparr>c_sharder := f\<rparr>)"

definition WithPeerWeight :: "32 word \<Rightarrow> 's coordinator_option" where
  "WithPeerWeight w c = c\<lparr>c_cfg := (c_cfg c)\<lparr>PeerWeight := w\<rparr>\<rparr>"

definition WithPeerReleaseOnCancel :: "bool \<Rightarrow> 's coordinator_option" where
  "WithPeerReleaseOnCancel on c = c\<lparr>c_cfg := (c_cfg c)\<lparr>PeerReleaseOnCancel := on\<rparr>\<rparr>"

definition WithShardLease :: "string \<Rightarrow> string \<Rightarrow> 's coordinator_option" where
  "WithShardLease ns name c = c\<lparr>c_cfg := (c_cfg c)\<lparr>FenceNS := ns, FencePrefix := name\<rparr>\<rparr>"

definition WithPerClusterLease :: "bool \<Rightarrow> 's coordinator_option" where
  "WithPerClusterLease on c = c\<lparr>c_cfg := (c_cfg c)\<lparr>PerClusterLease := on\<rparr>\<rparr>"

definition WithSynchronizationIntervals :: "int \<Rightarrow> int \<Rightarrow> 's coordinator_option" where
  "WithSynchronizationIntervals probe rehash c =
     c\<lparr>c_cfg := (c_cfg c)\<lparr>Probe := probe, Rehash := rehash\<rparr>\<rparr>"

definition WithLeaseTimings :: "int \<Rightarrow> int \<Rightarrow> int \<Rightarrow> 's coordinator_option" where
  "WithLeaseTimings duration renew throttle c =
     c\<lparr>c_cfg := (c_cfg c)\<lparr>LeaseDuration := duration, LeaseRenew := renew,
                          FenceThrottle := throttle\<rparr>\<rparr>"

definition WithPeerRegistry :: "registry option \<Rightarrow> 's coordinator_option" where
  "WithPeerRegistry reg c =
     (case reg of
        None \<Rightarrow> c
      | Some r \<Rightarrow> c\<lparr>c_peers := Some r, c_self := registry_Self r\<rparr>)"

definition withConfig :: "Config \<Rightarrow> 's coordinator_option" where
  "withConfig cfg c = c\<lparr>c_cfg := cfg\<rparr>"

text \<open>\<open>S\<close> and \<open>s\<close> are the contexts and the API state at the time of the call.\<close>

definition coordinator_New ::
  "string \<Rightarrow> 's coordinator_option list \<Rightarrow> ctxs \<Rightarrow> 's \<Rightarrow> 's coordinator" where
  "coordinator_New hostname opts S s =
     (let c0 = \<lparr>c_sharder = ShouldOwn, c_peers = None, c_self = \<lparr>ID = '''', Weight = 0\<rparr>,
                c_cfg = defaultConfig, c_engaged = fmempty, c_awares = [], c_guards = [],
                c_tokens = 0, c_ctxs = S, c_go = [], c_calls = [], c_srv = s\<rparr>;
          c1 = fold (\<lambda>opt c. opt c) opts c0;
          reg = (case c_peers c1 of
                   Some r \<Rightarrow> r
                 | None \<Rightarrow> LeaseReg (NewLeaseRegistryWithOptions hostname (FenceNS (c_cfg c1))
                             (PeerPrefix (c_cfg c1)) '''' (PeerWeight (c_cfg c1))
                             [WithReleaseOnCancel (PeerReleaseOnCancel (c_cfg c1))]))
      in c1\<lparr>c_peers := Some reg, c_self := registry_Self reg\<rparr>)"

definition fenceName :: "Config \<Rightarrow> string \<Rightarrow> string" where
  "fenceName cfg cluster =
     (if PerClusterLease cfg then FencePrefix cfg @ ''-'' @ DNS1123 cluster
      else FencePrefix cfg)"

definition coordinator_AddAware :: "aware_h \<Rightarrow> 's coordinator \<Rightarrow> 's coordinator" where
  "coordinator_AddAware a c = c\<lparr>c_awares := c_awares c @ [a]\<rparr>"

subsection \<open>Engage\<close>

text \<open>Calling a cancel function that may be nil, guarded as the source guards it.\<close>

abbreviation set_ctxs :: "'s coordinator \<Rightarrow> ctxs \<Rightarrow> 's coordinator" where
  "set_ctxs c S \<equiv> c\<lparr>c_ctxs := S\<rparr>"

definition put_engaged :: "cluster_name \<Rightarrow> engagement \<Rightarrow> 's coordinator \<Rightarrow> 's coordinator" where
  "put_engaged name e c = c\<lparr>c_engaged := fmupd name e (c_engaged c)\<rparr>"

definition spawn :: "goroutine \<Rightarrow> 's coordinator \<Rightarrow> 's coordinator" where
  "spawn g c = c\<lparr>c_go := c_go c @ [g]\<rparr>"

definition coordinator_Engage ::
  "ctx \<Rightarrow> cluster_name \<Rightarrow> cluster_h \<Rightarrow> 's coordinator \<Rightarrow> go_error option \<times> 's coordinator" where
  "coordinator_Engage parent name cl c =
     (if ctx_err (c_ctxs c) parent then (Some ErrCtx, c)
      else
        (let tok = c_tokens c;
             c1 = (case fmlookup (c_engaged c) name of
                     Some cur \<Rightarrow>
                       put_engaged name (new_engagement tok name cl (e_fence cur))
                         (set_ctxs c (cancel_opt (e_cancel cur) (c_ctxs c)))
                   | None \<Rightarrow> put_engaged name (new_engagement tok name cl None) c);
             c2 = spawn (Watch parent name tok) (c1\<lparr>c_tokens := Suc tok\<rparr>)
         in (None, spawn (Recompute parent) c2)))"

text \<open>The cleanup goroutine, once its context is done.\<close>

definition watch_done :: "cluster_name \<Rightarrow> nat \<Rightarrow> 's coordinator \<Rightarrow> 's coordinator" where
  "watch_done key token c =
     (case fmlookup (c_engaged c) key of
        None \<Rightarrow> c
      | Some ee \<Rightarrow>
          if e_token ee \<noteq> token then c
          else
            (let c1 = (if e_started ee then set_ctxs c (cancel_opt (e_cancel ee) (c_ctxs c)) else c);
                 c2 = (case e_fence ee of None \<Rightarrow> c1 | Some g \<Rightarrow> spawn (ReleaseFence g) c1)
             in c2\<lparr>c_engaged := fmdrop key (c_engaged c2)\<rparr>))"

subsection \<open>recompute\<close>

text \<open>\<open>engm.fence\<close>, created on the first attempt.\<close>

definition ensure_fence ::
  "cluster_name \<Rightarrow> engagement \<Rightarrow> 's coordinator \<Rightarrow> nat \<times> engagement \<times> 's coordinator" where
  "ensure_fence name engm c =
     (case e_fence engm of
        Some g \<Rightarrow> (g, engm, c)
      | None \<Rightarrow>
          (let g = length (c_guards c);
               cfg = c_cfg c;
               new = newLeaseGuard (FenceNS cfg) (fenceName cfg name) (ID (c_self c))
                       (LeaseDuration cfg) (LeaseRenew cfg) (Some name);
               engm' = engm\<lparr>e_fence := Some g\<rparr>
           in (g, engm', put_engaged name engm' (c\<lparr>c_guards := c_guards c @ [new]\<rparr>))))"

text \<open>\<open>engm.fence.TryAcquire(parent)\<close>; a new hold starts the renewer's goroutine.\<close>

definition try_fence ::
  "'s lease_client \<Rightarrow> nat \<Rightarrow> int \<Rightarrow> 's coordinator \<Rightarrow> bool \<times> 's coordinator" where
  "try_fence C g t c =
     (let old = c_guards c ! g;
          (r, new, S', s') = TryAcquire C old t (c_ctxs c) (c_srv c);
          c1 = c\<lparr>c_guards := (c_guards c)[g := new], c_ctxs := S', c_srv := s'\<rparr>;
          c2 = (case (r \<and> \<not> g_held old, g_cancel new) of
                  (True, Some rctx) \<Rightarrow> spawn (RenewLoop g rctx) c1
                | _ \<Rightarrow> c1)
      in (r, c2))"

type_synonym start = "cluster_name \<times> cluster_h \<times> ctx"

definition recompute_start ::
  "'s lease_client \<Rightarrow> ctx \<Rightarrow> int \<Rightarrow> int \<Rightarrow> cluster_name \<Rightarrow> engagement \<Rightarrow>
   's coordinator \<times> start list \<Rightarrow> 's coordinator \<times> start list" where
  "recompute_start C parent now t name engm = (\<lambda>(c, starts).
     (let (g, engm1, c1) = ensure_fence name engm c
      in if now < e_nextTry engm1 then (c1, starts)
         else
           (case try_fence C g t c1 of
              (False, c2) \<Rightarrow>
                (put_engaged name (engm1\<lparr>e_nextTry := now + FenceThrottle (c_cfg c)\<rparr>) c2, starts)
            | (True, c2) \<Rightarrow>
                (let (S', cx) = with_cancel (c_ctxs c2) parent;
                     engm2 = engm1\<lparr>e_ctx := Some cx, e_cancel := Some cx, e_started := True\<rparr>
                 in (put_engaged name engm2 (set_ctxs c2 S'),
                     starts @ [(e_name engm, e_cl engm, cx)])))))"

definition recompute_stop ::
  "cluster_name \<Rightarrow> engagement \<Rightarrow> 's coordinator \<times> ctx list \<Rightarrow> 's coordinator \<times> ctx list" where
  "recompute_stop name engm = (\<lambda>(c, stops).
     (let stops' = (case e_cancel engm of None \<Rightarrow> stops | Some k \<Rightarrow> stops @ [k]);
          c1 = (case e_fence engm of None \<Rightarrow> c | Some g \<Rightarrow> spawn (ReleaseFence g) c)
      in (put_engaged name
            (engm\<lparr>e_cancel := None, e_started := False, e_nextTry := zero_time\<rparr>) c1, stops')))"

text \<open>
  One iteration of the loop over the engaged clusters; \<open>t name\<close> is the instant that a
  \<open>TryAcquire\<close> of that cluster reads.
\<close>

definition recompute_one ::
  "'s lease_client \<Rightarrow> PeerInfo list \<Rightarrow> ctx \<Rightarrow> int \<Rightarrow> (cluster_name \<Rightarrow> int) \<Rightarrow> cluster_name \<Rightarrow>
   's coordinator \<times> start list \<times> ctx list \<Rightarrow> 's coordinator \<times> start list \<times> ctx list" where
  "recompute_one C peers parent now t name = (\<lambda>(c, starts, stops).
     (case fmlookup (c_engaged c) name of
        None \<Rightarrow> (c, starts, stops)
      | Some engm \<Rightarrow>
          (let should = c_sharder c name peers (c_self c)
           in if should \<and> \<not> e_started engm
              then (let (c', starts') = recompute_start C parent now (t name) name engm (c, starts)
                    in (c', starts', stops))
              else if \<not> should \<and> e_started engm
              then (let (c', stops') = recompute_stop name engm (c, stops)
                    in (c', starts, stops'))
              else (c, starts, stops))))"

definition recompute ::
  "'s lease_client \<Rightarrow> PeerInfo list \<Rightarrow> cluster_name list \<Rightarrow> ctx \<Rightarrow> int \<Rightarrow> (cluster_name \<Rightarrow> int) \<Rightarrow>
   's coordinator \<Rightarrow> 's coordinator" where
  "recompute C peers ord parent now t c =
     (let (c1, starts, stops) = fold (recompute_one C peers parent now t) ord (c, [], []);
          c2 = set_ctxs c1 (cancel_all stops (c_ctxs c1))
      in fold (\<lambda>(n, cl, cx). spawn (StartFor cx n cl)) starts c2)"

subsection \<open>Starting a cluster, losing a fence\<close>

text \<open>
  The awares are user code: \<open>aw\<close> says what the call of an aware's \<open>Engage\<close> returns, given
  the calls made so far.
\<close>

type_synonym engage_oracle =
  "(aware_h \<times> ctx \<times> cluster_name \<times> cluster_h) list \<Rightarrow> aware_h \<times> ctx \<times> cluster_name \<times> cluster_h \<Rightarrow>
   go_error option"

fun engage_awares ::
  "engage_oracle \<Rightarrow> ctx \<Rightarrow> cluster_name \<Rightarrow> cluster_h \<Rightarrow> aware_h list \<Rightarrow>
   (aware_h \<times> ctx \<times> cluster_name \<times> cluster_h) list \<Rightarrow>
   go_error option \<times> (aware_h \<times> ctx \<times> cluster_name \<times> cluster_h) list" where
  "engage_awares aw cx name cl [] calls = (None, calls)"
| "engage_awares aw cx name cl (a # as) calls =
     (case aw calls (a, cx, name, cl) of
        Some e \<Rightarrow> (Some e, calls @ [(a, cx, name, cl)])
      | None \<Rightarrow> engage_awares aw cx name cl as (calls @ [(a, cx, name, cl)]))"

definition startForCluster ::
  "engage_oracle \<Rightarrow> ctx \<Rightarrow> cluster_name \<Rightarrow> cluster_h \<Rightarrow> 's coordinator \<Rightarrow> 's coordinator" where
  "startForCluster aw cx name cl c =
     (let (err, calls) = engage_awares aw cx name cl (c_awares c) (c_calls c);
          c1 = c\<lparr>c_calls := calls\<rparr>
      in case err of
           None \<Rightarrow> c1
         | Some _ \<Rightarrow>
             (case fmlookup (c_engaged c1) name of
                None \<Rightarrow> c1
              | Some engm \<Rightarrow>
                  if e_cancel engm = None then c1
                  else put_engaged name (engm\<lparr>e_started := False\<rparr>)
                         (set_ctxs c1 (cancel_opt (e_cancel engm) (c_ctxs c1)))))"

definition onLost ::
  "cluster_name \<Rightarrow> (cluster_name, engagement) fmap \<times> ctxs \<Rightarrow> (cluster_name, engagement) fmap \<times> ctxs" where
  "onLost cluster = (\<lambda>(m, S).
     (case fmlookup m cluster of
        None \<Rightarrow> (m, S)
      | Some ee \<Rightarrow>
          if e_started ee \<and> e_cancel ee \<noteq> None
          then (fmupd cluster (ee\<lparr>e_started := False\<rparr>) m, cancel_opt (e_cancel ee) S)
          else (m, S)))"

subsection \<open>Goroutines\<close>

text \<open>
  A round of a renewer: \<open>True\<close> when its loop goes on.
\<close>

definition renew_round ::
  "'s lease_client \<Rightarrow> nat \<Rightarrow> ctx \<Rightarrow> bool \<Rightarrow> int \<Rightarrow> 's coordinator \<Rightarrow> bool \<times> 's coordinator" where
  "renew_round C g rctx seldone t c =
     (let (cont, guard, (m, S), s) =
            renewLoop_round C onLost (c_guards c ! g) rctx seldone t (c_engaged c, c_ctxs c) (c_srv c)
      in (cont, c\<lparr>c_guards := (c_guards c)[g := guard], c_engaged := m, c_ctxs := S, c_srv := s\<rparr>))"

definition release_fence :: "'s lease_client \<Rightarrow> nat \<Rightarrow> 's coordinator \<Rightarrow> 's coordinator" where
  "release_fence C g c =
     (let (guard, S, s) = Release C (c_guards c ! g) (c_ctxs c) (c_srv c)
      in c\<lparr>c_guards := (c_guards c)[g := guard], c_ctxs := S, c_srv := s\<rparr>)"

text \<open>What a goroutine cannot determine by itself: map order, clock readings, select's choice.\<close>

record choices =
  ch_peers :: "string list"
  ch_order :: "cluster_name list"
  ch_now :: int
  ch_times :: "cluster_name \<Rightarrow> int"
  ch_done :: bool

text \<open>Running a goroutine; \<open>None\<close> when it is blocked.\<close>

fun run_goroutine ::
  "'s lease_client \<Rightarrow> engage_oracle \<Rightarrow> choices \<Rightarrow> goroutine \<Rightarrow> 's coordinator \<Rightarrow> 's coordinator option" where
  "run_goroutine C aw ch (Watch pctx key token) c =
     (if ctx_err (c_ctxs c) pctx then Some (watch_done key token c) else None)"
| "run_goroutine C aw ch (Recompute parent) c =
     (case c_peers c of
        None \<Rightarrow> None
      | Some reg \<Rightarrow>
          Some (recompute C (registry_Snapshot (ch_peers ch) reg) (ch_order ch) parent
                  (ch_now ch) (ch_times ch) c))"
| "run_goroutine C aw ch (ReleaseFence g) c = Some (release_fence C g c)"
| "run_goroutine C aw ch (StartFor cx name cl) c = Some (startForCluster aw cx name cl c)"
| "run_goroutine C aw ch (RenewLoop g rctx) c =
     (case renew_round C g rctx (ch_done ch) (ch_now ch) c of
        (cont, c') \<Rightarrow> Some (if cont then spawn (RenewLoop g rctx) c' else c'))"

text \<open>
  \<open>Runnable\<close>: a first decision, then one per tick. The registry's \<open>Run\<close> is a goroutine of its
  own whose result arrives on \<open>errCh\<close>; the loop ends when the context is done or that result
  is there, and the list of turns is what \<open>select\<close> picks. No result means it still runs.
\<close>

datatype turn = CtxDone | PeersReturned go_error | Tick choices

definition recompute_now ::
  "'s lease_client \<Rightarrow> choices \<Rightarrow> ctx \<Rightarrow> 's coordinator \<Rightarrow> 's coordinator" where
  "recompute_now C ch parent c =
     (case run_goroutine C (\<lambda>_ _. None) ch (Recompute parent) c of None \<Rightarrow> c | Some c' \<Rightarrow> c')"

fun runnable_loop ::
  "'s lease_client \<Rightarrow> ctx \<Rightarrow> turn list \<Rightarrow> 's coordinator \<Rightarrow> go_error option \<times> 's coordinator" where
  "runnable_loop C cx [] c = (None, c)"
| "runnable_loop C cx (CtxDone # ts) c = (Some ErrCtx, c)"
| "runnable_loop C cx (PeersReturned e # ts) c = (Some e, c)"
| "runnable_loop C cx (Tick ch # ts) c = runnable_loop C cx ts (recompute_now C ch cx c)"

definition coordinator_Runnable ::
  "'s lease_client \<Rightarrow> ctx \<Rightarrow> choices \<Rightarrow> turn list \<Rightarrow> 's coordinator \<Rightarrow> go_error option \<times> 's coordinator" where
  "coordinator_Runnable C cx ch turns c = runnable_loop C cx turns (recompute_now C ch cx c)"

text \<open>A pass of the registry's own loop, which shares the API state.\<close>

definition peers_pass :: "'s lease_client \<Rightarrow> int \<Rightarrow> int \<Rightarrow> 's coordinator \<Rightarrow> 's coordinator" where
  "peers_pass C now1 now2 c =
     (case c_peers c of
        Some (LeaseReg r) \<Rightarrow>
          (let (r', s') = registry_pass C r now1 now2 (c_srv c)
           in c\<lparr>c_peers := Some (LeaseReg r'), c_srv := s'\<rparr>)
      | _ \<Rightarrow> c)"

text \<open>
  Everything that can happen to a coordinator: the manager engages clusters and awares, the
  runnable decides, the registry passes or an injected one changes, other processes change the API state, contexts are
  cancelled or created elsewhere, and the goroutines run in any order.
\<close>

inductive coord_step ::
  "'s lease_client \<Rightarrow> engage_oracle \<Rightarrow> 's coordinator \<Rightarrow> 's coordinator \<Rightarrow> bool"
  for C :: "'s lease_client" and aw :: engage_oracle where
  engage: "coordinator_Engage parent name cl c = (r, c') \<Longrightarrow> coord_step C aw c c'"
| aware: "coord_step C aw c (coordinator_AddAware a c)"
| decide: "iter_order (c_engaged c) (ch_order ch) \<Longrightarrow> coord_step C aw c (recompute_now C ch cx c)"
| peers: "coord_step C aw c (peers_pass C now1 now2 c)"
| custom: "c_peers c = Some (CustomReg p ps) \<Longrightarrow>
    coord_step C aw c (c\<lparr>c_peers := Some (CustomReg p ps')\<rparr>)"
| world: "coord_step C aw c (c\<lparr>c_srv := s\<rparr>)"
| ctx_new: "coord_step C aw c (c\<lparr>c_ctxs := fst (with_cancel (c_ctxs c) p)\<rparr>)"
| ctx_cancel: "coord_step C aw c (c\<lparr>c_ctxs := cancel (c_ctxs c) k\<rparr>)"
| run: "c_go c = before @ g # after \<Longrightarrow> iter_order (c_engaged c) (ch_order ch) \<Longrightarrow>
    run_goroutine C aw ch g (c\<lparr>c_go := before @ after\<rparr>) = Some c' \<Longrightarrow> coord_step C aw c c'"

subsection \<open>The invariant\<close>

text \<open>What a guard is for never changes; only whether it is held and its renewer do.\<close>

definition guard_for :: "Config \<Rightarrow> PeerInfo \<Rightarrow> cluster_name \<Rightarrow> lease_guard \<Rightarrow> bool" where
  "guard_for cfg self n g \<longleftrightarrow>
     g_onLost g = Some n \<and> g_id g = ID self \<and> guard_key g = NsName (FenceNS cfg) (fenceName cfg n)"

definition eng_ok :: "'s coordinator \<Rightarrow> cluster_name \<Rightarrow> engagement \<Rightarrow> bool" where
  "eng_ok c n e \<longleftrightarrow>
     e_name e = n \<and> e_token e < c_tokens c \<and>
     (\<forall>g. e_fence e = Some g \<longrightarrow>
        g < length (c_guards c) \<and> guard_for (c_cfg c) (c_self c) n (c_guards c ! g)) \<and>
     (e_started e \<longrightarrow> e_fence e \<noteq> None \<and> e_cancel e \<noteq> None \<and> e_ctx e = e_cancel e) \<and>
     (\<forall>k. e_cancel e = Some k \<longrightarrow> k < length (c_ctxs c))"

fun go_ok :: "'s coordinator \<Rightarrow> goroutine \<Rightarrow> bool" where
  "go_ok c (Watch p n tok) = (tok < c_tokens c)"
| "go_ok c (Recompute p) = True"
| "go_ok c (ReleaseFence g) = (g < length (c_guards c))"
| "go_ok c (StartFor k n cl) = (k < length (c_ctxs c))"
| "go_ok c (RenewLoop g k) = (g < length (c_guards c))"

definition coord_inv :: "'s coordinator \<Rightarrow> bool" where
  "coord_inv c \<longleftrightarrow>
     (\<forall>n e. fmlookup (c_engaged c) n = Some e \<longrightarrow> eng_ok c n e) \<and>
     (\<forall>g \<in> set (c_go c). go_ok c g)"

lemma coord_invI:
  assumes "\<And>n e. fmlookup (c_engaged c) n = Some e \<Longrightarrow> eng_ok c n e"
    and "\<And>g. g \<in> set (c_go c) \<Longrightarrow> go_ok c g"
  shows "coord_inv c"
  using assms by (simp add: coord_inv_def)

lemma coord_invD:
  assumes "coord_inv c"
  shows "\<And>n e. fmlookup (c_engaged c) n = Some e \<Longrightarrow> eng_ok c n e"
    and "\<And>g. g \<in> set (c_go c) \<Longrightarrow> go_ok c g"
  using assms by (simp_all add: coord_inv_def)

text \<open>What every step may do to the rest of the state.\<close>

definition evolves :: "'s coordinator \<Rightarrow> 's coordinator \<Rightarrow> bool" where
  "evolves c c' \<longleftrightarrow>
     c_sharder c' = c_sharder c \<and> c_self c' = c_self c \<and> c_cfg c' = c_cfg c \<and>
     c_tokens c \<le> c_tokens c' \<and> length (c_ctxs c) \<le> length (c_ctxs c') \<and>
     length (c_guards c) \<le> length (c_guards c') \<and>
     (\<forall>g < length (c_guards c). \<forall>n. guard_for (c_cfg c) (c_self c) n (c_guards c ! g) \<longrightarrow>
        guard_for (c_cfg c) (c_self c) n (c_guards c' ! g))"

lemma evolves_refl [simp]: "evolves c c"
  by (simp add: evolves_def)

lemma evolves_trans [trans]:
  "evolves a b \<Longrightarrow> evolves b c \<Longrightarrow> evolves a c"
  unfolding evolves_def by (metis order_trans order_less_le_trans)

lemma eng_ok_evolves: "eng_ok c n e \<Longrightarrow> evolves c c' \<Longrightarrow> eng_ok c' n e"
  unfolding eng_ok_def evolves_def by (metis order_less_le_trans)

lemma go_ok_evolves: "go_ok c g \<Longrightarrow> evolves c c' \<Longrightarrow> go_ok c' g"
  by (cases "(c, g)" rule: go_ok.cases) (auto simp: evolves_def)

lemma coord_inv_evolves:
  assumes "coord_inv c" and "evolves c c'"
    and "\<And>n e. fmlookup (c_engaged c') n = Some e \<Longrightarrow>
       fmlookup (c_engaged c) n = Some e \<or> eng_ok c' n e"
    and "\<And>g. g \<in> set (c_go c') \<Longrightarrow> g \<in> set (c_go c) \<or> go_ok c' g"
  shows "coord_inv c'"
proof (rule coord_invI)
  show "eng_ok c' n e" if "fmlookup (c_engaged c') n = Some e" for n e
    using assms(3)[OF that] coord_invD(1)[OF assms(1)] assms(2) eng_ok_evolves by blast
  show "go_ok c' g" if "g \<in> set (c_go c')" for g
    using assms(4)[OF that] coord_invD(2)[OF assms(1)] assms(2) go_ok_evolves by blast
qed

subsection \<open>Building blocks\<close>

lemma put_engaged_sel [simp]:
  "c_engaged (put_engaged n e c) = fmupd n e (c_engaged c)"
  "c_go (put_engaged n e c) = c_go c" "c_guards (put_engaged n e c) = c_guards c"
  "c_ctxs (put_engaged n e c) = c_ctxs c" "c_srv (put_engaged n e c) = c_srv c"
  "c_self (put_engaged n e c) = c_self c" "c_cfg (put_engaged n e c) = c_cfg c"
  "c_sharder (put_engaged n e c) = c_sharder c" "c_tokens (put_engaged n e c) = c_tokens c"
  "c_awares (put_engaged n e c) = c_awares c" "c_calls (put_engaged n e c) = c_calls c"
  by (simp_all add: put_engaged_def)

lemma spawn_sel [simp]:
  "c_engaged (spawn g c) = c_engaged c" "c_go (spawn g c) = c_go c @ [g]"
  "c_guards (spawn g c) = c_guards c" "c_ctxs (spawn g c) = c_ctxs c"
  "c_srv (spawn g c) = c_srv c" "c_self (spawn g c) = c_self c" "c_cfg (spawn g c) = c_cfg c"
  "c_sharder (spawn g c) = c_sharder c" "c_tokens (spawn g c) = c_tokens c"
  "c_awares (spawn g c) = c_awares c" "c_calls (spawn g c) = c_calls c"
  by (simp_all add: spawn_def)

lemma guard_for_upd [simp]:
  "guard_for cfg self n (g\<lparr>g_held := h\<rparr>) = guard_for cfg self n g"
  "guard_for cfg self n (g\<lparr>g_cancel := k\<rparr>) = guard_for cfg self n g"
  by (simp_all add: guard_for_def)

lemma guard_for_new:
  "guard_for cfg self n
     (newLeaseGuard (FenceNS cfg) (fenceName cfg n) (ID self) d r (Some n))"
  by (simp add: guard_for_def newLeaseGuard_def guard_key_def)

lemma eng_ok_guard_inj:
  assumes "eng_ok c n e" and "eng_ok c m f" and "e_fence e = Some g" and "e_fence f = Some g"
  shows "n = m"
  using assms by (simp add: eng_ok_def guard_for_def)

lemma TryAcquire_frame:
  assumes "TryAcquire C g t S s = (r, g', S', s')"
  shows "guard_for cfg self n g \<Longrightarrow> guard_for cfg self n g'" and "length S \<le> length S'"
    and "r \<Longrightarrow> g_held g'" and "\<not> r \<Longrightarrow> g' = g" and "d < length S \<Longrightarrow> ctx_err S' d = ctx_err S d"
proof -
  have *: "(guard_for cfg self n g \<longrightarrow> guard_for cfg self n g') \<and> length S \<le> length S' \<and>
      (r \<longrightarrow> g_held g') \<and> (\<not> r \<longrightarrow> g' = g) \<and> (d < length S \<longrightarrow> ctx_err S' d = ctx_err S d)"
  proof (cases "g_held g")
    case True
    with assms show ?thesis by (simp add: TryAcquire_held)
  next
    case False
    note res = TryAcquire_result[OF assms False]
    show ?thesis
    proof (cases r)
      case True
      with res have "start_renewer g S = (g', S')" by simp
      from start_renewer_sel[OF this] True show ?thesis by auto
    next
      case f: False
      with res show ?thesis by simp
    qed
  qed
  then show "guard_for cfg self n g \<Longrightarrow> guard_for cfg self n g'" and "length S \<le> length S'"
    and "r \<Longrightarrow> g_held g'" and "\<not> r \<Longrightarrow> g' = g" and "d < length S \<Longrightarrow> ctx_err S' d = ctx_err S d"
    by auto
qed

lemma evolvesI:
  assumes "c_sharder c' = c_sharder c" "c_self c' = c_self c" "c_cfg c' = c_cfg c"
    "c_tokens c \<le> c_tokens c'" "length (c_ctxs c) \<le> length (c_ctxs c')"
    "length (c_guards c) \<le> length (c_guards c')"
    "\<And>g n. g < length (c_guards c) \<Longrightarrow> guard_for (c_cfg c) (c_self c) n (c_guards c ! g) \<Longrightarrow>
        guard_for (c_cfg c) (c_self c) n (c_guards c' ! g)"
  shows "evolves c c'"
  using assms by (simp add: evolves_def)

lemma evolves_put [simp]: "evolves c (put_engaged n e c')  = evolves c c'"
  by (simp add: evolves_def)

lemma evolves_spawn [simp]: "evolves c (spawn g c') = evolves c c'"
  by (simp add: evolves_def)

lemma evolves_ctxs:
  "evolves c c' \<Longrightarrow> length (c_ctxs c') \<le> length S \<Longrightarrow> evolves c (set_ctxs c' S)"
  by (simp add: evolves_def)

lemma ensure_fence_spec:
  assumes "ensure_fence n e c = (g, e', c')" and "eng_ok c n e"
  shows "evolves c c'" and "c_go c' = c_go c" and "c_ctxs c' = c_ctxs c" and "c_srv c' = c_srv c"
    and "e' = e\<lparr>e_fence := Some g\<rparr>" and "eng_ok c' n e'"
    and "\<And>m. m \<noteq> n \<Longrightarrow> fmlookup (c_engaged c') m = fmlookup (c_engaged c) m"
    and "\<And>h. h < length (c_guards c) \<Longrightarrow> c_guards c' ! h = c_guards c ! h"
    and "fmlookup (c_engaged c) n = Some e \<Longrightarrow> fmlookup (c_engaged c') n = Some e'"
proof -
  have ev: "evolves c c'" using assms(1)
    by (auto simp: ensure_fence_def Let_def nth_append intro!: evolvesI split: option.splits)
  then show "evolves c c'" .
  show "c_go c' = c_go c" "c_ctxs c' = c_ctxs c" "c_srv c' = c_srv c"
    "e' = e\<lparr>e_fence := Some g\<rparr>" using assms(1)
    by (auto simp: ensure_fence_def Let_def split: option.splits)
  show "fmlookup (c_engaged c') m = fmlookup (c_engaged c) m" if "m \<noteq> n" for m
    using assms(1) that by (auto simp: ensure_fence_def Let_def split: option.splits)
  show "c_guards c' ! h = c_guards c ! h" if "h < length (c_guards c)" for h
    using assms(1) that by (auto simp: ensure_fence_def Let_def nth_append split: option.splits)
  show "fmlookup (c_engaged c') n = Some e'" if "fmlookup (c_engaged c) n = Some e"
    using assms(1) that by (auto simp: ensure_fence_def Let_def split: option.splits)
  show "eng_ok c' n e'"
  proof (cases "e_fence e")
    case None
    with assms show ?thesis
      by (auto simp: ensure_fence_def Let_def eng_ok_def guard_for_new)
  next
    case (Some h)
    with assms show ?thesis by (simp add: ensure_fence_def)
  qed
qed

lemma try_fence_spec:
  assumes "try_fence C g t c = (r, c')" and "g < length (c_guards c)"
  shows "evolves c c'" and "c_engaged c' = c_engaged c"
    and "\<And>x. x \<in> set (c_go c') \<Longrightarrow> x \<in> set (c_go c) \<or> (\<exists>k. x = RenewLoop g k)"
    and "\<And>x. x \<in> set (c_go c) \<Longrightarrow> x \<in> set (c_go c')"
    and "r \<Longrightarrow> g_held (c_guards c' ! g)"
    and "\<And>h. h \<noteq> g \<Longrightarrow> c_guards c' ! h = c_guards c ! h"
    and "length (c_guards c') = length (c_guards c)"
    and "\<not> r \<Longrightarrow> c_guards c' = c_guards c"
    and "\<And>d. d < length (c_ctxs c) \<Longrightarrow> ctx_err (c_ctxs c') d = ctx_err (c_ctxs c) d"
proof -
  obtain new S' s' where t: "TryAcquire C (c_guards c ! g) t (c_ctxs c) (c_srv c) = (r, new, S', s')"
    and c': "c' = (case (r \<and> \<not> g_held (c_guards c ! g), g_cancel new) of
        (True, Some rctx) \<Rightarrow> spawn (RenewLoop g rctx)
            (c\<lparr>c_guards := (c_guards c)[g := new], c_ctxs := S', c_srv := s'\<rparr>)
      | _ \<Rightarrow> c\<lparr>c_guards := (c_guards c)[g := new], c_ctxs := S', c_srv := s'\<rparr>)"
    using assms(1) by (auto simp: try_fence_def Let_def split: prod.splits)
  have sel: "c_guards c' = (c_guards c)[g := new]" "c_ctxs c' = S'" "c_engaged c' = c_engaged c"
    "c_sharder c' = c_sharder c" "c_self c' = c_self c" "c_cfg c' = c_cfg c" "c_tokens c' = c_tokens c"
    unfolding c' by (simp_all split: option.splits bool.splits)
  note fr = TryAcquire_frame[OF t]
  show "evolves c c'"
    by (rule evolvesI) (use sel fr(1,2) assms(2) in \<open>auto simp: nth_list_update\<close>)
  show "c_engaged c' = c_engaged c" by (rule sel)
  show "x \<in> set (c_go c) \<or> (\<exists>k. x = RenewLoop g k)" if "x \<in> set (c_go c')" for x
    using that unfolding c' by (auto split: option.splits bool.splits)
  show "x \<in> set (c_go c')" if "x \<in> set (c_go c)" for x
    using that unfolding c' by (auto split: option.splits bool.splits)
  show "g_held (c_guards c' ! g)" if r using sel(1) fr(3)[OF that] assms(2) by simp
  show "c_guards c' ! h = c_guards c ! h" if "h \<noteq> g" for h using sel(1) that by simp
  show "length (c_guards c') = length (c_guards c)" by (simp add: sel)
  show "c_guards c' = c_guards c" if "\<not> r" using sel(1) fr(4)[OF that] by simp
  show "ctx_err (c_ctxs c') d = ctx_err (c_ctxs c) d" if "d < length (c_ctxs c)" for d
    using sel(2) fr(5)[OF that] by simp
qed

subsection \<open>One iteration of the decision loop\<close>

text \<open>What an iteration does to the engagement it looks at.\<close>

definition decided :: "bool \<Rightarrow> engagement \<Rightarrow> 's coordinator \<Rightarrow> engagement \<Rightarrow> bool" where
  "decided should e c' e' \<longleftrightarrow>
     e_token e' = e_token e \<and> e_cl e' = e_cl e \<and>
     (e_started e' \<longrightarrow> should \<and>
        (e_started e \<or> (\<exists>g. e_fence e' = Some g \<and> g_held (c_guards c' ! g)))) \<and>
     (should \<and> e_started e \<longrightarrow> e' = e)"

lemma eng_ok_put [simp]: "eng_ok (put_engaged n e c) m f = eng_ok c m f"
  by (simp add: eng_ok_def)

lemma coord_inv_put:
  "coord_inv c \<Longrightarrow> eng_ok c n e \<Longrightarrow> coord_inv (put_engaged n e c)"
  by (rule coord_inv_evolves) (auto split: if_splits)

lemma recompute_start_spec:
  assumes inv: "coord_inv c" and e: "fmlookup (c_engaged c) n = Some e" and ns: "\<not> e_started e"
    and r: "recompute_start C parent now t n e (c, starts) = (c', starts')"
  shows "evolves c c'" and "coord_inv c'"
    and "\<And>m. m \<noteq> n \<Longrightarrow> fmlookup (c_engaged c') m = fmlookup (c_engaged c) m"
    and "\<And>g. e_fence e \<noteq> Some g \<Longrightarrow> g < length (c_guards c) \<Longrightarrow> c_guards c' ! g = c_guards c ! g"
    and "\<exists>e'. fmlookup (c_engaged c') n = Some e' \<and> decided True e c' e'"
    and "\<exists>xs. starts' = starts @ xs \<and> (\<forall>(m, cl, k) \<in> set xs. k < length (c_ctxs c'))"
    and "set (c_go c) \<subseteq> set (c_go c')"
proof -
  note ok = coord_invD(1)[OF inv e]
  obtain g e1 c1 where f: "ensure_fence n e c = (g, e1, c1)" by (metis prod_cases3)
  note ef = ensure_fence_spec[OF f ok]
  have g: "g < length (c_guards c1)" using ef(5,6) by (simp add: eng_ok_def)
  have inv1: "coord_inv c1"
    by (rule coord_inv_evolves[OF inv ef(1)]) (use ef e in \<open>metis option.inject\<close>, use ef(2) in simp)
  have ge: "e_fence e \<noteq> Some h \<Longrightarrow> h < length (c_guards c) \<Longrightarrow> h \<noteq> g" for h
    using f by (auto simp: ensure_fence_def Let_def split: option.splits)
  obtain rr c2 where tf: "try_fence C g t c1 = (rr, c2)" by fastforce
  note ts = try_fence_spec[OF tf g]
  have ev2: "evolves c c2" using ef(1) ts(1) by (rule evolves_trans)
  have ok2: "eng_ok c2 n e1" using ef(6) ts(1) by (rule eng_ok_evolves)
  have inv2: "coord_inv c2"
    by (rule coord_inv_evolves[OF inv1 ts(1)])
       (use ts(2) in simp, use ts(3,7) g in fastforce)
  let ?w = "c' = c1 \<and> starts' = starts"
  let ?f = "\<exists>x. c' = put_engaged n (e1\<lparr>e_nextTry := x\<rparr>) c2 \<and> starts' = starts"
  let ?s = "rr \<and> c' = put_engaged n (e1\<lparr>e_ctx := Some (length (c_ctxs c2)),
        e_cancel := Some (length (c_ctxs c2)), e_started := True\<rparr>)
        (set_ctxs c2 (fst (with_cancel (c_ctxs c2) parent))) \<and>
      starts' = starts @ [(e_name e, e_cl e, length (c_ctxs c2))]"
  have cases: "?w \<or> ?f \<or> ?s"
    using r f tf
    by (auto simp: recompute_start_def Let_def with_cancel_def split: if_splits bool.splits)
  let ?c3 = "set_ctxs c2 (fst (with_cancel (c_ctxs c2) parent))"
  have ev3: "evolves c2 ?c3" by (rule evolves_ctxs) simp_all
  have inv3: "coord_inv ?c3" by (rule coord_inv_evolves[OF inv2 ev3]) auto
  have oks: "eng_ok ?c3 n (e1\<lparr>e_ctx := Some (length (c_ctxs c2)),
        e_cancel := Some (length (c_ctxs c2)), e_started := True\<rparr>)"
    using eng_ok_evolves[OF ok2 ev3] ef(5) by (auto simp: eng_ok_def)
  have okf: "eng_ok c2 n (e1\<lparr>e_nextTry := x\<rparr>)" for x using ok2 by (simp add: eng_ok_def)
  show "evolves c c'" using cases ef(1) ev2 evolves_trans[OF ev2 ev3] by auto
  show "coord_inv c'" using cases inv1 coord_inv_put[OF inv2 okf] coord_inv_put[OF inv3 oks] by auto
  show "fmlookup (c_engaged c') m = fmlookup (c_engaged c) m" if "m \<noteq> n" for m
    using cases ef(7)[OF that] ts(2) that by auto
  show "c_guards c' ! h = c_guards c ! h" if "e_fence e \<noteq> Some h" "h < length (c_guards c)" for h
    using cases ef(8)[OF that(2)] ts(6)[OF ge[OF that]] by auto
  show "\<exists>e'. fmlookup (c_engaged c') n = Some e' \<and> decided True e c' e'"
    using cases ef(5,9) e ns ts(2,5) by (auto simp: decided_def)
  show "\<exists>xs. starts' = starts @ xs \<and> (\<forall>(m, cl, k) \<in> set xs. k < length (c_ctxs c'))"
    using cases by auto
  show "set (c_go c) \<subseteq> set (c_go c')" using cases ef(2) ts(4) by auto
qed

lemma coord_inv_spawn: "coord_inv c \<Longrightarrow> go_ok c g \<Longrightarrow> coord_inv (spawn g c)"
  by (rule coord_inv_evolves) (auto dest: go_ok_evolves[of c g "spawn g c"])

lemma recompute_stop_spec:
  assumes inv: "coord_inv c" and e: "fmlookup (c_engaged c) n = Some e"
    and r: "recompute_stop n e (c, stops) = (c', stops')"
  shows "evolves c c'" and "coord_inv c'"
    and "\<And>m. m \<noteq> n \<Longrightarrow> fmlookup (c_engaged c') m = fmlookup (c_engaged c) m"
    and "c_guards c' = c_guards c" and "c_ctxs c' = c_ctxs c"
    and "\<exists>e'. fmlookup (c_engaged c') n = Some e' \<and> \<not> e_started e' \<and> decided False e c' e'"
    and "stops' = stops @ (case e_cancel e of None \<Rightarrow> [] | Some k \<Rightarrow> [k])"
    and "\<And>g. e_fence e = Some g \<Longrightarrow> ReleaseFence g \<in> set (c_go c')"
    and "set (c_go c) \<subseteq> set (c_go c')"
proof -
  let ?e = "e\<lparr>e_cancel := None, e_started := False, e_nextTry := zero_time\<rparr>"
  let ?c1 = "case e_fence e of None \<Rightarrow> c | Some g \<Rightarrow> spawn (ReleaseFence g) c"
  note ok = coord_invD(1)[OF inv e]
  have c': "c' = put_engaged n ?e ?c1"
    and st: "stops' = stops @ (case e_cancel e of None \<Rightarrow> [] | Some k \<Rightarrow> [k])"
    using r by (auto simp: recompute_stop_def Let_def split: option.splits)
  have ev1: "evolves c ?c1" by (simp split: option.splits)
  then show "evolves c c'" by (simp add: c')
  have "coord_inv ?c1"
    using inv ok by (auto simp: eng_ok_def intro!: coord_inv_spawn split: option.splits)
  moreover have "eng_ok ?c1 n ?e"
    using eng_ok_evolves[OF ok ev1] by (simp add: eng_ok_def)
  ultimately show "coord_inv c'" unfolding c' by (rule coord_inv_put)
  show "fmlookup (c_engaged c') m = fmlookup (c_engaged c) m" if "m \<noteq> n" for m
    using that by (simp add: c' split: option.splits)
  show "c_guards c' = c_guards c" "c_ctxs c' = c_ctxs c" by (simp_all add: c' split: option.splits)
  show "\<exists>e'. fmlookup (c_engaged c') n = Some e' \<and> \<not> e_started e' \<and> decided False e c' e'"
    by (simp add: c' decided_def)
  show "stops' = stops @ (case e_cancel e of None \<Rightarrow> [] | Some k \<Rightarrow> [k])" by (rule st)
  show "ReleaseFence g \<in> set (c_go c')" if "e_fence e = Some g" for g
    using that by (simp add: c')
  show "set (c_go c) \<subseteq> set (c_go c')" by (auto simp: c' split: option.splits)
qed

text \<open>
  What iterations over the names in \<open>P\<close> have done: both branches together, in the form that
  composes over the fold.
\<close>

definition looped ::
  "PeerInfo list \<Rightarrow> cluster_name set \<Rightarrow> 's coordinator \<times> start list \<times> ctx list \<Rightarrow>
   's coordinator \<times> start list \<times> ctx list \<Rightarrow> bool" where
  "looped peers P = (\<lambda>(c, starts, stops) (c', starts', stops').
     evolves c c' \<and> coord_inv c' \<and> set stops \<subseteq> set stops' \<and>
     (\<forall>m. m \<notin> P \<longrightarrow> fmlookup (c_engaged c') m = fmlookup (c_engaged c) m) \<and>
     (\<forall>m f g. m \<notin> P \<longrightarrow> fmlookup (c_engaged c) m = Some f \<longrightarrow> e_fence f = Some g \<longrightarrow>
        c_guards c' ! g = c_guards c ! g) \<and>
     (\<forall>n \<in> P. \<forall>e. fmlookup (c_engaged c) n = Some e \<longrightarrow>
        (\<exists>e'. fmlookup (c_engaged c') n = Some e' \<and>
           decided (c_sharder c n peers (c_self c)) e c' e')) \<and>
     (\<forall>n \<in> P. \<forall>e k. fmlookup (c_engaged c) n = Some e \<longrightarrow> e_started e \<longrightarrow> e_cancel e = Some k \<longrightarrow>
        \<not> c_sharder c n peers (c_self c) \<longrightarrow> k \<in> set stops') \<and>
     ((\<forall>x \<in> set starts. snd (snd x) < length (c_ctxs c)) \<longrightarrow>
      (\<forall>x \<in> set starts'. snd (snd x) < length (c_ctxs c'))) \<and>
     fmdom (c_engaged c') = fmdom (c_engaged c) \<and>
     set (c_go c) \<subseteq> set (c_go c') \<and>
     (\<forall>n \<in> P. \<forall>e g. fmlookup (c_engaged c) n = Some e \<longrightarrow> e_started e \<longrightarrow> e_fence e = Some g \<longrightarrow>
        \<not> c_sharder c n peers (c_self c) \<longrightarrow> ReleaseFence g \<in> set (c_go c')))"

lemma loopedD:
  assumes "looped peers P (c, starts, stops) (c', starts', stops')"
  shows "evolves c c'" and "coord_inv c'" and "set stops \<subseteq> set stops'"
    and "\<And>m. m \<notin> P \<Longrightarrow> fmlookup (c_engaged c') m = fmlookup (c_engaged c) m"
    and "\<And>m f g. m \<notin> P \<Longrightarrow> fmlookup (c_engaged c) m = Some f \<Longrightarrow> e_fence f = Some g \<Longrightarrow>
           c_guards c' ! g = c_guards c ! g"
    and "\<And>n e. n \<in> P \<Longrightarrow> fmlookup (c_engaged c) n = Some e \<Longrightarrow>
           \<exists>e'. fmlookup (c_engaged c') n = Some e' \<and>
             decided (c_sharder c n peers (c_self c)) e c' e'"
    and "\<And>n e k. n \<in> P \<Longrightarrow> fmlookup (c_engaged c) n = Some e \<Longrightarrow> e_started e \<Longrightarrow>
           e_cancel e = Some k \<Longrightarrow> \<not> c_sharder c n peers (c_self c) \<Longrightarrow> k \<in> set stops'"
    and "\<forall>x \<in> set starts. snd (snd x) < length (c_ctxs c) \<Longrightarrow>
         \<forall>x \<in> set starts'. snd (snd x) < length (c_ctxs c')"
    and "fmdom (c_engaged c') = fmdom (c_engaged c)"
    and "set (c_go c) \<subseteq> set (c_go c')"
    and "\<And>n e g. n \<in> P \<Longrightarrow> fmlookup (c_engaged c) n = Some e \<Longrightarrow> e_started e \<Longrightarrow>
           e_fence e = Some g \<Longrightarrow> \<not> c_sharder c n peers (c_self c) \<Longrightarrow> ReleaseFence g \<in> set (c_go c')"
  using assms by (simp_all only: looped_def prod.case) blast+

lemma loopedI:
  assumes "evolves c c'" and "coord_inv c'" and "set stops \<subseteq> set stops'"
    and "\<And>m. m \<notin> P \<Longrightarrow> fmlookup (c_engaged c') m = fmlookup (c_engaged c) m"
    and "\<And>m f g. m \<notin> P \<Longrightarrow> fmlookup (c_engaged c) m = Some f \<Longrightarrow> e_fence f = Some g \<Longrightarrow>
           c_guards c' ! g = c_guards c ! g"
    and "\<And>n e. n \<in> P \<Longrightarrow> fmlookup (c_engaged c) n = Some e \<Longrightarrow>
           \<exists>e'. fmlookup (c_engaged c') n = Some e' \<and>
             decided (c_sharder c n peers (c_self c)) e c' e'"
    and "\<And>n e k. n \<in> P \<Longrightarrow> fmlookup (c_engaged c) n = Some e \<Longrightarrow> e_started e \<Longrightarrow>
           e_cancel e = Some k \<Longrightarrow> \<not> c_sharder c n peers (c_self c) \<Longrightarrow> k \<in> set stops'"
    and "\<forall>x \<in> set starts. snd (snd x) < length (c_ctxs c) \<Longrightarrow>
         \<forall>x \<in> set starts'. snd (snd x) < length (c_ctxs c')"
    and "fmdom (c_engaged c') = fmdom (c_engaged c)"
    and "set (c_go c) \<subseteq> set (c_go c')"
    and "\<And>n e g. n \<in> P \<Longrightarrow> fmlookup (c_engaged c) n = Some e \<Longrightarrow> e_started e \<Longrightarrow>
           e_fence e = Some g \<Longrightarrow> \<not> c_sharder c n peers (c_self c) \<Longrightarrow> ReleaseFence g \<in> set (c_go c')"
  shows "looped peers P (c, starts, stops) (c', starts', stops')"
  unfolding looped_def prod.case 
  by (intro conjI allI ballI impI; (rule assms; assumption)?) (use assms(8) in blast)

lemma looped_refl: "coord_inv c \<Longrightarrow> looped peers {} (c, starts, stops) (c, starts, stops)"
  by (simp add: looped_def)

lemma decided_guard:
  "decided b e c' e' \<Longrightarrow> (\<And>g. e_fence e' = Some g \<Longrightarrow> c_guards c'' ! g = c_guards c' ! g) \<Longrightarrow>
   decided b e c'' e'"
  by (auto simp: decided_def)

lemma looped_trans:
  assumes a: "looped peers P (c, s, k) (c', s', k')"
    and b: "looped peers Q (c', s', k') (c'', s'', k'')" and d: "P \<inter> Q = {}"
  shows "looped peers (P \<union> Q) (c, s, k) (c'', s'', k'')"
proof -
  have sh: "c_sharder c' = c_sharder c" "c_self c' = c_self c"
    using loopedD(1)[OF a] by (simp_all add: evolves_def)
  have "\<exists>e'. fmlookup (c_engaged c'') n = Some e' \<and>
      decided (c_sharder c n peers (c_self c)) e c'' e'"
    if n: "n \<in> P" and e: "fmlookup (c_engaged c) n = Some e" for n e
  proof -
    from loopedD(6)[OF a n e] obtain e' where e': "fmlookup (c_engaged c') n = Some e'"
      "decided (c_sharder c n peers (c_self c)) e c' e'" by blast
    from n d have "n \<notin> Q" by auto
    with e'(1) have "fmlookup (c_engaged c'') n = Some e'"
      "\<And>g. e_fence e' = Some g \<Longrightarrow> c_guards c'' ! g = c_guards c' ! g"
      using loopedD(4,5)[OF b] by auto
    with e'(2) show ?thesis by (auto intro: decided_guard)
  qed
  moreover have "\<exists>e'. fmlookup (c_engaged c'') n = Some e' \<and>
      decided (c_sharder c n peers (c_self c)) e c'' e'"
    if "n \<in> Q" and "fmlookup (c_engaged c) n = Some e" for n e
  proof -
    have "n \<notin> P" using that(1) d by auto
    then show ?thesis using loopedD(6)[OF b that(1), of e] loopedD(4)[OF a, of n] that(2) sh by simp
  qed
  moreover have "k0 \<in> set k''" if "n \<in> P \<union> Q" "fmlookup (c_engaged c) n = Some e" "e_started e"
      "e_cancel e = Some k0" "\<not> c_sharder c n peers (c_self c)" for n e k0
  proof (cases "n \<in> P")
    case True
    then show ?thesis using loopedD(7)[OF a True that(2-5)] loopedD(3)[OF b] by auto
  next
    case False
    with that have "n \<in> Q" "fmlookup (c_engaged c') n = Some e" using loopedD(4)[OF a] by auto
    then show ?thesis using loopedD(7)[OF b _ _ that(3,4)] that(5) sh by simp
  qed
  moreover have "c_guards c'' ! g = c_guards c ! g"
    if "m \<notin> P \<union> Q" "fmlookup (c_engaged c) m = Some f" "e_fence f = Some g" for m f g
    using loopedD(4,5)[OF a] loopedD(5)[OF b] that by (metis Un_iff)
  moreover have "ReleaseFence g \<in> set (c_go c'')" if "n \<in> P \<union> Q" "fmlookup (c_engaged c) n = Some e"
      "e_started e" "e_fence e = Some g" "\<not> c_sharder c n peers (c_self c)" for n e g
  proof (cases "n \<in> P")
    case True
    then show ?thesis using loopedD(11)[OF a True that(2-5)] loopedD(10)[OF b] by auto
  next
    case False
    with that have "n \<in> Q" "fmlookup (c_engaged c') n = Some e" using loopedD(4)[OF a] by auto
    then show ?thesis using loopedD(11)[OF b _ _ that(3,4)] that(5) sh by simp
  qed
  moreover have "fmlookup (c_engaged c'') m = fmlookup (c_engaged c) m" if "m \<notin> P \<union> Q" for m
    using loopedD(4)[OF a, of m] loopedD(4)[OF b, of m] that by simp
  ultimately show ?thesis
    using evolves_trans[OF loopedD(1)[OF a] loopedD(1)[OF b]] loopedD(2)[OF b]
      order_trans[OF loopedD(3)[OF a] loopedD(3)[OF b]] loopedD(8)[OF a, THEN loopedD(8)[OF b]]
      trans[OF loopedD(9)[OF b] loopedD(9)[OF a]] order_trans[OF loopedD(10)[OF a] loopedD(10)[OF b]]
    by (intro loopedI) (assumption | blast)+
qed

lemma fmdom_eq_lookup:
  "(\<And>k. fmlookup m k = None \<longleftrightarrow> fmlookup m' k = None) \<Longrightarrow> fmdom m = fmdom m'"
  by (rule fset_eqI) (metis fmdom_notD fmdom_notI)

lemma recompute_one_looped:
  assumes inv: "coord_inv c"
  shows "looped peers {n} (c, starts, stops) (recompute_one C peers parent now t n (c, starts, stops))"
proof (cases "fmlookup (c_engaged c) n")
  case None
  with inv show ?thesis by (simp add: recompute_one_def looped_def)
next
  case (Some e)
  let ?should = "c_sharder c n peers (c_self c)"
  have other: "e_fence e \<noteq> Some g \<and> g < length (c_guards c)"
    if "m \<noteq> n" "fmlookup (c_engaged c) m = Some f" "e_fence f = Some g" for m f g
    using eng_ok_guard_inj[OF coord_invD(1)[OF inv that(2)] coord_invD(1)[OF inv Some] that(3)]
      coord_invD(1)[OF inv that(2)] that(1,3) by (auto simp: eng_ok_def)
  have dom: "fmdom (c_engaged c') = fmdom (c_engaged c)"
    if "\<And>m. m \<noteq> n \<Longrightarrow> fmlookup (c_engaged c') m = fmlookup (c_engaged c) m"
      "\<exists>e'. fmlookup (c_engaged c') n = Some e'" for c' :: "'a coordinator"
    using that Some by (intro fmdom_eq_lookup) (metis option.distinct(1))
  consider (start) "?should" "\<not> e_started e" | (stop) "\<not> ?should" "e_started e"
    | (none) "?should = e_started e" by blast
  then show ?thesis
  proof cases
    case start
    obtain c' starts' where s: "recompute_start C parent now (t n) n e (c, starts) = (c', starts')"
      by fastforce
    note sp = recompute_start_spec[OF inv Some start(2) s]
    have "length (c_ctxs c) \<le> length (c_ctxs c')" using sp(1) by (simp add: evolves_def)
    with sp(6) have "(\<forall>x \<in> set starts. snd (snd x) < length (c_ctxs c)) \<longrightarrow>
        (\<forall>x \<in> set starts'. snd (snd x) < length (c_ctxs c'))" by (auto dest!: bspec)
    with sp other start Some s dom[of c'] show ?thesis
      by (auto simp: recompute_one_def looped_def)
  next
    case stop
    obtain c' stops' where s: "recompute_stop n e (c, stops) = (c', stops')" by fastforce
    note sp = recompute_stop_spec[OF inv Some s]
    from sp stop Some s dom[of c'] show ?thesis by (auto simp: recompute_one_def looped_def)
  next
    case none
    with Some have "recompute_one C peers parent now t n (c, starts, stops) = (c, starts, stops)"
      by (auto simp: recompute_one_def)
    with inv none Some show ?thesis by (auto simp: decided_def looped_def)
  qed
qed

lemma recompute_fold_looped:
  "coord_inv c \<Longrightarrow> distinct ord \<Longrightarrow>
   looped peers (set ord) (c, starts, stops)
     (fold (recompute_one C peers parent now t) ord (c, starts, stops))"
proof (induction ord arbitrary: c starts stops)
  case Nil
  then show ?case by (simp add: looped_refl)
next
  case (Cons n ord)
  obtain c' s' k' where one: "recompute_one C peers parent now t n (c, starts, stops) = (c', s', k')"
    by (metis prod_cases3)
  have l1: "looped peers {n} (c, starts, stops) (c', s', k')"
    using recompute_one_looped[OF Cons.prems(1)] one by metis
  note loopedD(2)[OF this]
  with Cons.IH Cons.prems(2)
  have l2: "looped peers (set ord) (c', s', k')
      (fold (recompute_one C peers parent now t) ord (c', s', k'))" by simp
  obtain c'' s'' k'' where f: "fold (recompute_one C peers parent now t) ord (c', s', k') = (c'', s'', k'')"
    by (metis prod_cases3)
  with l2 have "looped peers ({n} \<union> set ord) (c, starts, stops) (c'', s'', k'')"
    using Cons.prems(2) by (intro looped_trans[OF l1]) auto
  with one f show ?case by simp
qed

subsection \<open>recompute\<close>

lemma fold_spawn_starts:
  "fold (\<lambda>(n, cl, k). spawn (StartFor k n cl)) starts c =
     c\<lparr>c_go := c_go c @ map (\<lambda>(n, cl, k). StartFor k n cl) starts\<rparr>"
  by (induction starts arbitrary: c) (auto simp: spawn_def)

text \<open>
  The decision loop as a whole: what it keeps, which clusters run afterwards, and that a
  cluster that moved away has its context cancelled.
\<close>

lemma recompute_result:
  assumes inv: "coord_inv c" and ord: "iter_order (c_engaged c) ord"
    and r: "recompute C peers ord parent now t c = c'"
  shows "evolves c c'" and "coord_inv c'"
    and "fmdom (c_engaged c') = fmdom (c_engaged c)"
    and "\<And>n e. fmlookup (c_engaged c) n = Some e \<Longrightarrow>
           \<exists>e'. fmlookup (c_engaged c') n = Some e' \<and>
             decided (c_sharder c n peers (c_self c)) e c' e'"
    and "\<And>n e k. fmlookup (c_engaged c) n = Some e \<Longrightarrow> e_started e \<Longrightarrow> e_cancel e = Some k \<Longrightarrow>
           \<not> c_sharder c n peers (c_self c) \<Longrightarrow> ctx_err (c_ctxs c') k"
    and "\<And>n e g. fmlookup (c_engaged c) n = Some e \<Longrightarrow> e_started e \<Longrightarrow> e_fence e = Some g \<Longrightarrow>
           \<not> c_sharder c n peers (c_self c) \<Longrightarrow> ReleaseFence g \<in> set (c_go c')"
proof -
  obtain c1 starts stops where f: "fold (recompute_one C peers parent now t) ord (c, [], []) = (c1, starts, stops)"
    by (metis prod_cases3)
  have l: "looped peers (set ord) (c, [], []) (c1, starts, stops)"
    using recompute_fold_looped[OF inv, of ord peers "[]" "[]" C parent now t] ord f
    by (simp add: iter_order_def)
  let ?c2 = "set_ctxs c1 (cancel_all stops (c_ctxs c1))"
  have c': "c' = ?c2\<lparr>c_go := c_go c1 @ map (\<lambda>(n, cl, k). StartFor k n cl) starts\<rparr>"
    using r f by (simp add: recompute_def Let_def fold_spawn_starts)
  have ev1: "evolves c1 c'" by (simp add: c' evolves_def)
  then show "evolves c c'" using evolves_trans[OF loopedD(1)[OF l]] by blast
  show "coord_inv c'"
    by (rule coord_inv_evolves[OF loopedD(2)[OF l] ev1])
       (use loopedD(8)[OF l] in \<open>auto simp: c' split: prod.splits\<close>)
  show "fmdom (c_engaged c') = fmdom (c_engaged c)" using loopedD(9)[OF l] by (simp add: c')
  have mem: "n \<in> set ord" if "fmlookup (c_engaged c) n = Some e" for n e
    using ord that by (auto simp: iter_order_def intro: fmdomI)
  show "\<exists>e'. fmlookup (c_engaged c') n = Some e' \<and> decided (c_sharder c n peers (c_self c)) e c' e'"
    if "fmlookup (c_engaged c) n = Some e" for n e
    using loopedD(6)[OF l mem[OF that] that] by (auto simp: c' decided_def)
  show "ctx_err (c_ctxs c') k"
    if "fmlookup (c_engaged c) n = Some e" "e_started e" "e_cancel e = Some k"
      "\<not> c_sharder c n peers (c_self c)" for n e k
  proof -
    have "k \<in> set stops" using loopedD(7)[OF l mem[OF that(1)] that] .
    moreover have "k < length (c_ctxs c1)"
      using coord_invD(1)[OF inv that(1)] loopedD(1)[OF l] that(3) by (simp add: eng_ok_def evolves_def)
    ultimately show ?thesis by (simp add: c' ctx_err_cancel_all)
  qed
  show "ReleaseFence g \<in> set (c_go c')"
    if "fmlookup (c_engaged c) n = Some e" "e_started e" "e_fence e = Some g"
      "\<not> c_sharder c n peers (c_self c)" for n e g
    using loopedD(11)[OF l mem[OF that(1)] that] by (simp add: c')
qed

subsection \<open>The other operations keep the invariant\<close>

lemma coord_inv_ctxs:
  "coord_inv c \<Longrightarrow> length (c_ctxs c) \<le> length S \<Longrightarrow> coord_inv (set_ctxs c S)"
  by (rule coord_inv_evolves) (auto intro: evolves_ctxs)

lemma eng_ok_stopped: "eng_ok c n e \<Longrightarrow> eng_ok c n (e\<lparr>e_started := False\<rparr>)"
  by (simp add: eng_ok_def)

lemma put_engaged_tokens:
  "(put_engaged n e c)\<lparr>c_tokens := t\<rparr> = put_engaged n e (c\<lparr>c_tokens := t\<rparr>)"
  by (cases c) (simp add: put_engaged_def)

lemma Engage_inv:
  assumes inv: "coord_inv c" and r: "coordinator_Engage parent name cl c = (err, c')"
  shows "evolves c c'" and "coord_inv c'"
proof -
  let ?tok = "c_tokens c"
  let ?fence = "case fmlookup (c_engaged c) name of None \<Rightarrow> None | Some cur \<Rightarrow> e_fence cur"
  let ?S = "case fmlookup (c_engaged c) name of
      None \<Rightarrow> c_ctxs c | Some cur \<Rightarrow> cancel_opt (e_cancel cur) (c_ctxs c)"
  let ?c0 = "(set_ctxs c ?S)\<lparr>c_tokens := Suc ?tok\<rparr>"
  have len: "length ?S = length (c_ctxs c)" by (simp split: option.splits)
  have ev0: "evolves c ?c0" by (simp add: evolves_def len)
  have inv0: "coord_inv ?c0" by (rule coord_inv_evolves[OF inv ev0]) auto
  have ok: "eng_ok ?c0 name (new_engagement ?tok name cl ?fence)"
  proof (cases "fmlookup (c_engaged c) name")
    case None
    then show ?thesis by (simp add: eng_ok_def new_engagement_def)
  next
    case (Some cur)
    from coord_invD(1)[OF inv Some] Some show ?thesis by (simp add: eng_ok_def new_engagement_def)
  qed
  have "c' = c \<or> c' = spawn (Recompute parent) (spawn (Watch parent name ?tok)
        (put_engaged name (new_engagement ?tok name cl ?fence) ?c0))"
    using r by (auto simp: coordinator_Engage_def Let_def put_engaged_tokens split: if_splits option.splits)
  moreover have "coord_inv (spawn (Recompute parent) (spawn (Watch parent name ?tok)
        (put_engaged name (new_engagement ?tok name cl ?fence) ?c0)))"
    by (intro coord_inv_spawn coord_inv_put inv0 ok) simp_all
  ultimately show "evolves c c'" and "coord_inv c'" using inv ev0 by auto
qed

lemma watch_done_inv:
  assumes inv: "coord_inv c"
  shows "evolves c (watch_done key tok c)" and "coord_inv (watch_done key tok c)"
proof -
  have "evolves c (watch_done key tok c) \<and> coord_inv (watch_done key tok c)"
  proof (cases "fmlookup (c_engaged c) key")
    case None
    then show ?thesis using inv by (simp add: watch_done_def)
  next
    case (Some ee)
    let ?c1 = "if e_started ee then set_ctxs c (cancel_opt (e_cancel ee) (c_ctxs c)) else c"
    let ?c2 = "case e_fence ee of None \<Rightarrow> ?c1 | Some g \<Rightarrow> spawn (ReleaseFence g) ?c1"
    have ev1: "evolves c ?c1" by (simp add: evolves_ctxs)
    then have ev2: "evolves c ?c2" by (cases "e_fence ee") simp_all
    have "coord_inv ?c1" using inv by (simp add: coord_inv_ctxs)
    moreover have "go_ok ?c1 (ReleaseFence g)" if "e_fence ee = Some g" for g
      using coord_invD(1)[OF inv Some] that by (simp add: eng_ok_def)
    ultimately have inv2: "coord_inv ?c2" by (auto intro: coord_inv_spawn split: option.splits)
    have "coord_inv (?c2\<lparr>c_engaged := fmdrop key (c_engaged ?c2)\<rparr>)"
      by (rule coord_inv_evolves[OF inv2]) (auto simp: evolves_def split: if_splits)
    moreover have "evolves c (?c2\<lparr>c_engaged := fmdrop key (c_engaged ?c2)\<rparr>)"
      using ev2 by (simp add: evolves_def)
    moreover have "watch_done key tok c =
        (if e_token ee \<noteq> tok then c else ?c2\<lparr>c_engaged := fmdrop key (c_engaged ?c2)\<rparr>)"
      by (simp only: watch_done_def Some option.case Let_def)
    ultimately show ?thesis using inv by (cases "e_token ee = tok") simp_all
  qed
  then show "evolves c (watch_done key tok c)" and "coord_inv (watch_done key tok c)" by auto
qed

lemma startForCluster_inv:
  assumes inv: "coord_inv c"
  shows "evolves c (startForCluster aw cx name cl c)" and "coord_inv (startForCluster aw cx name cl c)"
proof -
  obtain err calls where e: "engage_awares aw cx name cl (c_awares c) (c_calls c) = (err, calls)"
    by fastforce
  let ?c1 = "c\<lparr>c_calls := calls\<rparr>"
  have ev1: "evolves c ?c1" by (simp add: evolves_def)
  have inv1: "coord_inv ?c1" by (rule coord_inv_evolves[OF inv ev1]) auto
  have stop: "evolves c (put_engaged name (engm\<lparr>e_started := False\<rparr>)
        (set_ctxs ?c1 (cancel_opt k (c_ctxs ?c1)))) \<and>
      coord_inv (put_engaged name (engm\<lparr>e_started := False\<rparr>) (set_ctxs ?c1 (cancel_opt k (c_ctxs ?c1))))"
    if "fmlookup (c_engaged c) name = Some engm" for engm k
  proof -
    let ?c2 = "set_ctxs ?c1 (cancel_opt k (c_ctxs ?c1))"
    have ev2: "evolves c ?c2" by (simp add: evolves_def)
    moreover have "eng_ok ?c2 name (engm\<lparr>e_started := False\<rparr>)"
      using coord_invD(1)[OF inv that] ev2 by (blast intro: eng_ok_stopped eng_ok_evolves)
    moreover have "coord_inv ?c2" by (rule coord_inv_ctxs[OF inv1]) simp
    ultimately show ?thesis by (simp add: coord_inv_put)
  qed
  have "startForCluster aw cx name cl c \<in> {?c1} \<union>
      {put_engaged name (engm\<lparr>e_started := False\<rparr>) (set_ctxs ?c1 (cancel_opt k (c_ctxs ?c1))) | engm k.
        fmlookup (c_engaged c) name = Some engm}"
    using e by (auto simp: startForCluster_def Let_def split: option.splits)
  then show "evolves c (startForCluster aw cx name cl c)"
    and "coord_inv (startForCluster aw cx name cl c)"
    using ev1 inv1 stop by auto
qed

lemma evolves_guard:
  assumes "new = c_guards c ! g \<or> new = (c_guards c ! g)\<lparr>g_held := False\<rparr>"
    and "length (c_ctxs c) \<le> length S"
  shows "evolves c (c\<lparr>c_guards := (c_guards c)[g := new], c_engaged := m, c_ctxs := S, c_srv := s\<rparr>)"
    (is "evolves c ?c'")
proof (rule evolvesI)
  fix h n
  assume "h < length (c_guards c)" "guard_for (c_cfg c) (c_self c) n (c_guards c ! h)"
  then show "guard_for (c_cfg c) (c_self c) n (c_guards ?c' ! h)"
    using assms(1) by (cases "h = g") auto
qed (use assms(2) in simp_all)

lemma release_fence_inv:
  assumes inv: "coord_inv c"
  shows "evolves c (release_fence C g c)" and "coord_inv (release_fence C g c)"
proof -
  obtain new S s where r: "Release C (c_guards c ! g) (c_ctxs c) (c_srv c) = (new, S, s)"
    by (metis prod_cases3)
  have c': "release_fence C g c =
      c\<lparr>c_guards := (c_guards c)[g := new], c_engaged := c_engaged c, c_ctxs := S, c_srv := s\<rparr>"
    by (simp add: release_fence_def r)
  show ev: "evolves c (release_fence C g c)"
    unfolding c' by (rule evolves_guard) (use Release_guard[OF r] in auto)
  show "coord_inv (release_fence C g c)"
    by (rule coord_inv_evolves[OF inv ev]) (auto simp: c')
qed

text \<open>A round of the renewer: at most, the guard's cluster is stopped and the guard let go.\<close>

lemma onLost_spec:
  assumes "onLost n (m, S) = (m', S')"
  shows "length S' = length S"
    and "\<And>k e'. fmlookup m' k = Some e' \<Longrightarrow>
           fmlookup m k = Some e' \<or> (\<exists>e. fmlookup m k = Some e \<and> e' = e\<lparr>e_started := False\<rparr>)"
    and "\<And>e k. fmlookup m n = Some e \<Longrightarrow> e_started e \<Longrightarrow> e_cancel e = Some k \<Longrightarrow>
           fmlookup m' n = Some (e\<lparr>e_started := False\<rparr>) \<and> S' = cancel S k"
  using assms by (auto simp: onLost_def cancel_opt_def split: option.splits if_splits)

lemma renew_round_inv:
  assumes inv: "coord_inv c" and r: "renew_round C g rctx seldone t c = (cont, c')"
  shows "evolves c c'" and "coord_inv c'" and "c_go c' = c_go c"
proof -
  let ?g = "c_guards c ! g"
  obtain new m S s where l: "renewLoop_round C onLost ?g rctx seldone t (c_engaged c, c_ctxs c) (c_srv c)
      = (cont, new, (m, S), s)"
    and c': "c' = c\<lparr>c_guards := (c_guards c)[g := new], c_engaged := m, c_ctxs := S, c_srv := s\<rparr>"
    using r by (auto simp: renew_round_def split: prod.splits)
  obtain m1 S1 where lost: "(case g_onLost ?g of None \<Rightarrow> (c_engaged c, c_ctxs c)
      | Some n \<Rightarrow> onLost n (c_engaged c, c_ctxs c)) = (m1, S1)" by fastforce
  have m1: "length S1 = length (c_ctxs c)" "\<And>k e'. fmlookup m1 k = Some e' \<Longrightarrow>
      fmlookup (c_engaged c) k = Some e' \<or>
      (\<exists>e. fmlookup (c_engaged c) k = Some e \<and> e' = e\<lparr>e_started := False\<rparr>)"
    using lost onLost_spec by (auto split: option.splits)
  have cases: "new = ?g \<and> m = c_engaged c \<and> S = c_ctxs c \<or>
      new = ?g\<lparr>g_held := False\<rparr> \<and> m = m1 \<and> length S = length S1"
    using l lost
    by (auto simp: renewLoop_round_def Let_def split: if_splits bool.splits prod.splits
        dest!: Release_guard)
  show ev: "evolves c c'"
    unfolding c' by (rule evolves_guard) (use cases m1(1) in auto)
  show "coord_inv c'"
  proof (rule coord_inv_evolves[OF inv ev])
    fix n e assume "fmlookup (c_engaged c') n = Some e"
    then have "fmlookup m n = Some e" by (simp add: c')
    with cases m1(2) consider "fmlookup (c_engaged c) n = Some e" |
        e0 where "fmlookup (c_engaged c) n = Some e0" "e = e0\<lparr>e_started := False\<rparr>" by blast
    then show "fmlookup (c_engaged c) n = Some e \<or> eng_ok c' n e"
      by cases (auto intro: eng_ok_stopped eng_ok_evolves[OF coord_invD(1)[OF inv] ev])
  qed (simp add: c')
  show "c_go c' = c_go c" by (simp add: c')
qed

lemma peers_pass_inv:
  assumes "coord_inv c"
  shows "evolves c (peers_pass C n1 n2 c)" and "coord_inv (peers_pass C n1 n2 c)"
proof -
  have *: "evolves c (peers_pass C n1 n2 c) \<and> c_engaged (peers_pass C n1 n2 c) = c_engaged c \<and>
      c_go (peers_pass C n1 n2 c) = c_go c"
    by (simp add: peers_pass_def Let_def evolves_def split: option.splits registry.splits prod.splits)
  then show "evolves c (peers_pass C n1 n2 c)" by simp
  show "coord_inv (peers_pass C n1 n2 c)"
    by (rule coord_inv_evolves[OF assms]) (use * in auto)
qed

lemma run_goroutine_inv:
  assumes inv: "coord_inv c" and g: "go_ok c g" and ord: "iter_order (c_engaged c) (ch_order ch)"
    and r: "run_goroutine C aw ch g c = Some c'"
  shows "evolves c c'" and "coord_inv c'"
proof -
  have "evolves c c' \<and> coord_inv c'"
  proof (cases g)
    case (Watch p n tok)
    with r inv show ?thesis by (auto simp: watch_done_inv split: if_splits)
  next
    case (Recompute p)
    with r inv ord show ?thesis by (auto simp: recompute_result split: option.splits)
  next
    case (ReleaseFence h)
    with r inv show ?thesis by (auto simp: release_fence_inv)
  next
    case (StartFor k n cl)
    with r inv show ?thesis by (auto simp: startForCluster_inv)
  next
    case (RenewLoop h k)
    obtain cont c1 where rr: "renew_round C h k (ch_done ch) (ch_now ch) c = (cont, c1)" by fastforce
    note ri = renew_round_inv[OF inv rr]
    have "go_ok c1 g" using g ri(1) by (rule go_ok_evolves)
    then show ?thesis using r rr ri RenewLoop by (auto simp: coord_inv_spawn)
  qed
  then show "evolves c c'" and "coord_inv c'" by auto
qed

lemma coord_step_inv:
  assumes "coord_step C aw c c'" and inv: "coord_inv c"
  shows "evolves c c' \<and> coord_inv c'"
  using assms(1)
proof cases
  case (engage parent name cl r)
  then show ?thesis using Engage_inv[OF inv] by blast
next
  case (aware a)
  have "evolves c c'" by (simp add: aware coordinator_AddAware_def evolves_def)
  moreover have "coord_inv c'"
    by (rule coord_inv_evolves[OF inv \<open>evolves c c'\<close>]) (simp_all add: aware coordinator_AddAware_def)
  ultimately show ?thesis by simp
next
  case (decide ch cx)
  show ?thesis
    unfolding decide recompute_now_def
    using run_goroutine_inv[OF inv _ decide(2), of "Recompute cx" C "\<lambda>_ _. None"] inv
    by (auto split: option.splits)
next
  case (peers now1 now2)
  then show ?thesis using peers_pass_inv[OF inv] by simp
next
  case (custom p ps ps')
  have "evolves c c'" by (simp add: custom evolves_def)
  moreover have "coord_inv c'"
    by (rule coord_inv_evolves[OF inv \<open>evolves c c'\<close>]) (simp_all add: custom)
  ultimately show ?thesis by simp
next
  case (world s)
  have "evolves c c'" by (simp add: world evolves_def)
  moreover have "coord_inv c'"
    by (rule coord_inv_evolves[OF inv \<open>evolves c c'\<close>]) (simp_all add: world)
  ultimately show ?thesis by simp
next
  case (ctx_new p)
  then show ?thesis using inv by (simp add: coord_inv_ctxs evolves_ctxs)
next
  case (ctx_cancel k)
  then show ?thesis using inv by (simp add: coord_inv_ctxs evolves_ctxs)
next
  case (run before g after ch)
  let ?c0 = "c\<lparr>c_go := before @ after\<rparr>"
  have ev0: "evolves c ?c0" by (simp add: evolves_def)
  have inv0: "coord_inv ?c0" by (rule coord_inv_evolves[OF inv ev0]) (auto simp: run(1))
  have "go_ok ?c0 g" using coord_invD(2)[OF inv, of g] run(1) ev0 go_ok_evolves by auto
  from run_goroutine_inv[OF inv0 this _ run(3)] run(2) evolves_trans[OF ev0]
  show ?thesis by auto
qed

lemma coord_reach_inv:
  "(coord_step C aw)\<^sup>*\<^sup>* c c' \<Longrightarrow> coord_inv c \<Longrightarrow> evolves c c' \<and> coord_inv c'"
proof (induction rule: rtranclp_induct)
  case (step y z)
  then show ?case using coord_step_inv[of C aw y z] evolves_trans[of c y z] by blast
qed simp

text \<open>Options that leave the run-time state alone, as all of \<open>options.go\<close> do.\<close>

definition config_option :: "'s coordinator_option \<Rightarrow> bool" where
  "config_option opt \<longleftrightarrow>
     (\<forall>c. c_engaged (opt c) = c_engaged c \<and> c_go (opt c) = c_go c)"

lemma config_options:
  "config_option (WithSharder f)" "config_option (WithPeerWeight w)"
  "config_option (WithPeerReleaseOnCancel b)" "config_option (WithShardLease ns nm)"
  "config_option (WithPerClusterLease b)" "config_option (WithSynchronizationIntervals p r)"
  "config_option (WithLeaseTimings d r th)" "config_option (WithPeerRegistry reg)"
  "config_option (withConfig cfg)"
  by (simp_all add: config_option_def WithSharder_def WithPeerWeight_def WithPeerReleaseOnCancel_def
      WithShardLease_def WithPerClusterLease_def WithSynchronizationIntervals_def
      WithLeaseTimings_def WithPeerRegistry_def withConfig_def split: option.splits)

lemma fold_config_options:
  "\<forall>opt \<in> set opts. config_option opt \<Longrightarrow>
     c_engaged (fold (\<lambda>opt c. opt c) opts c) = c_engaged c \<and>
     c_go (fold (\<lambda>opt c. opt c) opts c) = c_go c"
  by (induction opts arbitrary: c) (auto simp: config_option_def)

lemma New_inv: "\<forall>opt \<in> set opts. config_option opt \<Longrightarrow> coord_inv (coordinator_New h opts S s)"
  using fold_config_options[of opts]
  by (auto simp: coord_inv_def coordinator_New_def Let_def)

subsection \<open>Facts about single operations\<close>

lemma New_reach_inv:
  "\<forall>opt \<in> set opts. config_option opt \<Longrightarrow>
   (coord_step C aw)\<^sup>*\<^sup>* (coordinator_New h opts S s) c \<Longrightarrow> coord_inv c"
  by (drule coord_reach_inv, erule New_inv) simp

lemma startedE:
  assumes "coord_inv c" and "fmlookup (c_engaged c) n = Some e" and "e_started e"
  obtains g k where "e_fence e = Some g" "g < length (c_guards c)"
    "guard_for (c_cfg c) (c_self c) n (c_guards c ! g)" "e_cancel e = Some k" "e_ctx e = Some k"
    "k < length (c_ctxs c)"
  using coord_invD(1)[OF assms(1,2)] assms(3) that by (auto simp: eng_ok_def)

lemma renew_round_lost:
  assumes inv: "coord_inv c" and e: "fmlookup (c_engaged c) n = Some e" "e_started e"
    and g: "e_fence e = Some g" and k: "e_cancel e = Some k"
    and sel: "\<not> (ctx_err (c_ctxs c) rctx \<and> seldone)"
    and fail: "renewOnce C (c_guards c ! g) t (c_srv c) = (False, s1)"
    and r: "renew_round C g rctx seldone t c = (cont, c')"
  shows "\<not> cont" and "fmlookup (c_engaged c') n = Some (e\<lparr>e_started := False\<rparr>)"
    and "ctx_err (c_ctxs c') k" and "\<not> g_held (c_guards c' ! g)"
proof -
  have ok: "eng_ok c n e" using coord_invD(1)[OF inv e(1)] .
  then have gl: "g < length (c_guards c)" and lost: "g_onLost (c_guards c ! g) = Some n"
    and kl: "k < length (c_ctxs c)"
    using g k by (auto simp: eng_ok_def guard_for_def)
  obtain m S where ol: "onLost n (c_engaged c, c_ctxs c) = (m, S)" by fastforce
  note os = onLost_spec(3)[OF ol e k]
  obtain new S' s' where rel: "Release C (c_guards c ! g) S s1 = (new, S', s')" by (metis prod_cases3)
  note rg = Release_guard[OF rel]
  have c': "c' = c\<lparr>c_guards := (c_guards c)[g := new], c_engaged := m, c_ctxs := S', c_srv := s'\<rparr>"
    and "\<not> cont"
    using r sel fail lost ol rel by (auto simp: renew_round_def renewLoop_round_def)
  show "\<not> cont" by fact
  show "fmlookup (c_engaged c') n = Some (e\<lparr>e_started := False\<rparr>)" using os by (simp add: c')
  have "ctx_err S k" using os kl by (simp add: ctx_err_cancel_self)
  then show "ctx_err (c_ctxs c') k"
    using rg by (auto simp: c' intro: ctx_err_cancel_opt_mono)
  show "\<not> g_held (c_guards c' ! g)" using rg gl by (simp add: c')
qed

lemma recompute_one_idle:
  "(\<And>e. fmlookup (c_engaged c) n = Some e \<Longrightarrow> c_sharder c n peers (c_self c) = e_started e) \<Longrightarrow>
   recompute_one C peers parent now t n (c, starts, stops) = (c, starts, stops)"
  by (auto simp: recompute_one_def split: option.splits)

lemma recompute_idle:
  assumes "\<And>n e. fmlookup (c_engaged c) n = Some e \<Longrightarrow> c_sharder c n peers (c_self c) = e_started e"
  shows "recompute C peers ord parent now t c = c"
proof -
  have "fold (recompute_one C peers parent now t) ord (c, [], []) = (c, [], [])"
    by (induction ord) (use recompute_one_idle[of c _ peers C parent now t "[]" "[]", OF assms] in auto)
  then show ?thesis by (simp add: recompute_def)
qed

end
