(* ===== verification/Fencing.thy ===== *)
theory Fencing
  imports LeaseGuard
begin

text \<open>
  Many peers, each with its own guard, compete for one Lease. The methods of
  \<open>leaseguard.go\<close> are cut at their API calls, so that the calls of different peers
  interleave in any order: a phase says how far a guard's running method has come. The
  clock only advances; reads may be stale and failed writes may have taken effect, as the
  locale \<open>lease_api\<close> allows. \<open>fs_until\<close> is a ghost: the instant up to which the last write
  that this guard knows of keeps the Lease.
\<close>

datatype phase =
    Idle
  | AcqStart int
  | AcqRead int "lease option"
  | RenStart int
  | RenRead int lease
  | Lost
  | RelStart
  | RelRead lease

record 's fsys =
  fs_srv :: 's
  fs_clock :: int
  fs_held :: "nat \<Rightarrow> bool"
  fs_phase :: "nat \<Rightarrow> phase"
  fs_until :: "nat \<Rightarrow> int"

definition guard_span :: "lease_guard \<Rightarrow> int" where
  "guard_span g = to_seconds32 (g_ldur g) * second"

definition fs_won :: "(nat \<Rightarrow> lease_guard) \<Rightarrow> nat \<Rightarrow> int \<Rightarrow> 's \<Rightarrow> 's fsys \<Rightarrow> 's fsys" where
  "fs_won G i now s x =
     x\<lparr>fs_srv := s, fs_held := (fs_held x)(i := True), fs_phase := (fs_phase x)(i := Idle),
       fs_until := (fs_until x)(i := micro now + guard_span (G i))\<rparr>"

definition fs_at :: "nat \<Rightarrow> phase \<Rightarrow> 's \<Rightarrow> 's fsys \<Rightarrow> 's fsys" where
  "fs_at i p s x = x\<lparr>fs_srv := s, fs_phase := (fs_phase x)(i := p)\<rparr>"

inductive fence_step ::
  "'s lease_client \<Rightarrow> (nat \<Rightarrow> lease_guard) \<Rightarrow> 's fsys \<Rightarrow> 's fsys \<Rightarrow> bool"
  for C :: "'s lease_client" and G :: "nat \<Rightarrow> lease_guard" where
  tick: "d \<ge> 0 \<Longrightarrow> fence_step C G x (x\<lparr>fs_clock := fs_clock x + d\<rparr>)"
| acq_begin: "fs_phase x i = Idle \<Longrightarrow> \<not> fs_held x i \<Longrightarrow>
    fence_step C G x (fs_at i (AcqStart (fs_clock x)) (fs_srv x) x)"
| acq_get: "fs_phase x i = AcqStart now \<Longrightarrow>
    api_get C (fs_srv x) (guard_key (G i)) = (r, s) \<Longrightarrow>
    fence_step C G x
      (fs_at i (case r of Inr l \<Rightarrow> AcqRead now (Some l) | Inl NotFound \<Rightarrow> AcqRead now None
                | Inl _ \<Rightarrow> Idle) s x)"
| acq_create: "fs_phase x i = AcqRead now None \<Longrightarrow>
    api_create C (fs_srv x) (acquire_new (G i) now) = (r, s) \<Longrightarrow>
    fence_step C G x (if r = None then fs_won G i now s x else fs_at i Idle s x)"
| acq_refused: "fs_phase x i = AcqRead now (Some l) \<Longrightarrow> acquire_adopt (G i) now l = None \<Longrightarrow>
    fence_step C G x (fs_at i Idle (fs_srv x) x)"
| acq_update: "fs_phase x i = AcqRead now (Some l) \<Longrightarrow> acquire_adopt (G i) now l = Some l' \<Longrightarrow>
    api_update C (fs_srv x) l' = (r, s) \<Longrightarrow>
    fence_step C G x (if r = None then fs_won G i now s x else fs_at i Idle s x)"
| ren_begin: "fs_phase x i = Idle \<Longrightarrow> fs_held x i \<Longrightarrow>
    fence_step C G x (fs_at i (RenStart (fs_clock x)) (fs_srv x) x)"
| ren_get: "fs_phase x i = RenStart now \<Longrightarrow>
    api_get C (fs_srv x) (guard_key (G i)) = (r, s) \<Longrightarrow>
    fence_step C G x (fs_at i (case r of Inr l \<Rightarrow> RenRead now l | Inl _ \<Rightarrow> Lost) s x)"
| ren_refused: "fs_phase x i = RenRead now l \<Longrightarrow> renew_update (G i) now l = None \<Longrightarrow>
    fence_step C G x (fs_at i Lost (fs_srv x) x)"
| ren_update: "fs_phase x i = RenRead now l \<Longrightarrow> renew_update (G i) now l = Some l' \<Longrightarrow>
    api_update C (fs_srv x) l' = (r, s) \<Longrightarrow>
    fence_step C G x (if r = None then fs_won G i now s x else fs_at i Lost s x)"
| rel_begin: "fs_phase x i = Idle \<or> fs_phase x i = Lost \<Longrightarrow> fs_held x i \<Longrightarrow>
    fence_step C G x (fs_at i RelStart (fs_srv x) (x\<lparr>fs_held := (fs_held x)(i := False)\<rparr>))"
| rel_get: "fs_phase x i = RelStart \<Longrightarrow>
    api_get C (fs_srv x) (guard_key (G i)) = (r, s) \<Longrightarrow>
    fence_step C G x (fs_at i (case r of Inr l \<Rightarrow> RelRead l | Inl _ \<Rightarrow> Idle) s x)"
| rel_keep: "fs_phase x i = RelRead l \<Longrightarrow> release_update (G i) l = None \<Longrightarrow>
    fence_step C G x (fs_at i Idle (fs_srv x) x)"
| rel_update: "fs_phase x i = RelRead l \<Longrightarrow> release_update (G i) l = Some l' \<Longrightarrow>
    api_update C (fs_srv x) l' = (r, s) \<Longrightarrow>
    fence_step C G x (fs_at i Idle s x)"

definition fence_init :: "'s \<Rightarrow> int \<Rightarrow> 's fsys" where
  "fence_init s t =
     \<lparr>fs_srv = s, fs_clock = t, fs_held = (\<lambda>_. False), fs_phase = (\<lambda>_. Idle), fs_until = (\<lambda>_. 0)\<rparr>"

text \<open>The guards fence the same Lease under different, non-empty identities.\<close>

definition fence_conf :: "(nat \<Rightarrow> lease_guard) \<Rightarrow> nsname \<Rightarrow> bool" where
  "fence_conf G k \<longleftrightarrow>
     (\<forall>i. guard_key (G i) = k \<and> g_id (G i) \<noteq> '''') \<and> inj (\<lambda>i. g_id (G i))"

definition fresh :: "'s fsys \<Rightarrow> nat \<Rightarrow> bool" where
  "fresh x i \<longleftrightarrow> fs_held x i \<and> fs_clock x \<le> fs_until x i"

lemma fs_at_sel [simp]:
  "fs_srv (fs_at i p s x) = s" "fs_clock (fs_at i p s x) = fs_clock x"
  "fs_held (fs_at i p s x) = fs_held x" "fs_until (fs_at i p s x) = fs_until x"
  "fs_phase (fs_at i p s x) = (fs_phase x)(i := p)"
  by (simp_all add: fs_at_def)

lemma fs_won_sel [simp]:
  "fs_srv (fs_won G i now s x) = s" "fs_clock (fs_won G i now s x) = fs_clock x"
  "fs_held (fs_won G i now s x) = (fs_held x)(i := True)"
  "fs_until (fs_won G i now s x) = (fs_until x)(i := micro now + guard_span (G i))"
  "fs_phase (fs_won G i now s x) = (fs_phase x)(i := Idle)"
  by (simp_all add: fs_won_def)

context lease_api
begin

subsection \<open>The invariant\<close>

text \<open>A fresh hold is visible at the server, under the holder's identity.\<close>

definition visible :: "(nat \<Rightarrow> lease_guard) \<Rightarrow> nsname \<Rightarrow> 's fsys \<Rightarrow> nat \<Rightarrow> bool" where
  "visible G k x i \<longleftrightarrow>
     (\<exists>l e. st (fs_srv x) k = Some l \<and> HolderIdentity l = Some (g_id (G i)) \<and>
            expiry l = Some e \<and> fs_until x i \<le> e)"

text \<open>What a running method has read, and when it started.\<close>

fun phase_ok :: "(nat \<Rightarrow> lease_guard) \<Rightarrow> nsname \<Rightarrow> 's fsys \<Rightarrow> nat \<Rightarrow> phase \<Rightarrow> bool" where
  "phase_ok G k x i Idle = True"
| "phase_ok G k x i (AcqStart now) = (now \<le> fs_clock x \<and> \<not> fs_held x i)"
| "phase_ok G k x i (AcqRead now None) = (now \<le> fs_clock x \<and> \<not> fs_held x i)"
| "phase_ok G k x i (AcqRead now (Some l)) =
     (now \<le> fs_clock x \<and> \<not> fs_held x i \<and> l \<in> vs (fs_srv x) k)"
| "phase_ok G k x i (RenStart now) =
     (now \<le> fs_clock x \<and> fs_until x i \<le> micro now + guard_span (G i))"
| "phase_ok G k x i (RenRead now l) =
     (now \<le> fs_clock x \<and> fs_until x i \<le> micro now + guard_span (G i) \<and> l \<in> vs (fs_srv x) k)"
| "phase_ok G k x i Lost = True"
| "phase_ok G k x i RelStart = (\<not> fs_held x i)"
| "phase_ok G k x i (RelRead l) = (\<not> fs_held x i \<and> l \<in> vs (fs_srv x) k)"

definition fence_inv :: "(nat \<Rightarrow> lease_guard) \<Rightarrow> nsname \<Rightarrow> 's fsys \<Rightarrow> bool" where
  "fence_inv G k x \<longleftrightarrow>
     ok (fs_srv x) \<and> (\<forall>i. fresh x i \<longrightarrow> visible G k x i) \<and>
     (\<forall>i. fs_held x i \<longrightarrow> fs_until x i \<le> micro (fs_clock x) + guard_span (G i)) \<and>
     (\<forall>i. phase_ok G k x i (fs_phase x i))"

lemma fence_invI:
  assumes "ok (fs_srv x)" and "\<And>i. fresh x i \<Longrightarrow> visible G k x i"
    and "\<And>i. fs_held x i \<Longrightarrow> fs_until x i \<le> micro (fs_clock x) + guard_span (G i)"
    and "\<And>i. phase_ok G k x i (fs_phase x i)"
  shows "fence_inv G k x"
  using assms by (simp add: fence_inv_def)

lemma fence_invD:
  assumes "fence_inv G k x"
  shows "ok (fs_srv x)" and "\<And>i. fresh x i \<Longrightarrow> visible G k x i"
    and "\<And>i. fs_held x i \<Longrightarrow> fs_until x i \<le> micro (fs_clock x) + guard_span (G i)"
    and "\<And>i. phase_ok G k x i (fs_phase x i)"
  using assms by (simp_all add: fence_inv_def)

lemma phase_ok_mono:
  assumes "phase_ok G k x i p" and "fs_clock x \<le> fs_clock y"
    and "fs_held y i = fs_held x i" and "fs_until y i = fs_until x i"
    and "vs (fs_srv x) k \<subseteq> vs (fs_srv y) k"
  shows "phase_ok G k y i p"
  using assms by (cases "(G, k, x, i, p)" rule: phase_ok.cases) auto

text \<open>Nobody else can be fresh when this guard may take the Lease over.\<close>

lemma foreign_not_fresh:
  assumes inv: "fence_inv G k x" and conf: "fence_conf G k"
    and l: "st (fs_srv x) k = Some l" and now: "now \<le> fs_clock x"
    and free: "HolderIdentity l = None \<or> HolderIdentity l = Some '''' \<or>
       HolderIdentity l = Some (g_id (G i)) \<or> expired l now"
    and "j \<noteq> i"
  shows "\<not> fresh x j"
proof
  assume f: "fresh x j"
  with inv have "visible G k x j" by (rule fence_invD(2))
  with l obtain e where h: "HolderIdentity l = Some (g_id (G j))"
    and e: "expiry l = Some e" "fs_until x j \<le> e"
    by (auto simp: visible_def)
  from f e(2) now have "now \<le> e" by (simp add: fresh_def)
  with e(1) have "\<not> expired l now" by (rule not_expired)
  moreover have "g_id (G j) \<noteq> g_id (G i)" "g_id (G j) \<noteq> ''''"
    using conf \<open>j \<noteq> i\<close> by (auto simp: fence_conf_def dest: injD)
  ultimately show False using free h by simp
qed

lemma visible_same:
  "api_same st vs (fs_srv x) (fs_srv y) \<Longrightarrow> fs_until y i = fs_until x i \<Longrightarrow>
   visible G k x i \<Longrightarrow> visible G k y i"
  by (simp add: visible_def api_same_def)

text \<open>Steps that leave the stored Leases and the holds alone.\<close>

lemma inv_local:
  assumes inv: "fence_inv G k x" and "ok s" and same: "api_same st vs (fs_srv x) s"
    and p: "phase_ok G k x i p"
  shows "fence_inv G k (fs_at i p s x)"
proof (rule fence_invI)
  show "ok (fs_srv (fs_at i p s x))" using \<open>ok s\<close> by simp
next
  fix j assume "fresh (fs_at i p s x) j"
  then have "visible G k x j" using fence_invD(2)[OF inv] by (simp add: fresh_def)
  then show "visible G k (fs_at i p s x) j" 
    by (rule visible_same[rotated 2]) (use same in simp_all)
next
  fix j assume "fs_held (fs_at i p s x) j"
  then show "fs_until (fs_at i p s x) j \<le> micro (fs_clock (fs_at i p s x)) + guard_span (G j)"
    using fence_invD(3)[OF inv] by simp
next
  fix j
  have "phase_ok G k x j (fs_phase (fs_at i p s x) j)"
    using p fence_invD(4)[OF inv] by simp
  then show "phase_ok G k (fs_at i p s x) j (fs_phase (fs_at i p s x) j)"
    by (rule phase_ok_mono) (use write_versions[OF disjI1[OF same]] in auto)
qed

text \<open>A committed write of one guard: only its own hold can stay fresh.\<close>

lemma inv_commit:
  assumes inv: "fence_inv G k x" and "ok s"
    and commit: "api_commit st vs (fs_srv x) l' s" and key: "l_key l' = k"
    and others: "\<And>j. j \<noteq> i \<Longrightarrow> \<not> fresh x j"
    and y: "fs_srv y = s" "fs_clock y = fs_clock x"
      "\<And>j. j \<noteq> i \<Longrightarrow> fs_held y j = fs_held x j" "\<And>j. j \<noteq> i \<Longrightarrow> fs_until y j = fs_until x j"
      "\<And>j. j \<noteq> i \<Longrightarrow> fs_phase y j = fs_phase x j"
    and own: "fresh y i \<Longrightarrow> HolderIdentity l' = Some (g_id (G i)) \<and>
       LeaseDurationSeconds l' = Some (to_seconds32 (g_ldur (G i))) \<and>
       (\<exists>now. RenewTime l' = Some now \<and> fs_until y i \<le> micro now + guard_span (G i))"
    and bound: "fs_held y i \<Longrightarrow> fs_until y i \<le> micro (fs_clock x) + guard_span (G i)"
    and phase: "fs_phase y i = Idle \<or> fs_phase y i = Lost"
  shows "fence_inv G k y"
proof (rule fence_invI)
  show "ok (fs_srv y)" using \<open>ok s\<close> y(1) by simp
next
  fix j assume f: "fresh y j"
  have "j = i"
  proof (rule ccontr)
    assume "j \<noteq> i"
    with f y(2) y(3,4)[of j] have "fresh x j" by (simp add: fresh_def)
    with others \<open>j \<noteq> i\<close> show False by blast
  qed
  with f own obtain now where o: "HolderIdentity l' = Some (g_id (G i))"
    "LeaseDurationSeconds l' = Some (to_seconds32 (g_ldur (G i)))"
    "RenewTime l' = Some now" "fs_until y i \<le> micro now + guard_span (G i)"
    by blast
  from commit_stored[OF commit] key o show "visible G k y j"
    by (auto simp: visible_def y(1) \<open>j = i\<close> expiry_def guard_span_def)
next
  fix j assume "fs_held y j"
  then show "fs_until y j \<le> micro (fs_clock y) + guard_span (G j)"
    using fence_invD(3)[OF inv, of j] y(2) y(3,4)[of j] bound by (cases "j = i") auto
next
  fix j
  show "phase_ok G k y j (fs_phase y j)"
  proof (cases "j = i")
    case True
    with phase show ?thesis by auto
  next
    case False
    have "phase_ok G k y j (fs_phase x j)"
      by (rule phase_ok_mono[OF fence_invD(4)[OF inv]])
         (use y False commit_versions[OF commit, of k] in simp_all)
    with y(5) False show ?thesis by simp
  qed
qed

subsection \<open>Every step keeps it\<close>

lemma inv_acq_create:
  assumes inv: "fence_inv G k x" and conf: "fence_conf G k"
    and ph: "fs_phase x i = AcqRead now None"
    and c: "api_create C (fs_srv x) (acquire_new (G i) now) = (r, s)"
  shows "fence_inv G k (if r = None then fs_won G i now s x else fs_at i Idle s x)"
proof -
  note okx = fence_invD(1)[OF inv]
  have now: "now \<le> fs_clock x" and nh: "\<not> fs_held x i"
    using fence_invD(4)[OF inv, of i] ph by simp_all
  have key: "guard_key (G i) = k" using conf by (simp add: fence_conf_def)
  have m: "micro now \<le> micro (fs_clock x)" using now by (rule micro_mono)
  show ?thesis
  proof (cases "api_same st vs (fs_srv x) s \<and> r \<noteq> None")
    case True
    then show ?thesis using inv create_law[OF okx c] by (auto intro: inv_local)
  next
    case False
    with create_law[OF okx c] key have none: "st (fs_srv x) k = None"
      and commit: "api_commit st vs (fs_srv x) (acquire_new (G i) now) s" and oks: "ok s"
      by auto
    have others: "\<not> fresh x j" if "j \<noteq> i" for j
      using fence_invD(2)[OF inv, of j] none by (auto simp: visible_def)
    show ?thesis
      by (rule inv_commit[where i = i, OF inv oks commit _ others])
         (use nh m key in \<open>auto simp: fresh_def\<close>)
  qed
qed

lemma inv_takeover:
  assumes inv: "fence_inv G k x" and conf: "fence_conf G k"
    and l: "l \<in> vs (fs_srv x) k" and l': "l_key l' = l_key l" "l_rv l' = l_rv l"
    and now: "now \<le> fs_clock x"
    and free: "HolderIdentity l = None \<or> HolderIdentity l = Some '''' \<or>
       HolderIdentity l = Some (g_id (G i)) \<or> expired l now"
    and spec: "HolderIdentity l' = Some (g_id (G i))"
      "LeaseDurationSeconds l' = Some (to_seconds32 (g_ldur (G i)))" "RenewTime l' = Some now"
    and u: "api_update C (fs_srv x) l' = (r, s)"
    and held: "fs_held x i \<Longrightarrow> fs_until x i \<le> micro now + guard_span (G i)"
    and p: "p = Idle \<or> p = Lost"
  shows "fence_inv G k (if r = None then fs_won G i now s x else fs_at i p s x)"
proof -
  note okx = fence_invD(1)[OF inv]
  have key: "l_key l' = k" using version_key[OF okx l] l' by simp
  have m: "micro now \<le> micro (fs_clock x)" using now by (rule micro_mono)
  have oks: "ok s" using update_law[OF okx u] by simp
  show ?thesis
  proof (cases "api_same st vs (fs_srv x) s \<and> r \<noteq> None")
    case True
    then show ?thesis using inv oks p by (auto intro: inv_local)
  next
    case False
    then have "st (fs_srv x) k = Some l \<and> api_commit st vs (fs_srv x) l' s"
      using update_replaces_read[OF okx l key l'(2) u] by auto
    then have stored: "st (fs_srv x) k = Some l" and commit: "api_commit st vs (fs_srv x) l' s"
      by auto
    have others: "\<not> fresh x j" if "j \<noteq> i" for j
      using inv conf stored now free that by (rule foreign_not_fresh)
    show ?thesis
      by (rule inv_commit[where i = i, OF inv oks commit key others])
         (use m held p spec in \<open>auto simp: fresh_def\<close>)
  qed
qed

lemma inv_rel_update:
  assumes inv: "fence_inv G k x" and conf: "fence_conf G k"
    and ph: "fs_phase x i = RelRead l" and rel: "release_update (G i) l = Some l'"
    and u: "api_update C (fs_srv x) l' = (r, s)"
  shows "fence_inv G k (fs_at i Idle s x)"
proof -
  note okx = fence_invD(1)[OF inv]
  have nh: "\<not> fs_held x i" and l: "l \<in> vs (fs_srv x) k"
    using fence_invD(4)[OF inv, of i] ph by simp_all
  note rel = release_update_SomeD[OF rel]
  have key: "l_key l' = k" using version_key[OF okx l] rel by simp
  have oks: "ok s" using update_law[OF okx u] by simp
  show ?thesis
  proof (cases "api_same st vs (fs_srv x) s")
    case True
    then show ?thesis using inv oks by (auto intro: inv_local)
  next
    case False
    then have "st (fs_srv x) k = Some l \<and> api_commit st vs (fs_srv x) l' s"
      using update_replaces_read[OF okx l key rel(3) u] by auto
    then have stored: "st (fs_srv x) k = Some l" and commit: "api_commit st vs (fs_srv x) l' s"
      by auto
    have others: "\<not> fresh x j" if "j \<noteq> i" for j
      using foreign_not_fresh[OF inv conf stored order_refl _ that] rel(1) by simp
    show ?thesis
      by (rule inv_commit[where i = i, OF inv oks commit key others])
         (use nh in \<open>auto simp: fresh_def\<close>)
  qed
qed

lemma inv_tick:
  assumes inv: "fence_inv G k x" and d: "d \<ge> 0"
  shows "fence_inv G k (x\<lparr>fs_clock := fs_clock x + d\<rparr>)" (is "fence_inv G k ?y")
proof (rule fence_invI)
  show "ok (fs_srv ?y)" using fence_invD(1)[OF inv] by simp
next
  fix i assume "fresh ?y i"
  with d have "fresh x i" by (simp add: fresh_def)
  then show "visible G k ?y i" using fence_invD(2)[OF inv] by (simp add: visible_def)
next
  fix i assume "fs_held ?y i"
  moreover have "micro (fs_clock x) \<le> micro (fs_clock x + d)" using d by (intro micro_mono) simp
  ultimately show "fs_until ?y i \<le> micro (fs_clock ?y) + guard_span (G i)"
    using fence_invD(3)[OF inv, of i] by simp
next
  fix i
  have "phase_ok G k ?y i (fs_phase x i)"
    by (rule phase_ok_mono[OF fence_invD(4)[OF inv]]) (use d in simp_all)
  then show "phase_ok G k ?y i (fs_phase ?y i)" by simp
qed

lemma inv_rel_begin:
  assumes inv: "fence_inv G k x"
  shows "fence_inv G k (fs_at i RelStart (fs_srv x) (x\<lparr>fs_held := (fs_held x)(i := False)\<rparr>))"
    (is "fence_inv G k ?y")
proof (rule fence_invI)
  show "ok (fs_srv ?y)" using fence_invD(1)[OF inv] by simp
next
  fix j assume "fresh ?y j"
  then have "fresh x j" by (auto simp: fresh_def split: if_splits)
  then show "visible G k ?y j" using fence_invD(2)[OF inv] by (simp add: visible_def)
next
  fix j assume "fs_held ?y j"
  then show "fs_until ?y j \<le> micro (fs_clock ?y) + guard_span (G j)"
    using fence_invD(3)[OF inv, of j] by (simp split: if_splits)
next
  fix j
  show "phase_ok G k ?y j (fs_phase ?y j)"
  proof (cases "j = i")
    case False
    have "phase_ok G k ?y j (fs_phase x j)"
      by (rule phase_ok_mono[OF fence_invD(4)[OF inv]]) (use False in simp_all)
    with False show ?thesis by simp
  qed simp
qed

lemma fence_step_inv:
  assumes "fence_step C G x y" and conf: "fence_conf G k" and inv: "fence_inv G k x"
  shows "fence_inv G k y"
proof -
  note okx = fence_invD(1)[OF inv]
  note phs = fence_invD(4)[OF inv]
  have key: "guard_key (G i) = k" for i using conf by (simp add: fence_conf_def)
  from assms(1) show ?thesis
  proof cases
    case (tick d)
    then show ?thesis using inv by (simp add: inv_tick)
  next
    case (acq_begin i)
    then show ?thesis using inv okx by (auto intro!: inv_local)
  next
    case (acq_get i now r s)
    from get_law[OF okx acq_get(3)] phs[of i] acq_get(2) key show ?thesis
      unfolding acq_get(1)
      by (intro inv_local[OF inv]) (auto split: sum.splits api_error.splits)
  next
    case (acq_create i now r s)
    then show ?thesis using inv conf by (simp only: inv_acq_create)
  next
    case (acq_refused i now l)
    then show ?thesis using inv okx by (auto intro!: inv_local)
  next
    case (acq_update i now l l' r s)
    note a = acquire_adopt_SomeD[OF acq_update(3)]
    from phs[of i] acq_update(2) have "l \<in> vs (fs_srv x) k" "now \<le> fs_clock x" "\<not> fs_held x i"
      by simp_all
    then show ?thesis
      unfolding acq_update(1) using a acq_update(4) by (intro inv_takeover[OF inv conf]) auto
  next
    case (ren_begin i)
    then show ?thesis
      using inv okx fence_invD(3)[OF inv, of i] by (auto intro!: inv_local)
  next
    case (ren_get i now r s)
    from get_law[OF okx ren_get(3)] phs[of i] ren_get(2) key show ?thesis
      unfolding ren_get(1) by (intro inv_local[OF inv]) (auto split: sum.splits)
  next
    case (ren_refused i now l)
    then show ?thesis using inv okx by (auto intro!: inv_local)
  next
    case (ren_update i now l l' r s)
    note a = renew_update_SomeD[OF ren_update(3)]
    from phs[of i] ren_update(2) have "l \<in> vs (fs_srv x) k" "now \<le> fs_clock x"
      "fs_until x i \<le> micro now + guard_span (G i)" by simp_all
    then show ?thesis
      unfolding ren_update(1) using a ren_update(4) by (intro inv_takeover[OF inv conf]) auto
  next
    case (rel_begin i)
    then show ?thesis using inv_rel_begin[OF inv] by simp
  next
    case (rel_get i r s)
    from get_law[OF okx rel_get(3)] phs[of i] rel_get(2) key show ?thesis
      unfolding rel_get(1) by (intro inv_local[OF inv]) (auto split: sum.splits)
  next
    case (rel_keep i l)
    then show ?thesis using inv okx by (auto intro!: inv_local)
  next
    case (rel_update i l l' r s)
    then show ?thesis using inv conf by (auto intro: inv_rel_update)
  qed
qed

lemma fence_init_inv: "ok s \<Longrightarrow> fence_inv G k (fence_init s t)"
  by (rule fence_invI) (simp_all add: fence_init_def fresh_def)

lemma fence_reach_inv:
  "(fence_step C G)\<^sup>*\<^sup>* (fence_init s t) x \<Longrightarrow> ok s \<Longrightarrow> fence_conf G k \<Longrightarrow> fence_inv G k x"
  by (induction rule: rtranclp_induct) (auto intro: fence_init_inv fence_step_inv)

lemma fence_exclusive:
  assumes "(fence_step C G)\<^sup>*\<^sup>* (fence_init s t) x" and "ok s" and conf: "fence_conf G k"
    and "fresh x i" and "fresh x j"
  shows "i = j"
proof -
  have inv: "fence_inv G k x" using assms(1-3) by (rule fence_reach_inv)
  from fence_invD(2)[OF inv assms(4)] fence_invD(2)[OF inv assms(5)]
  have "g_id (G i) = g_id (G j)" by (auto simp: visible_def)
  with conf show ?thesis by (auto simp: fence_conf_def dest: injD)
qed

end

subsection \<open>The methods are runs of these steps\<close>

text \<open>The guard of peer \<open>i\<close> as the method receives it.\<close>

definition fs_guard :: "(nat \<Rightarrow> lease_guard) \<Rightarrow> 's fsys \<Rightarrow> nat \<Rightarrow> lease_guard" where
  "fs_guard G x i = (G i)\<lparr>g_held := fs_held x i\<rparr>"

lemma guard_upd_held [simp]:
  "acquire_new (g\<lparr>g_held := h\<rparr>) now = acquire_new g now"
  "acquire_adopt (g\<lparr>g_held := h\<rparr>) now l = acquire_adopt g now l"
  "renew_update (g\<lparr>g_held := h\<rparr>) now l = renew_update g now l"
  "release_update (g\<lparr>g_held := h\<rparr>) l = release_update g l"
  by (simp_all add: acquire_new_def acquire_adopt_def renew_update_def release_update_def Let_def
      split: option.splits)

lemma fs_at_twice [simp]: "fs_at i p s (fs_at i q s' x) = fs_at i p s x"
  by (simp add: fs_at_def)

lemma fs_won_at [simp]: "fs_won G i now s (fs_at i q s' x) = fs_won G i now s x"
  by (simp add: fs_at_def fs_won_def)

lemma fs_at_Idle: "fs_phase x i = Idle \<Longrightarrow> fs_at i Idle (fs_srv x) x = x"
  by (simp add: fs_at_def fun_upd_idem)

lemma acquire_run:
  assumes idle: "fs_phase x i = Idle" and nh: "\<not> fs_held x i"
    and t: "TryAcquire C (fs_guard G x i) (fs_clock x) S (fs_srv x) = (r, g', S', s')"
  shows "(fence_step C G)\<^sup>*\<^sup>* x
     (if r then fs_won G i (fs_clock x) s' x else fs_at i Idle s' x)"
proof -
  let ?now = "fs_clock x"
  obtain q s1 where get: "api_get C (fs_srv x) (guard_key (G i)) = (q, s1)" by fastforce
  have "(fence_step C G)\<^sup>*\<^sup>* x (fs_at i (AcqStart ?now) (fs_srv x) x)"
    by (rule r_into_rtranclp, rule fence_step.acq_begin[OF idle nh])
  moreover have "fence_step C G (fs_at i (AcqStart ?now) (fs_srv x) x)
      (fs_at i (case q of Inr l \<Rightarrow> AcqRead ?now (Some l) | Inl NotFound \<Rightarrow> AcqRead ?now None
        | Inl _ \<Rightarrow> Idle) s1 (fs_at i (AcqStart ?now) (fs_srv x) x))"
    by (rule fence_step.acq_get) (use get in simp_all)
  ultimately have pre: "(fence_step C G)\<^sup>*\<^sup>* x
      (fs_at i (case q of Inr l \<Rightarrow> AcqRead ?now (Some l) | Inl NotFound \<Rightarrow> AcqRead ?now None
        | Inl _ \<Rightarrow> Idle) s1 x)" (is "_ x ?x2")
    by (simp only: fs_at_twice rtranclp.rtrancl_into_rtrancl)
  show ?thesis
  proof (cases q)
    case (Inl e)
    show ?thesis
    proof (cases "e = NotFound")
      case True
      obtain c s2 where cr: "api_create C s1 (acquire_new (G i) ?now) = (c, s2)" by fastforce
      have "fence_step C G (fs_at i (AcqRead ?now None) s1 x)
          (if c = None then fs_won G i ?now s2 (fs_at i (AcqRead ?now None) s1 x)
           else fs_at i Idle s2 (fs_at i (AcqRead ?now None) s1 x))"
        by (rule fence_step.acq_create) (use cr in simp_all)
      moreover have "r = (c = None)" "s' = s2"
        using t nh get Inl True cr
        by (auto simp: TryAcquire_def fs_guard_def split: option.splits prod.splits)
      ultimately show ?thesis
        using pre Inl True by (auto intro: rtranclp.rtrancl_into_rtrancl)
    next
      case False
      then have "\<not> r" "s' = s1" using t nh get Inl
        by (auto simp: TryAcquire_def fs_guard_def split: api_error.splits)
      then show ?thesis using pre Inl False by (simp split: api_error.splits)
    qed
  next
    case (Inr l)
    show ?thesis
    proof (cases "acquire_adopt (G i) ?now l")
      case None
      have "fence_step C G (fs_at i (AcqRead ?now (Some l)) s1 x)
          (fs_at i Idle (fs_srv (fs_at i (AcqRead ?now (Some l)) s1 x)) (fs_at i (AcqRead ?now (Some l)) s1 x))"
        by (rule fence_step.acq_refused[where l = l and now = ?now]) (use None in simp_all)
      moreover have "\<not> r" "s' = s1" using t nh get Inr None
        by (auto simp: TryAcquire_def fs_guard_def)
      ultimately show ?thesis
        using pre Inr by (auto intro: rtranclp.rtrancl_into_rtrancl)
    next
      case (Some l')
      obtain c s2 where u: "api_update C s1 l' = (c, s2)" by fastforce
      have "fence_step C G (fs_at i (AcqRead ?now (Some l)) s1 x)
          (if c = None then fs_won G i ?now s2 (fs_at i (AcqRead ?now (Some l)) s1 x)
           else fs_at i Idle s2 (fs_at i (AcqRead ?now (Some l)) s1 x))"
        by (rule fence_step.acq_update[where l = l and now = ?now]) (use Some u in simp_all)
      moreover have "r = (c = None)" "s' = s2" using t nh get Inr Some u
        by (auto simp: TryAcquire_def fs_guard_def split: option.splits prod.splits)
      ultimately show ?thesis
        using pre Inr by (auto intro: rtranclp.rtrancl_into_rtrancl)
    qed
  qed
qed

lemma renew_run:
  assumes idle: "fs_phase x i = Idle" and h: "fs_held x i"
    and t: "renewOnce C (fs_guard G x i) (fs_clock x) (fs_srv x) = (r, s')"
  shows "(fence_step C G)\<^sup>*\<^sup>* x
     (if r then fs_won G i (fs_clock x) s' x else fs_at i Lost s' x)"
proof -
  let ?now = "fs_clock x"
  obtain q s1 where get: "api_get C (fs_srv x) (guard_key (G i)) = (q, s1)" by fastforce
  have "(fence_step C G)\<^sup>*\<^sup>* x (fs_at i (RenStart ?now) (fs_srv x) x)"
    by (rule r_into_rtranclp, rule fence_step.ren_begin[OF idle h])
  moreover have "fence_step C G (fs_at i (RenStart ?now) (fs_srv x) x)
      (fs_at i (case q of Inr l \<Rightarrow> RenRead ?now l | Inl _ \<Rightarrow> Lost) s1
        (fs_at i (RenStart ?now) (fs_srv x) x))"
    by (rule fence_step.ren_get) (use get in simp_all)
  ultimately have pre: "(fence_step C G)\<^sup>*\<^sup>* x
      (fs_at i (case q of Inr l \<Rightarrow> RenRead ?now l | Inl _ \<Rightarrow> Lost) s1 x)"
    by (simp only: fs_at_twice rtranclp.rtrancl_into_rtrancl)
  show ?thesis
  proof (cases q)
    case (Inl e)
    then have "\<not> r" "s' = s1" using t get by (auto simp: renewOnce_def fs_guard_def)
    then show ?thesis using pre Inl by simp
  next
    case (Inr l)
    let ?x2 = "fs_at i (RenRead ?now l) s1 x"
    show ?thesis
    proof (cases "renew_update (G i) ?now l")
      case None
      have "fence_step C G ?x2 (fs_at i Lost (fs_srv ?x2) ?x2)"
        by (rule fence_step.ren_refused[where l = l and now = ?now]) (use None in simp_all)
      moreover have "\<not> r" "s' = s1" using t get Inr None
        by (auto simp: renewOnce_def fs_guard_def)
      ultimately show ?thesis
        using pre Inr by (auto intro: rtranclp.rtrancl_into_rtrancl)
    next
      case (Some l')
      obtain c s2 where u: "api_update C s1 l' = (c, s2)" by fastforce
      have "fence_step C G ?x2
          (if c = None then fs_won G i ?now s2 ?x2 else fs_at i Lost s2 ?x2)"
        by (rule fence_step.ren_update[where l = l and now = ?now]) (use Some u in simp_all)
      moreover have "r = (c = None)" "s' = s2" using t get Inr Some u
        by (auto simp: renewOnce_def fs_guard_def split: option.splits prod.splits)
      ultimately show ?thesis
        using pre Inr by (auto intro: rtranclp.rtrancl_into_rtrancl)
    qed
  qed
qed

lemma release_run:
  assumes ph: "fs_phase x i = Idle \<or> fs_phase x i = Lost" and h: "fs_held x i"
    and t: "Release C (fs_guard G x i) S (fs_srv x) = (g', S', s')"
  shows "(fence_step C G)\<^sup>*\<^sup>* x
     (fs_at i Idle s' (x\<lparr>fs_held := (fs_held x)(i := False)\<rparr>))"
proof -
  let ?x0 = "x\<lparr>fs_held := (fs_held x)(i := False)\<rparr>"
  obtain q s1 where get: "api_get C (fs_srv x) (guard_key (G i)) = (q, s1)" by fastforce
  have "(fence_step C G)\<^sup>*\<^sup>* x (fs_at i RelStart (fs_srv x) ?x0)"
    by (rule r_into_rtranclp, rule fence_step.rel_begin[OF ph h])
  moreover have "fence_step C G (fs_at i RelStart (fs_srv x) ?x0)
      (fs_at i (case q of Inr l \<Rightarrow> RelRead l | Inl _ \<Rightarrow> Idle) s1 (fs_at i RelStart (fs_srv x) ?x0))"
    by (rule fence_step.rel_get) (use get in simp_all)
  ultimately have pre: "(fence_step C G)\<^sup>*\<^sup>* x
      (fs_at i (case q of Inr l \<Rightarrow> RelRead l | Inl _ \<Rightarrow> Idle) s1 ?x0)"
    by (simp only: fs_at_twice rtranclp.rtrancl_into_rtrancl)
  show ?thesis
  proof (cases q)
    case (Inl e)
    then have "s' = s1" using t get h by (auto simp: Release_def fs_guard_def)
    then show ?thesis using pre Inl by simp
  next
    case (Inr l)
    let ?x2 = "fs_at i (RelRead l) s1 ?x0"
    show ?thesis
    proof (cases "release_update (G i) l")
      case None
      have "fence_step C G ?x2 (fs_at i Idle (fs_srv ?x2) ?x2)"
        by (rule fence_step.rel_keep[where l = l]) (use None in simp_all)
      moreover have "s' = s1" using t get h Inr None
        by (auto simp: Release_def fs_guard_def)
      ultimately show ?thesis
        using pre Inr by (auto intro: rtranclp.rtrancl_into_rtrancl)
    next
      case (Some l')
      obtain c s2 where u: "api_update C s1 l' = (c, s2)" by fastforce
      have "fence_step C G ?x2 (fs_at i Idle s2 ?x2)"
        by (rule fence_step.rel_update[where l = l]) (use Some u in simp_all)
      moreover have "s' = s2" using t get h Inr Some u
        by (auto simp: Release_def fs_guard_def)
      ultimately show ?thesis
        using pre Inr by (auto intro: rtranclp.rtrancl_into_rtrancl)
    qed
  qed
qed

subsection \<open>Exclusion by the fence\<close>

definition demo_guards :: "nat \<Rightarrow> lease_guard" where
  "demo_guards i =
     newLeaseGuard ''ns'' ''fence'' (replicate (Suc i) (CHR ''p'')) (20 * second) (10 * second) None"

definition demo_won :: "api_server fsys" where
  "demo_won = fs_won demo_guards 0 5
     (mem_store mem_server (acquire_new (demo_guards 0) 5)) (fence_init mem_server 5)"

lemma demo_guards_conf: "fence_conf demo_guards (NsName ''ns'' ''fence'')"
  by (auto simp: fence_conf_def demo_guards_def newLeaseGuard_def guard_key_def
      intro!: injI dest: arg_cong[of _ _ length])

lemma demo_won_acquire:
  "TryAcquire mem_client (fs_guard demo_guards (fence_init mem_server 5) 0)
     (fs_clock (fence_init mem_server 5)) [] (fs_srv (fence_init mem_server 5)) =
   (True, (fs_guard demo_guards (fence_init mem_server 5) 0)\<lparr>g_cancel := Some 1, g_held := True\<rparr>,
    [(None, False), (Some 0, False)], mem_store mem_server (acquire_new (demo_guards 0) 5))"
  by (simp add: TryAcquire_def fs_guard_def fence_init_def mem_client_def mem_get_def mem_create_def
      mem_server_def start_renewer_def background_def with_cancel_def)

lemma demo_won_reach: "(fence_step mem_client demo_guards)\<^sup>*\<^sup>* (fence_init mem_server 5) demo_won"
  using acquire_run[OF _ _ demo_won_acquire] by (simp add: demo_won_def fence_init_def)

lemma demo_won_fresh: "fresh demo_won 0"
  by (simp add: fresh_def demo_won_def fence_init_def guard_span_def demo_guards_def
      newLeaseGuard_def to_seconds32_def int32_of_def second_def micro_def)





text \<open>
  A successful acquisition is on record. When \<open>TryAcquire\<close> of a guard that did not hold
  returns true, the API server stores the Lease under this peer's identity, renewed now and
  for the configured duration, the guard is held and its renewer's context is live.
\<close>

theorem TryAcquire_recorded:
  assumes "lease_api C st vs ok" and "ok s" and "\<not> g_held g"
    and "TryAcquire C g now S s = (True, g', S', s')"
  shows "g_held g' \<and> (\<exists>k. g_cancel g' = Some k \<and> \<not> ctx_err S' k) \<and>
     (\<exists>l. st s' (guard_key g) = Some l \<and> HolderIdentity l = Some (g_id g) \<and>
        expiry l = Some (micro now + to_seconds32 (g_ldur g) * second))"
proof -
  have "start_renewer g S = (g', S')" using TryAcquire_result[OF assms(4,3)] by simp
  note sr = start_renewer_sel[OF this]
  from lease_api.acquire_stores[OF assms] sr show ?thesis by (auto simp: expiry_def)
qed

theorem TryAcquire_recorded_witness:
  "\<exists>l. mem_stored (mem_store mem_server (acquire_new (demo_guards 0) 5)) (NsName ''ns'' ''fence'') =
      Some l \<and> HolderIdentity l = Some ''p''"
  using TryAcquire_recorded[OF mem.lease_api_axioms _ _ demo_won_acquire] mem_server_ok
  by (auto simp: fs_guard_def fence_init_def demo_guards_def newLeaseGuard_def guard_key_def)



end
