(* ===== verification/Sharding.thy ===== *)
theory Sharding
  imports Coordinator Fencing
begin

text \<open>
  The properties of the sharded coordinator and of what it is built from: the fence, the
  peer registry, the sharder. Each is stated over the definitions of the theories below and
  rests on their lemmas; the concrete runs on the in-memory API server instantiate them.
\<close>

subsection \<open>A small run\<close>

text \<open>One peer, one cluster, on the in-memory API server, with an injected registry and sharder:
  used to instantiate the properties.\<close>

definition peerA :: PeerInfo where "peerA = \<lparr>ID = ''a'', Weight = 1\<rparr>"
definition peerB :: PeerInfo where "peerB = \<lparr>ID = ''b'', Weight = 1\<rparr>"

definition first_peer :: "string \<Rightarrow> PeerInfo list \<Rightarrow> PeerInfo \<Rightarrow> bool" where
  "first_peer cluster ps self = (ps = [] \<or> ID (hd ps) = ID self)"

definition demo_opts :: "api_server coordinator_option list" where
  "demo_opts = [WithPeerRegistry (Some (CustomReg peerA [peerA])), WithSharder (Some first_peer)]"

definition demo_new :: "api_server coordinator" where
  "demo_new = coordinator_New '''' demo_opts (fst (background [])) mem_server"

definition demo_engaged :: "api_server coordinator" where
  "demo_engaged = snd (coordinator_Engage 0 ''zoo'' 7 demo_new)"

definition demo_ch :: choices where
  "demo_ch = \<lparr>ch_peers = [], ch_order = [''zoo''], ch_now = 5, ch_times = (\<lambda>_. 5), ch_done = False\<rparr>"

definition demo_started :: "api_server coordinator" where
  "demo_started = recompute_now mem_client demo_ch 0 demo_engaged"

definition demo_entry :: "api_server coordinator \<Rightarrow> engagement" where
  "demo_entry c = the (fmlookup (c_engaged c) ''zoo'')"

lemma demo_options: "\<forall>opt \<in> set demo_opts. config_option opt"
  by (simp add: demo_opts_def config_options)

text \<open>The states of the run, written out.\<close>

definition demo_eng :: engagement where
  "demo_eng = \<lparr>e_token = 0, e_name = ''zoo'', e_cl = 7, e_ctx = None, e_cancel = None,
      e_started = False, e_fence = None, e_nextTry = zero_time\<rparr>"

definition demo_guard :: lease_guard where
  "demo_guard = newLeaseGuard ''kube-system'' ''mcr-shard-zoo'' ''a'' (20 * second) (10 * second)
     (Some ''zoo'')"

lemma demo_cfg:
  "fenceName defaultConfig ''zoo'' = ''mcr-shard-zoo''" "FenceNS defaultConfig = ''kube-system''"
  "LeaseDuration defaultConfig = 20 * second" "LeaseRenew defaultConfig = 10 * second"
  by code_simp (simp_all add: defaultConfig_def)

lemma demo_engaged_eq:
  "demo_engaged =
     \<lparr>c_sharder = first_peer, c_peers = Some (CustomReg peerA [peerA]), c_self = peerA,
      c_cfg = defaultConfig, c_engaged = fmupd ''zoo'' demo_eng fmempty, c_awares = [],
      c_guards = [], c_tokens = 1, c_ctxs = [(None, False)],
      c_go = [Watch 0 ''zoo'' 0, Recompute 0], c_calls = [], c_srv = mem_server\<rparr>"
  by (simp add: demo_engaged_def demo_new_def coordinator_New_def demo_opts_def
      WithPeerRegistry_def WithSharder_def coordinator_Engage_def background_def ctx_err.simps
      Let_def put_engaged_def spawn_def new_engagement_def demo_eng_def)

lemmas demo_eval =
  recompute_now_def recompute_def demo_ch_def recompute_one_def first_peer_def peerA_def peerB_def
  demo_eng_def recompute_start_def recompute_stop_def ensure_fence_def demo_cfg Let_def
  zero_time_def second_def try_fence_def TryAcquire_def mem_client_def mem_get_def mem_create_def
  mem_server_def start_renewer_def background_def with_cancel_def put_engaged_def spawn_def
  demo_guard_def newLeaseGuard_def numeral_eq_Suc

lemma demo_started_eq:
  "demo_started =
     \<lparr>c_sharder = first_peer, c_peers = Some (CustomReg peerA [peerA]), c_self = peerA,
      c_cfg = defaultConfig,
      c_engaged = fmupd ''zoo'' (demo_eng\<lparr>e_ctx := Some 3, e_cancel := Some 3, e_started := True,
         e_fence := Some 0\<rparr>) fmempty,
      c_awares = [], c_guards = [demo_guard\<lparr>g_held := True, g_cancel := Some 2\<rparr>], c_tokens = 1,
      c_ctxs = [(None, False), (None, False), (Some 1, False), (Some 0, False)],
      c_go = [Watch 0 ''zoo'' 0, Recompute 0, RenewLoop 0 2, StartFor 3 ''zoo'' 7], c_calls = [],
      c_srv = mem_store mem_server (acquire_new demo_guard 5)\<rparr>"
  unfolding demo_started_def demo_engaged_eq by (simp add: demo_eval)

lemma demo_domains:
  "fmdom (c_engaged demo_engaged) = {|''zoo''|}" "fmdom (c_engaged demo_started) = {|''zoo''|}"
  by (simp_all add: demo_engaged_eq demo_started_eq)

lemma demo_orders:
  "iter_order (c_engaged demo_engaged) [''zoo'']" "iter_order (c_engaged demo_started) [''zoo'']"
  by (simp_all add: iter_order_def demo_domains)

lemma demo_reach1: "(coord_step mem_client aw)\<^sup>*\<^sup>* demo_new demo_engaged"
  unfolding demo_engaged_def by (rule r_into_rtranclp, rule coord_step.engage) (rule surjective_pairing)

lemma demo_reach2: "(coord_step mem_client aw)\<^sup>*\<^sup>* demo_new demo_started"
  unfolding demo_started_def
  by (rule rtranclp.rtrancl_into_rtrancl[OF demo_reach1], rule coord_step.decide)
     (simp add: demo_ch_def demo_orders)

lemma demo_lookup:
  "fmlookup (c_engaged demo_started) ''zoo'' = Some (demo_entry demo_started)"
  "e_started (demo_entry demo_started)" "e_fence (demo_entry demo_started) = Some 0"
  "e_cancel (demo_entry demo_started) = Some 3" "e_ctx (demo_entry demo_started) = Some 3"
  "e_token (demo_entry demo_started) = 0"
  by (simp_all add: demo_started_eq demo_entry_def demo_eng_def)

subsection \<open>The coordinator\<close>

text \<open>
  C4: a running cluster is fenced by its own Lease. In every reachable state of the
  coordinator, whatever the order in which its goroutines ran, a cluster that is marked
  started has a guard for exactly its fence Lease under this peer's identity, and a cancel
  function for the context that its workers run under.
\<close>

theorem started_cluster_has_fence:
  assumes "\<forall>opt \<in> set opts. config_option opt"
    and "(coord_step C aw)\<^sup>*\<^sup>* (coordinator_New h opts S s) c"
    and "fmlookup (c_engaged c) n = Some e" and "e_started e"
  shows "\<exists>g k. e_fence e = Some g \<and> g < length (c_guards c) \<and>
     guard_key (c_guards c ! g) = NsName (FenceNS (c_cfg c)) (fenceName (c_cfg c) n) \<and>
     g_id (c_guards c ! g) = ID (c_self c) \<and> e_cancel e = Some k \<and> e_ctx e = Some k"
  by (rule startedE[OF New_reach_inv[OF assms(1,2)] assms(3,4)]) (simp add: guard_for_def)

theorem started_cluster_has_fence_witness:
  "\<exists>g. e_fence (demo_entry demo_started) = Some g \<and>
     guard_key (c_guards demo_started ! g) = NsName ''kube-system'' ''mcr-shard-zoo''"
proof -
  have "FenceNS (c_cfg demo_started) = ''kube-system''"
    "fenceName (c_cfg demo_started) ''zoo'' = ''mcr-shard-zoo''"
    by (simp_all add: demo_started_eq demo_cfg)
  with started_cluster_has_fence[OF demo_options demo_reach2[unfolded demo_new_def] demo_lookup(1,2)]
  show ?thesis by auto
qed

text \<open>
  C5: only owned and fenced clusters start. After \<open>recompute\<close> a cluster is started only if the
  sharder assigns it to this peer, and if it was not started before, this peer's guard holds
  the fence.
\<close>

theorem recompute_starts_only_owned:
  assumes "\<forall>opt \<in> set opts. config_option opt"
    and "(coord_step C aw)\<^sup>*\<^sup>* (coordinator_New h opts S s) c"
    and "iter_order (c_engaged c) ord"
    and "fmlookup (c_engaged c) n = Some e"
    and "fmlookup (c_engaged (recompute C peers ord parent now t c)) n = Some e'"
    and "e_started e'"
  shows "c_sharder c n peers (c_self c) \<and>
     (e_started e \<or> (\<exists>g. e_fence e' = Some g \<and>
        g_held (c_guards (recompute C peers ord parent now t c) ! g)))"
  using recompute_result(4)[OF New_reach_inv[OF assms(1,2)] assms(3) refl assms(4), of C peers parent now t]
    assms(5,6) by (auto simp: decided_def)

theorem recompute_starts_only_owned_witness:
  "first_peer ''zoo'' [peerA] peerA \<and>
   (\<exists>g. e_fence (demo_entry demo_started) = Some g \<and> g_held (c_guards demo_started ! g))"
proof -
  have eq: "demo_started = recompute mem_client [peerA] [''zoo''] 0 5 (\<lambda>_. 5) demo_engaged"
    by (simp add: demo_started_def recompute_now_def demo_ch_def demo_engaged_eq)
  have "fmlookup (c_engaged demo_engaged) ''zoo'' = Some (demo_entry demo_engaged)"
    "\<not> e_started (demo_entry demo_engaged)" "c_self demo_engaged = peerA"
    "c_sharder demo_engaged = first_peer"
    by (simp_all add: demo_engaged_eq demo_entry_def demo_eng_def)
  then show ?thesis
    using recompute_starts_only_owned[OF demo_options demo_reach1[unfolded demo_new_def] demo_orders(1) _
        demo_lookup(1)[unfolded eq] demo_lookup(2)[unfolded eq]]
    by (simp add: eq)
qed

text \<open>What an attempt at a fence finds on the way: the guard of the cluster itself.\<close>

lemma recompute_start_attempt:
  assumes inv: "coord_inv c" and e: "fmlookup (c_engaged c) n = Some e"
  obtains g where "guard_for (c_cfg c) (c_self c) n g"
    and "\<And>now t parent starts. e_nextTry e \<le> now \<Longrightarrow> fst (TryAcquire C g t (c_ctxs c) (c_srv c)) \<Longrightarrow>
      \<exists>c' k e'. recompute_start C parent now t n e (c, starts) = (c', starts @ [(n, e_cl e, k)]) \<and>
        fmlookup (c_engaged c') n = Some e' \<and> e_started e' \<and> e_ctx e' = Some k"
    and "\<And>now t parent starts. c_srv (fst (recompute_start C parent now t n e (c, starts))) \<in>
      {c_srv c, snd (snd (snd (TryAcquire C g t (c_ctxs c) (c_srv c))))}"
proof -
  note ok = coord_invD(1)[OF inv e]
  obtain g e1 c1 where f: "ensure_fence n e c = (g, e1, c1)" by (metis prod_cases3)
  note ef = ensure_fence_spec[OF f ok]
  have gf: "guard_for (c_cfg c) (c_self c) n (c_guards c1 ! g)"
    using ef(1,5,6) by (simp add: eng_ok_def evolves_def)
  have c1: "c_ctxs c1 = c_ctxs c" "c_srv c1 = c_srv c" "e_nextTry e1 = e_nextTry e" "e_cl e1 = e_cl e"
    using f by (auto simp: ensure_fence_def Let_def put_engaged_def split: option.splits)
  have name: "e_name e = n" using ok by (simp add: eng_ok_def)
  show thesis
  proof (rule that[OF gf])
    fix now t parent and starts :: "start list"
    assume due: "e_nextTry e \<le> now" and won: "fst (TryAcquire C (c_guards c1 ! g) t (c_ctxs c) (c_srv c))"
    then obtain c2 where "try_fence C g t c1 = (True, c2)"
      by (cases "TryAcquire C (c_guards c1 ! g) t (c_ctxs c) (c_srv c)") (auto simp: try_fence_def c1 Let_def)
    with f due c1 name show "\<exists>c' k e'. recompute_start C parent now t n e (c, starts) = (c', starts @ [(n, e_cl e, k)]) \<and>
        fmlookup (c_engaged c') n = Some e' \<and> e_started e' \<and> e_ctx e' = Some k"
      by (simp add: recompute_start_def Let_def with_cancel_def put_engaged_def)
  next
    fix now t parent and starts :: "start list"
    obtain r new S' s' where a: "TryAcquire C (c_guards c1 ! g) t (c_ctxs c) (c_srv c) = (r, new, S', s')"
      by (metis prod_cases4)
    have "fst (try_fence C g t c1) = r" "c_srv (snd (try_fence C g t c1)) = s'"
      using a by (simp_all add: try_fence_def c1 Let_def spawn_def split: option.splits bool.splits)
    then obtain c2 where tf: "try_fence C g t c1 = (r, c2)" "c_srv c2 = s'"
      by (cases "try_fence C g t c1") auto
    show "c_srv (fst (recompute_start C parent now t n e (c, starts))) \<in>
        {c_srv c, snd (snd (snd (TryAcquire C (c_guards c1 ! g) t (c_ctxs c) (c_srv c))))}"
      using f tf a c1 by (cases r) (simp_all add: recompute_start_def Let_def with_cancel_def put_engaged_def)
  qed
qed

lemma recompute_one_starts: "set starts \<subseteq> set (fst (snd (recompute_one C peers parent now t n (c, starts, stops))))"
  by (auto simp: recompute_one_def recompute_start_def Let_def split: option.splits prod.splits bool.splits)

lemma recompute_fold_starts:
  "set starts \<subseteq> set (fst (snd (fold (recompute_one C peers parent now t) ord (c, starts, stops))))"
proof (induction ord arbitrary: c starts stops)
  case (Cons n ord)
  obtain c' s' k' where one: "recompute_one C peers parent now t n (c, starts, stops) = (c', s', k')"
    by (metis prod_cases3)
  with recompute_one_starts[of starts C peers parent now t n c stops] have "set starts \<subseteq> set s'" by simp
  with Cons.IH[of s' c' k'] one show ?case by auto
qed simp

text \<open>A property of the API state that no attempt of the named clusters destroys outlives their iterations.\<close>

lemma recompute_one_srv:
  assumes inv: "coord_inv c" and p: "P (c_srv c)"
    and keep: "\<And>g S s. c_sharder c n peers (c_self c) \<Longrightarrow> guard_for (c_cfg c) (c_self c) n g \<Longrightarrow> P s \<Longrightarrow>
      P (snd (snd (snd (TryAcquire C g (t n) S s))))"
  shows "P (c_srv (fst (recompute_one C peers parent now t n (c, starts, stops))))"
proof (cases "fmlookup (c_engaged c) n")
  case (Some e)
  obtain g where g: "guard_for (c_cfg c) (c_self c) n g"
    and srv: "\<And>starts. c_srv (fst (recompute_start C parent now (t n) n e (c, starts))) \<in>
      {c_srv c, snd (snd (snd (TryAcquire C g (t n) (c_ctxs c) (c_srv c))))}"
    using recompute_start_attempt[OF inv Some, where C = C] by metis
  have start: "c_sharder c n peers (c_self c) \<Longrightarrow> P (c_srv (fst (recompute_start C parent now (t n) n e (c, starts))))"
    using srv[of starts] keep[OF _ g p] p by (metis insertE singletonD)
  have stop: "c_srv (fst (recompute_stop n e (c, stops))) = c_srv c"
    by (simp add: recompute_stop_def Let_def put_engaged_def spawn_def split: option.splits)
  show ?thesis
    using Some start stop p
    by (cases "recompute_start C parent now (t n) n e (c, starts)"; cases "recompute_stop n e (c, stops)")
       (simp add: recompute_one_def Let_def)
qed (use p in \<open>simp add: recompute_one_def\<close>)

lemma recompute_fold_srv:
  assumes "coord_inv c" and "P (c_srv c)" and "c_cfg c = cfg" and "c_self c = self" and "c_sharder c = sh"
    and "\<And>n g S s. n \<in> set ord \<Longrightarrow> sh n peers self \<Longrightarrow> guard_for cfg self n g \<Longrightarrow> P s \<Longrightarrow>
      P (snd (snd (snd (TryAcquire C g (t n) S s))))"
  shows "P (c_srv (fst (fold (recompute_one C peers parent now t) ord (c, starts, stops))))"
  using assms
proof (induction ord arbitrary: c starts stops)
  case (Cons n ord)
  obtain c' s' k' where one: "recompute_one C peers parent now t n (c, starts, stops) = (c', s', k')"
    by (metis prod_cases3)
  note l = recompute_one_looped[OF Cons.prems(1), where peers = peers and n = n and starts = starts and stops = stops
      and C = C and parent = parent and now = now and t = t, unfolded one]
  have "P (c_srv c')"
    using recompute_one_srv[where P = P and c = c and n = n and C = C and t = t and peers = peers and parent = parent
        and now = now and starts = starts and stops = stops] Cons.prems one by simp
  moreover have "c_cfg c' = cfg" "c_self c' = self" "c_sharder c' = sh"
    using loopedD(1)[OF l] Cons.prems(3-5) by (simp_all add: evolves_def)
  ultimately show ?case using Cons.IH[of c' s' k'] loopedD(2)[OF l] Cons.prems(6) one by simp
qed simp

text \<open>An owned cluster is started if attempts at its fence succeed once the earlier iterations are over.\<close>

lemma owned_cluster_started:
  assumes inv: "coord_inv c" and iter: "iter_order (c_engaged c) ord"
    and e: "fmlookup (c_engaged c) n = Some e" and "\<not> e_started e"
    and "c_sharder c n peers (c_self c)" and "e_nextTry e \<le> now" and "P (c_srv c)"
    and "\<And>m g S s. m \<in> set ord - {n} \<Longrightarrow> guard_for (c_cfg c) (c_self c) m g \<Longrightarrow> P s \<Longrightarrow>
      P (snd (snd (snd (TryAcquire C g (t m) S s))))"
    and "\<And>g S s. guard_for (c_cfg c) (c_self c) n g \<Longrightarrow> P s \<Longrightarrow> fst (TryAcquire C g (t n) S s)"
  shows "\<exists>e' k. fmlookup (c_engaged (recompute C peers ord parent now t c)) n = Some e' \<and>
    e_started e' \<and> e_ctx e' = Some k \<and> StartFor k n (e_cl e) \<in> set (c_go (recompute C peers ord parent now t c))"
proof -
  have "n \<in> set ord" using iter e by (auto simp: iter_order_def intro: fmdomI)
  then obtain pre post where ord: "ord = pre @ n # post" by (auto dest: split_list)
  with iter have distinct: "distinct pre" "n \<notin> set pre" "distinct post" "n \<notin> set post" by (auto simp: iter_order_def)
  obtain c1 s1 k1 where f1: "fold (recompute_one C peers parent now t) pre (c, [], []) = (c1, s1, k1)"
    by (metis prod_cases3)
  note l1 = recompute_fold_looped[OF inv distinct(1), where peers = peers and starts = "[]" and stops = "[]" and C = C
      and parent = parent and now = now and t = t, unfolded f1]
  have e1: "fmlookup (c_engaged c1) n = Some e" using loopedD(4)[OF l1 distinct(2)] e by simp
  have same: "c_sharder c1 = c_sharder c" "c_self c1 = c_self c" "c_cfg c1 = c_cfg c"
    using loopedD(1)[OF l1] by (simp_all add: evolves_def)
  have "P (c_srv c1)"
    using recompute_fold_srv[OF inv, where P = P and cfg = "c_cfg c" and self = "c_self c" and sh = "c_sharder c" and ord = pre and C = C
        and t = t and peers = peers and parent = parent and now = now and starts = "[]" and stops = "[]"]
      assms(7,8) distinct(2) f1 by (auto simp: ord)
  then obtain c2 k e' where st: "recompute_start C parent now (t n) n e (c1, s1) = (c2, s1 @ [(n, e_cl e, k)])"
    and e2: "fmlookup (c_engaged c2) n = Some e'" "e_started e'" "e_ctx e' = Some k"
    using recompute_start_attempt[OF loopedD(2)[OF l1] e1, where C = C] assms(6,9) same by metis
  have one: "recompute_one C peers parent now t n (c1, s1, k1) = (c2, s1 @ [(n, e_cl e, k)], k1)"
    using e1 st assms(4,5) same by (simp add: recompute_one_def)
  obtain c3 s3 k3 where f3: "fold (recompute_one C peers parent now t) post (c2, s1 @ [(n, e_cl e, k)], k1) = (c3, s3, k3)"
    by (metis prod_cases3)
  have inv2: "coord_inv c2" using recompute_one_looped[OF loopedD(2)[OF l1], of peers n s1 k1 C parent now t]
    unfolding one by (rule loopedD(2))
  have "fmlookup (c_engaged c3) n = Some e'"
    using loopedD(4)[OF recompute_fold_looped[OF inv2 distinct(3), where peers = peers and stops = k1
        and starts = "s1 @ [(n, e_cl e, k)]" and C = C and parent = parent and now = now and t = t, unfolded f3]
        distinct(4)] e2(1) by simp
  moreover have "(n, e_cl e, k) \<in> set s3"
    using recompute_fold_starts[of "s1 @ [(n, e_cl e, k)]" C peers parent now t post c2 k1] f3 by auto
  moreover have "fold (recompute_one C peers parent now t) ord (c, [], []) = (c3, s3, k3)"
    using f1 one f3 by (simp add: ord)
  ultimately show ?thesis
    using e2(2,3) by (intro exI[of _ e'] exI[of _ k]) (force simp: recompute_def fold_spawn_starts)
qed



text \<open>
  C6: a cluster that moved to another peer is stopped. If a started cluster is no longer
  assigned to this peer, \<open>recompute\<close> cancels the context its workers run under, marks it
  stopped and schedules the release of its fence.
\<close>

theorem recompute_stops_moved:
  assumes "\<forall>opt \<in> set opts. config_option opt"
    and "(coord_step C aw)\<^sup>*\<^sup>* (coordinator_New h opts S s) c"
    and "iter_order (c_engaged c) ord"
    and "fmlookup (c_engaged c) n = Some e" and "e_started e"
    and "\<not> c_sharder c n peers (c_self c)"
  shows "(\<exists>e' k g. fmlookup (c_engaged (recompute C peers ord parent now t c)) n = Some e' \<and>
     \<not> e_started e' \<and> e_ctx e = Some k \<and>
     ctx_err (c_ctxs (recompute C peers ord parent now t c)) k \<and> e_fence e = Some g \<and>
     ReleaseFence g \<in> set (c_go (recompute C peers ord parent now t c)))"
proof -
  note inv = New_reach_inv[OF assms(1,2)]
  note res = recompute_result[OF inv assms(3) refl,
      where C = C and peers = peers and parent = parent and now = now and t = t]
  from startedE[OF inv assms(4,5)] obtain g k
    where "e_fence e = Some g" "e_cancel e = Some k" "e_ctx e = Some k" by metis
  with res(4)[OF assms(4)] res(5,6)[OF assms(4,5)] assms(6)
  show ?thesis by (auto simp: decided_def)
qed

theorem recompute_stops_moved_witness:
  "ctx_err (c_ctxs (recompute mem_client [peerB] [''zoo''] 0 9 (\<lambda>_. 9) demo_started)) 3"
proof -
  have "c_self demo_started = peerA" "\<not> c_sharder demo_started ''zoo'' [peerB] peerA"
    by (simp_all add: demo_started_eq first_peer_def peerA_def peerB_def)
  with recompute_stops_moved[OF demo_options demo_reach2[unfolded demo_new_def] demo_orders(2)
      demo_lookup(1,2), of "[peerB]"] demo_lookup(5)
  show ?thesis by auto
qed

text \<open>
  C8: losing the fence stops the work. When a renewal of a started cluster's fence fails, the
  renewer ends, the cluster's context is cancelled, the cluster is marked stopped, so that a
  later decision can try again, and the guard no longer counts as held.
\<close>

theorem lost_fence_stops_cluster:
  assumes "\<forall>opt \<in> set opts. config_option opt"
    and "(coord_step C aw)\<^sup>*\<^sup>* (coordinator_New h opts S s) c"
    and "fmlookup (c_engaged c) n = Some e" and "e_started e" and "e_fence e = Some g"
    and "renewOnce C (c_guards c ! g) t (c_srv c) = (False, s1)"
    and "\<not> (ctx_err (c_ctxs c) rctx \<and> seldone)"
  shows "\<exists>c' k. renew_round C g rctx seldone t c = (False, c') \<and> e_ctx e = Some k \<and>
     ctx_err (c_ctxs c') k \<and> \<not> g_held (c_guards c' ! g) \<and>
     fmlookup (c_engaged c') n = Some (e\<lparr>e_started := False\<rparr>)"
proof -
  note inv = New_reach_inv[OF assms(1,2)]
  from startedE[OF inv assms(3,4)] obtain k where k: "e_cancel e = Some k" "e_ctx e = Some k" by metis
  obtain cont c' where r: "renew_round C g rctx seldone t c = (cont, c')" by fastforce
  from renew_round_lost[OF inv assms(3,4,5) k(1) assms(7,6) r] r k(2) show ?thesis by auto
qed

text \<open>The API server goes down while the cluster runs.\<close>

definition down_client :: "api_server lease_client" where
  "down_client = mem_client\<lparr>api_get := (\<lambda>s k. (Inl (OtherApi ''down''), s))\<rparr>"

text \<open>The API server becomes unavailable while the cluster runs.\<close>

definition demo_down :: "api_server coordinator" where
  "demo_down = demo_started\<lparr>c_srv := (c_srv demo_started)\<lparr>sv_down := True\<rparr>\<rparr>"

lemma demo_reach3: "(coord_step mem_client aw)\<^sup>*\<^sup>* demo_new demo_down"
  unfolding demo_down_def by (rule rtranclp.rtrancl_into_rtrancl[OF demo_reach2], rule coord_step.world)

theorem lost_fence_stops_cluster_witness:
  "\<exists>c'. renew_round mem_client 0 2 False 9 demo_down = (False, c') \<and> ctx_err (c_ctxs c') 3"
proof -
  have "renewOnce mem_client (c_guards demo_down ! 0) 9 (c_srv demo_down) = (False, c_srv demo_down)"
    by (simp add: renewOnce_def mem_client_def mem_get_def demo_down_def)
  moreover have "fmlookup (c_engaged demo_down) ''zoo'' = Some (demo_entry demo_started)"
    using demo_lookup(1) by (simp add: demo_down_def)
  ultimately show ?thesis
    using lost_fence_stops_cluster[OF demo_options demo_reach3[unfolded demo_new_def] _ demo_lookup(2,3)]
      demo_lookup(5) by fastforce
qed

text \<open>
  C15: re-engaging a cluster replaces its engagement and keeps its fence. The call succeeds
  exactly when the given context is live; the old workers' context is cancelled, the entry
  is new and not started, the guard is carried over, a decision is scheduled, and the cleanup
  goroutine of the previous engagement finds a foreign token and does nothing.
\<close>

theorem Engage_replaces_engagement:
  assumes "coord_inv c" and "coordinator_Engage parent name cl c = (err, c')"
    and "fmlookup (c_engaged c) name = Some cur" and "e_cancel cur = Some k"
  shows "if ctx_err (c_ctxs c) parent then err = Some ErrCtx \<and> c' = c
     else err = None \<and> ctx_err (c_ctxs c') k \<and>
       (\<exists>e. fmlookup (c_engaged c') name = Some e \<and> e_cl e = cl \<and> \<not> e_started e \<and>
          e_fence e = e_fence cur \<and> Watch parent name (e_token e) \<in> set (c_go c')) \<and>
       Recompute parent \<in> set (c_go c') \<and> watch_done name (e_token cur) c' = c'"
proof -
  have "eng_ok c name cur" using coord_invD(1)[OF assms(1,3)] .
  with assms(4) have k: "k < length (c_ctxs c)" and tok: "e_token cur \<noteq> c_tokens c"
    by (auto simp: eng_ok_def)
  show ?thesis
  proof (cases "ctx_err (c_ctxs c) parent")
    case True
    with assms(2) show ?thesis by (simp add: coordinator_Engage_def)
  next
    case False
    with assms(2,3) have err: "err = None"
      and c': "c' = spawn (Recompute parent) (spawn (Watch parent name (c_tokens c))
        (put_engaged name (new_engagement (c_tokens c) name cl (e_fence cur))
          (set_ctxs c (cancel_opt (e_cancel cur) (c_ctxs c))\<lparr>c_tokens := Suc (c_tokens c)\<rparr>)))"
      by (auto simp: coordinator_Engage_def Let_def put_engaged_tokens)
    have l: "fmlookup (c_engaged c') name = Some (new_engagement (c_tokens c) name cl (e_fence cur))"
      by (simp add: c')
    then have "watch_done name (e_token cur) c' = c'"
      using tok by (simp add: watch_done_def new_engagement_def)
    moreover have "ctx_err (c_ctxs c') k"
      using k assms(4) by (simp add: c' cancel_opt_def ctx_err_cancel_self)
    ultimately show ?thesis using False err l by (simp add: c' new_engagement_def)
  qed
qed

theorem Engage_replaces_engagement_witness:
  "ctx_err (c_ctxs (snd (coordinator_Engage 0 ''zoo'' 8 demo_started))) 3"
proof -
  have "\<not> ctx_err (c_ctxs demo_started) 0" by (simp add: demo_started_eq ctx_err.simps)
  moreover have "coord_inv demo_started"
    using New_reach_inv[OF demo_options demo_reach2[unfolded demo_new_def]] .
  ultimately show ?thesis
    using Engage_replaces_engagement[OF _ surjective_pairing demo_lookup(1,4), of 0 8] by simp
qed

text \<open>
  The cleanup goroutine removes the engagement it was started for. Once the engagement's
  context is done and its token is still the current one, the entry disappears, the workers'
  context is cancelled and the fence's release is scheduled; with any other token nothing
  changes.
\<close>

theorem watch_cleans_up:
  assumes "coord_inv c" and "fmlookup (c_engaged c) key = Some ee"
  shows "if e_token ee = token
     then fmlookup (c_engaged (watch_done key token c)) key = None \<and>
       (\<forall>k. e_started ee \<and> e_ctx ee = Some k \<longrightarrow> ctx_err (c_ctxs (watch_done key token c)) k) \<and>
       (\<forall>g. e_fence ee = Some g \<longrightarrow> ReleaseFence g \<in> set (c_go (watch_done key token c)))
     else watch_done key token c = c"
proof -
  have "eng_ok c key ee" using coord_invD(1)[OF assms] .
  then have "ctx_err (cancel_opt (e_cancel ee) (c_ctxs c)) k" if "e_started ee" "e_ctx ee = Some k" for k
    using that by (auto simp: eng_ok_def cancel_opt_def ctx_err_cancel_self)
  then show ?thesis
    using assms(2) by (auto simp: watch_done_def Let_def split: option.splits)
qed

theorem watch_cleans_up_witness:
  "fmlookup (c_engaged (watch_done ''zoo'' 0 demo_started)) ''zoo'' = None"
  using watch_cleans_up[OF New_reach_inv[OF demo_options demo_reach2[unfolded demo_new_def]]
      demo_lookup(1), of 0] demo_lookup(6) by simp

subsection \<open>Runs that the design does not expect\<close>

text \<open>
  The peer set changes away and back before the release goroutine of the stop has run.
\<close>

definition demo_peers :: "PeerInfo list \<Rightarrow> api_server coordinator \<Rightarrow> api_server coordinator" where
  "demo_peers ps c = c\<lparr>c_peers := Some (CustomReg peerA ps)\<rparr>"

definition demo_moved :: "api_server coordinator" where
  "demo_moved = recompute_now mem_client demo_ch 0 (demo_peers [peerB] demo_started)"

definition demo_bounced :: "api_server coordinator" where
  "demo_bounced = recompute_now mem_client demo_ch 0 (demo_peers [peerA] demo_moved)"

definition demo_raced :: "api_server coordinator" where
  "demo_raced =
     release_fence mem_client 0 (demo_bounced\<lparr>c_go := remove1 (ReleaseFence 0) (c_go demo_bounced)\<rparr>)"

lemma demo_peers_sel [simp]: "c_engaged (demo_peers ps c) = c_engaged c" "c_go (demo_peers ps c) = c_go c"
  by (simp_all add: demo_peers_def)

lemma demo_ch_order [simp]: "ch_order demo_ch = [''zoo'']"
  by (simp add: demo_ch_def)

lemma demo_moved_eq:
  "demo_moved = demo_started\<lparr>c_peers := Some (CustomReg peerA [peerB]),
     c_engaged := fmupd ''zoo'' (demo_eng\<lparr>e_ctx := Some 3, e_fence := Some 0\<rparr>) fmempty,
     c_ctxs := [(None, False), (None, False), (Some 1, False), (Some 0, True)],
     c_go := c_go demo_started @ [ReleaseFence 0]\<rparr>"
  unfolding demo_moved_def demo_started_eq demo_peers_def by (simp add: demo_eval cancel_def)

lemma demo_bounced_eq:
  "demo_bounced = demo_started\<lparr>
     c_engaged := fmupd ''zoo'' (demo_eng\<lparr>e_ctx := Some 4, e_cancel := Some 4, e_started := True,
       e_fence := Some 0\<rparr>) fmempty,
     c_ctxs := [(None, False), (None, False), (Some 1, False), (Some 0, True), (Some 0, False)],
     c_go := c_go demo_started @ ReleaseFence 0 # [StartFor 4 ''zoo'' 7]\<rparr>"
  unfolding demo_bounced_def demo_moved_eq demo_started_eq demo_peers_def
  by (simp add: demo_eval)

lemma demo_bounced_dom: "fmdom (c_engaged demo_bounced) = {|''zoo''|}"
  by (simp add: demo_bounced_eq)

lemma demo_reach_bounced: "(coord_step mem_client aw)\<^sup>*\<^sup>* demo_new demo_bounced"
proof -
  let ?b = "demo_peers [peerB] demo_started"
  have "coord_step mem_client aw demo_started ?b"
    unfolding demo_peers_def by (rule coord_step.custom) (simp add: demo_started_eq)
  moreover have "coord_step mem_client aw ?b demo_moved"
    unfolding demo_moved_def by (rule coord_step.decide) (simp add: demo_orders)
  moreover have "coord_step mem_client aw demo_moved (demo_peers [peerA] demo_moved)"
    unfolding demo_peers_def by (rule coord_step.custom) (simp add: demo_moved_eq)
  moreover have "coord_step mem_client aw (demo_peers [peerA] demo_moved) demo_bounced"
    unfolding demo_bounced_def by (rule coord_step.decide) (simp add: iter_order_def demo_moved_eq)
  ultimately show ?thesis by (meson demo_reach2 rtranclp.rtrancl_into_rtrancl)
qed

lemma demo_raced_eval:
  "fmlookup (c_engaged demo_raced) ''zoo'' = Some (demo_eng\<lparr>e_ctx := Some 4, e_cancel := Some 4,
     e_started := True, e_fence := Some 0\<rparr>)"
  "\<not> g_held (c_guards demo_raced ! 0)" "\<not> ctx_err (c_ctxs demo_raced) 4"
  "\<exists>l. mem_stored (c_srv demo_raced) (guard_key (c_guards demo_raced ! 0)) = Some l \<and>
     HolderIdentity l = Some ''''"
  unfolding demo_raced_def demo_bounced_eq demo_started_eq
  by (simp_all add: release_fence_def Release_def mem_client_def mem_get_def mem_store_def mem_server_def
      mem_update_def acquire_new_def new_lease_def wire_def guard_key_def demo_guard_def
      newLeaseGuard_def cancel_opt_def cancel_def release_update_def ctx_err.simps mem_stored_def
      numeral_eq_Suc Let_def)

text \<open>
  A cluster can run without its fence. \<open>recompute\<close> releases the fence in a goroutine that
  it does not wait for. If the assignment comes back before that goroutine runs,
  \<open>TryAcquire\<close> still sees the guard as held and the cluster is started; then the release
  clears the holder in the API, and the cluster stays started although its guard does not
  hold the fence and the Lease is free for any other peer.
\<close>

theorem started_without_fence_reachable:
  "\<exists>c e g l. (coord_step mem_client aw)\<^sup>*\<^sup>* demo_new c \<and>
     fmlookup (c_engaged c) ''zoo'' = Some e \<and> e_started e \<and> e_fence e = Some g \<and>
     \<not> g_held (c_guards c ! g) \<and> \<not> ctx_err (c_ctxs c) (the (e_ctx e)) \<and>
     mem_stored (c_srv c) (guard_key (c_guards c ! g)) = Some l \<and> HolderIdentity l = Some ''''"
proof -
  have "coord_step mem_client aw demo_bounced demo_raced"
    unfolding demo_raced_def
    by (rule coord_step.run[where ch = demo_ch and g = "ReleaseFence 0" and before = "c_go demo_started"
          and after = "[StartFor 4 ''zoo'' 7]"])
       (simp_all add: iter_order_def demo_bounced_dom, simp_all add: demo_bounced_eq demo_started_eq)
  with demo_reach_bounced have "(coord_step mem_client aw)\<^sup>*\<^sup>* demo_new demo_raced"
    by (rule rtranclp.rtrancl_into_rtrancl)
  with demo_raced_eval show ?thesis by (intro exI[of _ demo_raced]) auto
qed

text \<open>A start that fails, after which the assignment moves away.\<close>

definition demo_failed :: "api_server coordinator" where
  "demo_failed = startForCluster (\<lambda>_ _. Some (ErrExt ''engage'')) 3 ''zoo'' 7
     ((coordinator_AddAware 1 demo_started)\<lparr>c_go :=
        remove1 (StartFor 3 ''zoo'' 7) (c_go demo_started)\<rparr>)"

definition demo_left :: "api_server coordinator" where
  "demo_left = demo_peers [peerB] demo_failed"

lemma demo_left_eq:
  "demo_left = demo_started\<lparr>c_peers := Some (CustomReg peerA [peerB]), c_awares := [1],
     c_engaged := fmupd ''zoo'' (demo_eng\<lparr>e_ctx := Some 3, e_cancel := Some 3, e_fence := Some 0\<rparr>) fmempty,
     c_ctxs := [(None, False), (None, False), (Some 1, False), (Some 0, True)],
     c_go := [Watch 0 ''zoo'' 0, Recompute 0, RenewLoop 0 2], c_calls := [(1, 3, ''zoo'', 7)]\<rparr>"
  unfolding demo_left_def demo_failed_def demo_started_eq
  by (simp add: startForCluster_def coordinator_AddAware_def demo_peers_def put_engaged_def
      cancel_opt_def cancel_def demo_eng_def numeral_eq_Suc)

lemma demo_left_lookup:
  "fmlookup (c_engaged demo_left) n =
     (if n = ''zoo'' then Some (demo_eng\<lparr>e_ctx := Some 3, e_cancel := Some 3, e_fence := Some 0\<rparr>) else None)"
  "c_sharder demo_left = first_peer" "c_self demo_left = peerA"
  "g_held (c_guards demo_left ! 0)" "ReleaseFence g \<notin> set (c_go demo_left)"
  by (simp_all add: demo_left_eq demo_started_eq)

text \<open>
  A fence can be kept for a cluster that this peer neither owns nor runs. After a failed
  start the cluster is marked stopped with its fence still held; when the assignment then
  moves to another peer, \<open>recompute\<close> finds nothing to stop and changes nothing: no release is
  scheduled, the renewer keeps renewing, and the new owner cannot take the fence.
\<close>

theorem unowned_fence_kept_reachable:
  "\<exists>c e. (coord_step mem_client (\<lambda>_ _. Some (ErrExt ''engage'')))\<^sup>*\<^sup>* demo_new c \<and>
     fmlookup (c_engaged c) ''zoo'' = Some e \<and> \<not> e_started e \<and> e_fence e = Some 0 \<and>
     g_held (c_guards c ! 0) \<and> \<not> c_sharder c ''zoo'' [peerB] (c_self c) \<and>
     (\<forall>g. ReleaseFence g \<notin> set (c_go c)) \<and>
     (\<forall>ord parent now t. recompute mem_client [peerB] ord parent now t c = c)"
proof -
  let ?aw = "\<lambda>_ _. Some (ErrExt ''engage'')"
  let ?s = "coordinator_AddAware 1 demo_started"
  have "coord_step mem_client ?aw demo_started ?s" by (rule coord_step.aware)
  moreover have "coord_step mem_client ?aw ?s demo_failed"
    unfolding demo_failed_def
    by (rule coord_step.run[where ch = demo_ch and before = "[Watch 0 ''zoo'' 0, Recompute 0, RenewLoop 0 2]"
          and g = "StartFor 3 ''zoo'' 7" and after = "[]"])
       (simp_all add: coordinator_AddAware_def demo_orders, simp_all add: demo_started_eq)
  moreover have "coord_step mem_client ?aw demo_failed demo_left"
    unfolding demo_left_def demo_peers_def
    by (rule coord_step.custom) (simp add: demo_failed_def startForCluster_def
        coordinator_AddAware_def demo_started_eq put_engaged_def)
  ultimately have "(coord_step mem_client ?aw)\<^sup>*\<^sup>* demo_new demo_left"
    by (meson demo_reach2 rtranclp.rtrancl_into_rtrancl)
  moreover have "recompute mem_client [peerB] ord parent now t demo_left = demo_left" for ord parent now t
    by (rule recompute_idle)
       (auto simp: demo_left_lookup first_peer_def peerA_def peerB_def demo_eng_def split: if_splits)
  ultimately show ?thesis
    by (intro exI[of _ demo_left]) (simp add: demo_left_lookup first_peer_def peerA_def peerB_def demo_eng_def)
qed

text \<open>
  A second cluster, \<open>yak\<close>, is engaged under a context of its own before the first decision; the
  decision that this \<open>Engage\<close> kicks off starts both; then the provider removes \<open>yak\<close>.
\<close>

definition demo_two :: "api_server coordinator" where
  "demo_two = snd (coordinator_Engage 1 ''yak'' 8
     (demo_engaged\<lparr>c_ctxs := fst (with_cancel (c_ctxs demo_engaged) 0)\<rparr>))"

definition demo_kicked :: "api_server coordinator" where
  "demo_kicked = recompute_now mem_client (demo_ch\<lparr>ch_order := [''zoo'', ''yak'']\<rparr>) 1
     (demo_two\<lparr>c_go := [Watch 0 ''zoo'' 0, Recompute 0, Watch 1 ''yak'' 1]\<rparr>)"

definition demo_orphan :: "api_server coordinator" where
  "demo_orphan = watch_done ''yak'' 1 (demo_kicked\<lparr>c_ctxs := cancel (c_ctxs demo_kicked) 1,
     c_go := remove1 (Watch 1 ''yak'' 1) (c_go demo_kicked)\<rparr>)"

lemma demo_two_eq:
  "demo_two = demo_engaged\<lparr>
     c_engaged := fmupd ''yak'' (demo_eng\<lparr>e_token := 1, e_name := ''yak'', e_cl := 8\<rparr>) (fmupd ''zoo'' demo_eng fmempty),
     c_tokens := 2, c_ctxs := [(None, False), (Some 0, False)],
     c_go := [Watch 0 ''zoo'' 0, Recompute 0, Watch 1 ''yak'' 1, Recompute 1]\<rparr>"
  unfolding demo_two_def demo_engaged_eq
  by (simp add: with_cancel_def coordinator_Engage_def ctx_err.simps Let_def put_engaged_def spawn_def
      new_engagement_def demo_eng_def numeral_eq_Suc)

lemma demo_yak_fence: "fenceName defaultConfig ''yak'' = ''mcr-shard-yak''"
  by code_simp

lemma demo_second_lease:
  assumes "k \<noteq> l_key l"
  shows "mem_get (mem_store mem_server l) k = (Inl NotFound, mem_store mem_server l)"
    "l_key l' = k \<Longrightarrow> mem_create (mem_store mem_server l) l' = (None, mem_store (mem_store mem_server l) l')"
  using assms by (simp_all add: mem_get_def mem_create_def mem_store_def mem_server_def Let_def)

definition demo_zoo :: engagement where
  "demo_zoo = demo_eng\<lparr>e_ctx := Some 4, e_cancel := Some 4, e_started := True, e_fence := Some 0\<rparr>"

definition demo_half :: "api_server coordinator" where
  "demo_half = demo_engaged\<lparr>
     c_engaged := fmupd ''yak'' (demo_eng\<lparr>e_token := 1, e_name := ''yak'', e_cl := 8\<rparr>) (fmupd ''zoo'' demo_zoo fmempty),
     c_tokens := 2, c_guards := [demo_guard\<lparr>g_held := True, g_cancel := Some 3\<rparr>],
     c_ctxs := [(None, False), (Some 0, False), (None, False), (Some 2, False), (Some 1, False)],
     c_go := [Watch 0 ''zoo'' 0, Recompute 0, Watch 1 ''yak'' 1, RenewLoop 0 3],
     c_srv := mem_store mem_server (acquire_new demo_guard 5)\<rparr>"

lemma fmupd_zoo_yak: "fmupd ''zoo'' x (fmupd ''yak'' y m) = fmupd ''yak'' y (fmupd ''zoo'' x m)"
  by (rule fmupd_reorder_neq) simp

lemma demo_half_eq:
  "recompute_one mem_client [peerA] 1 5 (\<lambda>_. 5) ''zoo''
     (demo_two\<lparr>c_go := [Watch 0 ''zoo'' 0, Recompute 0, Watch 1 ''yak'' 1]\<rparr>, [], []) =
   (demo_half, [(''zoo'', 7, 4)], [])"
  unfolding demo_half_def demo_two_eq demo_engaged_eq demo_zoo_def
  by (simp add: demo_eval fmupd_zoo_yak)

lemma demo_yak_acquire:
  assumes "guard_key g \<noteq> guard_key demo_guard" and "\<not> g_held g"
  shows "TryAcquire mem_client g 5 S (c_srv demo_half) =
    (True, g\<lparr>g_held := True, g_cancel := Some (Suc (length S))\<rparr>, S @ [(None, False), (Some (length S), False)],
     mem_store (c_srv demo_half) (acquire_new g 5))"
  using assms demo_second_lease(1)[of "guard_key g" "acquire_new demo_guard 5"]
    demo_second_lease(2)[of "guard_key g" "acquire_new demo_guard 5" "acquire_new g 5"]
  by (simp add: TryAcquire_def mem_client_def demo_half_def start_renewer_def background_def with_cancel_def Let_def)

lemma demo_yak_step:
  "\<exists>gs srv. recompute_one mem_client [peerA] 1 5 (\<lambda>_. 5) ''yak'' (demo_half, ss, []) =
     (demo_half\<lparr>
       c_engaged := fmupd ''yak'' (demo_eng\<lparr>e_token := 1, e_name := ''yak'', e_cl := 8, e_ctx := Some 7,
         e_cancel := Some 7, e_started := True, e_fence := Some 1\<rparr>) (fmupd ''zoo'' demo_zoo fmempty),
       c_guards := c_guards demo_half @ gs,
       c_ctxs := c_ctxs demo_half @ [(None, False), (Some 5, False), (Some 1, False)],
       c_go := c_go demo_half @ [RenewLoop 1 6], c_srv := srv\<rparr>, ss @ [(''yak'', 8, 7)], [])"
proof -
  let ?g = "newLeaseGuard ''kube-system'' ''mcr-shard-yak'' ''a'' (20 * second) (10 * second) (Some ''yak'')"
  have acq: "TryAcquire mem_client ?g 5 S (c_srv demo_half) =
    (True, ?g\<lparr>g_held := True, g_cancel := Some (Suc (length S))\<rparr>, S @ [(None, False), (Some (length S), False)],
     mem_store (c_srv demo_half) (acquire_new ?g 5))" for S
    by (rule demo_yak_acquire) (simp_all add: demo_guard_def newLeaseGuard_def guard_key_def)
  have "c_engaged demo_half = fmupd ''yak'' (demo_eng\<lparr>e_token := 1, e_name := ''yak'', e_cl := 8\<rparr>) (fmupd ''zoo'' demo_zoo fmempty)"
    "c_sharder demo_half = first_peer" "c_self demo_half = peerA" "c_cfg demo_half = defaultConfig"
    "length (c_guards demo_half) = 1" "length (c_ctxs demo_half) = 5"
    by (simp_all add: demo_half_def demo_engaged_eq)
  moreover have "\<not> g_held ?g" by (simp add: newLeaseGuard_def)
  moreover have "\<not> 5 < zero_time" by (simp add: zero_time_def second_def)
  ultimately show ?thesis
    by (intro exI[of _ "[?g\<lparr>g_held := True, g_cancel := Some 6\<rparr>]"] exI[of _ "mem_store (c_srv demo_half) (acquire_new ?g 5)"])
       (simp add: recompute_one_def recompute_start_def ensure_fence_def try_fence_def acq demo_cfg demo_yak_fence
        first_peer_def peerA_def demo_eng_def Let_def put_engaged_def spawn_def
        with_cancel_def nth_append list_update_append coordinator.equality)
qed

lemma demo_kicked_sel:
  "c_engaged demo_kicked = fmupd ''yak'' (demo_eng\<lparr>e_token := 1, e_name := ''yak'', e_cl := 8, e_ctx := Some 7,
       e_cancel := Some 7, e_started := True, e_fence := Some 1\<rparr>) (fmupd ''zoo'' demo_zoo fmempty)"
  "c_ctxs demo_kicked = c_ctxs demo_half @ [(None, False), (Some 5, False), (Some 1, False)]"
  "c_go demo_kicked = c_go demo_half @ [RenewLoop 1 6, StartFor 4 ''zoo'' 7, StartFor 7 ''yak'' 8]"
  "\<exists>gs. c_guards demo_kicked = c_guards demo_half @ gs"
  "c_sharder demo_kicked = c_sharder demo_half" "c_self demo_kicked = c_self demo_half"
proof -
  have "c_peers demo_two = Some (CustomReg peerA [peerA])" by (simp add: demo_two_eq demo_engaged_eq)
  then have kick: "demo_kicked = (let (c1, starts, stops) =
       recompute_one mem_client [peerA] 1 5 (\<lambda>_. 5) ''yak'' (demo_half, [(''zoo'', 7, 4)], [])
     in fold (\<lambda>(n, cl, cx). spawn (StartFor cx n cl)) starts (set_ctxs c1 (cancel_all stops (c_ctxs c1))))"
    using demo_half_eq by (simp add: demo_kicked_def recompute_now_def recompute_def demo_ch_def)
  obtain gs srv where yak: "recompute_one mem_client [peerA] 1 5 (\<lambda>_. 5) ''yak'' (demo_half, [(''zoo'', 7, 4)], []) =
     (demo_half\<lparr>
       c_engaged := fmupd ''yak'' (demo_eng\<lparr>e_token := 1, e_name := ''yak'', e_cl := 8, e_ctx := Some 7,
         e_cancel := Some 7, e_started := True, e_fence := Some 1\<rparr>) (fmupd ''zoo'' demo_zoo fmempty),
       c_guards := c_guards demo_half @ gs,
       c_ctxs := c_ctxs demo_half @ [(None, False), (Some 5, False), (Some 1, False)],
       c_go := c_go demo_half @ [RenewLoop 1 6], c_srv := srv\<rparr>, [(''zoo'', 7, 4), (''yak'', 8, 7)], [])"
    using demo_yak_step[of "[(''zoo'', 7, 4)]"] by auto
  show
    "c_engaged demo_kicked = fmupd ''yak'' (demo_eng\<lparr>e_token := 1, e_name := ''yak'', e_cl := 8, e_ctx := Some 7,
       e_cancel := Some 7, e_started := True, e_fence := Some 1\<rparr>) (fmupd ''zoo'' demo_zoo fmempty)"
    "c_ctxs demo_kicked = c_ctxs demo_half @ [(None, False), (Some 5, False), (Some 1, False)]"
    "c_go demo_kicked = c_go demo_half @ [RenewLoop 1 6, StartFor 4 ''zoo'' 7, StartFor 7 ''yak'' 8]"
    "\<exists>gs. c_guards demo_kicked = c_guards demo_half @ gs"
    "c_sharder demo_kicked = c_sharder demo_half" "c_self demo_kicked = c_self demo_half"
    unfolding kick yak by (simp_all add: spawn_def)
qed

lemma demo_half_sel:
  "c_ctxs demo_half = [(None, False), (Some 0, False), (None, False), (Some 2, False), (Some 1, False)]"
  "c_go demo_half = [Watch 0 ''zoo'' 0, Recompute 0, Watch 1 ''yak'' 1, RenewLoop 0 3]"
  "c_guards demo_half = [demo_guard\<lparr>g_held := True, g_cancel := Some 3\<rparr>]"
  "c_sharder demo_half = first_peer" "c_self demo_half = peerA"
  by (simp_all add: demo_half_def demo_engaged_eq)

lemma demo_orphan_eval:
  "c_engaged demo_orphan = fmupd ''zoo'' demo_zoo fmempty"
  "c_ctxs demo_orphan = [(None, False), (Some 0, True), (None, False), (Some 2, False), (Some 1, False),
     (None, False), (Some 5, False), (Some 1, True)]"
  "g_held (c_guards demo_orphan ! 0)" "Watch 0 ''zoo'' 0 \<in> set (c_go demo_orphan)"
  "c_sharder demo_orphan = first_peer" "c_self demo_orphan = peerA"
  using demo_kicked_sel(4)
  by (auto simp: demo_orphan_def demo_kicked_sel watch_done_def cancel_def cancel_opt_def spawn_def Let_def demo_half_sel
      demo_eng_def demo_zoo_def fmdrop_fmupd numeral_eq_Suc)

lemma demo_reach_orphan: "(coord_step mem_client aw)\<^sup>*\<^sup>* demo_new demo_orphan"
proof -
  let ?ctx = "demo_engaged\<lparr>c_ctxs := fst (with_cancel (c_ctxs demo_engaged) 0)\<rparr>"
  let ?gone = "demo_kicked\<lparr>c_ctxs := cancel (c_ctxs demo_kicked) 1\<rparr>"
  have "coord_step mem_client aw demo_engaged ?ctx" by (rule coord_step.ctx_new)
  moreover have "coord_step mem_client aw ?ctx demo_two"
    unfolding demo_two_def by (rule coord_step.engage) (rule surjective_pairing)
  moreover have "coord_step mem_client aw demo_two demo_kicked"
    by (rule coord_step.run[where ch = "demo_ch\<lparr>ch_order := [''zoo'', ''yak'']\<rparr>" and g = "Recompute 1"
          and before = "[Watch 0 ''zoo'' 0, Recompute 0, Watch 1 ''yak'' 1]" and after = "[]"])
       (auto simp: demo_kicked_def recompute_now_def iter_order_def demo_two_eq demo_engaged_eq)
  moreover have "coord_step mem_client aw demo_kicked ?gone" by (rule coord_step.ctx_cancel)
  moreover have "coord_step mem_client aw ?gone demo_orphan"
    unfolding demo_orphan_def
    by (rule coord_step.run[where ch = "demo_ch\<lparr>ch_order := [''zoo'', ''yak'']\<rparr>" and g = "Watch 1 ''yak'' 1"
          and before = "[Watch 0 ''zoo'' 0, Recompute 0]"
          and after = "[RenewLoop 0 3, RenewLoop 1 6, StartFor 4 ''zoo'' 7, StartFor 7 ''yak'' 8]"])
       (auto simp: iter_order_def demo_kicked_sel demo_half_sel cancel_def ctx_err.simps)
  ultimately show ?thesis by (meson demo_reach1 rtranclp.rtrancl_into_rtrancl)
qed

text \<open>
  A cluster can be stopped by the removal of another one. \<open>Engage\<close> kicks \<open>recompute\<close> with the
  context of the cluster it engages, and \<open>recompute\<close> derives from it the contexts of all clusters
  that it starts. When that cluster is removed the workers of the others end as well, while they
  stay engaged, marked as started and fenced: as long as this process owns them, no later
  decision starts them again.
\<close>

theorem started_under_foreign_context_reachable:
  "\<exists>c e k. (coord_step mem_client aw)\<^sup>*\<^sup>* demo_new c \<and>
     fmlookup (c_engaged c) ''zoo'' = Some e \<and> e_started e \<and> e_fence e = Some 0 \<and> g_held (c_guards c ! 0) \<and>
     e_ctx e = Some k \<and> ctx_err (c_ctxs c) k \<and>
     Watch 0 ''zoo'' (e_token e) \<in> set (c_go c) \<and> \<not> ctx_err (c_ctxs c) 0 \<and>
     (\<forall>ord parent now t. recompute mem_client [peerA] ord parent now t c = c)"
proof -
  have "recompute mem_client [peerA] ord parent now t demo_orphan = demo_orphan" for ord parent now t
    by (rule recompute_idle)
       (auto simp: demo_orphan_eval first_peer_def peerA_def demo_zoo_def split: if_splits)
  moreover have "ctx_err (c_ctxs demo_orphan) 4" "\<not> ctx_err (c_ctxs demo_orphan) 0"
    by (simp_all add: demo_orphan_eval ctx_err.simps)
  ultimately show ?thesis
    using demo_reach_orphan demo_orphan_eval
    by (intro exI[of _ demo_orphan] exI[of _ demo_zoo] exI[of _ 4]) (simp add: demo_zoo_def demo_eng_def)
qed

end
