(* ===== verification/FenceRuns.thy ===== *)
theory FenceRuns
  imports Coordinator Fencing
begin

text \<open>
  What a process with a sharded coordinator does to the fences on the API server, call by call.
  The guarantee \<open>fence_run\<close> composes over the calls of a step, so that the guard's methods, the
  decisions of the coordinator, its goroutines and its registry are followed through their own
  definitions.
\<close>

subsection \<open>What a process does to a fence\<close>

text \<open>A Lease under the name of a peer that says when it ends, and one that the peer may take.\<close>

definition mine :: "string \<Rightarrow> lease \<Rightarrow> bool" where
  "mine me l \<longleftrightarrow> HolderIdentity l = Some me \<and> expiry l \<noteq> None"

definition lease_free :: "string \<Rightarrow> int \<Rightarrow> lease \<Rightarrow> bool" where
  "lease_free me t l \<longleftrightarrow>
     HolderIdentity l = None \<or> HolderIdentity l = Some '''' \<or> HolderIdentity l = Some me \<or> expired l t"

definition wrote ::
  "('s \<Rightarrow> nsname \<Rightarrow> lease option) \<Rightarrow> (lease \<Rightarrow> bool) \<Rightarrow> string \<Rightarrow> int \<Rightarrow> nsname \<Rightarrow> 's \<Rightarrow> 's \<Rightarrow> bool" where
  "wrote st Q me t k s s' \<longleftrightarrow>
     (\<forall>j. j \<noteq> k \<longrightarrow> st s' j = st s j) \<and>
     (st s' k = st s k \<or>
      (\<forall>l. st s k = Some l \<longrightarrow> lease_free me t l) \<and> (\<exists>l'. st s' k = Some l' \<and> Q l'))"

lemma lease_free_mono: "lease_free me now l \<Longrightarrow> now \<le> t \<Longrightarrow> lease_free me t l"
  by (force simp: lease_free_def expired_expiry)

lemma mine_expiry:
  "HolderIdentity l = Some me \<Longrightarrow> RenewTime l = Some r \<Longrightarrow> LeaseDurationSeconds l = Some d \<Longrightarrow> mine me l"
  by (simp add: mine_def expiry_def)

lemma wrote_same: "api_same st vs s s' \<Longrightarrow> wrote st Q me t k s s'"
  by (simp add: wrote_def api_same_def)

context lease_api
begin

lemma wrote_commit:
  assumes "api_commit st vs s l' s'" and "l_key l' = k"
    and "\<And>l. st s k = Some l \<Longrightarrow> lease_free me t l"
    and "\<And>v. Q ((wire l')\<lparr>l_rv := v\<rparr>)"
  shows "wrote st Q me t k s s'"
  using assms by (auto simp: wrote_def api_commit_def)

lemma wrote_create:
  assumes "ok s" and "api_create C s l' = (r, s')" and "l_key l' = k" and "\<And>v. Q ((wire l')\<lparr>l_rv := v\<rparr>)"
  shows "ok s'" and "wrote st Q me t k s s'" and "r = None \<Longrightarrow> \<exists>l. st s' k = Some l \<and> Q l"
proof -
  note law = create_law[OF assms(1,2)]
  show "ok s'" using law by simp
  show "wrote st Q me t k s s'"
    using law assms(3,4) by (auto intro: wrote_same wrote_commit)
  show "r = None \<Longrightarrow> \<exists>l. st s' k = Some l \<and> Q l"
    using law assms(3,4) by (auto simp: api_commit_def)
qed

lemma wrote_update:
  assumes "ok s" and "api_update C s l' = (r, s')" and "l \<in> vs s k" and "l_key l' = l_key l" "l_rv l' = l_rv l"
    and "lease_free me t l" and "\<And>v. Q ((wire l')\<lparr>l_rv := v\<rparr>)"
  shows "ok s'" and "wrote st Q me t k s s'" and "r = None \<Longrightarrow> \<exists>l. st s' k = Some l \<and> Q l"
proof -
  note law = update_law[OF assms(1,2)]
  have key: "l_key l' = k" using version_key[OF assms(1,3)] assms(4) by simp
  note repl = update_replaces_read[OF assms(1,3) key assms(5,2)]
  show "ok s'" using law by simp
  show "wrote st Q me t k s s'"
  proof (cases "api_same st vs s s'")
    case True
    then show ?thesis by (rule wrote_same)
  next
    case False
    with repl have "st s k = Some l" "api_commit st vs s l' s'" by auto
    then show ?thesis using key assms(6,7) by (intro wrote_commit) auto
  qed
  show "r = None \<Longrightarrow> \<exists>l. st s' k = Some l \<and> Q l"
    using repl key assms(7) by (auto simp: api_commit_def)
qed

lemma wrote_after_get:
  assumes "ok s" and "api_get C s k' = (r, s1)" and "wrote st Q me t k s1 s'"
  shows "wrote st Q me t k s s'"
  using assms(3) get_law[OF assms(1,2)] by (simp add: wrote_def api_same_def)

text \<open>The three methods of a guard.\<close>

lemma TryAcquire_wrote:
  assumes "ok s" and "TryAcquire C g now S s = (r, g', S', s')" and "now \<le> t"
  shows "ok s'" and "wrote st (mine (g_id g)) (g_id g) t (guard_key g) s s'"
    and "r \<Longrightarrow> \<not> g_held g \<Longrightarrow> \<exists>l. st s' (guard_key g) = Some l \<and> mine (g_id g) l"
proof -
  have "ok s' \<and> wrote st (mine (g_id g)) (g_id g) t (guard_key g) s s' \<and>
    (r \<longrightarrow> \<not> g_held g \<longrightarrow> (\<exists>l. st s' (guard_key g) = Some l \<and> mine (g_id g) l))"
  proof (cases "g_held g")
    case True
    with assms show ?thesis by (simp add: TryAcquire_held wrote_same)
  next
    case False
    obtain q s1 where get: "api_get C s (guard_key g) = (q, s1)" by fastforce
    note law = get_law[OF assms(1) get]
    have ok1: "ok s1" and same: "api_same st vs s s1" using law by auto
    show ?thesis
    proof (cases q)
      case (Inl e)
      show ?thesis
      proof (cases "e = NotFound")
        case True
        obtain x s2 where c: "api_create C s1 (acquire_new g now) = (x, s2)" by fastforce
        have r: "r = (x = None)" "s' = s2" using assms(2) False get Inl True c
          by (auto simp: TryAcquire_def split: option.splits prod.splits)
        have m: "mine (g_id g) ((wire (acquire_new g now))\<lparr>l_rv := v\<rparr>)" for v
          by (rule mine_expiry) simp_all
        note w = wrote_create[OF ok1 c acquire_new_sel(1), where Q = "mine (g_id g)", OF m]
        from w(1,3) wrote_after_get[OF assms(1) get w(2)] r show ?thesis by simp
      next
        case ne: False
        then have "\<not> r" "s' = s1" using assms(2) False get Inl
          by (auto simp: TryAcquire_def split: api_error.splits)
        with ok1 same show ?thesis by (simp add: wrote_same)
      qed
    next
      case (Inr l)
      show ?thesis
      proof (cases "acquire_adopt g now l")
        case None
        then have "\<not> r" "s' = s1" using assms(2) False get Inr by (auto simp: TryAcquire_def)
        with ok1 same show ?thesis by (simp add: wrote_same)
      next
        case (Some l')
        obtain x s2 where u: "api_update C s1 l' = (x, s2)" by fastforce
        have r: "r = (x = None)" "s' = s2" using assms(2) False get Inr Some u
          by (auto simp: TryAcquire_def split: option.splits prod.splits)
        note a = acquire_adopt_SomeD[OF Some]
        have free: "lease_free (g_id g) t l"
          by (rule lease_free_mono[OF _ assms(3)]) (use a(1) in \<open>auto simp: lease_free_def\<close>)
        have m: "mine (g_id g) ((wire l')\<lparr>l_rv := v\<rparr>)" for v
          by (rule mine_expiry) (use a in simp_all)
        have "l \<in> vs s1 (guard_key g)" using law Inr by (simp add: api_same_def)
        note w = wrote_update[OF ok1 u this a(2,3) free, where Q = "mine (g_id g)", OF m]
        from w(1,3) wrote_after_get[OF assms(1) get w(2)] r show ?thesis by simp
      qed
    qed
  qed
  then show "ok s'" and "wrote st (mine (g_id g)) (g_id g) t (guard_key g) s s'"
    and "r \<Longrightarrow> \<not> g_held g \<Longrightarrow> \<exists>l. st s' (guard_key g) = Some l \<and> mine (g_id g) l" by auto
qed

lemma renewOnce_wrote:
  assumes "ok s" and "renewOnce C g now s = (r, s')" and "now \<le> t"
  shows "ok s'" and "wrote st (mine (g_id g)) (g_id g) t (guard_key g) s s'"
proof -
  obtain q s1 where get: "api_get C s (guard_key g) = (q, s1)" by fastforce
  note law = get_law[OF assms(1) get]
  have ok1: "ok s1" and same: "api_same st vs s s1" using law by auto
  have "ok s' \<and> wrote st (mine (g_id g)) (g_id g) t (guard_key g) s s'"
  proof (cases "\<exists>l l'. q = Inr l \<and> renew_update g now l = Some l'")
    case False
    then have "s' = s1" using assms(2) get by (auto simp: renewOnce_def split: sum.splits option.splits)
    with ok1 same show ?thesis by (simp add: wrote_same)
  next
    case True
    then obtain l l' where q: "q = Inr l" "renew_update g now l = Some l'" by blast
    obtain x s2 where u: "api_update C s1 l' = (x, s2)" by fastforce
    have s': "s' = s2" using assms(2) get q u by (auto simp: renewOnce_def split: option.splits)
    note a = renew_update_SomeD[OF q(2)]
    have free: "lease_free (g_id g) t l"
      by (rule lease_free_mono[OF _ assms(3)]) (use a(1) in \<open>auto simp: lease_free_def\<close>)
    have m: "mine (g_id g) ((wire l')\<lparr>l_rv := v\<rparr>)" for v
      by (rule mine_expiry) (use a in simp_all)
    have "l \<in> vs s1 (guard_key g)" using law q by (simp add: api_same_def)
    note w = wrote_update[OF ok1 u this a(2,3) free, where Q = "mine (g_id g)", OF m]
    from w(1) wrote_after_get[OF assms(1) get w(2)] s' show ?thesis by simp
  qed
  then show "ok s'" and "wrote st (mine (g_id g)) (g_id g) t (guard_key g) s s'" by auto
qed

lemma Release_wrote:
  assumes "ok s" and "Release C g S s = (g', S', s')"
  shows "ok s'" and "wrote st (\<lambda>l. HolderIdentity l = Some '''') (g_id g) t (guard_key g) s s'"
proof -
  let ?W = "wrote st (\<lambda>l. HolderIdentity l = Some '''') (g_id g) t (guard_key g)"
  obtain q s1 where get: "api_get C s (guard_key g) = (q, s1)" by fastforce
  note law = get_law[OF assms(1) get]
  have ok1: "ok s1" and same: "api_same st vs s s1" using law by auto
  have "ok s' \<and> ?W s s'"
  proof (cases "g_held g \<and> (\<exists>l l'. q = Inr l \<and> release_update g l = Some l')")
    case False
    then have "s' = s \<or> s' = s1" using assms(2) get
      by (cases q; cases "g_held g") (auto simp: Release_def Let_def split: option.splits)
    with ok1 same assms(1) show ?thesis by (auto intro: wrote_same)
  next
    case True
    then obtain l l' where q: "q = Inr l" "release_update g l = Some l'" and h: "g_held g" by blast
    obtain x s2 where u: "api_update C s1 l' = (x, s2)" by fastforce
    have s': "s' = s2" using assms(2) get q u h by (auto simp: Release_def split: option.splits)
    note a = release_update_SomeD[OF q(2)]
    have free: "lease_free (g_id g) t l" using a(1) by (simp add: lease_free_def)
    have m: "HolderIdentity ((wire l')\<lparr>l_rv := v\<rparr>) = Some ''''" for v using a(4) by simp
    have "l \<in> vs s1 (guard_key g)" using law q by (simp add: api_same_def)
    note w = wrote_update[OF ok1 u this a(2,3) free, where Q = "\<lambda>l. HolderIdentity l = Some ''''", OF m]
    from w(1) wrote_after_get[OF assms(1) get w(2)] s' show ?thesis by simp
  qed
  then show "ok s'" and "?W s s'" by auto
qed

end

subsection \<open>Guards and fences\<close>

definition holds :: "lease_guard list \<Rightarrow> nsname \<Rightarrow> bool" where
  "holds gs k \<longleftrightarrow> (\<exists>g \<in> set gs. g_held g \<and> guard_key g = k)"

text \<open>
  The guarantee of a process on the Leases \<open>K\<close>: it changes one only when it was free, its own or
  expired, to its own or to a free one; and while it holds a guard that it did not hold
  before, or whose Lease it changed, the Lease is stored under its name.
\<close>

definition fence_run ::
  "('s \<Rightarrow> nsname \<Rightarrow> lease option) \<Rightarrow> string \<Rightarrow> int \<Rightarrow> nsname set \<Rightarrow>
   lease_guard list \<Rightarrow> 's \<Rightarrow> lease_guard list \<Rightarrow> 's \<Rightarrow> bool" where
  "fence_run st me t K gs s gs' s' \<longleftrightarrow> (\<forall>k \<in> K.
     (st s' k = st s k \<or>
      (\<forall>l. st s k = Some l \<longrightarrow> lease_free me t l) \<and>
      (\<exists>l'. st s' k = Some l' \<and> (mine me l' \<or> HolderIdentity l' = Some ''''))) \<and>
     (holds gs' k \<and> (\<not> holds gs k \<or> st s' k \<noteq> st s k) \<longrightarrow>
      (\<exists>l. st s' k = Some l \<and> mine me l)))"

lemma fence_run_refl: "(\<And>k. k \<in> K \<Longrightarrow> holds gs' k \<Longrightarrow> holds gs k) \<Longrightarrow> fence_run st me t K gs s gs' s"
  by (auto simp: fence_run_def)

lemma fence_run_trans:
  assumes "fence_run st me t K gs s gs1 s1" and "fence_run st me t K gs1 s1 gs2 s2"
  shows "fence_run st me t K gs s gs2 s2"
  unfolding fence_run_def
proof (intro ballI conjI impI)
  fix k assume k: "k \<in> K"
  note a = bspec[OF assms(1)[unfolded fence_run_def] k]
  note b = bspec[OF assms(2)[unfolded fence_run_def] k]
  show "st s2 k = st s k \<or> (\<forall>l. st s k = Some l \<longrightarrow> lease_free me t l) \<and>
      (\<exists>l'. st s2 k = Some l' \<and> (mine me l' \<or> HolderIdentity l' = Some ''''))"
    using a b by metis
  assume h: "holds gs2 k \<and> (\<not> holds gs k \<or> st s2 k \<noteq> st s k)"
  show "\<exists>l. st s2 k = Some l \<and> mine me l"
  proof (cases "holds gs1 k \<and> st s2 k = st s1 k")
    case True
    with a h show ?thesis by metis
  next
    case False
    with b h show ?thesis by blast
  qed
qed

lemma holds_update:
  assumes "g < length gs" and "guard_key new = guard_key (gs ! g)"
  shows "k \<noteq> guard_key new \<Longrightarrow> holds (gs[g := new]) k = holds gs k"
    and "holds (gs[g := new]) k \<Longrightarrow> holds gs k \<or> k = guard_key new \<and> g_held new"
proof -
  show "holds (gs[g := new]) k \<Longrightarrow> holds gs k \<or> k = guard_key new \<and> g_held new"
    using set_update_subset_insert[of gs g new] by (auto simp: holds_def)
  have "x \<in> set (gs[g := new])" if "x \<in> set gs" "x \<noteq> gs ! g" for x
    using that assms(1) by (metis in_set_conv_nth length_list_update nth_list_update_neq)
  then show "k \<noteq> guard_key new \<Longrightarrow> holds (gs[g := new]) k = holds gs k"
    using set_update_subset_insert[of gs g new] assms(2) by (auto simp: holds_def)
qed

lemma fence_run_wrote:
  assumes "wrote st Q me t k s s'" and "\<And>l. Q l \<Longrightarrow> mine me l \<or> HolderIdentity l = Some ''''"
    and "\<And>j. j \<noteq> k \<Longrightarrow> holds gs' j \<Longrightarrow> holds gs j"
    and "holds gs' k \<Longrightarrow> \<not> holds gs k \<or> st s' k \<noteq> st s k \<Longrightarrow> \<exists>l. st s' k = Some l \<and> mine me l"
  shows "fence_run st me t K gs s gs' s'"
  unfolding fence_run_def
proof (intro ballI)
  fix j
  show "(st s' j = st s j \<or> (\<forall>l. st s j = Some l \<longrightarrow> lease_free me t l) \<and>
      (\<exists>l'. st s' j = Some l' \<and> (mine me l' \<or> HolderIdentity l' = Some ''''))) \<and>
     (holds gs' j \<and> (\<not> holds gs j \<or> st s' j \<noteq> st s j) \<longrightarrow> (\<exists>l. st s' j = Some l \<and> mine me l))"
    using assms by (cases "j = k") (auto simp: wrote_def)
qed

text \<open>No two guards of a process hold the same Lease.\<close>

definition uniq_held :: "lease_guard list \<Rightarrow> bool" where
  "uniq_held gs \<longleftrightarrow> (\<forall>a < length gs. \<forall>b < length gs.
     g_held (gs ! a) \<and> g_held (gs ! b) \<and> guard_key (gs ! a) = guard_key (gs ! b) \<longrightarrow> a = b)"

lemma uniq_release:
  assumes "uniq_held gs" and "g < length gs" and "g_held (gs ! g)" and "\<not> g_held new"
    and "guard_key new = guard_key (gs ! g)"
  shows "\<not> holds (gs[g := new]) (guard_key (gs ! g))"
proof
  assume "holds (gs[g := new]) (guard_key (gs ! g))"
  then obtain b where b: "b < length gs" "g_held (gs[g := new] ! b)"
    "guard_key (gs[g := new] ! b) = guard_key (gs ! g)"
    by (auto simp: holds_def in_set_conv_nth)
  with assms(4) have "b \<noteq> g" by auto
  with b assms(1-3) show False by (auto simp: uniq_held_def)
qed

context lease_api
begin

lemma run_acquire:
  assumes "ok s" and "TryAcquire C (gs ! g) now S s = (r, new, S', s')" and "now \<le> t"
    and "g < length gs" and "g_id (gs ! g) = me"
  shows "fence_run st me t K gs s (gs[g := new]) s'"
proof (cases "g_held (gs ! g)")
  case True
  with assms(2) have "new = gs ! g" "s' = s" by (simp_all add: TryAcquire_held)
  then show ?thesis by (simp add: fence_run_refl)
next
  case False
  note w = TryAcquire_wrote[OF assms(1-3)]
  have new: "guard_key new = guard_key (gs ! g)" "g_held new = r"
    using TryAcquire_result[OF assms(2) False] False by (auto dest: start_renewer_sel(1) split: if_splits)
  show ?thesis
  proof (rule fence_run_wrote[OF w(2)[unfolded assms(5)]])
    show "j \<noteq> guard_key (gs ! g) \<Longrightarrow> holds (gs[g := new]) j \<Longrightarrow> holds gs j" for j
      using holds_update(1)[OF assms(4) new(1)] new(1) by simp
    assume h: "holds (gs[g := new]) (guard_key (gs ! g))"
      and "\<not> holds gs (guard_key (gs ! g)) \<or> st s' (guard_key (gs ! g)) \<noteq> st s (guard_key (gs ! g))"
    then consider "r" | "st s' (guard_key (gs ! g)) \<noteq> st s (guard_key (gs ! g))"
      using holds_update(2)[OF assms(4) new(1) h] new(2) by auto
    then show "\<exists>l. st s' (guard_key (gs ! g)) = Some l \<and> mine me l"
      by cases (use w(2,3) False assms(5) in \<open>auto simp: wrote_def\<close>)
  qed simp
qed

lemma run_renew:
  assumes "ok s" and "renewOnce C (gs ! g) now s = (r, s')" and "now \<le> t" and "g_id (gs ! g) = me"
  shows "fence_run st me t K gs s gs s'"
  using renewOnce_wrote[OF assms(1-3)] assms(4)
  by (intro fence_run_wrote[where k = "guard_key (gs ! g)" and Q = "mine me"]) (auto simp: wrote_def)

lemma run_release:
  assumes "ok s" and "Release C (gs ! g) S s = (new, S', s')" and "uniq_held gs"
    and "g < length gs" and "g_id (gs ! g) = me"
  shows "fence_run st me t K gs s (gs[g := new]) s'"
proof (cases "g_held (gs ! g)")
  case False
  with assms(2) have "new = gs ! g" "s' = s" by (simp_all add: Release_not_held)
  then show ?thesis by (simp add: fence_run_refl)
next
  case True
  note w = Release_wrote(2)[OF assms(1,2), of t]
  have new: "guard_key new = guard_key (gs ! g)" "\<not> g_held new" using Release_guard[OF assms(2)] by auto
  show ?thesis
    by (rule fence_run_wrote[OF w[unfolded assms(5)]])
       (use holds_update(1)[OF assms(4) new(1)] new uniq_release[OF assms(3,4) True new(2,1)] in auto)
qed

end

subsection \<open>The fences of a coordinator\<close>

definition fence_key :: "Config \<Rightarrow> cluster_name \<Rightarrow> nsname" where
  "fence_key cfg n = NsName (FenceNS cfg) (fenceName cfg n)"

text \<open>
  Of the clusters \<open>N\<close>: every held guard is the fence of an engaged cluster or about to be released,
  and a started cluster holds its fence with no release pending.
\<close>

definition fences_ok :: "cluster_name set \<Rightarrow> 's coordinator \<Rightarrow> bool" where
  "fences_ok N c \<longleftrightarrow>
     fmdom' (c_engaged c) \<subseteq> N \<and> uniq_held (c_guards c) \<and>
     (\<forall>g < length (c_guards c). \<exists>n \<in> N. guard_for (c_cfg c) (c_self c) n (c_guards c ! g)) \<and>
     (\<forall>g < length (c_guards c). g_held (c_guards c ! g) \<longrightarrow>
        ReleaseFence g \<in> set (c_go c) \<or> (\<exists>n e. fmlookup (c_engaged c) n = Some e \<and> e_fence e = Some g)) \<and>
     (\<forall>n e. fmlookup (c_engaged c) n = Some e \<and> e_started e \<longrightarrow>
        (\<exists>g. e_fence e = Some g \<and> g_held (c_guards c ! g) \<and> ReleaseFence g \<notin> set (c_go c)))"

lemma fences_okI:
  assumes "\<And>n e. fmlookup (c_engaged c) n = Some e \<Longrightarrow> n \<in> N" and "uniq_held (c_guards c)"
    and "\<And>g. g < length (c_guards c) \<Longrightarrow> \<exists>n \<in> N. guard_for (c_cfg c) (c_self c) n (c_guards c ! g)"
    and "\<And>g. g < length (c_guards c) \<Longrightarrow> g_held (c_guards c ! g) \<Longrightarrow> ReleaseFence g \<notin> set (c_go c) \<Longrightarrow>
      \<exists>n e. fmlookup (c_engaged c) n = Some e \<and> e_fence e = Some g"
    and "\<And>n e. fmlookup (c_engaged c) n = Some e \<Longrightarrow> e_started e \<Longrightarrow>
      \<exists>g. e_fence e = Some g \<and> g_held (c_guards c ! g) \<and> ReleaseFence g \<notin> set (c_go c)"
  shows "fences_ok N c"
  using assms by (auto simp: fences_ok_def fmlookup_dom'_iff)

lemma fences_okD:
  assumes "fences_ok N c"
  shows "\<And>n e. fmlookup (c_engaged c) n = Some e \<Longrightarrow> n \<in> N" and "uniq_held (c_guards c)"
    and "\<And>g. g < length (c_guards c) \<Longrightarrow> \<exists>n \<in> N. guard_for (c_cfg c) (c_self c) n (c_guards c ! g)"
    and "\<And>g. g < length (c_guards c) \<Longrightarrow> g_held (c_guards c ! g) \<Longrightarrow> ReleaseFence g \<notin> set (c_go c) \<Longrightarrow>
      \<exists>n e. fmlookup (c_engaged c) n = Some e \<and> e_fence e = Some g"
    and "\<And>n e. fmlookup (c_engaged c) n = Some e \<Longrightarrow> e_started e \<Longrightarrow>
      \<exists>g. e_fence e = Some g \<and> g_held (c_guards c ! g) \<and> ReleaseFence g \<notin> set (c_go c)"
  using assms by (auto simp: fences_ok_def fmlookup_dom'_iff)

lemma fences_ok_cong:
  "c_engaged c' = c_engaged c \<Longrightarrow> c_guards c' = c_guards c \<Longrightarrow> c_cfg c' = c_cfg c \<Longrightarrow> c_self c' = c_self c \<Longrightarrow>
   (\<And>g. ReleaseFence g \<in> set (c_go c') \<longleftrightarrow> ReleaseFence g \<in> set (c_go c)) \<Longrightarrow>
   fences_ok N c' = fences_ok N c"
  by (simp add: fences_ok_def)

text \<open>
  While the coordinator decides, every held guard belongs to an engaged cluster, and a release
  is pending for clusters of other peers only.
\<close>

definition deciding :: "PeerInfo list \<Rightarrow> 's coordinator \<Rightarrow> bool" where
  "deciding peers c \<longleftrightarrow>
     (\<forall>g < length (c_guards c). g_held (c_guards c ! g) \<longrightarrow>
        (\<exists>n e. fmlookup (c_engaged c) n = Some e \<and> e_fence e = Some g)) \<and>
     (\<forall>g n e. ReleaseFence g \<in> set (c_go c) \<and> fmlookup (c_engaged c) n = Some e \<and> e_fence e = Some g \<longrightarrow>
        \<not> c_sharder c n peers (c_self c))"

lemma decidingD:
  assumes "deciding peers c"
  shows "\<And>g. g < length (c_guards c) \<Longrightarrow> g_held (c_guards c ! g) \<Longrightarrow>
      \<exists>n e. fmlookup (c_engaged c) n = Some e \<and> e_fence e = Some g"
    and "\<And>g n e. ReleaseFence g \<in> set (c_go c) \<Longrightarrow> fmlookup (c_engaged c) n = Some e \<Longrightarrow> e_fence e = Some g \<Longrightarrow>
      \<not> c_sharder c n peers (c_self c)"
  using assms by (auto simp: deciding_def)

lemma decidingI:
  assumes "\<And>g. g < length (c_guards c) \<Longrightarrow> g_held (c_guards c ! g) \<Longrightarrow>
      \<exists>n e. fmlookup (c_engaged c) n = Some e \<and> e_fence e = Some g"
    and "\<And>g n e. ReleaseFence g \<in> set (c_go c) \<Longrightarrow> fmlookup (c_engaged c) n = Some e \<Longrightarrow> e_fence e = Some g \<Longrightarrow>
      \<not> c_sharder c n peers (c_self c)"
  shows "deciding peers c"
  using assms by (auto simp: deciding_def)

definition releases_done :: "'s coordinator \<Rightarrow> bool" where
  "releases_done c \<longleftrightarrow> (\<forall>g. ReleaseFence g \<notin> set (c_go c))"

lemma fences_ctxs [simp]:
  "fences_ok N (set_ctxs c S) = fences_ok N c" "deciding peers (set_ctxs c S) = deciding peers c"
  by (rule fences_ok_cong) (simp_all add: deciding_def)

lemma releases_done_deciding: "fences_ok N c \<Longrightarrow> releases_done c \<Longrightarrow> deciding peers c"
  unfolding deciding_def releases_done_def using fences_okD(4)[of N c] by blast

lemma engaged_fence:
  assumes "coord_inv c" and "fmlookup (c_engaged c) n = Some e" and "e_fence e = Some g"
  shows "g < length (c_guards c)" and "guard_for (c_cfg c) (c_self c) n (c_guards c ! g)"
  using coord_invD(1)[OF assms(1,2)] assms(3) by (simp_all add: eng_ok_def)

lemma same_fence:
  assumes "coord_inv c" and "fmlookup (c_engaged c) n = Some e" and "e_fence e = Some g"
    and "fmlookup (c_engaged c) m = Some f" and "e_fence f = Some g"
  shows "n = m"
  using eng_ok_guard_inj coord_invD(1)[OF assms(1)] assms(2-5) by metis

lemma put_fences:
  assumes "fences_ok N c" and "deciding peers c" and "fmlookup (c_engaged c) n = Some e"
    and "e_fence e' = e_fence e"
    and "e_started e' \<Longrightarrow> \<exists>g. e_fence e' = Some g \<and> g_held (c_guards c ! g) \<and> ReleaseFence g \<notin> set (c_go c)"
  shows "fences_ok N (put_engaged n e' c)" and "deciding peers (put_engaged n e' c)"
proof -
  have tie: "\<exists>m f. fmlookup (c_engaged (put_engaged n e' c)) m = Some f \<and> e_fence f = Some g"
    if "\<exists>m f. fmlookup (c_engaged c) m = Some f \<and> e_fence f = Some g" for g
  proof -
    from that obtain m f where "fmlookup (c_engaged c) m = Some f" "e_fence f = Some g" by blast
    then show ?thesis using assms(3,4) by (cases "m = n") auto
  qed
  show "fences_ok N (put_engaged n e' c)"
  proof (rule fences_okI)
    fix g assume "g < length (c_guards (put_engaged n e' c))" "g_held (c_guards (put_engaged n e' c) ! g)"
      "ReleaseFence g \<notin> set (c_go (put_engaged n e' c))"
    then show "\<exists>m f. fmlookup (c_engaged (put_engaged n e' c)) m = Some f \<and> e_fence f = Some g"
      using fences_okD(4)[OF assms(1), of g] by (intro tie) simp
  qed (use assms fences_okD[OF assms(1)] in \<open>auto split: if_splits\<close>)
  show "deciding peers (put_engaged n e' c)"
  proof (rule decidingI)
    fix g assume "g < length (c_guards (put_engaged n e' c))" "g_held (c_guards (put_engaged n e' c) ! g)"
    then show "\<exists>m f. fmlookup (c_engaged (put_engaged n e' c)) m = Some f \<and> e_fence f = Some g"
      using decidingD(1)[OF assms(2)] by (intro tie) simp
  next
    fix g m f assume "ReleaseFence g \<in> set (c_go (put_engaged n e' c))"
      "fmlookup (c_engaged (put_engaged n e' c)) m = Some f" "e_fence f = Some g"
    then show "\<not> c_sharder (put_engaged n e' c) m peers (c_self (put_engaged n e' c))"
      using assms(3,4) decidingD(2)[OF assms(2), of g m] by (cases "m = n") auto
  qed
qed

lemma ensure_fence_guards:
  assumes "ensure_fence n e c = (g, e', c')"
  shows "c_guards c' = c_guards c \<and> e' = e \<and> c' = c \<and> e_fence e = Some g \<or>
    (\<exists>new. c_guards c' = c_guards c @ [new] \<and> \<not> g_held new \<and> guard_for (c_cfg c) (c_self c) n new \<and>
      g = length (c_guards c) \<and> c_engaged c' = fmupd n (e\<lparr>e_fence := Some g\<rparr>) (c_engaged c) \<and>
      c_go c' = c_go c \<and> c_cfg c' = c_cfg c \<and> c_self c' = c_self c \<and> c_sharder c' = c_sharder c \<and>
      c_srv c' = c_srv c \<and> e_fence e = None)"
  using assms guard_for_new[of "c_cfg c" "c_self c" n "LeaseDuration (c_cfg c)" "LeaseRenew (c_cfg c)"]
  by (auto simp: ensure_fence_def Let_def newLeaseGuard_def split: option.splits)

lemma holds_append: "holds (gs @ [new]) k \<longleftrightarrow> holds gs k \<or> g_held new \<and> guard_key new = k"
  by (auto simp: holds_def)

lemma uniq_append: "uniq_held gs \<Longrightarrow> \<not> g_held new \<Longrightarrow> uniq_held (gs @ [new])"
  by (auto simp: uniq_held_def nth_append less_Suc_eq)

lemma ensure_fence_fences:
  assumes "coord_inv c" and "fences_ok N c" and "deciding peers c" and "fmlookup (c_engaged c) n = Some e"
    and "\<not> e_started e" and "ensure_fence n e c = (g, e', c')"
  shows "fences_ok N c'" and "deciding peers c'" and "fence_run st me t K (c_guards c) (c_srv c) (c_guards c') (c_srv c')"
proof -
  have "fences_ok N c' \<and> deciding peers c' \<and> fence_run st me t K (c_guards c) (c_srv c) (c_guards c') (c_srv c')"
    using ensure_fence_guards[OF assms(6)]
  proof (elim disjE exE conjE)
    assume "c' = c"
    then show ?thesis using assms(2,3) by (simp add: fence_run_refl)
  next
    fix new assume new: "c_guards c' = c_guards c @ [new]" "\<not> g_held new" "guard_for (c_cfg c) (c_self c) n new"
      "g = length (c_guards c)" and eng: "c_engaged c' = fmupd n (e\<lparr>e_fence := Some g\<rparr>) (c_engaged c)"
      and rest: "c_go c' = c_go c" "c_cfg c' = c_cfg c" "c_self c' = c_self c" "c_sharder c' = c_sharder c"
        "c_srv c' = c_srv c" "e_fence e = None"
    have n: "n \<in> N" using fences_okD(1)[OF assms(2,4)] .
    have go: "ReleaseFence g \<notin> set (c_go c)" using coord_invD(2)[OF assms(1), of "ReleaseFence g"] new(4) by auto
    have tie: "\<exists>m f. fmlookup (c_engaged c') m = Some f \<and> e_fence f = Some h"
      if "h < length (c_guards c')" "g_held (c_guards c' ! h)" for h
    proof -
      have "h < length (c_guards c)" "g_held (c_guards c ! h)"
        using that new(1,2) by (auto simp: nth_append less_Suc_eq split: if_splits)
      from decidingD(1)[OF assms(3) this] obtain m f where "fmlookup (c_engaged c) m = Some f" "e_fence f = Some h" by blast
      then show ?thesis using assms(4) rest(6) by (intro exI[of _ m] exI[of _ f]) (auto simp: eng)
    qed
    have f: "fences_ok N c'"
    proof (rule fences_okI)
      show "m \<in> N" if "fmlookup (c_engaged c') m = Some f" for m f
        using that n fences_okD(1)[OF assms(2)] by (auto simp: eng split: if_splits)
      show "uniq_held (c_guards c')" using fences_okD(2)[OF assms(2)] new by (simp add: uniq_append)
      show "\<exists>m \<in> N. guard_for (c_cfg c') (c_self c') m (c_guards c' ! h)" if "h < length (c_guards c')" for h
        using that fences_okD(3)[OF assms(2), of h] n new rest by (auto simp: nth_append less_Suc_eq)
      show "\<exists>h. e_fence f = Some h \<and> g_held (c_guards c' ! h) \<and> ReleaseFence h \<notin> set (c_go c')"
        if f: "fmlookup (c_engaged c') m = Some f" "e_started f" for m f
      proof -
        have m: "fmlookup (c_engaged c) m = Some f" using f assms(5) by (auto simp: eng split: if_splits)
        from fences_okD(5)[OF assms(2) this f(2)] obtain h where h: "e_fence f = Some h" "g_held (c_guards c ! h)"
          "ReleaseFence h \<notin> set (c_go c)" by blast
        with engaged_fence(1)[OF assms(1) m] show ?thesis by (auto simp: new rest nth_append)
      qed
    qed (use tie in blast)
    have "deciding peers c'"
      by (rule decidingI) (use tie decidingD(2)[OF assms(3)] go in \<open>auto simp: rest eng split: if_splits\<close>)
    then show ?thesis using f new rest by (auto intro!: fence_run_refl simp: holds_append)
  qed
  then show "fences_ok N c'" and "deciding peers c'"
    and "fence_run st me t K (c_guards c) (c_srv c) (c_guards c') (c_srv c')" by auto
qed

lemma try_fence_eval:
  assumes "try_fence C g t c = (r, c')"
  obtains new S' s' where "TryAcquire C (c_guards c ! g) t (c_ctxs c) (c_srv c) = (r, new, S', s')"
    and "c_guards c' = (c_guards c)[g := new]" and "c_srv c' = s'" and "c_engaged c' = c_engaged c"
    and "c_cfg c' = c_cfg c" and "c_self c' = c_self c" and "c_sharder c' = c_sharder c"
    and "\<And>h. ReleaseFence h \<in> set (c_go c') \<longleftrightarrow> ReleaseFence h \<in> set (c_go c)" and "c_peers c' = c_peers c"
proof -
  obtain r1 new S' s' where a: "TryAcquire C (c_guards c ! g) t (c_ctxs c) (c_srv c) = (r1, new, S', s')"
    by (metis prod_cases4)
  with assms have "r1 = r" by (auto simp: try_fence_def Let_def)
  show thesis
    by (rule that[of new S' s'])
       (use assms a \<open>r1 = r\<close> in \<open>auto simp: try_fence_def Let_def spawn_def split: option.splits bool.splits\<close>)
qed

text \<open>Acquiring the fence of an engaged cluster does not hold a Lease twice.\<close>

lemma uniq_acquire:
  assumes "coord_inv c" and "fences_ok N c" and "deciding peers c" and "inj_on (fence_key (c_cfg c)) N"
    and "fmlookup (c_engaged c) n = Some e" and "e_fence e = Some g"
    and "guard_key new = guard_key (c_guards c ! g)"
  shows "uniq_held ((c_guards c)[g := new])"
proof -
  have g: "g < length (c_guards c)" "guard_key (c_guards c ! g) = fence_key (c_cfg c) n"
    using engaged_fence[OF assms(1,5,6)] by (simp_all add: guard_for_def fence_key_def)
  have eq: "b = g" if "b < length (c_guards c)" "g_held (c_guards c ! b)"
    "guard_key (c_guards c ! b) = guard_key (c_guards c ! g)" for b
  proof -
    from decidingD(1)[OF assms(3) that(1,2)] obtain m f
      where f: "fmlookup (c_engaged c) m = Some f" "e_fence f = Some b" by blast
    then have "fence_key (c_cfg c) m = fence_key (c_cfg c) n"
      using engaged_fence(2)[OF assms(1) f] that(3) g(2) by (simp add: guard_for_def fence_key_def)
    with assms(4) fences_okD(1)[OF assms(2)] f(1) assms(5) have "m = n" by (meson inj_onD)
    with f assms(5,6) show ?thesis by simp
  qed
  have key: "guard_key ((c_guards c)[g := new] ! a) = guard_key (c_guards c ! a)" for a
    using g(1) assms(7) by (cases "a = g") simp_all
  show ?thesis
    unfolding uniq_held_def key
  proof (intro allI impI)
    fix a b assume ab: "a < length ((c_guards c)[g := new])" "b < length ((c_guards c)[g := new])"
      and h: "g_held ((c_guards c)[g := new] ! a) \<and> g_held ((c_guards c)[g := new] ! b) \<and>
        guard_key (c_guards c ! a) = guard_key (c_guards c ! b)"
    consider "a = g" "b = g" | "a = g" "b \<noteq> g" | "a \<noteq> g" "b = g" | "a \<noteq> g" "b \<noteq> g" by blast
    then show "a = b"
    proof cases
      case 2
      with ab h eq[of b] show ?thesis by simp
    next
      case 3
      with ab h eq[of a] show ?thesis by simp
    next
      case 4
      with ab h have "g_held (c_guards c ! a)" "g_held (c_guards c ! b)" by simp_all
      with fences_okD(2)[OF assms(2)] ab h show ?thesis by (simp add: uniq_held_def)
    qed simp
  qed
qed

context lease_api
begin

lemma try_fence_fences:
  assumes "coord_inv c" and "fences_ok N c" and "deciding peers c" and "inj_on (fence_key (c_cfg c)) N"
    and "fmlookup (c_engaged c) n = Some e" and "e_fence e = Some g"
    and "ok (c_srv c)" and "now \<le> t" and "try_fence C g now c = (r, c')"
  shows "fences_ok N c'" and "deciding peers c'" and "ok (c_srv c')"
    and "fence_run st (ID (c_self c)) t K (c_guards c) (c_srv c) (c_guards c') (c_srv c')"
proof -
  note g = engaged_fence[OF assms(1,5,6)]
  obtain new S' s' where a: "TryAcquire C (c_guards c ! g) now (c_ctxs c) (c_srv c) = (r, new, S', s')"
    and c': "c_guards c' = (c_guards c)[g := new]" "c_srv c' = s'" "c_engaged c' = c_engaged c"
      "c_cfg c' = c_cfg c" "c_self c' = c_self c" "c_sharder c' = c_sharder c"
      "\<And>h. ReleaseFence h \<in> set (c_go c') \<longleftrightarrow> ReleaseFence h \<in> set (c_go c)"
    using try_fence_eval[OF assms(9)] by metis
  note fr = TryAcquire_frame[OF a]
  have new: "guard_for (c_cfg c) (c_self c) m new" if "guard_for (c_cfg c) (c_self c) m (c_guards c ! g)" for m
    using fr(1)[OF that] .
  have key: "guard_key new = guard_key (c_guards c ! g)"
    using new[OF g(2)] g(2) by (simp add: guard_for_def)
  have still: "g_held (c_guards c ! g) \<Longrightarrow> g_held new" using a by (auto simp: TryAcquire_held)
  show "ok (c_srv c')" using TryAcquire_wrote(1)[OF assms(7) a assms(8)] c'(2) by simp
  show "fence_run st (ID (c_self c)) t K (c_guards c) (c_srv c) (c_guards c') (c_srv c')"
    using run_acquire[OF assms(7) a assms(8) g(1)] g(2) c'(1,2) by (simp add: guard_for_def)
  have tie: "\<exists>m f. fmlookup (c_engaged c') m = Some f \<and> e_fence f = Some h"
    if "h < length (c_guards c')" "g_held (c_guards c' ! h)" for h
    using that decidingD(1)[OF assms(3), of h] assms(5,6)
    by (cases "h = g") (auto simp: c' nth_list_update)
  show "deciding peers c'"
    by (rule decidingI) (use tie decidingD(2)[OF assms(3)] in \<open>auto simp: c'\<close>)
  show "fences_ok N c'"
  proof (rule fences_okI)
    show "uniq_held (c_guards c')" using uniq_acquire[OF assms(1-6) key] c'(1) by simp
    show "\<exists>m \<in> N. guard_for (c_cfg c') (c_self c') m (c_guards c' ! h)" if "h < length (c_guards c')" for h
      using that fences_okD(3)[OF assms(2), of h] new by (cases "h = g") (auto simp: c')
    show "\<exists>h. e_fence f = Some h \<and> g_held (c_guards c' ! h) \<and> ReleaseFence h \<notin> set (c_go c')"
      if "fmlookup (c_engaged c') m = Some f" "e_started f" for m f
      using fences_okD(5)[OF assms(2), of m f] that still g(1) by (fastforce simp: c' nth_list_update)
  qed (use tie fences_okD(1)[OF assms(2)] in \<open>auto simp: c'\<close>)
qed

lemma recompute_start_fences:
  assumes inv: "coord_inv c" and f: "fences_ok N c" and d: "deciding peers c"
    and inj: "inj_on (fence_key (c_cfg c)) N" and e: "fmlookup (c_engaged c) n = Some e" "\<not> e_started e"
    and should: "c_sharder c n peers (c_self c)" and okc: "ok (c_srv c)" and now: "at \<le> t"
    and r: "recompute_start C parent now at n e (c, starts) = (c', starts')"
  shows "fences_ok N c'" and "deciding peers c'" and "ok (c_srv c')"
    and "fence_run st (ID (c_self c)) t K (c_guards c) (c_srv c) (c_guards c') (c_srv c')"
proof -
  obtain g e1 c1 where ef: "ensure_fence n e c = (g, e1, c1)" by (metis prod_cases3)
  note s1 = ensure_fence_spec[OF ef coord_invD(1)[OF inv e(1)]]
  note f1 = ensure_fence_fences[OF inv f d e ef]
  have inv1: "coord_inv c1"
    by (rule coord_inv_evolves[OF inv s1(1)]) (use s1 e in \<open>metis option.inject\<close>, simp add: s1(2))
  have e1: "fmlookup (c_engaged c1) n = Some e1" "e_fence e1 = Some g" "\<not> e_started e1"
    using s1(5,9) e by simp_all
  have same: "c_cfg c1 = c_cfg c" "c_self c1 = c_self c" "c_sharder c1 = c_sharder c"
    using s1(1) by (simp_all add: evolves_def)
  have free: "ReleaseFence g \<notin> set (c_go c1)"
    using decidingD(2)[OF f1(2) _ e1(1,2)] should same by auto
  note run1 = f1(3)[where st = st and me = "ID (c_self c)" and t = t and K = K]
  have "fences_ok N c' \<and> deciding peers c' \<and> ok (c_srv c') \<and>
    fence_run st (ID (c_self c)) t K (c_guards c) (c_srv c) (c_guards c') (c_srv c')"
  proof (cases "now < e_nextTry e1")
    case True
    then have "c' = c1" using r ef by (simp add: recompute_start_def)
    with f1 run1 s1(4) okc show ?thesis by simp
  next
    case False
    obtain won c2 where tf: "try_fence C g at c1 = (won, c2)" by fastforce
    note f2 = try_fence_fences[OF inv1 f1(1,2) _ e1(1,2) _ now tf]
    have f2: "fences_ok N c2" "deciding peers c2" "ok (c_srv c2)"
      "fence_run st (ID (c_self c)) t K (c_guards c1) (c_srv c1) (c_guards c2) (c_srv c2)"
      using f2 same inj s1(4) okc by simp_all
    note t2 = try_fence_spec[OF tf engaged_fence(1)[OF inv1 e1(1,2)]]
    have e2: "fmlookup (c_engaged c2) n = Some e1" using t2(2) e1(1) by simp
    define S where "S = (if won then fst (with_cancel (c_ctxs c2) parent) else c_ctxs c2)"
    define e3 where "e3 = (if won then e1\<lparr>e_ctx := Some (length (c_ctxs c2)), e_cancel := Some (length (c_ctxs c2)),
        e_started := True\<rparr> else e1\<lparr>e_nextTry := now + FenceThrottle (c_cfg c)\<rparr>)"
    have "set_ctxs c2 (c_ctxs c2) = c2" by (cases c2) simp
    then have c': "c' = put_engaged n e3 (set_ctxs c2 S)" "e_fence e3 = e_fence e1" "e_started e3 \<longrightarrow> won"
      using r ef False tf e1(3)
      by (cases won; simp add: recompute_start_def with_cancel_def S_def e3_def)+
    have "ReleaseFence g \<notin> set (c_go c2)" using t2(3) free by auto
    then have st3: "\<exists>g. e_fence e3 = Some g \<and> g_held (c_guards c2 ! g) \<and> ReleaseFence g \<notin> set (c_go c2)" if "e_started e3"
      using that c'(2,3) e1(2) t2(5) by auto
    have f3: "fences_ok N (set_ctxs c2 S)" "deciding peers (set_ctxs c2 S)"
      using f2(1,2) by simp_all
    note p = put_fences[OF f3, of n e1 e3, unfolded c'(1)[symmetric]]
    have "fences_ok N c'" "deciding peers c'" using p e2 c'(2) st3 by simp_all
    then show ?thesis
      using f2(3) fence_run_trans[OF run1 f2(4)] by (simp add: c'(1))
  qed
  then show "fences_ok N c'" and "deciding peers c'" and "ok (c_srv c')"
    and "fence_run st (ID (c_self c)) t K (c_guards c) (c_srv c) (c_guards c') (c_srv c')" by auto
qed

end

text \<open>Stopping a cluster leaves its guard alone and schedules its release.\<close>

lemma spawn_release_fences:
  assumes "fences_ok N c" and "\<And>m f. fmlookup (c_engaged c) m = Some f \<Longrightarrow> e_started f \<Longrightarrow> e_fence f \<noteq> Some g"
  shows "fences_ok N (spawn (ReleaseFence g) c)"
  by (rule fences_okI) (use fences_okD[OF assms(1)] assms(2) in \<open>fastforce+\<close>)

lemma recompute_stop_fences:
  assumes inv: "coord_inv c" and f: "fences_ok N c" and d: "deciding peers c"
    and e: "fmlookup (c_engaged c) n = Some e" and out: "\<not> c_sharder c n peers (c_self c)"
    and r: "recompute_stop n e (c, stops) = (c', stops')"
  shows "fences_ok N c'" and "deciding peers c'" and "c_guards c' = c_guards c" and "c_srv c' = c_srv c"
proof -
  let ?e = "e\<lparr>e_cancel := None, e_started := False, e_nextTry := zero_time\<rparr>"
  let ?c = "put_engaged n ?e c"
  have p: "fences_ok N ?c" "deciding peers ?c" by (rule put_fences[OF f d e]; simp)+
  have "fences_ok N c' \<and> deciding peers c' \<and> c_guards c' = c_guards c \<and> c_srv c' = c_srv c"
  proof (cases "e_fence e")
    case None
    then have "c' = ?c" using r by (simp add: recompute_stop_def)
    with p show ?thesis by simp
  next
    case (Some g)
    have "put_engaged n ?e (spawn (ReleaseFence g) c) = spawn (ReleaseFence g) ?c"
      by (simp add: put_engaged_def spawn_def)
    with Some r have c': "c' = spawn (ReleaseFence g) ?c" by (simp add: recompute_stop_def)
    have other: "m = n" if "fmlookup (c_engaged ?c) m = Some h" "e_fence h = Some g" for m h
      using that same_fence[OF inv e Some, of m] by (cases "m = n") auto
    have "fences_ok N c'"
      unfolding c' by (rule spawn_release_fences[OF p(1)]) (use other in force)
    moreover have "deciding peers c'"
    proof (rule decidingI)
      show "\<exists>m f. fmlookup (c_engaged c') m = Some f \<and> e_fence f = Some h"
        if "h < length (c_guards c')" "g_held (c_guards c' ! h)" for h
        using decidingD(1)[OF p(2)] that by (simp add: c')
      show "\<not> c_sharder c' m peers (c_self c')"
        if "ReleaseFence h \<in> set (c_go c')" "fmlookup (c_engaged c') m = Some x" "e_fence x = Some h" for h m x
        using that decidingD(2)[OF p(2), of h m x] other[of m x] out by (cases "h = g") (simp_all add: c')
    qed
    ultimately show ?thesis by (simp add: c')
  qed
  then show "fences_ok N c'" and "deciding peers c'" and "c_guards c' = c_guards c" and "c_srv c' = c_srv c" by auto
qed

context lease_api
begin

lemma recompute_one_fences:
  assumes inv: "coord_inv c" and f: "fences_ok N c" and d: "deciding peers c"
    and inj: "inj_on (fence_key (c_cfg c)) N" and okc: "ok (c_srv c)" and now: "at n \<le> t"
    and r: "recompute_one C peers parent now at n (c, starts, stops) = (c', starts', stops')"
  shows "fences_ok N c'" and "deciding peers c'" and "ok (c_srv c')"
    and "fence_run st (ID (c_self c)) t K (c_guards c) (c_srv c) (c_guards c') (c_srv c')"
proof -
  have "c' = c \<or> (\<exists>e. fmlookup (c_engaged c) n = Some e \<and>
     (c_sharder c n peers (c_self c) \<and> \<not> e_started e \<and> recompute_start C parent now (at n) n e (c, starts) = (c', starts') \<or>
      \<not> c_sharder c n peers (c_self c) \<and> recompute_stop n e (c, stops) = (c', stops')))"
    using r by (auto simp: recompute_one_def Let_def split: option.splits if_splits prod.splits)
  then have "fences_ok N c' \<and> deciding peers c' \<and> ok (c_srv c') \<and>
    fence_run st (ID (c_self c)) t K (c_guards c) (c_srv c) (c_guards c') (c_srv c')"
  proof (elim disjE exE conjE)
    assume "c' = c"
    with f d okc show ?thesis by (simp add: fence_run_refl)
  next
    fix e assume e: "fmlookup (c_engaged c) n = Some e" "c_sharder c n peers (c_self c)" "\<not> e_started e"
      "recompute_start C parent now (at n) n e (c, starts) = (c', starts')"
    from recompute_start_fences[OF inv f d inj e(1,3,2) okc now e(4)] show ?thesis by blast
  next
    fix e assume e: "fmlookup (c_engaged c) n = Some e" "\<not> c_sharder c n peers (c_self c)"
      "recompute_stop n e (c, stops) = (c', stops')"
    from recompute_stop_fences[OF inv f d e] okc show ?thesis by (simp add: fence_run_refl)
  qed
  then show "fences_ok N c'" and "deciding peers c'" and "ok (c_srv c')"
    and "fence_run st (ID (c_self c)) t K (c_guards c) (c_srv c) (c_guards c') (c_srv c')" by auto
qed

lemma recompute_fold_fences:
  assumes "coord_inv c" and "fences_ok N c" and "deciding peers c"
    and "inj_on (fence_key (c_cfg c)) N" and "ok (c_srv c)" and "\<And>n. at n \<le> t"
    and "fold (recompute_one C peers parent now at) ord (c, starts, stops) = (c', starts', stops')"
  shows "fences_ok N c' \<and> ok (c_srv c') \<and>
    fence_run st (ID (c_self c)) t K (c_guards c) (c_srv c) (c_guards c') (c_srv c')"
  using assms
proof (induction ord arbitrary: c starts stops)
  case Nil
  then show ?case by (simp add: fence_run_refl)
next
  case (Cons n ord)
  obtain c1 s1 k1 where one: "recompute_one C peers parent now at n (c, starts, stops) = (c1, s1, k1)"
    by (metis prod_cases3)
  note l = recompute_one_looped[OF Cons.prems(1), where peers = peers and n = n and starts = starts and stops = stops
      and C = C and parent = parent and now = now and t = at, unfolded one]
  have same: "c_cfg c1 = c_cfg c" "c_self c1 = c_self c" using loopedD(1)[OF l] by (simp_all add: evolves_def)
  note f = recompute_one_fences[OF Cons.prems(1-5,6) one]
  have "fences_ok N c' \<and> ok (c_srv c') \<and>
    fence_run st (ID (c_self c1)) t K (c_guards c1) (c_srv c1) (c_guards c') (c_srv c')"
    by (rule Cons.IH[of c1 s1 k1]) (use loopedD(2)[OF l] f(1-3) Cons.prems(4,6,7) same one in simp_all)
  with f(4) same show ?case using fence_run_trans by fastforce
qed

lemma recompute_fences:
  assumes "coord_inv c" and "fences_ok N c" and "releases_done c"
    and "inj_on (fence_key (c_cfg c)) N" and "ok (c_srv c)" and "\<And>n. at n \<le> t"
  shows "fences_ok N (recompute C peers ord parent now at c) \<and> ok (c_srv (recompute C peers ord parent now at c)) \<and>
    fence_run st (ID (c_self c)) t K (c_guards c) (c_srv c)
      (c_guards (recompute C peers ord parent now at c)) (c_srv (recompute C peers ord parent now at c))"
proof -
  obtain c1 s1 k1 where f: "fold (recompute_one C peers parent now at) ord (c, [], []) = (c1, s1, k1)"
    by (metis prod_cases3)
  note r = recompute_fold_fences[OF assms(1,2) releases_done_deciding[OF assms(2,3)] assms(4-6) f]
  let ?c = "recompute C peers ord parent now at c"
  have c: "?c = (set_ctxs c1 (cancel_all k1 (c_ctxs c1)))\<lparr>c_go := c_go c1 @ map (\<lambda>(n, cl, k). StartFor k n cl) s1\<rparr>"
    by (simp add: recompute_def f fold_spawn_starts)
  have "fences_ok N ?c = fences_ok N c1"
    by (rule fences_ok_cong) (auto simp: c)
  with r show ?thesis by (simp add: c)
qed

end

subsection \<open>The other operations\<close>

lemma Engage_fences:
  assumes f: "fences_ok N c" and n: "name \<in> N" and r: "coordinator_Engage parent name cl c = (err, c')"
  shows "fences_ok N c'" and "c_guards c' = c_guards c" and "c_srv c' = c_srv c" and "c_peers c' = c_peers c"
proof -
  have "fences_ok N c' \<and> c_guards c' = c_guards c \<and> c_srv c' = c_srv c \<and> c_peers c' = c_peers c"
  proof (cases "ctx_err (c_ctxs c) parent")
    case True
    with r f show ?thesis by (simp add: coordinator_Engage_def)
  next
    case False
    define fence where "fence = (case fmlookup (c_engaged c) name of Some cur \<Rightarrow> e_fence cur | None \<Rightarrow> None)"
    have c': "c_engaged c' = fmupd name (new_engagement (c_tokens c) name cl fence) (c_engaged c)"
      "c_guards c' = c_guards c" "c_srv c' = c_srv c" "c_peers c' = c_peers c" "c_cfg c' = c_cfg c" "c_self c' = c_self c"
      "\<And>g. ReleaseFence g \<in> set (c_go c') \<longleftrightarrow> ReleaseFence g \<in> set (c_go c)"
      using r False by (auto simp: coordinator_Engage_def Let_def fence_def put_engaged_def spawn_def split: option.splits)
    have "fences_ok N c'"
    proof (rule fences_okI)
      fix g assume "g < length (c_guards c')" "g_held (c_guards c' ! g)" "ReleaseFence g \<notin> set (c_go c')"
      with fences_okD(4)[OF f, of g] obtain m e where m: "fmlookup (c_engaged c) m = Some e" "e_fence e = Some g"
        by (auto simp: c')
      then show "\<exists>m e. fmlookup (c_engaged c') m = Some e \<and> e_fence e = Some g"
        by (cases "m = name") (auto simp: c' fence_def new_engagement_def)
    qed (use fences_okD[OF f] n in \<open>auto simp: c' new_engagement_def split: if_splits\<close>)
    with c' show ?thesis by simp
  qed
  then show "fences_ok N c'" and "c_guards c' = c_guards c" and "c_srv c' = c_srv c" and "c_peers c' = c_peers c" by auto
qed

lemma watch_done_fences:
  assumes inv: "coord_inv c" and f: "fences_ok N c"
  shows "fences_ok N (watch_done key tok c)"
proof (cases "\<exists>e. fmlookup (c_engaged c) key = Some e \<and> e_token e = tok")
  case False
  then have "watch_done key tok c = c" by (auto simp: watch_done_def split: option.splits)
  with f show ?thesis by simp
next
  case True
  then obtain e where e: "fmlookup (c_engaged c) key = Some e" "e_token e = tok" by blast
  let ?c = "watch_done key tok c"
  have c': "c_engaged ?c = fmdrop key (c_engaged c)" "c_guards ?c = c_guards c" "c_cfg ?c = c_cfg c" "c_self ?c = c_self c"
    "set (c_go ?c) = set (c_go c) \<union> (case e_fence e of None \<Rightarrow> {} | Some g \<Rightarrow> {ReleaseFence g})"
    using e by (auto simp: watch_done_def Let_def split: option.splits)
  show ?thesis
  proof (rule fences_okI)
    fix g assume g: "g < length (c_guards ?c)" "g_held (c_guards ?c ! g)" "ReleaseFence g \<notin> set (c_go ?c)"
    with fences_okD(4)[OF f, of g] obtain m h where m: "fmlookup (c_engaged c) m = Some h" "e_fence h = Some g"
      by (auto simp: c')
    with g(3) e(1) have "m \<noteq> key" by (auto simp: c')
    with m show "\<exists>m h. fmlookup (c_engaged ?c) m = Some h \<and> e_fence h = Some g" by (auto simp: c')
  next
    fix m h assume m: "fmlookup (c_engaged ?c) m = Some h" "e_started h"
    then have m': "fmlookup (c_engaged c) m = Some h" "m \<noteq> key" by (auto simp: c' split: if_splits)
    from fences_okD(5)[OF f m'(1) m(2)] obtain g where g: "e_fence h = Some g" "g_held (c_guards c ! g)"
      "ReleaseFence g \<notin> set (c_go c)" by blast
    with same_fence[OF inv m'(1) g(1) e(1)] m'(2) show "\<exists>g. e_fence h = Some g \<and> g_held (c_guards ?c ! g) \<and> ReleaseFence g \<notin> set (c_go ?c)"
      by (auto simp: c' split: option.splits)
  qed (use fences_okD[OF f] in \<open>auto simp: c' split: if_splits\<close>)
qed

lemma watch_done_rest [simp]:
  "c_guards (watch_done key tok c) = c_guards c" "c_srv (watch_done key tok c) = c_srv c"
  "c_peers (watch_done key tok c) = c_peers c"
  by (simp_all add: watch_done_def Let_def spawn_def split: option.splits)

text \<open>Marking clusters as stopped.\<close>

lemma stopped_fences:
  assumes f: "fences_ok N c" and "c_guards c' = c_guards c" "c_go c' = c_go c" "c_cfg c' = c_cfg c" "c_self c' = c_self c"
    and e: "\<And>n. fmlookup (c_engaged c') n = fmlookup (c_engaged c) n \<or>
      (\<exists>e. fmlookup (c_engaged c) n = Some e \<and> fmlookup (c_engaged c') n = Some (e\<lparr>e_started := False\<rparr>))"
  shows "fences_ok N c'"
proof (rule fences_okI)
  fix g assume "g < length (c_guards c')" "g_held (c_guards c' ! g)" "ReleaseFence g \<notin> set (c_go c')"
  with fences_okD(4)[OF f, of g] obtain m h where m: "fmlookup (c_engaged c) m = Some h" "e_fence h = Some g"
    by (auto simp: assms(2-5))
  with e[of m] show "\<exists>m h. fmlookup (c_engaged c') m = Some h \<and> e_fence h = Some g" by force
next
  fix n h assume h: "fmlookup (c_engaged c') n = Some h"
  with e[of n] have "\<exists>h'. fmlookup (c_engaged c) n = Some h'" by metis
  with fences_okD(1)[OF f] show "n \<in> N" by blast
  assume "e_started h"
  with h e[of n] have "fmlookup (c_engaged c) n = Some h" by auto
  from fences_okD(5)[OF f this \<open>e_started h\<close>]
  show "\<exists>g. e_fence h = Some g \<and> g_held (c_guards c' ! g) \<and> ReleaseFence g \<notin> set (c_go c')" by (simp add: assms(2-5))
qed (use fences_okD(2,3)[OF f] assms(2-5) in auto)

lemma startForCluster_fences:
  assumes "fences_ok N c"
  shows "fences_ok N (startForCluster aw cx name cl c)"
    and "c_guards (startForCluster aw cx name cl c) = c_guards c" "c_srv (startForCluster aw cx name cl c) = c_srv c"
    "c_peers (startForCluster aw cx name cl c) = c_peers c"
proof -
  let ?c = "startForCluster aw cx name cl c"
  show rest: "c_guards ?c = c_guards c" "c_srv ?c = c_srv c" "c_peers ?c = c_peers c"
    by (auto simp: startForCluster_def Let_def put_engaged_def split: option.splits prod.splits)
  show "fences_ok N ?c"
    by (rule stopped_fences[OF assms])
       (auto simp: startForCluster_def Let_def put_engaged_def split: option.splits prod.splits if_splits)
qed

lemma onLost_lookup:
  assumes "onLost n (m, S) = (m', S')"
  shows "fmlookup m' k = fmlookup m k \<or> (\<exists>e. fmlookup m k = Some e \<and> fmlookup m' k = Some (e\<lparr>e_started := False\<rparr>))"
  using assms by (auto simp: onLost_def split: option.splits if_splits)

text \<open>Letting go of a guard that no started cluster relies on.\<close>

lemma drop_fences:
  assumes f: "fences_ok N c" and g: "g < length (c_guards c)" and new: "new = (c_guards c ! g)\<lparr>g_held := False\<rparr>"
    and c': "c_guards c' = (c_guards c)[g := new]" "c_engaged c' = c_engaged c" "c_cfg c' = c_cfg c" "c_self c' = c_self c"
    and go: "\<And>h. h \<noteq> g \<Longrightarrow> ReleaseFence h \<in> set (c_go c') \<longleftrightarrow> ReleaseFence h \<in> set (c_go c)"
    and idle: "\<And>n e. fmlookup (c_engaged c) n = Some e \<Longrightarrow> e_started e \<Longrightarrow> e_fence e \<noteq> Some g"
  shows "fences_ok N c'"
proof (rule fences_okI)
  have nh: "\<not> g_held (c_guards c' ! g)" using g by (simp add: c' new)
  have other: "c_guards c' ! h = c_guards c ! h" if "h \<noteq> g" for h using that by (simp add: c')
  have len: "length (c_guards c') = length (c_guards c)" by (simp add: c')
  show "uniq_held (c_guards c')"
    unfolding uniq_held_def using fences_okD(2)[OF f] nh other len by (metis uniq_held_def)
  show "\<exists>n \<in> N. guard_for (c_cfg c') (c_self c') n (c_guards c' ! h)" if "h < length (c_guards c')" for h
    using that fences_okD(3)[OF f, of h] g by (cases "h = g") (auto simp: c' new)
  show "\<exists>n e. fmlookup (c_engaged c') n = Some e \<and> e_fence e = Some h"
    if "h < length (c_guards c')" "g_held (c_guards c' ! h)" "ReleaseFence h \<notin> set (c_go c')" for h
    using that nh other[of h] fences_okD(4)[OF f, of h] go[of h] len c'(2) by (cases "h = g") auto
  show "\<exists>h. e_fence e = Some h \<and> g_held (c_guards c' ! h) \<and> ReleaseFence h \<notin> set (c_go c')"
    if e: "fmlookup (c_engaged c') n = Some e" "e_started e" for n e
  proof -
    from e fences_okD(5)[OF f, of n e] obtain h where h: "e_fence e = Some h" "g_held (c_guards c ! h)"
      "ReleaseFence h \<notin> set (c_go c)" by (auto simp: c')
    with e idle[of n e] have "h \<noteq> g" by (auto simp: c')
    with h other go show ?thesis by simp
  qed
qed (use fences_okD(1)[OF f] c' in auto)

context lease_api
begin

lemma release_fence_fences:
  assumes f: "fences_ok N (c\<lparr>c_go := before @ ReleaseFence g # after\<rparr>)" and g: "g < length (c_guards c)" and okc: "ok (c_srv c)"
  shows "fences_ok N (release_fence C g (c\<lparr>c_go := before @ after\<rparr>))"
    and "ok (c_srv (release_fence C g (c\<lparr>c_go := before @ after\<rparr>)))"
    and "fence_run st (ID (c_self c)) t K (c_guards c) (c_srv c)
      (c_guards (release_fence C g (c\<lparr>c_go := before @ after\<rparr>))) (c_srv (release_fence C g (c\<lparr>c_go := before @ after\<rparr>)))"
    and "c_peers (release_fence C g (c\<lparr>c_go := before @ after\<rparr>)) = c_peers c"
proof -
  let ?c = "c\<lparr>c_go := before @ ReleaseFence g # after\<rparr>"
  obtain new S s where r: "Release C (c_guards c ! g) (c_ctxs c) (c_srv c) = (new, S, s)" by (metis prod_cases3)
  note new = Release_guard[OF r]
  have c': "release_fence C g (c\<lparr>c_go := before @ after\<rparr>) =
      c\<lparr>c_go := before @ after, c_guards := (c_guards c)[g := new], c_ctxs := S, c_srv := s\<rparr>"
    by (simp add: release_fence_def r)
  show "fences_ok N (release_fence C g (c\<lparr>c_go := before @ after\<rparr>))"
    unfolding c'
  proof (rule drop_fences[OF f])
    fix n e assume "fmlookup (c_engaged ?c) n = Some e" "e_started e"
    from fences_okD(5)[OF f this] show "e_fence e \<noteq> Some g" by auto
  qed (use g new in auto)
  show "ok (c_srv (release_fence C g (c\<lparr>c_go := before @ after\<rparr>)))"
    using Release_wrote(1)[OF okc r] by (simp add: c')
  have "g_id (c_guards c ! g) = ID (c_self c)" using fences_okD(3)[OF f, of g] g by (auto simp: guard_for_def)
  then show "fence_run st (ID (c_self c)) t K (c_guards c) (c_srv c)
      (c_guards (release_fence C g (c\<lparr>c_go := before @ after\<rparr>))) (c_srv (release_fence C g (c\<lparr>c_go := before @ after\<rparr>)))"
    using run_release[OF okc r _ g] fences_okD(2)[OF f] by (simp add: c')
qed (simp add: release_fence_def split: prod.splits)

lemma renew_round_fences:
  assumes inv: "coord_inv c" and f: "fences_ok N c" and g: "g < length (c_guards c)" and okc: "ok (c_srv c)" and now: "now \<le> t"
    and r: "renew_round C g rctx seldone now c = (cont, c')"
  shows "fences_ok N c'" and "ok (c_srv c')"
    and "fence_run st (ID (c_self c)) t K (c_guards c) (c_srv c) (c_guards c') (c_srv c')" and "c_peers c' = c_peers c"
proof -
  let ?g = "c_guards c ! g"
  have me: "g_id ?g = ID (c_self c)" using fences_okD(3)[OF f g] by (auto simp: guard_for_def)
  obtain won s1 where rn: "renewOnce C ?g now (c_srv c) = (won, s1)" by fastforce
  note ok1 = renewOnce_wrote(1)[OF okc rn now]
  note run1 = run_renew[OF okc rn now me, of K]
  have "fences_ok N c' \<and> ok (c_srv c') \<and> c_peers c' = c_peers c \<and>
    fence_run st (ID (c_self c)) t K (c_guards c) (c_srv c) (c_guards c') (c_srv c')"
  proof (cases "ctx_err (c_ctxs c) rctx \<and> seldone")
    case True
    then have "c' = c" using r by (auto simp: renew_round_def renewLoop_round_def)
    with f okc show ?thesis by (simp add: fence_run_refl)
  next
    case go: False
    show ?thesis
    proof (cases won)
      case True
      then have c': "c' = c\<lparr>c_srv := s1\<rparr>" using r go rn by (auto simp: renew_round_def renewLoop_round_def)
      have "fences_ok N c'" using f unfolding c' by (subst fences_ok_cong[of _ c]) simp_all
      with ok1 run1 show ?thesis by (simp add: c')
    next
      case False
      from fences_okD(3)[OF f g] obtain n where n: "guard_for (c_cfg c) (c_self c) n ?g" by blast
      obtain m S where l: "onLost n (c_engaged c, c_ctxs c) = (m, S)" by fastforce
      obtain new S' s2 where rel: "Release C ?g S s1 = (new, S', s2)" by (metis prod_cases3)
      have c': "c' = c\<lparr>c_guards := (c_guards c)[g := new], c_engaged := m, c_ctxs := S', c_srv := s2\<rparr>"
        using r go rn False l rel n by (auto simp: renew_round_def renewLoop_round_def guard_for_def)
      let ?c1 = "c\<lparr>c_engaged := m\<rparr>"
      have f1: "fences_ok N ?c1" by (rule stopped_fences[OF f]) (use onLost_lookup[OF l] in simp_all)
      have idle: "e_fence e \<noteq> Some g" if e: "fmlookup m k = Some e" "e_started e" for k e
      proof
        assume eg: "e_fence e = Some g"
        from onLost_lookup[OF l, of k] e have k: "fmlookup (c_engaged c) k = Some e" by auto
        from engaged_fence(2)[OF inv k eg] n have "k = n" by (simp add: guard_for_def)
        moreover from startedE[OF inv k e(2)] obtain x where "e_cancel e = Some x" by metis
        ultimately have "fmlookup m k = Some (e\<lparr>e_started := False\<rparr>)" using onLost_spec(3)[OF l] k e(2) by simp
        with e show False by (cases e) simp
      qed
      have "fences_ok N c'"
        by (rule drop_fences[OF f1]) (use g Release_guard[OF rel] idle in \<open>auto simp: c'\<close>)
      moreover have "fence_run st (ID (c_self c)) t K (c_guards c) s1 ((c_guards c)[g := new]) s2"
        by (rule run_release[OF ok1 rel fences_okD(2)[OF f] g me])
      ultimately show ?thesis using fence_run_trans[OF run1] Release_wrote(1)[OF ok1 rel] by (simp add: c')
    qed
  qed
  then show "fences_ok N c'" and "ok (c_srv c')"
    and "fence_run st (ID (c_self c)) t K (c_guards c) (c_srv c) (c_guards c') (c_srv c')" and "c_peers c' = c_peers c" by auto
qed

end

subsection \<open>The registry beside the fences\<close>

text \<open>Listing reads: the law that the registry's refresh relies on.\<close>

locale lease_store = lease_api C st vs ok
  for C :: "'s lease_client" and st :: "'s \<Rightarrow> nsname \<Rightarrow> lease option"
    and vs :: "'s \<Rightarrow> nsname \<Rightarrow> lease set" and ok :: "'s \<Rightarrow> bool" +
  assumes list_law: "ok s \<Longrightarrow> api_list C s ns sel = (r, s') \<Longrightarrow> ok s' \<and> api_same st vs s s'"
begin

lemma renewSelfLease_frame:
  assumes "ok s" and "renewSelfLease C r now s = (e, s')"
  shows "ok s'" and "k \<noteq> self_key r \<Longrightarrow> st s' k = st s k"
proof -
  obtain q s1 where get: "api_get C s (self_key r) = (q, s1)" by fastforce
  note law = get_law[OF assms(1) get]
  have "ok s' \<and> (k \<noteq> self_key r \<longrightarrow> st s' k = st s k)"
  proof (cases q)
    case (Inl x)
    show ?thesis
    proof (cases "x = NotFound")
      case True
      then have c: "api_create C s1 (self_lease_new r now) = (e, s')"
        using assms(2) get Inl by (simp add: renewSelfLease_def)
      have "l_key (self_lease_new r now) = self_key r" by (simp add: self_lease_new_def new_lease_def)
      with create_law[OF _ c] law show ?thesis by (auto simp: api_same_def dest: commit_other)
    next
      case False
      then have "s' = s1" using assms(2) get Inl by (auto simp: renewSelfLease_def split: api_error.splits)
      with law show ?thesis by (simp add: api_same_def)
    qed
  next
    case (Inr l)
    then have u: "api_update C s1 (self_lease_update r now l) = (e, s')"
      using assms(2) get by (simp add: renewSelfLease_def)
    have "l_key (self_lease_update r now l) = self_key r"
      using version_key[OF assms(1)] law Inr by (simp add: self_lease_update_def)
    with update_law[OF _ u] law show ?thesis by (auto simp: api_same_def dest: commit_other)
  qed
  then show "ok s'" and "k \<noteq> self_key r \<Longrightarrow> st s' k = st s k" by auto
qed

lemma registry_pass_frame:
  assumes "ok s" and "registry_pass C r now1 now2 s = (r', s')"
  shows "ok s'" and "k \<noteq> self_key r \<Longrightarrow> st s' k = st s k" and "self_key r' = self_key r"
proof -
  obtain e1 s1 where a: "renewSelfLease C r now1 s = (e1, s1)" by fastforce
  obtain e2 r2 s2 where b: "refreshPeers C r now2 s1 = (e2, r2, s2)" by (metis prod_cases3)
  have eq: "r' = r2" "s' = s2" using assms(2) a b by (simp_all add: registry_pass_def)
  obtain q s3 where l: "api_list C s1 (r_ns r) (peer_selector r) = (q, s3)" by fastforce
  then have "s2 = s3" using b by (auto simp: refreshPeers_def Let_def split: sum.splits)
  with list_law[OF renewSelfLease_frame(1)[OF assms(1) a] l] renewSelfLease_frame(2)[OF assms(1) a, of k]
  show "ok s'" and "k \<noteq> self_key r \<Longrightarrow> st s' k = st s k" by (simp_all add: eq api_same_def)
  show "self_key r' = self_key r" using refreshPeers_frame[OF b] by (simp add: eq self_key_def)
qed

end

interpretation memStore: lease_store mem_client mem_stored mem_versions mem_ok
  by unfold_locales (auto simp: mem_client_def mem_list_def split: if_splits)

end
