(* ===== verification/Shards.thy ===== *)
theory Shards
  imports Sharding FenceRuns
begin

text \<open>
  Several processes, each with its sharded coordinator, on one API server. Every method of a
  coordinator, every pass of its registry and every goroutine is one step of its process, in
  any order; the API calls of a step see the Leases that all processes share.
\<close>

subsection \<open>Steps of a process\<close>

definition readings :: "int \<Rightarrow> choices \<Rightarrow> bool" where
  "readings clock ch \<longleftrightarrow> ch_now ch \<le> clock \<and> (\<forall>n. ch_times ch n \<le> clock)"

text \<open>
  What a process does on its own: the steps of \<open>coord_step\<close> without the changes of the API state
  by others. It engages clusters of \<open>N\<close>, its clock readings are not ahead of the common clock,
  and it decides only in states that \<open>sched\<close> allows.
\<close>

inductive peer_step ::
  "'s lease_client \<Rightarrow> engage_oracle \<Rightarrow> ('s coordinator \<Rightarrow> bool) \<Rightarrow> cluster_name set \<Rightarrow> int \<Rightarrow>
   's coordinator \<Rightarrow> 's coordinator \<Rightarrow> bool"
  for C :: "'s lease_client" and aw :: engage_oracle and sched :: "'s coordinator \<Rightarrow> bool"
    and N :: "cluster_name set" and clock :: int where
  engage: "name \<in> N \<Longrightarrow> coordinator_Engage parent name cl c = (r, c') \<Longrightarrow> peer_step C aw sched N clock c c'"
| aware: "peer_step C aw sched N clock c (coordinator_AddAware a c)"
| decide: "sched c \<Longrightarrow> iter_order (c_engaged c) (ch_order ch) \<Longrightarrow> readings clock ch \<Longrightarrow>
    peer_step C aw sched N clock c (recompute_now C ch cx c)"
| peers: "peer_step C aw sched N clock c (peers_pass C now1 now2 c)"
| custom: "c_peers c = Some (CustomReg p ps) \<Longrightarrow>
    peer_step C aw sched N clock c (c\<lparr>c_peers := Some (CustomReg p ps')\<rparr>)"
| ctx_new: "peer_step C aw sched N clock c (c\<lparr>c_ctxs := fst (with_cancel (c_ctxs c) p)\<rparr>)"
| ctx_cancel: "peer_step C aw sched N clock c (c\<lparr>c_ctxs := cancel (c_ctxs c) k\<rparr>)"
| run: "c_go c = before @ g # after \<Longrightarrow> (\<forall>p. g = Recompute p \<longrightarrow> sched c) \<Longrightarrow>
    iter_order (c_engaged c) (ch_order ch) \<Longrightarrow> readings clock ch \<Longrightarrow>
    run_goroutine C aw ch g (c\<lparr>c_go := before @ after\<rparr>) = Some c' \<Longrightarrow> peer_step C aw sched N clock c c'"

lemma peer_step_coord_step: "peer_step C aw sched N clock c c' \<Longrightarrow> coord_step C aw c c'"
  by (induction rule: peer_step.induct) (blast intro: coord_step.intros)+

definition peer_ok :: "cluster_name set \<Rightarrow> 's coordinator \<Rightarrow> bool" where
  "peer_ok N c \<longleftrightarrow> coord_inv c \<and> fences_ok N c \<and> inj_on (fence_key (c_cfg c)) N \<and>
     (\<forall>r. c_peers c = Some (LeaseReg r) \<longrightarrow> self_key r \<notin> fence_key (c_cfg c) ` N)"

lemma recompute_start_peers:
  assumes "recompute_start C parent now t n e (c, starts) = (c', starts')"
  shows "c_peers c' = c_peers c"
proof -
  obtain g e1 c1 where ef: "ensure_fence n e c = (g, e1, c1)" by (metis prod_cases3)
  then have c1: "c_peers c1 = c_peers c"
    by (auto simp: ensure_fence_def Let_def put_engaged_def split: option.splits)
  obtain won c2 where tf: "try_fence C g t c1 = (won, c2)" by fastforce
  have "c_peers c2 = c_peers c1" by (rule try_fence_eval[OF tf])
  with assms ef tf c1 show ?thesis
    by (cases won) (auto simp: recompute_start_def Let_def put_engaged_def with_cancel_def split: if_splits)
qed

lemma recompute_one_peers: "c_peers (fst (recompute_one C peers parent now t n x)) = c_peers (fst x)"
proof -
  obtain c starts stops where x: "x = (c, starts, stops)" by (metis prod_cases3)
  show ?thesis
    by (auto simp: x recompute_one_def recompute_stop_def Let_def put_engaged_def spawn_def
        split: option.splits prod.splits dest: recompute_start_peers)
qed

lemma recompute_peers [simp]: "c_peers (recompute C peers ord parent now t c) = c_peers c"
proof -
  have "c_peers (fst (fold (recompute_one C peers parent now t) ord x)) = c_peers (fst x)" for x
    by (induction ord arbitrary: x) (simp_all add: recompute_one_peers)
  from this[of "(c, [], [])"] show ?thesis
    by (auto simp: recompute_def fold_spawn_starts split: prod.splits)
qed

context lease_store
begin

lemma peers_pass_fences:
  assumes "fences_ok N c" and "ok (c_srv c)" and "\<forall>r. c_peers c = Some (LeaseReg r) \<longrightarrow> self_key r \<notin> K"
  shows "fences_ok N (peers_pass C n1 n2 c)" and "ok (c_srv (peers_pass C n1 n2 c))"
    and "fence_run st me t K (c_guards c) (c_srv c) (c_guards (peers_pass C n1 n2 c)) (c_srv (peers_pass C n1 n2 c))"
    and "\<forall>r. c_peers (peers_pass C n1 n2 c) = Some (LeaseReg r) \<longrightarrow> self_key r \<notin> K"
proof -
  let ?c = "peers_pass C n1 n2 c"
  have "fences_ok N ?c \<and> ok (c_srv ?c) \<and> fence_run st me t K (c_guards c) (c_srv c) (c_guards ?c) (c_srv ?c) \<and>
    (\<forall>r. c_peers ?c = Some (LeaseReg r) \<longrightarrow> self_key r \<notin> K)"
  proof (cases "\<exists>r. c_peers c = Some (LeaseReg r)")
    case False
    then have "?c = c" by (auto simp: peers_pass_def split: option.splits registry.splits)
    with assms show ?thesis by (simp add: fence_run_refl)
  next
    case True
    then obtain r where r: "c_peers c = Some (LeaseReg r)" by blast
    obtain r' s' where p: "registry_pass C r n1 n2 (c_srv c) = (r', s')" by fastforce
    note fr = registry_pass_frame[OF assms(2) p]
    have c: "?c = c\<lparr>c_peers := Some (LeaseReg r'), c_srv := s'\<rparr>" by (simp add: peers_pass_def r p)
    have "fences_ok N ?c" using assms(1) unfolding c by (subst fences_ok_cong[of _ c]) simp_all
    moreover have "st s' k = st (c_srv c) k" if "k \<in> K" for k using fr(2)[of k] that assms(3) r by auto
    then have "fence_run st me t K (c_guards c) (c_srv c) (c_guards c) s'" by (auto simp: fence_run_def)
    ultimately show ?thesis using fr(1,3) assms(3) r by (simp add: c)
  qed
  then show "fences_ok N ?c" and "ok (c_srv ?c)" and "fence_run st me t K (c_guards c) (c_srv c) (c_guards ?c) (c_srv ?c)"
    and "\<forall>r. c_peers ?c = Some (LeaseReg r) \<longrightarrow> self_key r \<notin> K" by auto
qed

text \<open>What a step leaves to the rest of the proof.\<close>

definition step_ok :: "cluster_name set \<Rightarrow> nsname set \<Rightarrow> int \<Rightarrow> 's coordinator \<Rightarrow> 's coordinator \<Rightarrow> bool" where
  "step_ok N K t c c' \<longleftrightarrow> fences_ok N c' \<and> ok (c_srv c') \<and>
     fence_run st (ID (c_self c)) t K (c_guards c) (c_srv c) (c_guards c') (c_srv c') \<and>
     (\<forall>r. c_peers c' = Some (LeaseReg r) \<longrightarrow> self_key r \<notin> K)"

lemma run_goroutine_fences:
  assumes inv: "coord_inv (c\<lparr>c_go := before @ g # after\<rparr>)" and f: "fences_ok N (c\<lparr>c_go := before @ g # after\<rparr>)"
    and inj: "inj_on (fence_key (c_cfg c)) N" and okc: "ok (c_srv c)"
    and reg: "\<forall>r. c_peers c = Some (LeaseReg r) \<longrightarrow> self_key r \<notin> K"
    and sched: "\<forall>p. g = Recompute p \<longrightarrow> releases_done (c\<lparr>c_go := before @ g # after\<rparr>)" and now: "readings t ch"
    and r: "run_goroutine C aw ch g (c\<lparr>c_go := before @ after\<rparr>) = Some c'"
  shows "step_ok N K t c c'"
proof -
  let ?c = "c\<lparr>c_go := before @ after\<rparr>"
  have inv': "coord_inv ?c" by (rule coord_inv_evolves[OF inv]) (auto simp: evolves_def)
  have g: "go_ok c g" using coord_invD(2)[OF inv, of g] by (cases g) simp_all
  have f': "fences_ok N ?c" if "\<And>h. g \<noteq> ReleaseFence h"
    using f that by (subst fences_ok_cong[of _ "c\<lparr>c_go := before @ g # after\<rparr>"]) auto
  show ?thesis
  proof (cases g)
    case (Watch p key tok)
    then have "c' = watch_done key tok ?c" using r by (simp split: if_splits)
    with watch_done_fences[OF inv' f'] okc reg Watch show ?thesis by (simp add: step_ok_def fence_run_refl)
  next
    case (Recompute p)
    then obtain q where q: "c_peers c = Some q"
      "c' = recompute C (registry_Snapshot (ch_peers ch) q) (ch_order ch) p (ch_now ch) (ch_times ch) ?c"
      using r by (auto split: option.splits)
    have "releases_done ?c" using sched Recompute by (simp add: releases_done_def)
    from recompute_fences[OF inv' f' this, where t = t and K = K and at = "ch_times ch"] Recompute now inj okc
    show ?thesis using q reg by (simp add: step_ok_def readings_def)
  next
    case (ReleaseFence h)
    then have h: "h < length (c_guards c)" and c': "c' = release_fence C h ?c" using g r by simp_all
    from release_fence_fences[OF f[unfolded ReleaseFence] h okc] reg show ?thesis by (simp add: step_ok_def c')
  next
    case (StartFor k n cl)
    then have "c' = startForCluster aw k n cl ?c" using r by simp
    with startForCluster_fences[OF f'] okc reg StartFor show ?thesis by (simp add: step_ok_def fence_run_refl)
  next
    case (RenewLoop h k)
    then obtain cont c1 where c1: "renew_round C h k (ch_done ch) (ch_now ch) ?c = (cont, c1)"
      "c' = (if cont then spawn (RenewLoop h k) c1 else c1)" using r by (auto split: prod.splits)
    have "fences_ok N c' = fences_ok N c1" by (rule fences_ok_cong) (auto simp: c1(2))
    moreover have "h < length (c_guards ?c)" "ok (c_srv ?c)" "ch_now ch \<le> t" "fences_ok N ?c"
      using g RenewLoop okc now f' by (simp_all add: readings_def)
    note rr = renew_round_fences[OF inv' this(4,1-3) c1(1)]
    ultimately show ?thesis using rr reg by (simp add: step_ok_def c1(2) spawn_def)
  qed
qed

lemma peer_step_ok:
  assumes step: "peer_step C aw releases_done N t c c'" and p: "peer_ok N c" and okc: "ok (c_srv c)"
  shows "peer_ok N c'" and "ok (c_srv c')" and "c_self c' = c_self c" and "c_cfg c' = c_cfg c"
    and "fence_run st (ID (c_self c)) t (fence_key (c_cfg c) ` N) (c_guards c) (c_srv c) (c_guards c') (c_srv c')"
proof -
  let ?K = "fence_key (c_cfg c) ` N"
  have inv: "coord_inv c" and f: "fences_ok N c" and inj: "inj_on (fence_key (c_cfg c)) N"
    and reg: "\<forall>r. c_peers c = Some (LeaseReg r) \<longrightarrow> self_key r \<notin> ?K"
    using p by (simp_all add: peer_ok_def)
  note ev = coord_step_inv[OF peer_step_coord_step[OF step] inv]
  then show same: "c_self c' = c_self c" "c_cfg c' = c_cfg c" by (simp_all add: evolves_def)
  have idle: "step_ok N ?K t c c''" if "c_engaged c'' = c_engaged c" "c_guards c'' = c_guards c" "c_go c'' = c_go c"
    "c_cfg c'' = c_cfg c" "c_self c'' = c_self c" "c_srv c'' = c_srv c"
    "\<forall>r. c_peers c'' = Some (LeaseReg r) \<longrightarrow> self_key r \<notin> ?K" for c''
    using f okc that by (subst step_ok_def) (simp add: fences_ok_cong[of c'' c] fence_run_refl)
  from step have "step_ok N ?K t c c'"
  proof cases
    case (engage name parent cl r)
    from Engage_fences[OF f engage] okc reg show ?thesis by (simp add: step_ok_def fence_run_refl)
  next
    case (decide ch cx)
    show ?thesis
    proof (cases "c_peers c")
      case None
      then have "c' = c" using decide by (simp add: recompute_now_def)
      with idle[of c] reg show ?thesis by simp
    next
      case (Some q)
      with decide have "c' = recompute C (registry_Snapshot (ch_peers ch) q) (ch_order ch) cx (ch_now ch) (ch_times ch) c"
        by (simp add: recompute_now_def)
      with recompute_fences[OF inv f decide(2) inj okc, where t = t and K = ?K and at = "ch_times ch"] decide(4) reg
      show ?thesis by (simp add: step_ok_def readings_def)
    qed
  next
    case (peers n1 n2)
    with peers_pass_fences[OF f okc reg] show ?thesis by (simp add: step_ok_def)
  next
    case (run before g after ch)
    have c: "c\<lparr>c_go := before @ g # after\<rparr> = c" using run(1) by (cases c) simp
    show ?thesis
      by (rule run_goroutine_fences[where c = c and before = before and g = g and after = after, unfolded c, OF inv f inj okc reg run(2,4,5)])
  qed (use idle reg in \<open>auto simp: coordinator_AddAware_def\<close>)
  then show "peer_ok N c'" and "ok (c_srv c')"
    and "fence_run st (ID (c_self c)) t ?K (c_guards c) (c_srv c) (c_guards c') (c_srv c')"
    using ev inj same by (auto simp: step_ok_def peer_ok_def)
qed

end

subsection \<open>The processes together\<close>

text \<open>
  \<open>sh_until i k\<close> is a ghost: the end of the term for which the Lease \<open>k\<close> was stored under the name
  of process \<open>i\<close> when that process last acted.
\<close>

record 's shards =
  sh_coord :: "nat \<Rightarrow> 's coordinator"
  sh_srv :: 's
  sh_clock :: int
  sh_until :: "nat \<Rightarrow> nsname \<Rightarrow> int"

definition note_terms ::
  "('s \<Rightarrow> nsname \<Rightarrow> lease option) \<Rightarrow> string \<Rightarrow> 's \<Rightarrow> (nsname \<Rightarrow> int) \<Rightarrow> nsname \<Rightarrow> int" where
  "note_terms st me s u k =
     (case st s k of
        Some l \<Rightarrow> if HolderIdentity l = Some me then (case expiry l of Some e \<Rightarrow> e | None \<Rightarrow> u k) else u k
      | None \<Rightarrow> u k)"

text \<open>
  A coordinator as its constructor leaves it, under a non-empty identity; its fences have the
  names \<open>key\<close>, and the Lease of its registry is none of them.
\<close>

definition fresh_peer :: "cluster_name set \<Rightarrow> (cluster_name \<Rightarrow> nsname) \<Rightarrow> 's coordinator \<Rightarrow> bool" where
  "fresh_peer N key c \<longleftrightarrow>
     c_engaged c = fmempty \<and> c_guards c = [] \<and> c_go c = [] \<and> ID (c_self c) \<noteq> '''' \<and>
     (\<forall>n \<in> N. fence_key (c_cfg c) n = key n) \<and>
     (\<forall>r. c_peers c = Some (LeaseReg r) \<longrightarrow> self_key r \<notin> key ` N)"

text \<open>
  Time passes; a client that is none of the processes changes other objects than the fences \<open>K\<close>;
  a process acts; or a process ends at any point and another one starts in its place, under its
  identity or a new one, with nothing of its memory left and its Leases still on the server.
\<close>

inductive shard_step ::
  "'s lease_client \<Rightarrow> ('s \<Rightarrow> nsname \<Rightarrow> lease option) \<Rightarrow> ('s \<Rightarrow> bool) \<Rightarrow> (nat \<Rightarrow> engage_oracle) \<Rightarrow>
   ('s coordinator \<Rightarrow> bool) \<Rightarrow> cluster_name set \<Rightarrow> nsname set \<Rightarrow> 's shards \<Rightarrow> 's shards \<Rightarrow> bool"
  for C :: "'s lease_client" and st :: "'s \<Rightarrow> nsname \<Rightarrow> lease option" and ok :: "'s \<Rightarrow> bool"
    and aw :: "nat \<Rightarrow> engage_oracle" and sched :: "'s coordinator \<Rightarrow> bool"
    and N :: "cluster_name set" and K :: "nsname set" where
  tick: "0 \<le> d \<Longrightarrow> shard_step C st ok aw sched N K x (x\<lparr>sh_clock := sh_clock x + d\<rparr>)"
| others: "ok s \<Longrightarrow> (\<forall>k \<in> K. st s k = st (sh_srv x) k) \<Longrightarrow> shard_step C st ok aw sched N K x (x\<lparr>sh_srv := s\<rparr>)"
| act: "peer_step C (aw i) sched N (sh_clock x) ((sh_coord x i)\<lparr>c_srv := sh_srv x\<rparr>) c' \<Longrightarrow>
    shard_step C st ok aw sched N K x
      (x\<lparr>sh_coord := (sh_coord x)(i := c'), sh_srv := c_srv c',
         sh_until := (sh_until x)(i := note_terms st (ID (c_self c')) (c_srv c') (sh_until x i))\<rparr>)"
| restart: "fresh_peer N (fence_key (c_cfg (sh_coord x i))) c' \<Longrightarrow>
    (\<forall>j. j \<noteq> i \<longrightarrow> ID (c_self (sh_coord x j)) \<noteq> ID (c_self c')) \<Longrightarrow>
    shard_step C st ok aw sched N K x
      (x\<lparr>sh_coord := (sh_coord x)(i := c'), sh_until := (sh_until x)(i := (\<lambda>_. 0))\<rparr>)"

definition shards_new :: "(nat \<Rightarrow> 's coordinator) \<Rightarrow> 's \<Rightarrow> int \<Rightarrow> 's shards" where
  "shards_new cs s t = \<lparr>sh_coord = cs, sh_srv = s, sh_clock = t, sh_until = (\<lambda>_ _. 0)\<rparr>"

text \<open>
  Fresh coordinators under different identities that agree on the names of the fences; different
  clusters of \<open>N\<close> have different fences.
\<close>

definition shards_conf :: "cluster_name set \<Rightarrow> (cluster_name \<Rightarrow> nsname) \<Rightarrow> (nat \<Rightarrow> 's coordinator) \<Rightarrow> bool" where
  "shards_conf N key cs \<longleftrightarrow>
     (\<forall>i. fresh_peer N key (cs i)) \<and> inj (\<lambda>i. ID (c_self (cs i))) \<and> inj_on key N"

definition in_term ::
  "('s \<Rightarrow> nsname \<Rightarrow> lease option) \<Rightarrow> nsname \<Rightarrow> 's shards \<Rightarrow> nat \<Rightarrow> bool" where
  "in_term st k x i \<longleftrightarrow> (\<exists>l. st (sh_srv x) k = Some l \<and> HolderIdentity l = Some (ID (c_self (sh_coord x i))) \<and>
     expiry l = Some (sh_until x i k))"

definition shards_inv ::
  "('s \<Rightarrow> nsname \<Rightarrow> lease option) \<Rightarrow> ('s \<Rightarrow> bool) \<Rightarrow> cluster_name set \<Rightarrow> (cluster_name \<Rightarrow> nsname) \<Rightarrow> 's shards \<Rightarrow> bool" where
  "shards_inv st ok N key x \<longleftrightarrow>
     ok (sh_srv x) \<and> inj (\<lambda>i. ID (c_self (sh_coord x i))) \<and>
     (\<forall>i. peer_ok N (sh_coord x i) \<and> ID (c_self (sh_coord x i)) \<noteq> '''' \<and>
        (\<forall>n \<in> N. fence_key (c_cfg (sh_coord x i)) n = key n)) \<and>
     (\<forall>i. \<forall>k \<in> key ` N. holds (c_guards (sh_coord x i)) k \<and> sh_clock x \<le> sh_until x i k \<longrightarrow> in_term st k x i)"

lemma peer_ok_srv [simp]: "peer_ok N (c\<lparr>c_srv := s\<rparr>) = peer_ok N c"
proof -
  have "coord_inv (c\<lparr>c_srv := s\<rparr>) = coord_inv c"
    using coord_inv_evolves[of c "c\<lparr>c_srv := s\<rparr>"] coord_inv_evolves[of "c\<lparr>c_srv := s\<rparr>" c]
    by (auto simp: evolves_def)
  moreover have "fences_ok N (c\<lparr>c_srv := s\<rparr>) = fences_ok N c" by (rule fences_ok_cong) simp_all
  ultimately show ?thesis by (simp add: peer_ok_def)
qed

lemma fresh_peer_ok:
  assumes "fresh_peer N key c" and "inj_on key N"
  shows "peer_ok N c"
proof -
  have "coord_inv c" using assms(1) by (intro coord_invI) (simp_all add: fresh_peer_def)
  moreover have "fences_ok N c" using assms(1) by (intro fences_okI) (simp_all add: fresh_peer_def uniq_held_def)
  moreover have "inj_on (fence_key (c_cfg c)) N" "fence_key (c_cfg c) ` N = key ` N"
    using assms by (auto simp: fresh_peer_def inj_on_def)
  ultimately show ?thesis using assms(1) by (simp add: peer_ok_def fresh_peer_def)
qed

lemma shards_inv_new:
  assumes "shards_conf N key cs" and "ok s"
  shows "shards_inv st ok N key (shards_new cs s t)"
proof -
  have "peer_ok N (cs i)" for i using assms(1) by (auto simp: shards_conf_def intro: fresh_peer_ok)
  with assms show ?thesis by (simp add: shards_inv_def shards_conf_def fresh_peer_def shards_new_def holds_def)
qed

lemma restart_inv:
  assumes inv: "shards_inv st ok N key x" and fresh: "fresh_peer N (fence_key (c_cfg (sh_coord x i))) c'"
    and other: "\<forall>j. j \<noteq> i \<longrightarrow> ID (c_self (sh_coord x j)) \<noteq> ID (c_self c')"
  shows "shards_inv st ok N key (x\<lparr>sh_coord := (sh_coord x)(i := c'), sh_until := (sh_until x)(i := u)\<rparr>)"
    (is "shards_inv _ _ _ _ ?y")
proof -
  have "inj_on (fence_key (c_cfg (sh_coord x i))) N" using inv by (simp add: shards_inv_def peer_ok_def)
  with fresh have ok: "peer_ok N c'" by (rule fresh_peer_ok)
  have "inj (\<lambda>j. ID (c_self (sh_coord x j)))" using inv by (simp add: shards_inv_def)
  with other have "inj (\<lambda>j. ID (c_self (sh_coord ?y j)))"
    by (intro injI) (auto dest: injD split: if_splits)
  moreover have "in_term st k ?y j"
    if "k \<in> key ` N" "holds (c_guards (sh_coord ?y j)) k" "sh_clock ?y \<le> sh_until ?y j k" for j k
  proof (cases "j = i")
    case True
    with fresh that(2) show ?thesis by (simp add: fresh_peer_def holds_def)
  next
    case False
    with that have "holds (c_guards (sh_coord x j)) k" "sh_clock x \<le> sh_until x j k" by simp_all
    with inv that(1) have "in_term st k x j" unfolding shards_inv_def by blast
    with False show ?thesis by (simp add: in_term_def)
  qed
  ultimately show ?thesis using inv ok fresh by (simp add: shards_inv_def fresh_peer_def)
qed

context lease_store
begin

text \<open>
  A process that acts leaves the Lease of another one alone while the term of that one lasts; and it
  has noted the term of every Lease it holds.
\<close>

lemma term_respected:
  assumes "in_term st k x j" and "sh_clock x \<le> sh_until x j k"
    and "ID (c_self (sh_coord x j)) \<noteq> me" and "ID (c_self (sh_coord x j)) \<noteq> ''''"
    and "fence_run st me (sh_clock x) K gs (sh_srv x) gs' s'" and "k \<in> K"
  shows "st s' k = st (sh_srv x) k"
proof -
  from assms(1) obtain l where l: "st (sh_srv x) k = Some l" "HolderIdentity l = Some (ID (c_self (sh_coord x j)))"
    "expiry l = Some (sh_until x j k)" by (auto simp: in_term_def)
  have "\<not> expired l (sh_clock x)" using l(3) assms(2) by (rule not_expired)
  then have "\<not> lease_free me (sh_clock x) l" using l(2) assms(3,4) by (simp add: lease_free_def)
  with bspec[OF assms(5)[unfolded fence_run_def] assms(6)] l(1) show ?thesis by auto
qed

lemma term_noted:
  assumes run: "fence_run st me t K gs s gs' s'" and k: "k \<in> K" and h: "holds gs' k"
    and t: "t \<le> note_terms st me s' until k"
    and before: "holds gs k \<Longrightarrow> t \<le> until k \<Longrightarrow> \<exists>l. st s k = Some l \<and> HolderIdentity l = Some me \<and> expiry l \<noteq> None"
  shows "\<exists>l. st s' k = Some l \<and> HolderIdentity l = Some me \<and> expiry l \<noteq> None"
proof (cases "holds gs k \<and> st s' k = st s k")
  case same: True
  show ?thesis
  proof (cases "t \<le> until k")
    case True
    with before same show ?thesis by auto
  next
    case False
    with t show ?thesis by (auto simp: note_terms_def split: option.splits if_splits)
  qed
next
  case False
  with bspec[OF run[unfolded fence_run_def] k] h show ?thesis by (auto simp: mine_def)
qed

lemma act_inv:
  assumes inv: "shards_inv st ok N key x"
    and step: "peer_step C aw releases_done N (sh_clock x) ((sh_coord x i)\<lparr>c_srv := sh_srv x\<rparr>) c'"
    and y: "y = x\<lparr>sh_coord := (sh_coord x)(i := c'), sh_srv := c_srv c',
         sh_until := (sh_until x)(i := note_terms st (ID (c_self c')) (c_srv c') (sh_until x i))\<rparr>"
  shows "shards_inv st ok N key y"
proof -
  let ?c = "(sh_coord x i)\<lparr>c_srv := sh_srv x\<rparr>" and ?K = "key ` N" and ?me = "ID (c_self (sh_coord x i))"
  have p: "peer_ok N ?c" "ok (c_srv ?c)" using inv by (simp_all add: shards_inv_def)
  note s = peer_step_ok[OF step p]
  have K: "fence_key (c_cfg ?c) ` N = ?K" using inv by (simp add: shards_inv_def)
  have run: "fence_run st ?me (sh_clock x) ?K (c_guards (sh_coord x i)) (sh_srv x) (c_guards c') (c_srv c')"
    using s(5) K by simp
  have self: "c_self (sh_coord y j) = c_self (sh_coord x j)" for j using s(3) by (simp add: y)
  have bef: "in_term st k x j" if "k \<in> ?K" "holds (c_guards (sh_coord x j)) k" "sh_clock x \<le> sh_until x j k" for j k
    using inv that by (auto simp: shards_inv_def)
  have "in_term st k y j" if k: "k \<in> ?K" and h: "holds (c_guards (sh_coord y j)) k" and t: "sh_clock y \<le> sh_until y j k" for j k
  proof (cases "j = i")
    case False
    with h t have hx: "holds (c_guards (sh_coord x j)) k" "sh_clock x \<le> sh_until x j k" by (simp_all add: y)
    have "ID (c_self (sh_coord x j)) \<noteq> ?me" "ID (c_self (sh_coord x j)) \<noteq> ''''"
      using inv False by (auto simp: shards_inv_def dest: injD)
    from term_respected[OF bef[OF k hx] hx(2) this run k] bef[OF k hx] False self show ?thesis
      by (simp add: in_term_def y)
  next
    case True
    have "\<exists>l. st (c_srv c') k = Some l \<and> HolderIdentity l = Some ?me \<and> expiry l \<noteq> None"
      by (rule term_noted[OF run k]) (use True h t s(3) bef[OF k, of i] in \<open>auto simp: y in_term_def\<close>)
    with True s(3) show ?thesis by (auto simp: in_term_def y note_terms_def)
  qed
  moreover have "peer_ok N (sh_coord y j)" "c_cfg (sh_coord y j) = c_cfg (sh_coord x j)" for j
    using inv s(1,4) by (simp_all add: y shards_inv_def)
  moreover have "ok (sh_srv y)" using s(2) by (simp add: y)
  ultimately show ?thesis using inv by (simp add: shards_inv_def self)
qed

lemma shard_step_inv:
  assumes "shard_step C st ok aw releases_done N (key ` N) x y" and inv: "shards_inv st ok N key x"
  shows "shards_inv st ok N key y"
  using assms(1)
proof cases
  case (tick d)
  with inv show ?thesis by (simp add: shards_inv_def in_term_def)
next
  case (others s)
  with inv show ?thesis by (simp add: shards_inv_def in_term_def)
next
  case (act i c')
  with act_inv[OF inv act(2)] show ?thesis by simp
next
  case (restart i c')
  with restart_inv[OF inv restart(2,3)] show ?thesis by simp
qed

lemma shards_reach_inv:
  "(shard_step C st ok aw releases_done N (key ` N))\<^sup>*\<^sup>* (shards_new cs s t) x \<Longrightarrow>
   shards_conf N key cs \<Longrightarrow> ok s \<Longrightarrow> shards_inv st ok N key x"
  by (induction rule: rtranclp_induct) (auto intro: shards_inv_new shard_step_inv)

lemma started_holds:
  assumes "shards_inv st ok N key x" and "fmlookup (c_engaged (sh_coord x i)) n = Some e" and "e_started e"
  shows "n \<in> N" and "holds (c_guards (sh_coord x i)) (key n)"
proof -
  have p: "coord_inv (sh_coord x i)" "fences_ok N (sh_coord x i)" using assms(1) by (simp_all add: shards_inv_def peer_ok_def)
  show n: "n \<in> N" using fences_okD(1)[OF p(2) assms(2)] .
  from fences_okD(5)[OF p(2) assms(2,3)] obtain g where g: "e_fence e = Some g" "g_held (c_guards (sh_coord x i) ! g)" by blast
  from engaged_fence[OF p(1) assms(2) g(1)] have "g < length (c_guards (sh_coord x i))"
    "guard_key (c_guards (sh_coord x i) ! g) = key n"
    using assms(1) n by (simp_all add: guard_for_def shards_inv_def fence_key_def)
  with g(2) show "holds (c_guards (sh_coord x i)) (key n)" by (auto simp: holds_def)
qed

end

subsection \<open>A run with two processes\<close>

definition sh_act ::
  "('s \<Rightarrow> nsname \<Rightarrow> lease option) \<Rightarrow> nat \<Rightarrow> 's coordinator \<Rightarrow> 's shards \<Rightarrow> 's shards" where
  "sh_act st i c x =
     x\<lparr>sh_coord := (sh_coord x)(i := c), sh_srv := c_srv c,
       sh_until := (sh_until x)(i := note_terms st (ID (c_self c)) (c_srv c) (sh_until x i))\<rparr>"

lemma sh_act_sel [simp]:
  "sh_coord (sh_act st i c x) = (sh_coord x)(i := c)" "sh_srv (sh_act st i c x) = c_srv c"
  "sh_clock (sh_act st i c x) = sh_clock x"
  "sh_until (sh_act st i c x) = (sh_until x)(i := note_terms st (ID (c_self c)) (c_srv c) (sh_until x i))"
  by (simp_all add: sh_act_def)

lemma act_reach:
  assumes "(shard_step C st ok aw sched N K)\<^sup>*\<^sup>* x0 x" and "peer_step C (aw i) sched N (sh_clock x) c c'"
    and "c = (sh_coord x i)\<lparr>c_srv := sh_srv x\<rparr>"
  shows "(shard_step C st ok aw sched N K)\<^sup>*\<^sup>* x0 (sh_act st i c' x)"
  using assms shard_step.act[of C aw i sched N x c' st ok K] unfolding sh_act_def
  by (auto intro: rtranclp.rtrancl_into_rtrancl)

definition peerN :: "nat \<Rightarrow> PeerInfo" where
  "peerN i = \<lparr>ID = replicate (Suc i) (CHR ''a''), Weight = 1\<rparr>"

definition demo_proc :: "nat \<Rightarrow> api_server coordinator" where
  "demo_proc i = coordinator_New ''''
     [WithPeerRegistry (Some (CustomReg (peerN i) [peerN i])), WithSharder (Some first_peer)]
     (fst (background [])) mem_server"

lemma demo_proc_eq:
  "demo_proc i =
     \<lparr>c_sharder = first_peer, c_peers = Some (CustomReg (peerN i) [peerN i]), c_self = peerN i,
      c_cfg = defaultConfig, c_engaged = fmempty, c_awares = [], c_guards = [], c_tokens = 0,
      c_ctxs = [(None, False)], c_go = [], c_calls = [], c_srv = mem_server\<rparr>"
  by (simp add: demo_proc_def coordinator_New_def WithPeerRegistry_def WithSharder_def background_def Let_def)

lemma demo_proc_0: "demo_proc 0 = demo_new"
  by (simp add: demo_proc_def demo_new_def demo_opts_def peerN_def peerA_def)

lemma demo_shards_conf: "shards_conf {''zoo''} (fence_key defaultConfig) demo_proc"
  by (auto simp: shards_conf_def fresh_peer_def demo_proc_eq peerN_def intro!: injI dest: arg_cong[of _ _ length])

definition demo_x0 :: "api_server shards" where "demo_x0 = shards_new demo_proc mem_server 5"
definition demo_x2 :: "api_server shards" where
  "demo_x2 = sh_act mem_stored 0 demo_started (sh_act mem_stored 0 demo_engaged demo_x0)"

lemma upd_srv_same [simp]: "c\<lparr>c_srv := c_srv c\<rparr> = c"
  by (cases c) simp

lemma demo_readings: "readings 5 demo_ch"
  by (simp add: readings_def demo_ch_def)

lemma demo_x2_reach:
  assumes "sched demo_engaged"
  shows "(shard_step mem_client mem_stored mem_ok aw sched {''zoo''} K)\<^sup>*\<^sup>* demo_x0 demo_x2"
  unfolding demo_x2_def
proof (rule act_reach[OF act_reach[OF rtranclp.rtrancl_refl]])
  show "peer_step mem_client (aw 0) sched {''zoo''} (sh_clock demo_x0) demo_new demo_engaged"
    unfolding demo_engaged_def by (rule peer_step.engage) (auto intro: surjective_pairing)
  show "peer_step mem_client (aw 0) sched {''zoo''} (sh_clock (sh_act mem_stored 0 demo_engaged demo_x0)) demo_engaged demo_started"
    unfolding demo_started_def
    by (rule peer_step.decide) (use assms demo_readings demo_orders in \<open>simp_all add: demo_x0_def shards_new_def\<close>)
  show "demo_new = (sh_coord demo_x0 0)\<lparr>c_srv := sh_srv demo_x0\<rparr>"
    by (simp add: demo_x0_def shards_new_def demo_proc_0[symmetric] demo_proc_eq)
  show "demo_engaged = (sh_coord (sh_act mem_stored 0 demo_engaged demo_x0) 0)\<lparr>c_srv := sh_srv (sh_act mem_stored 0 demo_engaged demo_x0)\<rparr>"
    by simp
qed

abbreviation demo_key :: nsname where "demo_key \<equiv> fence_key defaultConfig ''zoo''"

lemma demo_key_eq: "demo_key = NsName ''kube-system'' ''mcr-shard-zoo''"
  by (simp add: fence_key_def demo_cfg)

lemma demo_lease_a:
  "\<exists>l. mem_stored (c_srv demo_started) demo_key = Some l \<and> HolderIdentity l = Some ''a'' \<and> expiry l = Some (20 * second)"
  by (simp add: demo_started_eq mem_stored_def mem_store_def demo_key_eq Let_def acquire_new_def new_lease_def wire_def
      demo_guard_def newLeaseGuard_def guard_key_def expiry_def to_seconds32_def int32_of_def second_def micro_def)

lemma demo_until: "sh_until demo_x2 0 demo_key = 20 * second"
proof -
  have "ID (c_self demo_started) = ''a''" by (simp add: demo_started_eq peerA_def)
  then show ?thesis using demo_lease_a by (auto simp: demo_x2_def note_terms_def)
qed

lemma demo_x2_started:
  "fmlookup (c_engaged (sh_coord demo_x2 0)) ''zoo'' = Some (demo_entry demo_started)"
  "sh_clock demo_x2 = 5" "releases_done demo_engaged"
  by (simp_all add: demo_x2_def demo_lookup demo_x0_def shards_new_def releases_done_def demo_engaged_eq)

text \<open>
  C2: No two processes work on one cluster. Any number of sharded coordinators share an API
  server; their methods, registries, renewers and other goroutines run in any order, reads may
  be stale, replies may be lost, the peers' views of the registry may differ, and a process may
  end at any point and start again, under its identity or another one. If every process finishes
  the releases it has scheduled before it decides again, then two processes that have the same
  cluster started, while the terms they hold its fence for have not ended, are the same process.
\<close>

theorem cluster_runs_once:
  assumes "lease_store C st vs ok" and "ok s" and "shards_conf N key cs"
    and "(shard_step C st ok aw releases_done N (key ` N))\<^sup>*\<^sup>* (shards_new cs s t) x"
    and "fmlookup (c_engaged (sh_coord x i)) n = Some e" and "e_started e" and "sh_clock x \<le> sh_until x i (key n)"
    and "fmlookup (c_engaged (sh_coord x j)) n = Some f" and "e_started f" and "sh_clock x \<le> sh_until x j (key n)"
  shows "i = j"
proof -
  note inv = lease_store.shards_reach_inv[OF assms(1,4,3,2)]
  note hi = lease_store.started_holds[OF assms(1) inv assms(5,6)]
  note hj = lease_store.started_holds[OF assms(1) inv assms(8,9)]
  have "in_term st (key n) x i" "in_term st (key n) x j"
    using inv hi hj assms(7,10) by (auto simp: shards_inv_def)
  then have "ID (c_self (sh_coord x i)) = ID (c_self (sh_coord x j))" by (auto simp: in_term_def)
  with inv show ?thesis by (auto simp: shards_inv_def dest: injD)
qed

theorem cluster_runs_once_witness:
  "e_started (demo_entry (sh_coord demo_x2 0)) \<and> sh_clock demo_x2 \<le> sh_until demo_x2 0 demo_key \<and>
   \<not> (\<exists>e. fmlookup (c_engaged (sh_coord demo_x2 1)) ''zoo'' = Some e \<and> e_started e \<and>
        sh_clock demo_x2 \<le> sh_until demo_x2 1 demo_key)"
proof (intro conjI notI)
  have e: "fmlookup (c_engaged (sh_coord demo_x2 0)) ''zoo'' = Some (demo_entry demo_started)" "e_started (demo_entry demo_started)"
    by (rule demo_x2_started demo_lookup)+
  then show "e_started (demo_entry (sh_coord demo_x2 0))" by (simp add: demo_entry_def)
  show le: "sh_clock demo_x2 \<le> sh_until demo_x2 0 demo_key" by (simp add: demo_until demo_x2_started second_def)
  assume "\<exists>e. fmlookup (c_engaged (sh_coord demo_x2 1)) ''zoo'' = Some e \<and> e_started e \<and>
        sh_clock demo_x2 \<le> sh_until demo_x2 1 demo_key"
  then obtain f where f: "fmlookup (c_engaged (sh_coord demo_x2 1)) ''zoo'' = Some f" "e_started f"
    "sh_clock demo_x2 \<le> sh_until demo_x2 1 demo_key" by blast
  have r: "(shard_step mem_client mem_stored mem_ok (\<lambda>_ _ _. None) releases_done {''zoo''} (fence_key defaultConfig ` {''zoo''}))\<^sup>*\<^sup>*
      (shards_new demo_proc mem_server 5) demo_x2"
    using demo_x2_reach demo_x2_started(3) by (simp add: demo_x0_def)
  from cluster_runs_once[OF memStore.lease_store_axioms mem_server_ok demo_shards_conf r e le f]
  show False by simp
qed

subsection \<open>Without the order of releases and decisions\<close>

definition demo_b :: "api_server coordinator" where
  "demo_b = (demo_proc 1)\<lparr>c_srv := c_srv demo_raced\<rparr>"

definition demo_b_engaged :: "api_server coordinator" where
  "demo_b_engaged = snd (coordinator_Engage 0 ''zoo'' 7 demo_b)"

definition demo_b_started :: "api_server coordinator" where
  "demo_b_started = recompute_now mem_client demo_ch 0 demo_b_engaged"

definition demo_guard_b :: lease_guard where
  "demo_guard_b = newLeaseGuard ''kube-system'' ''mcr-shard-zoo'' ''aa'' (20 * second) (10 * second) (Some ''zoo'')"

definition demo_lease_free :: lease where
  "demo_lease_free = (wire (acquire_new demo_guard 5))\<lparr>HolderIdentity := Some '''', l_rv := 2\<rparr>"

lemma demo_raced_srv: "fmlookup (sv_objs (c_srv demo_raced)) demo_key = Some demo_lease_free" "\<not> sv_down (c_srv demo_raced)"
  unfolding demo_raced_def demo_bounced_eq demo_started_eq
  by (simp_all add: release_fence_def Release_def mem_client_def mem_get_def mem_store_def mem_server_def
      mem_update_def acquire_new_def new_lease_def wire_def guard_key_def demo_guard_def demo_key_eq demo_lease_free_def
      newLeaseGuard_def cancel_opt_def cancel_def release_update_def micro_def numeral_eq_Suc Let_def)

lemma demo_b_engaged_eq:
  "demo_b_engaged =
     \<lparr>c_sharder = first_peer, c_peers = Some (CustomReg (peerN 1) [peerN 1]), c_self = peerN 1,
      c_cfg = defaultConfig, c_engaged = fmupd ''zoo'' demo_eng fmempty, c_awares = [],
      c_guards = [], c_tokens = 1, c_ctxs = [(None, False)],
      c_go = [Watch 0 ''zoo'' 0, Recompute 0], c_calls = [], c_srv = c_srv demo_raced\<rparr>"
  by (simp add: demo_b_engaged_def demo_b_def demo_proc_eq coordinator_Engage_def ctx_err.simps
      Let_def put_engaged_def spawn_def new_engagement_def demo_eng_def)

lemma demo_b_acquire:
  "\<exists>l s S new. TryAcquire mem_client demo_guard_b 5 [(None, False)] (c_srv demo_raced) = (True, new, S, s) \<and>
     mem_stored s demo_key = Some l \<and> HolderIdentity l = Some ''aa'' \<and> expiry l = Some (20 * second)"
  using demo_raced_srv
  by (simp add: TryAcquire_def mem_client_def mem_get_def demo_guard_b_def newLeaseGuard_def guard_key_def demo_key_eq
      demo_lease_free_def acquire_adopt_def Let_def mem_update_def acquire_new_def new_lease_def demo_guard_def wire_def
      start_renewer_def background_def with_cancel_def mem_stored_def mem_store_def expiry_def to_seconds32_def
      int32_of_def second_def micro_def)

lemma demo_b_started:
  "\<exists>e l. fmlookup (c_engaged demo_b_started) ''zoo'' = Some e \<and> e_started e \<and> c_self demo_b_started = peerN 1 \<and>
     mem_stored (c_srv demo_b_started) demo_key = Some l \<and> HolderIdentity l = Some ''aa'' \<and> expiry l = Some (20 * second)"
proof -
  obtain l s S new where a: "TryAcquire mem_client demo_guard_b 5 [(None, False)] (c_srv demo_raced) = (True, new, S, s)"
    and l: "mem_stored s demo_key = Some l" "HolderIdentity l = Some ''aa''" "expiry l = Some (20 * second)"
    using demo_b_acquire by blast
  have new: "newLeaseGuard ''kube-system'' ''mcr-shard-zoo'' ''aa'' (20 * second) (10 * second) (Some ''zoo'') = demo_guard_b"
    by (simp add: demo_guard_b_def)
  have "first_peer ''zoo'' [peerN 1] (peerN 1)" "ID (peerN 1) = ''aa''" by (simp_all add: first_peer_def peerN_def)
  moreover have "\<not> 5 < - (62135596800 * second)" by (simp add: second_def)
  moreover have "g_held demo_guard_b = False" by (simp add: demo_guard_b_def newLeaseGuard_def)
  ultimately show ?thesis
    using a l unfolding demo_b_started_def demo_b_engaged_eq
    by (simp add: recompute_now_def recompute_def demo_ch_def recompute_one_def demo_eng_def recompute_start_def
        ensure_fence_def demo_cfg Let_def zero_time_def try_fence_def put_engaged_def spawn_def new with_cancel_def
        split: option.splits)
qed

definition demo_bounce :: "api_server shards" where
  "demo_bounce = sh_act mem_stored 0 demo_bounced (sh_act mem_stored 0 (demo_peers [peerA] demo_moved)
     (sh_act mem_stored 0 demo_moved (sh_act mem_stored 0 (demo_peers [peerB] demo_started) demo_x2)))"

definition demo_split :: "api_server shards" where
  "demo_split = sh_act mem_stored 1 demo_b_started (sh_act mem_stored 1 demo_b_engaged (sh_act mem_stored 0 demo_raced demo_bounce))"

lemma demo_peer_steps:
  "peer_step mem_client aw (\<lambda>_. True) {''zoo''} 5 demo_started (demo_peers [peerB] demo_started)"
  "peer_step mem_client aw (\<lambda>_. True) {''zoo''} 5 (demo_peers [peerB] demo_started) demo_moved"
  "peer_step mem_client aw (\<lambda>_. True) {''zoo''} 5 demo_moved (demo_peers [peerA] demo_moved)"
  "peer_step mem_client aw (\<lambda>_. True) {''zoo''} 5 (demo_peers [peerA] demo_moved) demo_bounced"
  "peer_step mem_client aw (\<lambda>_. True) {''zoo''} 5 demo_bounced demo_raced"
  "peer_step mem_client aw (\<lambda>_. True) {''zoo''} 5 demo_b demo_b_engaged"
  "peer_step mem_client aw (\<lambda>_. True) {''zoo''} 5 demo_b_engaged demo_b_started"
proof -
  show "peer_step mem_client aw (\<lambda>_. True) {''zoo''} 5 demo_started (demo_peers [peerB] demo_started)"
    unfolding demo_peers_def by (rule peer_step.custom) (simp add: demo_started_eq)
  show "peer_step mem_client aw (\<lambda>_. True) {''zoo''} 5 (demo_peers [peerB] demo_started) demo_moved"
    unfolding demo_moved_def by (rule peer_step.decide) (use demo_readings demo_orders in simp_all)
  show "peer_step mem_client aw (\<lambda>_. True) {''zoo''} 5 demo_moved (demo_peers [peerA] demo_moved)"
    unfolding demo_peers_def by (rule peer_step.custom) (simp add: demo_moved_eq)
  show "peer_step mem_client aw (\<lambda>_. True) {''zoo''} 5 (demo_peers [peerA] demo_moved) demo_bounced"
    unfolding demo_bounced_def
    by (rule peer_step.decide) (use demo_readings in \<open>simp_all add: iter_order_def demo_moved_eq\<close>)
  show "peer_step mem_client aw (\<lambda>_. True) {''zoo''} 5 demo_bounced demo_raced"
    unfolding demo_raced_def
    by (rule peer_step.run[where ch = demo_ch and g = "ReleaseFence 0" and before = "c_go demo_started"
          and after = "[StartFor 4 ''zoo'' 7]"])
       (use demo_readings in \<open>simp_all add: iter_order_def demo_bounced_dom\<close>, simp_all add: demo_bounced_eq demo_started_eq)
  show "peer_step mem_client aw (\<lambda>_. True) {''zoo''} 5 demo_b demo_b_engaged"
    unfolding demo_b_engaged_def by (rule peer_step.engage) (auto intro: surjective_pairing)
  show "peer_step mem_client aw (\<lambda>_. True) {''zoo''} 5 demo_b_engaged demo_b_started"
    unfolding demo_b_started_def
    by (rule peer_step.decide) (use demo_readings in \<open>simp_all add: iter_order_def demo_b_engaged_eq\<close>)
qed

lemma demo_split_reach:
  "(shard_step mem_client mem_stored mem_ok aw (\<lambda>_. True) {''zoo''} K)\<^sup>*\<^sup>* demo_x0 demo_split"
proof -
  have clock: "sh_clock demo_x2 = 5" by (rule demo_x2_started)
  note r0 = demo_x2_reach[of "\<lambda>_. True" aw K, OF TrueI]
  note r1 = act_reach[OF r0, of 0, unfolded clock, OF demo_peer_steps(1)]
  note r2 = act_reach[OF r1, of 0, unfolded sh_act_sel clock, OF _ demo_peer_steps(2)]
  note r3 = act_reach[OF r2, of 0, unfolded sh_act_sel clock, OF _ _ demo_peer_steps(3)]
  note r4 = act_reach[OF r3, of 0, unfolded sh_act_sel clock, OF _ _ _ demo_peer_steps(4)]
  note r5 = act_reach[OF r4, of 0, unfolded sh_act_sel clock, OF _ _ _ _ demo_peer_steps(5)]
  note r6 = act_reach[OF r5, of 1, unfolded sh_act_sel clock, OF _ _ _ _ _ demo_peer_steps(6)]
  note r7 = act_reach[OF r6, of 1, unfolded sh_act_sel clock, OF _ _ _ _ _ _ demo_peer_steps(7)]
  show ?thesis
    unfolding demo_split_def demo_bounce_def
    by (rule r7) (simp_all add: demo_x2_def demo_b_def demo_x0_def shards_new_def)
qed

lemma demo_split_until: "sh_until demo_split 0 demo_key = 20 * second" "sh_until demo_split 1 demo_key = 20 * second"
proof -
  have srv: "c_srv (demo_peers ps c) = c_srv c" "c_self (demo_peers ps c) = c_self c" for ps c by (simp_all add: demo_peers_def)
  have same: "c_srv demo_moved = c_srv demo_started" "c_srv demo_bounced = c_srv demo_started"
    "ID (c_self demo_moved) = ''a''" "ID (c_self demo_bounced) = ''a''" "ID (c_self demo_started) = ''a''"
    by (simp_all add: demo_moved_eq demo_bounced_eq demo_started_eq peerA_def)
  have raced: "mem_stored (c_srv demo_raced) demo_key = Some demo_lease_free" "HolderIdentity demo_lease_free = Some ''''"
    "ID (c_self demo_raced) = ''a''"
    using demo_raced_srv(1) same(4)
    by (simp_all add: mem_stored_def demo_lease_free_def demo_raced_def release_fence_def split: prod.splits)
  have "note_terms mem_stored ''a'' (c_srv demo_raced) u demo_key = u demo_key" for u
    using raced by (simp add: note_terms_def)
  moreover have "note_terms mem_stored ''a'' (c_srv demo_started) u demo_key = 20 * second" for u
    using demo_lease_a by (auto simp: note_terms_def)
  ultimately show "sh_until demo_split 0 demo_key = 20 * second"
    using same raced(3) by (simp add: demo_split_def demo_bounce_def srv)
  have "ID (peerN 1) = ''aa''" by (simp add: peerN_def)
  with demo_b_started show "sh_until demo_split 1 demo_key = 20 * second"
    by (auto simp: demo_split_def note_terms_def)
qed

text \<open>
  Two processes can work on one cluster. The same system, without the order of releases and
  decisions that the code does not enforce: the assignment of a cluster leaves a process and
  comes back before the release of its fence has run; the release then frees the Lease of the
  cluster that was started again, another process acquires it, and both have the cluster
  started in live contexts, within the terms they acquired its fence for.
\<close>

theorem split_brain_reachable:
  "\<exists>x e f. (shard_step mem_client mem_stored mem_ok aw (\<lambda>_. True) {''zoo''} {demo_key})\<^sup>*\<^sup>*
       (shards_new demo_proc mem_server 5) x \<and>
     fmlookup (c_engaged (sh_coord x 0)) ''zoo'' = Some e \<and> e_started e \<and>
     \<not> ctx_err (c_ctxs (sh_coord x 0)) (the (e_ctx e)) \<and> sh_clock x \<le> sh_until x 0 demo_key \<and>
     fmlookup (c_engaged (sh_coord x 1)) ''zoo'' = Some f \<and> e_started f \<and> sh_clock x \<le> sh_until x 1 demo_key"
proof -
  have "sh_clock demo_split = 5" "sh_coord demo_split 0 = demo_raced" "sh_coord demo_split 1 = demo_b_started"
    using demo_x2_started(2) by (simp_all add: demo_split_def demo_bounce_def)
  then show ?thesis
    using demo_split_reach[of aw "{demo_key}"] demo_split_until demo_raced_eval(1,3) demo_b_started
    by (intro exI[of _ demo_split]) (auto simp: demo_x0_def second_def)
qed

end
