(* ===== verification/Settling.thy ===== *)
theory Settling
  imports Shards
begin

text \<open>
  How a fleet of sharded coordinators settles. When the API server answers and the processes see
  the same peers, one round of decisions, in any order of the processes, starts a free cluster in
  exactly one of them.
\<close>

subsection \<open>An API server that answers\<close>

text \<open>
  While the server is \<open>up\<close>, a read returns what is stored, and a write succeeds if the object is
  new, or if it was computed from the stored version.
\<close>

locale live_store = lease_store C st vs ok
  for C :: "'s lease_client" and st :: "'s \<Rightarrow> nsname \<Rightarrow> lease option"
    and vs :: "'s \<Rightarrow> nsname \<Rightarrow> lease set" and ok :: "'s \<Rightarrow> bool" +
  fixes up :: "'s \<Rightarrow> bool"
  assumes up_get: "ok s \<Longrightarrow> up s \<Longrightarrow> api_get C s k = (g, s') \<Longrightarrow>
      up s' \<and> g = (case st s k of None \<Rightarrow> Inl NotFound | Some l \<Rightarrow> Inr l)"
    and up_create: "ok s \<Longrightarrow> up s \<Longrightarrow> api_create C s l = (r, s') \<Longrightarrow>
      up s' \<and> (st s (l_key l) = None \<longrightarrow> r = None)"
    and up_update: "ok s \<Longrightarrow> up s \<Longrightarrow> api_update C s l = (r, s') \<Longrightarrow>
      up s' \<and> ((\<exists>l0. st s (l_key l) = Some l0 \<and> l_rv l0 = l_rv l) \<longrightarrow> r = None)"
begin

definition fence_open :: "string \<Rightarrow> int \<Rightarrow> nsname \<Rightarrow> 's \<Rightarrow> bool" where
  "fence_open me t k s \<longleftrightarrow> ok s \<and> up s \<and> (\<forall>l. st s k = Some l \<longrightarrow> lease_free me t l)"

lemma TryAcquire_up:
  assumes "ok s" and "up s" and "TryAcquire C g now S s = (r, g', S', s')"
  shows "up s'" and "\<forall>l. st s (guard_key g) = Some l \<longrightarrow> lease_free (g_id g) now l \<Longrightarrow> r"
proof -
  have "up s' \<and> ((\<forall>l. st s (guard_key g) = Some l \<longrightarrow> lease_free (g_id g) now l) \<longrightarrow> r)"
  proof (cases "g_held g")
    case True
    with assms show ?thesis by (simp add: TryAcquire_held)
  next
    case False
    obtain q s1 where get: "api_get C s (guard_key g) = (q, s1)" by fastforce
    have s1: "ok s1" "st s1 = st s" using get_law[OF assms(1) get] by (auto simp: api_same_def fun_eq_iff)
    note u = up_get[OF assms(1,2) get]
    show ?thesis
    proof (cases "st s (guard_key g)")
      case None
      obtain x s2 where c: "api_create C s1 (acquire_new g now) = (x, s2)" by fastforce
      from up_create[OF s1(1) _ c] u None s1(2) have "x = None" "up s2" by simp_all
      with assms(3) False get u None c show ?thesis by (auto simp: TryAcquire_def split: prod.splits)
    next
      case (Some l)
      show ?thesis
      proof (cases "acquire_adopt g now l")
        case None
        then have "\<not> lease_free (g_id g) now l" by (auto simp: acquire_adopt_def lease_free_def Let_def split: if_splits option.splits)
        with assms(3) False get u Some None show ?thesis by (auto simp: TryAcquire_def)
      next
        case ad: (Some l')
        obtain x s2 where c: "api_update C s1 l' = (x, s2)" by fastforce
        have "l_key l = guard_key g" using version_key[OF assms(1) stored_version[OF assms(1) Some]] .
        with acquire_adopt_SomeD(2,3)[OF ad] Some s1(2) have "st s1 (l_key l') = Some l" "l_rv l = l_rv l'" by simp_all
        with up_update[OF s1(1) _ c] u have "x = None" "up s2" by auto
        with assms(3) False get u Some ad c show ?thesis by (auto simp: TryAcquire_def split: prod.splits)
      qed
    qed
  qed
  then show "up s'" and "\<forall>l. st s (guard_key g) = Some l \<longrightarrow> lease_free (g_id g) now l \<Longrightarrow> r" by auto
qed

lemma open_fence_acquired:
  assumes "fence_open (g_id g) t (guard_key g) s" and "t \<le> now"
  shows "fst (TryAcquire C g now S s)"
proof -
  obtain r g' S' s' where a: "TryAcquire C g now S s = (r, g', S', s')" by (metis prod_cases4)
  have "ok s" "up s" "\<forall>l. st s (guard_key g) = Some l \<longrightarrow> lease_free (g_id g) now l"
    using assms lease_free_mono by (auto simp: fence_open_def)
  with TryAcquire_up(2)[OF _ _ a] a show ?thesis by simp
qed

lemma attempt_elsewhere:
  assumes "fence_open me t k s" and "guard_key g \<noteq> k"
  shows "fence_open me t k (snd (snd (snd (TryAcquire C g now S s))))"
proof -
  obtain r g' S' s' where a: "TryAcquire C g now S s = (r, g', S', s')" by (metis prod_cases4)
  have s: "ok s" "up s" using assms(1) by (simp_all add: fence_open_def)
  note w = TryAcquire_wrote(1,2)[OF s(1) a order_refl]
  have "st s' k = st s k" using w(2) assms(2) by (simp add: wrote_def)
  with w(1) TryAcquire_up(1)[OF s a] assms(1) a show ?thesis by (simp add: fence_open_def)
qed

text \<open>Whoever does not own a cluster leaves its fence alone when it decides.\<close>

lemma other_fence:
  assumes "peer_ok N c" and "iter_order (c_engaged c) ord" and "m \<in> set ord" and "m \<noteq> n" and "n \<in> N"
    and "guard_for (c_cfg c) self m g"
  shows "guard_key g \<noteq> fence_key (c_cfg c) n"
proof -
  obtain e where "fmlookup (c_engaged c) m = Some e" using iter_order_iff[OF assms(2), of m] assms(3) by auto
  then have "m \<in> N" using assms(1) fences_okD(1) by (auto simp: peer_ok_def)
  moreover have "inj_on (fence_key (c_cfg c)) N" using assms(1) by (simp add: peer_ok_def)
  ultimately have "fence_key (c_cfg c) m \<noteq> fence_key (c_cfg c) n" using assms(4,5) by (auto dest: inj_onD)
  then show ?thesis using assms(6) by (simp add: guard_for_def fence_key_def)
qed

lemma not_owner_leaves_fence:
  assumes p: "peer_ok N c" and ord: "iter_order (c_engaged c) ord" and n: "n \<in> N"
    and no: "\<not> c_sharder c n peers (c_self c)" and free: "fence_open me t (fence_key (c_cfg c) n) (c_srv c)"
  shows "fence_open me t (fence_key (c_cfg c) n) (c_srv (recompute C peers ord parent now at c))"
proof -
  have "fence_open me t (fence_key (c_cfg c) n) (c_srv (fst (fold (recompute_one C peers parent now at) ord (c, [], []))))"
  proof (rule recompute_fold_srv[where P = "fence_open me t (fence_key (c_cfg c) n)" and sh = "c_sharder c", OF _ free refl refl refl])
    show "coord_inv c" using p by (simp add: peer_ok_def)
    fix m g S s assume "m \<in> set ord" "c_sharder c m peers (c_self c)" "guard_for (c_cfg c) (c_self c) m g"
      "fence_open me t (fence_key (c_cfg c) n) s"
    with no other_fence[OF p ord _ _ n] show "fence_open me t (fence_key (c_cfg c) n) (snd (snd (snd (TryAcquire C g (at m) S s))))"
      by (intro attempt_elsewhere) auto
  qed
  then show ?thesis by (auto simp: recompute_def fold_spawn_starts Let_def split: prod.splits)
qed

lemma owner_starts:
  assumes p: "peer_ok N c" and ord: "iter_order (c_engaged c) ord" and e: "fmlookup (c_engaged c) n = Some e" "\<not> e_started e"
    and own: "c_sharder c n peers (c_self c)" and due: "e_nextTry e \<le> now"
    and free: "fence_open (ID (c_self c)) t (fence_key (c_cfg c) n) (c_srv c)" and t: "t \<le> at n"
  shows "\<exists>e'. fmlookup (c_engaged (recompute C peers ord parent now at c)) n = Some e' \<and> e_started e'"
proof -
  have n: "n \<in> N" using p e(1) fences_okD(1) by (auto simp: peer_ok_def)
  have inv: "coord_inv c" using p by (simp add: peer_ok_def)
  have "\<exists>e' k. fmlookup (c_engaged (recompute C peers ord parent now at c)) n = Some e' \<and> e_started e' \<and> e_ctx e' = Some k \<and>
      StartFor k n (e_cl e) \<in> set (c_go (recompute C peers ord parent now at c))"
  proof (rule owned_cluster_started[where P = "fence_open (ID (c_self c)) t (fence_key (c_cfg c) n)",
        OF inv ord e own due free])
    fix m g S s assume "m \<in> set ord - {n}" "guard_for (c_cfg c) (c_self c) m g" "fence_open (ID (c_self c)) t (fence_key (c_cfg c) n) s"
    with other_fence[OF p ord _ _ n] show "fence_open (ID (c_self c)) t (fence_key (c_cfg c) n) (snd (snd (snd (TryAcquire C g (at m) S s))))"
      by (intro attempt_elsewhere) auto
  next
    fix g S s assume "guard_for (c_cfg c) (c_self c) n g" "fence_open (ID (c_self c)) t (fence_key (c_cfg c) n) s"
    then show "fst (TryAcquire C g (at n) S s)"
      using open_fence_acquired[of g t s "at n" S] t by (simp add: guard_for_def fence_key_def)
  qed
  then show ?thesis by blast
qed

end

interpretation liveMem: live_store mem_client mem_stored mem_versions mem_ok "\<lambda>s. \<not> sv_down s"
  by unfold_locales
     (auto simp: mem_client_def mem_get_def mem_create_def mem_update_def mem_store_def mem_stored_def Let_def
       split: if_splits option.splits)

subsection \<open>A round of decisions\<close>

text \<open>Each process of a list decides once, in the order of the list; \<open>chs\<close> and \<open>cxs\<close> are the choices and contexts of each.\<close>

definition decide ::
  "'s lease_client \<Rightarrow> ('s \<Rightarrow> nsname \<Rightarrow> lease option) \<Rightarrow> choices \<Rightarrow> ctx \<Rightarrow> nat \<Rightarrow> 's shards \<Rightarrow> 's shards" where
  "decide C st ch cx i x = sh_act st i (recompute_now C ch cx ((sh_coord x i)\<lparr>c_srv := sh_srv x\<rparr>)) x"

definition decide_round ::
  "'s lease_client \<Rightarrow> ('s \<Rightarrow> nsname \<Rightarrow> lease option) \<Rightarrow> (nat \<Rightarrow> choices) \<Rightarrow> (nat \<Rightarrow> ctx) \<Rightarrow> nat list \<Rightarrow> 's shards \<Rightarrow> 's shards" where
  "decide_round C st chs cxs is x = fold (\<lambda>i. decide C st (chs i) (cxs i) i) is x"

lemma decide_other [simp]: "j \<noteq> i \<Longrightarrow> sh_coord (decide C st ch cx i x) j = sh_coord x j"
  by (simp add: decide_def)

lemma decide_round_simps [simp]:
  "decide_round C st chs cxs [] x = x"
  "decide_round C st chs cxs (i # is) x = decide_round C st chs cxs is (decide C st (chs i) (cxs i) i x)"
  "decide_round C st chs cxs (is @ js) x = decide_round C st chs cxs js (decide_round C st chs cxs is x)"
  by (simp_all add: decide_round_def)

lemma decide_round_other: "j \<notin> set is \<Longrightarrow> sh_coord (decide_round C st chs cxs is x) j = sh_coord x j"
  by (induction "is" arbitrary: x) simp_all

text \<open>The decision of a process with a registry is \<open>recompute\<close> on the snapshot of its peers.\<close>

definition view :: "'s coordinator \<Rightarrow> choices \<Rightarrow> PeerInfo list" where
  "view c ch = (case c_peers c of None \<Rightarrow> [] | Some q \<Rightarrow> registry_Snapshot (ch_peers ch) q)"

lemma decide_self:
  assumes "c_peers (sh_coord x i) \<noteq> None" and "c = (sh_coord x i)\<lparr>c_srv := sh_srv x\<rparr>"
    and "c' = recompute C (view c ch) (ch_order ch) cx (ch_now ch) (ch_times ch) c"
  shows "sh_coord (decide C st ch cx i x) i = c'" and "sh_srv (decide C st ch cx i x) = c_srv c'"
  using assms by (auto simp: decide_def recompute_now_def view_def)

lemma view_srv [simp]: "view (c\<lparr>c_srv := s\<rparr>) ch = view c ch"
  by (simp add: view_def)

lemma round_self:
  assumes "i \<in> set is" and "distinct is" and "c_peers (sh_coord x i) \<noteq> None"
  shows "\<exists>s. sh_coord (decide_round C st chs cxs is x) i =
    recompute C (view (sh_coord x i) (chs i)) (ch_order (chs i)) (cxs i) (ch_now (chs i)) (ch_times (chs i))
      ((sh_coord x i)\<lparr>c_srv := s\<rparr>)"
  using assms
proof (induction "is" arbitrary: x)
  case (Cons j js)
  show ?case
  proof (cases "j = i")
    case True
    with Cons.prems decide_round_other[of i js C st chs cxs "decide C st (chs i) (cxs i) i x"]
      decide_self(1)[OF Cons.prems(3) refl refl, of C st "chs i" "cxs i"]
    show ?thesis by auto
  next
    case False
    with Cons.prems Cons.IH[of "decide C st (chs j) (cxs j) j x"] show ?thesis by simp
  qed
qed simp

subsection \<open>Agreement\<close>

text \<open>
  The processes \<open>is\<close> choose owners by HRW, they are the peers \<open>peers\<close>, and each of them sees all of
  these, in an order of its own; no two scores of the cluster \<open>n\<close> tie.
\<close>

definition agreeing :: "(nat \<Rightarrow> choices) \<Rightarrow> nat list \<Rightarrow> PeerInfo list \<Rightarrow> cluster_name \<Rightarrow> 's shards \<Rightarrow> bool" where
  "agreeing chs is peers n x \<longleftrightarrow>
     distinct is \<and> is \<noteq> [] \<and> inj_on (hrw_score n) (set peers) \<and>
     ID ` set peers = (\<lambda>i. ID (c_self (sh_coord x i))) ` set is \<and>
     (\<forall>i \<in> set is. c_sharder (sh_coord x i) = ShouldOwn \<and> c_peers (sh_coord x i) \<noteq> None \<and>
        set (view (sh_coord x i) (chs i)) = set peers)"

text \<open>Each of them has the cluster engaged and not started, and may try its fence at the time \<open>t\<close> or later.\<close>

definition waiting_for :: "(nat \<Rightarrow> choices) \<Rightarrow> nat list \<Rightarrow> cluster_name \<Rightarrow> int \<Rightarrow> 's shards \<Rightarrow> bool" where
  "waiting_for chs is n t x \<longleftrightarrow>
     (\<forall>i \<in> set is. iter_order (c_engaged (sh_coord x i)) (ch_order (chs i)) \<and> t \<le> ch_times (chs i) n \<and>
        (\<exists>e. fmlookup (c_engaged (sh_coord x i)) n = Some e \<and> \<not> e_started e \<and> e_nextTry e \<le> ch_now (chs i)))"

lemma same_peers_same_best:
  assumes "set ps = set qs" and "inj_on (hrw_score n) (set ps)" and "ps \<noteq> []"
  shows "hrw_best n ps = hrw_best n qs"
proof -
  have "qs \<noteq> []" using assms(1,3) by (cases qs) auto
  from hrw_best_max[OF assms(3)] obtain p where p: "p \<in> set ps" "hrw_best n ps = hrw_norm p"
    "\<forall>q \<in> set ps. hrw_score n q \<le> hrw_score n p" by blast
  from hrw_best_max[OF \<open>qs \<noteq> []\<close>] obtain q where q: "q \<in> set qs" "hrw_best n qs = hrw_norm q"
    "\<forall>p \<in> set qs. hrw_score n p \<le> hrw_score n q" by blast
  have "hrw_score n p = hrw_score n q" using p q assms(1) by (intro antisym) auto
  with assms(1,2) p(1) q(1) have "p = q" by (auto dest: inj_onD)
  with p(2) q(2) show ?thesis by simp
qed

lemma agreed_owner:
  assumes "agreeing chs is peers n x" and "inj (\<lambda>i. ID (c_self (sh_coord x i)))"
  obtains w where "w \<in> set is"
    "\<And>i. i \<in> set is \<Longrightarrow> c_sharder (sh_coord x i) n (view (sh_coord x i) (chs i)) (c_self (sh_coord x i)) \<longleftrightarrow> i = w"
proof -
  have ne: "peers \<noteq> []" and inj: "inj_on (hrw_score n) (set peers)"
    and ids: "ID ` set peers = (\<lambda>i. ID (c_self (sh_coord x i))) ` set is"
    using assms(1) by (auto simp: agreeing_def)
  from hrw_best_max[OF ne] obtain p where "p \<in> set peers" "hrw_best n peers = hrw_norm p" by blast
  then have "ID (hrw_best n peers) \<in> (\<lambda>i. ID (c_self (sh_coord x i))) ` set is" using ids by auto
  then obtain w where w: "w \<in> set is" "ID (hrw_best n peers) = ID (c_self (sh_coord x w))" by auto
  have "c_sharder (sh_coord x i) n (view (sh_coord x i) (chs i)) (c_self (sh_coord x i)) \<longleftrightarrow> i = w" if "i \<in> set is" for i
  proof -
    let ?v = "view (sh_coord x i) (chs i)"
    have v: "set ?v = set peers" "c_sharder (sh_coord x i) = ShouldOwn" using assms(1) that by (auto simp: agreeing_def)
    then have "?v \<noteq> []" using ne by (cases ?v) auto
    moreover have "hrw_best n ?v = hrw_best n peers" by (rule same_peers_same_best[OF v(1)]) (use inj v \<open>?v \<noteq> []\<close> in simp_all)
    ultimately have "ShouldOwn n ?v (c_self (sh_coord x i)) \<longleftrightarrow> ID (c_self (sh_coord x w)) = ID (c_self (sh_coord x i))"
      using w(2) by (simp add: ShouldOwn_iff)
    with v(2) assms(2) show ?thesis by (auto dest: injD)
  qed
  with w(1) that show ?thesis by blast
qed


subsection \<open>The fence during a round\<close>

context live_store
begin

lemma round_keeps_fence:
  assumes "distinct is" and "n \<in> N" and "fence_open me t (key n) (sh_srv x)"
    and "\<And>i. i \<in> set is \<Longrightarrow> peer_ok N (sh_coord x i) \<and> fence_key (c_cfg (sh_coord x i)) n = key n \<and>
      iter_order (c_engaged (sh_coord x i)) (ch_order (chs i)) \<and> c_peers (sh_coord x i) \<noteq> None \<and>
      \<not> c_sharder (sh_coord x i) n (view (sh_coord x i) (chs i)) (c_self (sh_coord x i))"
  shows "fence_open me t (key n) (sh_srv (decide_round C st chs cxs is x))"
  using assms
proof (induction "is" arbitrary: x)
  case (Cons i js)
  let ?c = "(sh_coord x i)\<lparr>c_srv := sh_srv x\<rparr>"
  have i: "peer_ok N (sh_coord x i)" "fence_key (c_cfg (sh_coord x i)) n = key n"
    "iter_order (c_engaged (sh_coord x i)) (ch_order (chs i))" "c_peers (sh_coord x i) \<noteq> None"
    "\<not> c_sharder (sh_coord x i) n (view (sh_coord x i) (chs i)) (c_self (sh_coord x i))"
    using Cons.prems(4)[of i] by simp_all
  have "fence_open me t (key n) (c_srv (recompute C (view ?c (chs i)) (ch_order (chs i)) (cxs i) (ch_now (chs i)) (ch_times (chs i)) ?c))"
    using not_owner_leaves_fence[of N ?c "ch_order (chs i)" n "view ?c (chs i)" me t "cxs i" "ch_now (chs i)" "ch_times (chs i)"]
      i Cons.prems(2,3) by simp
  then have "fence_open me t (key n) (sh_srv (decide C st (chs i) (cxs i) i x))"
    using decide_self(2)[OF i(4) refl refl, of C st "chs i" "cxs i"] by simp
  moreover have "sh_coord (decide C st (chs i) (cxs i) i x) j = sh_coord x j" if "j \<in> set js" for j
    using that Cons.prems(1) by (intro decide_other) auto
  ultimately show ?case using Cons.IH[of "decide C st (chs i) (cxs i) i x"] Cons.prems by simp
qed simp

lemma round_not_owner:
  assumes "i \<in> set is" and "distinct is" and "peer_ok N (sh_coord x i)" and "c_peers (sh_coord x i) \<noteq> None"
    and "iter_order (c_engaged (sh_coord x i)) (ch_order (chs i))" and "fmlookup (c_engaged (sh_coord x i)) n = Some e0"
    and "\<not> c_sharder (sh_coord x i) n (view (sh_coord x i) (chs i)) (c_self (sh_coord x i))"
    and "fmlookup (c_engaged (sh_coord (decide_round C st chs cxs is x) i)) n = Some e"
  shows "\<not> e_started e"
proof -
  from round_self[OF assms(1,2,4), of C st chs cxs] obtain s where
    r: "sh_coord (decide_round C st chs cxs is x) i =
      recompute C (view (sh_coord x i) (chs i)) (ch_order (chs i)) (cxs i) (ch_now (chs i)) (ch_times (chs i))
        ((sh_coord x i)\<lparr>c_srv := s\<rparr>)" by blast
  have "peer_ok N ((sh_coord x i)\<lparr>c_srv := s\<rparr>)" using assms(3) by simp
  then have "coord_inv ((sh_coord x i)\<lparr>c_srv := s\<rparr>)" unfolding peer_ok_def by (rule conjunct1)
  from recompute_result(4)[OF this _ refl, of "ch_order (chs i)" n e0 C "view (sh_coord x i) (chs i)" "cxs i" "ch_now (chs i)" "ch_times (chs i)"]
  show ?thesis using assms(5-8) r by (auto simp: decided_def)
qed

lemma round_one_started:
  assumes inv: "shards_inv st ok N key x" and up: "up (sh_srv x)"
    and agree: "agreeing chs is peers n x" and wait: "waiting_for chs is n t x"
    and free: "\<And>l. st (sh_srv x) (key n) = Some l \<Longrightarrow> HolderIdentity l = None \<or> HolderIdentity l = Some '''' \<or> expired l t"
  shows "\<exists>!i. i \<in> set is \<and> (\<exists>e. fmlookup (c_engaged (sh_coord (decide_round C st chs cxs is x) i)) n = Some e \<and> e_started e)"
proof -
  let ?y = "decide_round C st chs cxs is x"
  have ids: "inj (\<lambda>i. ID (c_self (sh_coord x i)))" using inv by (simp add: shards_inv_def)
  from agreed_owner[OF agree ids] obtain w where w: "w \<in> set is"
    "\<And>i. i \<in> set is \<Longrightarrow> c_sharder (sh_coord x i) n (view (sh_coord x i) (chs i)) (c_self (sh_coord x i)) \<longleftrightarrow> i = w" by blast
  have p: "peer_ok N (sh_coord x i)" "\<forall>m \<in> N. fence_key (c_cfg (sh_coord x i)) m = key m" for i
    using inv by (simp_all add: shards_inv_def)
  have a: "c_peers (sh_coord x i) \<noteq> None" "distinct is" if "i \<in> set is" for i using agree that by (simp_all add: agreeing_def)
  have q: "iter_order (c_engaged (sh_coord x i)) (ch_order (chs i))" "t \<le> ch_times (chs i) n"
    "\<exists>e. fmlookup (c_engaged (sh_coord x i)) n = Some e \<and> \<not> e_started e \<and> e_nextTry e \<le> ch_now (chs i)" if "i \<in> set is" for i
    using wait that by (simp_all add: waiting_for_def)
  have n: "n \<in> N" using q(3)[OF w(1)] p(1)[of w] fences_okD(1) by (auto simp: peer_ok_def)
  obtain pre post where split: "is = pre @ w # post" using w(1) by (auto dest: split_list)
  let ?me = "ID (c_self (sh_coord x w))" and ?x = "decide_round C st chs cxs pre x"
  have "fence_open ?me t (key n) (sh_srv x)"
    using inv up free by (auto simp: fence_open_def shards_inv_def lease_free_def)
  then have opn: "fence_open ?me t (key n) (sh_srv ?x)"
    by (rule round_keeps_fence[rotated 2]) (use a w(2) q(1) p n split in auto)
  have same: "sh_coord ?x w = sh_coord x w" using a(2)[OF w(1)] split by (intro decide_round_other) auto
  let ?c = "(sh_coord x w)\<lparr>c_srv := sh_srv ?x\<rparr>"
  have started: "\<exists>e. fmlookup (c_engaged (sh_coord ?y w)) n = Some e \<and> e_started e"
  proof -
    from q(3)[OF w(1)] obtain e where e: "fmlookup (c_engaged ?c) n = Some e" "\<not> e_started e" "e_nextTry e \<le> ch_now (chs w)" by auto
    have "\<exists>e'. fmlookup (c_engaged (recompute C (view ?c (chs w)) (ch_order (chs w)) (cxs w) (ch_now (chs w)) (ch_times (chs w)) ?c)) n = Some e'
        \<and> e_started e'"
      by (rule owner_starts[where N = N and t = t, OF _ _ e(1,2) _ e(3)])
         (use p[of w] q(1,2)[OF w(1)] w opn n in simp_all)
    moreover have "sh_coord ?y w = sh_coord (decide C st (chs w) (cxs w) w ?x) w"
      using a(2)[OF w(1)] split decide_round_other[of w post C st chs cxs] by simp
    ultimately show ?thesis using decide_self(1)[of ?x w ?c, OF _ _ refl] a(1)[OF w(1)] same by simp
  qed
  have "i = w" if "i \<in> set is" "\<exists>e. fmlookup (c_engaged (sh_coord ?y i)) n = Some e \<and> e_started e" for i
  proof (rule ccontr)
    assume "i \<noteq> w"
    with w(2)[OF that(1)] have no: "\<not> c_sharder (sh_coord x i) n (view (sh_coord x i) (chs i)) (c_self (sh_coord x i))" by simp
    from that(2) obtain e where e: "fmlookup (c_engaged (sh_coord ?y i)) n = Some e" "e_started e" by blast
    from q(3)[OF that(1)] obtain e0 where e0: "fmlookup (c_engaged (sh_coord x i)) n = Some e0" by blast
    from round_not_owner[OF that(1) a(2)[OF that(1)] p(1) a(1)[OF that(1)] q(1)[OF that(1)] e0 no e(1)] e(2) show False by simp
  qed
  with w(1) started show ?thesis by blast
qed

end

text \<open>A decision is a step of the fleet, so a round is a run of it.\<close>

lemma decide_is_step:
  assumes "sched ((sh_coord x i)\<lparr>c_srv := sh_srv x\<rparr>)" and "iter_order (c_engaged (sh_coord x i)) (ch_order ch)"
    and "readings (sh_clock x) ch"
  shows "shard_step C st ok aw sched N K x (decide C st ch cx i x)"
  unfolding decide_def sh_act_def
  by (rule shard_step.act, rule peer_step.decide) (use assms in simp_all)

subsection \<open>Properties\<close>


definition pair_proc :: "nat \<Rightarrow> api_server coordinator" where
  "pair_proc i = coordinator_New '''' [WithPeerRegistry (Some (CustomReg (peerN i) [peerN 0, peerN 1]))]
     (fst (background [])) mem_server"

definition pair_engaged :: "nat \<Rightarrow> api_server coordinator" where
  "pair_engaged i = snd (coordinator_Engage 0 ''zoo'' 7 (pair_proc i))"

definition pair_x :: "api_server shards" where
  "pair_x = sh_act mem_stored 1 (pair_engaged 1) (sh_act mem_stored 0 (pair_engaged 0) (shards_new pair_proc mem_server 5))"

lemma pair_proc_eq:
  "pair_proc i =
     \<lparr>c_sharder = ShouldOwn, c_peers = Some (CustomReg (peerN i) [peerN 0, peerN 1]), c_self = peerN i,
      c_cfg = defaultConfig, c_engaged = fmempty, c_awares = [], c_guards = [], c_tokens = 0,
      c_ctxs = [(None, False)], c_go = [], c_calls = [], c_srv = mem_server\<rparr>"
  by (simp add: pair_proc_def coordinator_New_def WithPeerRegistry_def background_def Let_def)

lemma pair_engaged_eq:
  "pair_engaged i = (pair_proc i)\<lparr>c_engaged := fmupd ''zoo'' demo_eng fmempty, c_tokens := 1, c_go := [Watch 0 ''zoo'' 0, Recompute 0]\<rparr>"
  by (simp add: pair_engaged_def pair_proc_eq coordinator_Engage_def ctx_err.simps Let_def put_engaged_def spawn_def
      new_engagement_def demo_eng_def)

lemma pair_conf: "shards_conf {''zoo''} (fence_key defaultConfig) pair_proc"
  by (auto simp: shards_conf_def fresh_peer_def pair_proc_eq peerN_def intro!: injI dest: arg_cong[of _ _ length])

lemma pair_reach:
  "(shard_step mem_client mem_stored mem_ok aw releases_done {''zoo''} K)\<^sup>*\<^sup>* (shards_new pair_proc mem_server 5) pair_x"
  unfolding pair_x_def
proof (rule act_reach[OF act_reach[OF rtranclp.rtrancl_refl]])
  show "peer_step mem_client (aw 0) releases_done {''zoo''} (sh_clock (shards_new pair_proc mem_server 5)) (pair_proc 0) (pair_engaged 0)"
    unfolding pair_engaged_def by (rule peer_step.engage) (auto intro: surjective_pairing)
  show "peer_step mem_client (aw 1) releases_done {''zoo''}
      (sh_clock (sh_act mem_stored 0 (pair_engaged 0) (shards_new pair_proc mem_server 5))) (pair_proc 1) (pair_engaged 1)"
    unfolding pair_engaged_def by (rule peer_step.engage) (auto intro: surjective_pairing)
qed (simp_all add: shards_new_def pair_proc_eq pair_engaged_eq)

lemma pair_sel:
  "sh_coord pair_x 0 = pair_engaged 0" "sh_coord pair_x (Suc 0) = pair_engaged 1" "sh_srv pair_x = mem_server"
  by (simp_all add: pair_x_def pair_engaged_eq pair_proc_eq)

lemma pair_agrees: "agreeing (\<lambda>_. demo_ch) [0, 1] [peerN 0, peerN 1] ''zoo'' pair_x"
proof -
  have "inj_on (hrw_score ''zoo'') (set [peerN 0, peerN 1])" by code_simp
  then show ?thesis by (auto simp: agreeing_def pair_sel pair_engaged_eq pair_proc_eq view_def)
qed

lemma pair_waits: "waiting_for (\<lambda>_. demo_ch) [0, 1] ''zoo'' 5 pair_x"
  by (simp add: waiting_for_def pair_sel pair_engaged_eq pair_proc_eq iter_order_def demo_ch_def demo_eng_def zero_time_def second_def)


end
