(* ===== verification/Clusters.thy ===== *)
theory Clusters
  imports Runtime
begin

text \<open>
  \<open>pkg/clusters/clusters.go\<close>, the bookkeeping of engaged clusters that providers embed, and
  the interfaces it shares with them: \<open>Get\<close> of \<open>multicluster.Provider\<close> and the life cycle of
  an engaged cluster, as locales. A method runs under the lock and is one function. The
  cluster objects and the awares are other code: an environment says what their calls
  return, and the state logs the calls that were made.
\<close>

subsection \<open>Interfaces\<close>

text \<open>
  \<open>multicluster.Provider.Get\<close>: a known name gives its cluster, an unknown one an error that
  \<open>errors.Is(err, ErrClusterNotFound)\<close> recognises.
\<close>

locale provider_get =
  fixes get :: "'s \<Rightarrow> cluster_name \<Rightarrow> go_error + cluster_h"
    and known :: "'s \<Rightarrow> cluster_name \<Rightarrow> cluster_h option"
  assumes get_known: "known s n = Some cl \<Longrightarrow> get s n = Inr cl"
    and get_unknown: "known s n = None \<Longrightarrow> \<exists>e. get s n = Inl e \<and> is_cluster_not_found e"
begin

lemma get_Inr_iff: "get s n = Inr cl \<longleftrightarrow> known s n = Some cl"
  using get_known[of s n] get_unknown[of s n] by (cases "known s n") auto

lemma get_Inl_iff: "(\<exists>e. get s n = Inl e) \<longleftrightarrow> known s n = None"
  using get_known[of s n] get_unknown[of s n] by (cases "known s n") auto

lemma get_error_is_not_found: "get s n = Inl e \<Longrightarrow> is_cluster_not_found e"
  using get_known[of s n] get_unknown[of s n] by (cases "known s n") auto

end

text \<open>
  The life cycle: every known cluster has a context, dropping a cluster cancels exactly its
  context and forgets exactly its name.
\<close>

locale cluster_lifecycle =
  fixes ctxs_of :: "'s \<Rightarrow> ctxs"
    and known :: "'s \<Rightarrow> cluster_name \<Rightarrow> cluster_h option"
    and ctx_of :: "'s \<Rightarrow> cluster_name \<Rightarrow> ctx option"
    and inv :: "'s \<Rightarrow> bool"
    and drop :: "cluster_name \<Rightarrow> 's \<Rightarrow> 's"
  assumes inv_paired: "inv s \<Longrightarrow> known s n = Some cl \<Longrightarrow> \<exists>k. ctx_of s n = Some k"
    and inv_ctx: "inv s \<Longrightarrow> ctx_of s n = Some k \<Longrightarrow> k < length (ctxs_of s)"
    and drop_inv: "inv s \<Longrightarrow> inv (drop n s)"
    and drop_known: "known (drop n s) = (known s)(n := None)"
    and drop_ctx: "ctx_of (drop n s) = (ctx_of s)(n := None)"
    and drop_ctxs: "ctxs_of (drop n s) =
      (case ctx_of s n of None \<Rightarrow> ctxs_of s | Some k \<Rightarrow> cancel (ctxs_of s) k)"
begin

lemma drop_length: "length (ctxs_of (drop n s)) = length (ctxs_of s)"
  by (simp add: drop_ctxs split: option.splits)

lemma drop_cancels:
  assumes "inv s" and "ctx_of s n = Some k"
  shows "ctx_err (ctxs_of (drop n s)) k"
  using assms inv_ctx by (simp add: drop_ctxs ctx_err_cancel_self)

lemma drop_mono: "ctx_err (ctxs_of s) k \<Longrightarrow> ctx_err (ctxs_of (drop n s)) k"
  by (simp add: drop_ctxs ctx_err_cancel_mono split: option.splits)

text \<open>Dropping all of a list of names, as a provider does when it stops.\<close>

lemma drop_all:
  assumes "inv s"
  shows "inv (fold drop ns s) \<and>
    (\<forall>n. known (fold drop ns s) n = (if n \<in> set ns then None else known s n)) \<and>
    (\<forall>k. ctx_err (ctxs_of s) k \<longrightarrow> ctx_err (ctxs_of (fold drop ns s)) k) \<and>
    (\<forall>n k. n \<in> set ns \<longrightarrow> ctx_of s n = Some k \<longrightarrow> ctx_err (ctxs_of (fold drop ns s)) k)"
  using assms
proof (induction ns arbitrary: s)
  case Nil
  then show ?case by simp
next
  case (Cons m ns)
  note IH = Cons.IH[OF drop_inv[OF Cons.prems], of m]
  have "ctx_err (ctxs_of (fold drop ns (drop m s))) k" if "n \<in> set (m # ns)" "ctx_of s n = Some k" for n k
  proof (cases "n = m")
    case True
    with IH drop_cancels[OF Cons.prems] that show ?thesis by auto
  next
    case False
    with IH that show ?thesis by (simp add: drop_ctx)
  qed
  with IH show ?case by (auto simp: drop_known drop_mono)
qed

end

subsection \<open>State\<close>

record index =
  idx_Object :: string
  idx_Field :: string
  idx_Extractor :: nat

text \<open>
  A \<open>multicluster.Provider\<close> as its callers see it: what its methods return, and whether it
  implements \<open>ProviderRunnable\<close>.
\<close>

record provider_iface =
  pv_get :: "cluster_name \<Rightarrow> go_error + cluster_h"
  pv_index :: "index \<Rightarrow> go_error option"
  pv_runnable :: bool

datatype cluster_call =
    CallIndex cluster_h index
  | CallEngage aware_h ctx cluster_name cluster_h

record cluster_set =
  cs_clusters :: "(cluster_name, cluster_h) fmap"
  cs_cancels :: "(cluster_name, ctx) fmap"
  cs_indexers :: "index list"
  cs_ctxs :: ctxs
  cs_running :: "(cluster_name \<times> cluster_h \<times> ctx) list"
  cs_calls :: "cluster_call list"

text \<open>
  What the calls into other code return: whether the cache syncs in time, the result of
  indexing a field and of \<open>Engage\<close>, and whether two clusters have equal configurations.
\<close>

record cluster_env =
  env_sync :: "cluster_name \<Rightarrow> cluster_h \<Rightarrow> bool"
  env_index :: "cluster_h \<Rightarrow> index \<Rightarrow> go_error option"
  env_engage :: "aware_h \<Rightarrow> cluster_name \<Rightarrow> cluster_h \<Rightarrow> go_error option"
  env_equal :: "cluster_h \<Rightarrow> cluster_h \<Rightarrow> bool"

subsection \<open>Operations\<close>

text \<open>
  The comparison that \<open>New\<close> sets; \<open>config\<close> is \<open>GetConfig\<close> of a cluster and \<open>cmp\<close> the
  comparison of go-cmp. \<open>env_equal\<close> is the one a set has.
\<close>

definition EqualClusters :: "('cfg \<Rightarrow> 'cfg \<Rightarrow> bool) \<Rightarrow> (cluster_h \<Rightarrow> 'cfg) \<Rightarrow> cluster_h \<Rightarrow> cluster_h \<Rightarrow> bool" where
  "EqualClusters cmp config a b = cmp (config a) (config b)"

definition clusters_New :: "ctxs \<Rightarrow> cluster_set" where
  "clusters_New S =
     \<lparr>cs_clusters = fmempty, cs_cancels = fmempty, cs_indexers = [], cs_ctxs = S,
      cs_running = [], cs_calls = []\<rparr>"

definition ClusterNames :: "cluster_set \<Rightarrow> cluster_name list" where
  "ClusterNames c = sorted_keys (cs_clusters c)"

definition GetTyped :: "cluster_set \<Rightarrow> cluster_name \<Rightarrow> go_error + cluster_h" where
  "GetTyped c name =
     (case fmlookup (cs_clusters c) name of
        None \<Rightarrow> Inl (Errorf ''cluster with name %s not found: %w'' [name] (Some ErrClusterNotFound))
      | Some cl \<Rightarrow> Inr cl)"

definition clusters_Get :: "cluster_set \<Rightarrow> cluster_name \<Rightarrow> go_error + cluster_h" where
  "clusters_Get c name = GetTyped c name"

definition clusters_Remove :: "cluster_name \<Rightarrow> cluster_set \<Rightarrow> cluster_set" where
  "clusters_Remove name c =
     (let S = (case fmlookup (cs_cancels c) name of
                 None \<Rightarrow> cs_ctxs c | Some k \<Rightarrow> cancel (cs_ctxs c) k)
      in c\<lparr>cs_ctxs := S, cs_cancels := fmdrop name (cs_cancels c),
           cs_clusters := fmdrop name (cs_clusters c)\<rparr>)"

definition clusters_add ::
  "ctx \<Rightarrow> cluster_name \<Rightarrow> cluster_h \<Rightarrow> cluster_set \<Rightarrow> (go_error + ctx) \<times> cluster_set" where
  "clusters_add cx name cl c =
     (case fmlookup (cs_clusters c) name of
        Some _ \<Rightarrow> (Inl (Errorf ''cluster with name %s already exists'' [name] None), c)
      | None \<Rightarrow>
          (let (S, k) = with_cancel (cs_ctxs c) cx
           in (Inr k, c\<lparr>cs_ctxs := S, cs_clusters := fmupd name cl (cs_clusters c),
                        cs_cancels := fmupd name k (cs_cancels c)\<rparr>)))"

text \<open>The loop over the indexers, stopping at the first error.\<close>

fun apply_indexers ::
  "cluster_env \<Rightarrow> cluster_h \<Rightarrow> index list \<Rightarrow> cluster_call list \<Rightarrow>
   (index \<times> go_error) option \<times> cluster_call list" where
  "apply_indexers E cl [] calls = (None, calls)"
| "apply_indexers E cl (i # is) calls =
     (case env_index E cl i of
        Some e \<Rightarrow> (Some (i, e), calls @ [CallIndex cl i])
      | None \<Rightarrow> apply_indexers E cl is (calls @ [CallIndex cl i]))"

text \<open>
  The context that bounds the wait for the cache is cancelled on every return and seen by
  nobody else; it is not part of the state. The started goroutine is an entry of
  \<open>cs_running\<close> until \<open>cl.Start\<close> returns.
\<close>

definition clusters_Add ::
  "cluster_env \<Rightarrow> ctx \<Rightarrow> cluster_name \<Rightarrow> cluster_h \<Rightarrow> aware_h option \<Rightarrow> cluster_set \<Rightarrow>
   go_error option \<times> cluster_set" where
  "clusters_Add E parent name cl aware c =
     (case clusters_add parent name cl c of
        (Inl e, c1) \<Rightarrow> (Some e, c1)
      | (Inr cx, c1) \<Rightarrow>
          (let c2 = c1\<lparr>cs_running := cs_running c1 @ [(name, cl, cx)]\<rparr>
           in if \<not> env_sync E name cl
              then (Some (Errorf ''timed out after %q waiting for cache to sync for cluster %s'' [name] None),
                    clusters_Remove name c2)
              else
                (case apply_indexers E cl (cs_indexers c2) (cs_calls c2) of
                   (Some (i, e), calls) \<Rightarrow>
                     (Some (Errorf ''failed to index field %s on cluster %s: %w'' [idx_Field i, name] (Some e)),
                      clusters_Remove name (c2\<lparr>cs_calls := calls\<rparr>))
                 | (None, calls) \<Rightarrow>
                     (let c3 = c2\<lparr>cs_calls := calls\<rparr>
                      in case aware of
                           None \<Rightarrow> (None, c3)
                         | Some a \<Rightarrow>
                             (let c4 = c3\<lparr>cs_calls := cs_calls c3 @ [CallEngage a cx name cl]\<rparr>
                              in case env_engage E a name cl of
                                   Some e \<Rightarrow> (Some e, clusters_Remove name c4)
                                 | None \<Rightarrow> (None, c4))))))"

definition clusters_AddOrReplace ::
  "cluster_env \<Rightarrow> ctx \<Rightarrow> cluster_name \<Rightarrow> cluster_h \<Rightarrow> aware_h option \<Rightarrow> cluster_set \<Rightarrow>
   go_error option \<times> cluster_set" where
  "clusters_AddOrReplace E parent name cl aware c =
     (case GetTyped c name of
        Inl _ \<Rightarrow> clusters_Add E parent name cl aware c
      | Inr existing \<Rightarrow>
          if env_equal E existing cl then (None, c)
          else clusters_Add E parent name cl aware (clusters_Remove name c))"

text \<open>The goroutine of \<open>Add\<close> after \<open>cl.Start\<close> returned: the deferred \<open>Remove\<close>.\<close>

definition start_returned ::
  "cluster_name \<times> cluster_h \<times> ctx \<Rightarrow> cluster_set \<Rightarrow> cluster_set" where
  "start_returned r c = clusters_Remove (fst r) (c\<lparr>cs_running := remove1 r (cs_running c)\<rparr>)"

fun index_all ::
  "cluster_env \<Rightarrow> index \<Rightarrow> (cluster_name \<times> cluster_h) list \<Rightarrow> go_error option \<Rightarrow> go_error option" where
  "index_all E i [] errs = errs"
| "index_all E i ((name, cl) # cls) errs =
     (case env_index E cl i of
        None \<Rightarrow> index_all E i cls errs
      | Some e \<Rightarrow>
          index_all E i cls
            (errors_join errs
              (Some (Errorf ''failed to index field on cluster %q: %w'' [name] (Some e)))))"

definition clusters_IndexField ::
  "cluster_env \<Rightarrow> cluster_name list \<Rightarrow> index \<Rightarrow> cluster_set \<Rightarrow> go_error option \<times> cluster_set" where
  "clusters_IndexField E ord i c =
     (let c1 = c\<lparr>cs_indexers := cs_indexers c @ [i]\<rparr>;
          cls = map (\<lambda>n. (n, the (fmlookup (cs_clusters c) n))) ord
      in (index_all E i cls None, c1\<lparr>cs_calls := cs_calls c1 @ map (\<lambda>x. CallIndex (snd x) i) cls\<rparr>))"

definition clusters_Indexers :: "cluster_set \<Rightarrow> index list" where
  "clusters_Indexers c = cs_indexers c"

subsection \<open>Invariant and interfaces\<close>

definition clusters_inv :: "cluster_set \<Rightarrow> bool" where
  "clusters_inv c \<longleftrightarrow>
     fmdom (cs_clusters c) = fmdom (cs_cancels c) \<and>
     (\<forall>n k. fmlookup (cs_cancels c) n = Some k \<longrightarrow> k < length (cs_ctxs c)) \<and>
     inj_on (fmlookup (cs_cancels c)) (fset (fmdom (cs_cancels c)))"

abbreviation clusters_known :: "cluster_set \<Rightarrow> cluster_name \<Rightarrow> cluster_h option" where
  "clusters_known c \<equiv> fmlookup (cs_clusters c)"

interpretation clustersGet: provider_get clusters_Get clusters_known
  by unfold_locales (auto simp: clusters_Get_def GetTyped_def)

lemma clusters_inv_lookup: "clusters_inv c \<Longrightarrow> clusters_known c n = None \<longleftrightarrow> fmlookup (cs_cancels c) n = None"
  unfolding clusters_inv_def by (metis fmdom_notD fmdom_notI)

lemma clusters_Remove_sel [simp]:
  "cs_clusters (clusters_Remove n c) = fmdrop n (cs_clusters c)"
  "cs_cancels (clusters_Remove n c) = fmdrop n (cs_cancels c)"
  "cs_indexers (clusters_Remove n c) = cs_indexers c"
  "cs_running (clusters_Remove n c) = cs_running c" "cs_calls (clusters_Remove n c) = cs_calls c"
  "length (cs_ctxs (clusters_Remove n c)) = length (cs_ctxs c)"
  by (simp_all add: clusters_Remove_def Let_def split: option.splits)

lemma clusters_Remove_inv: "clusters_inv c \<Longrightarrow> clusters_inv (clusters_Remove n c)"
  by (auto simp: clusters_inv_def inj_on_def)

interpretation clustersLife: cluster_lifecycle cs_ctxs clusters_known "\<lambda>c. fmlookup (cs_cancels c)"
  clusters_inv clusters_Remove
proof unfold_locales
  show "\<exists>k. fmlookup (cs_cancels s) n = Some k" if "clusters_inv s" "clusters_known s n = Some cl" for s n cl
    using clusters_inv_lookup[OF that(1), of n] that(2) by auto
  show "clusters_inv (clusters_Remove n s)" if "clusters_inv s" for s n
    using that by (rule clusters_Remove_inv)
qed (auto simp: clusters_inv_def clusters_Remove_def Let_def fun_eq_iff split: option.splits)

subsection \<open>Adding\<close>

lemma apply_indexers_ok:
  "apply_indexers E cl is calls = (None, calls') \<Longrightarrow>
     (\<forall>i \<in> set is. env_index E cl i = None) \<and> calls' = calls @ map (CallIndex cl) is"
  by (induction E cl "is" calls rule: apply_indexers.induct) (auto split: option.splits)

lemma apply_indexers_fst:
  "fst (apply_indexers E cl is calls) = None \<longleftrightarrow> (\<forall>i \<in> set is. env_index E cl i = None)"
  by (induction E cl "is" calls rule: apply_indexers.induct) (auto split: option.splits)

text \<open>The state in which a new entry was made and its goroutine started.\<close>

definition entered :: "ctx \<Rightarrow> cluster_name \<Rightarrow> cluster_h \<Rightarrow> cluster_set \<Rightarrow> cluster_set" where
  "entered parent n cl c =
     c\<lparr>cs_ctxs := fst (with_cancel (cs_ctxs c) parent), cs_clusters := fmupd n cl (cs_clusters c),
       cs_cancels := fmupd n (length (cs_ctxs c)) (cs_cancels c),
       cs_running := cs_running c @ [(n, cl, length (cs_ctxs c))]\<rparr>"

lemma clusters_Add_exists:
  "clusters_known c n = Some old \<Longrightarrow> clusters_Add E parent n cl aware c =
     (Some (Errorf ''cluster with name %s already exists'' [n] None), c)"
  by (simp add: clusters_Add_def clusters_add_def)

lemma clusters_Add_new:
  assumes "clusters_known c n = None" and "clusters_Add E parent n cl aware c = (err, c')"
  shows "\<exists>calls. c' = (if err = None then (entered parent n cl c)\<lparr>cs_calls := calls\<rparr>
       else clusters_Remove n ((entered parent n cl c)\<lparr>cs_calls := calls\<rparr>))"
    and "err = None \<longleftrightarrow> env_sync E n cl \<and> (\<forall>i \<in> set (cs_indexers c). env_index E cl i = None) \<and>
       (\<forall>a. aware = Some a \<longrightarrow> env_engage E a n cl = None)"
    and "err = None \<Longrightarrow> cs_calls c' = cs_calls c @ map (CallIndex cl) (cs_indexers c) @
       (case aware of None \<Rightarrow> [] | Some a \<Rightarrow> [CallEngage a (length (cs_ctxs c)) n cl])"
proof -
  have add: "clusters_add parent n cl c = (Inr (length (cs_ctxs c)),
      c\<lparr>cs_ctxs := fst (with_cancel (cs_ctxs c) parent), cs_clusters := fmupd n cl (cs_clusters c),
        cs_cancels := fmupd n (length (cs_ctxs c)) (cs_cancels c)\<rparr>)"
    using assms(1) by (simp add: clusters_add_def with_cancel_def)
  obtain x calls where ai: "apply_indexers E cl (cs_indexers c) (cs_calls c) = (x, calls)" by fastforce
  have same: "(entered parent n cl c)\<lparr>cs_calls := cs_calls c\<rparr> = entered parent n cl c"
    by (simp add: entered_def)
  show 1: "\<exists>calls. c' = (if err = None then (entered parent n cl c)\<lparr>cs_calls := calls\<rparr>
       else clusters_Remove n ((entered parent n cl c)\<lparr>cs_calls := calls\<rparr>))"
    using assms(2) add ai
    by (auto simp: clusters_Add_def entered_def Let_def split: if_splits option.splits
        intro: exI[of _ "cs_calls c"])
  have x: "x = None \<longleftrightarrow> (\<forall>i \<in> set (cs_indexers c). env_index E cl i = None)"
    using apply_indexers_fst[of E cl "cs_indexers c" "cs_calls c"] ai by simp
  show "err = None \<longleftrightarrow> env_sync E n cl \<and> (\<forall>i \<in> set (cs_indexers c). env_index E cl i = None) \<and>
       (\<forall>a. aware = Some a \<longrightarrow> env_engage E a n cl = None)"
    using assms(2) add ai x
    by (auto simp: clusters_Add_def Let_def split: if_splits option.splits)
  show "cs_calls c' = cs_calls c @ map (CallIndex cl) (cs_indexers c) @
       (case aware of None \<Rightarrow> [] | Some a \<Rightarrow> [CallEngage a (length (cs_ctxs c)) n cl])" if "err = None"
    using assms(2) add ai apply_indexers_ok[of E cl "cs_indexers c" "cs_calls c" calls] that
    by (auto simp: clusters_Add_def Let_def split: if_splits option.splits)
qed

lemma entered_sel [simp]:
  "cs_clusters (entered p n cl c) = fmupd n cl (cs_clusters c)"
  "cs_cancels (entered p n cl c) = fmupd n (length (cs_ctxs c)) (cs_cancels c)"
  "cs_ctxs (entered p n cl c) = fst (with_cancel (cs_ctxs c) p)"
  "cs_indexers (entered p n cl c) = cs_indexers c"
  "cs_running (entered p n cl c) = cs_running c @ [(n, cl, length (cs_ctxs c))]"
  by (simp_all add: entered_def)

lemma clusters_inv_calls [simp]: "clusters_inv (c\<lparr>cs_calls := x\<rparr>) = clusters_inv c"
  by (simp add: clusters_inv_def)

lemma entered_inv:
  assumes "clusters_inv c" and "clusters_known c n = None"
  shows "clusters_inv (entered p n cl c)"
proof -
  have "n |\<notin>| fmdom (cs_cancels c)" using clusters_inv_lookup[OF assms(1)] assms(2) by simp
  moreover have "k \<noteq> length (cs_ctxs c)" if "fmlookup (cs_cancels c) m = Some k" for m k
    using assms(1) that by (auto simp: clusters_inv_def)
  ultimately show ?thesis
    using assms(1) by (auto simp: clusters_inv_def inj_on_def less_Suc_eq fmlookup_dom_iff) (metis option.inject)+
qed

lemma clusters_Add_inv:
  assumes "clusters_inv c" and "clusters_Add E parent n cl aware c = (err, c')"
  shows "clusters_inv c'"
proof (cases "clusters_known c n")
  case None
  from clusters_Add_new(1)[OF None assms(2)] entered_inv[OF assms(1) None] show ?thesis
    by (auto simp: clusters_Remove_inv split: if_splits)
next
  case (Some old)
  with assms clusters_Add_exists[OF Some] show ?thesis by simp
qed

lemma clusters_AddOrReplace_inv:
  assumes "clusters_inv c" and "clusters_AddOrReplace E parent n cl aware c = (err, c')"
  shows "clusters_inv c'"
  using assms(2) clusters_Add_inv[OF assms(1)] clusters_Add_inv[OF clusters_Remove_inv[OF assms(1)]] assms(1)
  by (auto simp: clusters_AddOrReplace_def split: sum.splits if_splits)

subsection \<open>Reachable states\<close>

inductive clusters_step :: "cluster_set \<Rightarrow> cluster_set \<Rightarrow> bool" where
  add: "clusters_Add E parent n cl aware c = (err, c') \<Longrightarrow> clusters_step c c'"
| replace: "clusters_AddOrReplace E parent n cl aware c = (err, c') \<Longrightarrow> clusters_step c c'"
| remove: "clusters_step c (clusters_Remove n c)"
| index: "iter_order (cs_clusters c) ord \<Longrightarrow> clusters_IndexField E ord i c = (err, c') \<Longrightarrow> clusters_step c c'"
| returned: "r \<in> set (cs_running c) \<Longrightarrow> clusters_step c (start_returned r c)"
| ctx_new: "clusters_step c (c\<lparr>cs_ctxs := fst (with_cancel (cs_ctxs c) p)\<rparr>)"
| ctx_cancel: "clusters_step c (c\<lparr>cs_ctxs := cancel (cs_ctxs c) k\<rparr>)"

lemma start_returned_inv: "clusters_inv c \<Longrightarrow> clusters_inv (start_returned r c)"
  unfolding start_returned_def by (rule clusters_Remove_inv) (simp add: clusters_inv_def)

lemma clusters_step_inv: "clusters_step c c' \<Longrightarrow> clusters_inv c \<Longrightarrow> clusters_inv c'"
proof (induction rule: clusters_step.induct)
  case (index c ord E i err c')
  then show ?case by (auto simp: clusters_IndexField_def Let_def clusters_inv_def)
next
  case (ctx_new c p)
  then show ?case by (auto simp: clusters_inv_def intro: less_SucI)
next
  case (ctx_cancel c k)
  then show ?case by (simp add: clusters_inv_def)
qed (auto intro: clusters_Add_inv clusters_AddOrReplace_inv clusters_Remove_inv start_returned_inv)

lemma clusters_New_inv: "clusters_inv (clusters_New S)"
  by (simp add: clusters_New_def clusters_inv_def)

lemma clusters_reach_inv: "clusters_step\<^sup>*\<^sup>* (clusters_New S) c \<Longrightarrow> clusters_inv c"
  by (induction rule: rtranclp_induct) (auto intro: clusters_New_inv clusters_step_inv)

lemma index_all_None_iff:
  "index_all E i cls errs = None \<longleftrightarrow> errs = None \<and> (\<forall>x \<in> set cls. env_index E (snd x) i = None)"
  by (induction E i cls errs rule: index_all.induct) (auto split: option.splits)

subsection \<open>Properties\<close>

definition calm_env :: cluster_env where
  "calm_env = \<lparr>env_sync = (\<lambda>_ _. True), env_index = (\<lambda>_ _. None), env_engage = (\<lambda>_ _ _. None),
     env_equal = (\<lambda>a b. a = b)\<rparr>"

definition demo_clusters :: cluster_set where
  "demo_clusters = snd (clusters_Add calm_env 0 ''c1'' 7 (Some 1) (clusters_New [(None, False)]))"

lemma demo_clusters_eq:
  "demo_clusters = \<lparr>cs_clusters = fmupd ''c1'' 7 fmempty, cs_cancels = fmupd ''c1'' 1 fmempty,
     cs_indexers = [], cs_ctxs = [(None, False), (Some 0, False)], cs_running = [(''c1'', 7, 1)],
     cs_calls = [CallEngage 1 1 ''c1'' 7]\<rparr>"
  by (simp add: demo_clusters_def clusters_Add_def clusters_add_def clusters_New_def with_cancel_def calm_env_def)

lemma demo_clusters_reach: "clusters_step\<^sup>*\<^sup>* (clusters_New [(None, False)]) demo_clusters"
  unfolding demo_clusters_def by (rule r_into_rtranclp, rule clusters_step.add) (rule surjective_pairing)

text \<open>
  C21: names, clusters and contexts stay in step. In every reachable state exactly the listed
  names are found by \<open>Get\<close>, each with a live entry in the table of cancel functions, and
  different clusters have different contexts.
\<close>

theorem clusters_tables_agree:
  assumes "clusters_step\<^sup>*\<^sup>* (clusters_New S) c"
  shows "sorted (ClusterNames c) \<and> distinct (ClusterNames c) \<and>
     set (ClusterNames c) = {n. \<exists>cl. clusters_Get c n = Inr cl} \<and>
     (\<forall>n. (\<exists>cl. clusters_Get c n = Inr cl) = (fmlookup (cs_cancels c) n \<noteq> None)) \<and>
     (\<forall>n m. fmlookup (cs_cancels c) n \<noteq> None \<and>
        fmlookup (cs_cancels c) n = fmlookup (cs_cancels c) m \<longrightarrow> n = m)"
proof -
  note inv = clusters_reach_inv[OF assms]
  have "(\<exists>cl. clusters_Get c n = Inr cl) = (fmlookup (cs_cancels c) n \<noteq> None)" for n
    using clusters_inv_lookup[OF inv, of n] by (auto simp: clustersGet.get_Inr_iff)
  moreover have "n = m" if "fmlookup (cs_cancels c) n \<noteq> None"
      "fmlookup (cs_cancels c) n = fmlookup (cs_cancels c) m" for n m
    using inv that by (auto simp: clusters_inv_def inj_on_def fmlookup_dom_iff)
  moreover have "set (ClusterNames c) = {n. \<exists>cl. clusters_Get c n = Inr cl}"
    by (auto simp: ClusterNames_def clustersGet.get_Inr_iff fmlookup_dom_iff)
  moreover have "sorted (ClusterNames c)" "distinct (ClusterNames c)" by (simp_all add: ClusterNames_def)
  ultimately show ?thesis by blast
qed

theorem clusters_tables_agree_witness:
  "set (ClusterNames demo_clusters) = {n. \<exists>cl. clusters_Get demo_clusters n = Inr cl}"
  using clusters_tables_agree[OF demo_clusters_reach] by simp

text \<open>
  C22: adding a cluster is all or nothing. With a free name, \<open>Add\<close> succeeds exactly when the
  cache syncs, every registered index applies and the aware engages; then \<open>Get\<close> returns the
  cluster, its context lives as long as the caller's, and every index and the aware were
  called for it. Otherwise it reports an error, the name is free again, and the context it
  made is cancelled. Other clusters are not touched either way.
\<close>

theorem Add_all_or_nothing:
  assumes "clusters_step\<^sup>*\<^sup>* (clusters_New S) c" and "parent < length (cs_ctxs c)"
    and "clusters_known c n = None" and "clusters_Add E parent n cl aware c = (err, c')"
  shows "(err = None \<longleftrightarrow> env_sync E n cl \<and> (\<forall>i \<in> set (cs_indexers c). env_index E cl i = None) \<and>
       (\<forall>a. aware = Some a \<longrightarrow> env_engage E a n cl = None)) \<and>
     (err = None \<longrightarrow> clusters_Get c' n = Inr cl \<and>
       (\<exists>k. fmlookup (cs_cancels c') n = Some k \<and> ctx_err (cs_ctxs c') k = ctx_err (cs_ctxs c) parent \<and>
          cs_calls c' = cs_calls c @ map (CallIndex cl) (cs_indexers c) @
            (case aware of None \<Rightarrow> [] | Some a \<Rightarrow> [CallEngage a k n cl]))) \<and>
     (err \<noteq> None \<longrightarrow> (\<exists>e. clusters_Get c' n = Inl e) \<and> ctx_err (cs_ctxs c') (length (cs_ctxs c))) \<and>
     (\<forall>m. m \<noteq> n \<longrightarrow> clusters_Get c' m = clusters_Get c m \<and>
        fmlookup (cs_cancels c') m = fmlookup (cs_cancels c) m) \<and>
     (\<forall>k < length (cs_ctxs c). ctx_err (cs_ctxs c') k = ctx_err (cs_ctxs c) k)"
proof -
  note new = clusters_Add_new[OF assms(3,4)]
  from new(1) obtain calls where c': "c' = (if err = None then (entered parent n cl c)\<lparr>cs_calls := calls\<rparr>
      else clusters_Remove n ((entered parent n cl c)\<lparr>cs_calls := calls\<rparr>))" by blast
  have get: "clusters_Get c' m = clusters_Get c m" if "m \<noteq> n" for m
    using that by (simp add: c' clusters_Get_def GetTyped_def)
  have lookup: "fmlookup (cs_cancels c') m = fmlookup (cs_cancels c) m" if "m \<noteq> n" for m
    using that by (simp add: c')
  have "ctx_err (cs_ctxs c') k = ctx_err (cs_ctxs c) k" if "k < length (cs_ctxs c)" for k
    using that by (simp add: c' clusters_Remove_def ctx_simps cancel_fresh_child)
  moreover have "clusters_Get c' n = Inr cl \<and>
      (\<exists>k. fmlookup (cs_cancels c') n = Some k \<and> ctx_err (cs_ctxs c') k = ctx_err (cs_ctxs c) parent \<and>
          cs_calls c' = cs_calls c @ map (CallIndex cl) (cs_indexers c) @
            (case aware of None \<Rightarrow> [] | Some a \<Rightarrow> [CallEngage a k n cl]))" if "err = None"
    using new(3)[OF that] that assms(2) by (simp add: c' clusters_Get_def GetTyped_def ctx_simps)
  moreover have "(\<exists>e. clusters_Get c' n = Inl e) \<and> ctx_err (cs_ctxs c') (length (cs_ctxs c))" if "err \<noteq> None"
    using that by (simp add: c' clusters_Get_def GetTyped_def clusters_Remove_def ctx_err_cancel_self)
  ultimately show ?thesis using new(2) get lookup by blast
qed

theorem Add_all_or_nothing_witness:
  "clusters_Get (snd (clusters_Add calm_env 0 ''c2'' 8 None demo_clusters)) ''c2'' = Inr 8"
  using Add_all_or_nothing[OF demo_clusters_reach, of 0 "''c2''" calm_env 8 None,
      OF _ _ surjective_pairing]
  by (simp add: demo_clusters_eq calm_env_def)

text \<open>
  Replacing. \<open>AddOrReplace\<close> of a known name leaves everything as it is when the
  configurations are equal. When they differ, the old cluster's context is cancelled, and
  the name afterwards has the new cluster if the call succeeded and no cluster if it failed.
\<close>

theorem AddOrReplace_known:
  assumes "clusters_step\<^sup>*\<^sup>* (clusters_New S) c"
    and "clusters_known c n = Some old" and "fmlookup (cs_cancels c) n = Some k"
    and "clusters_AddOrReplace E parent n cl aware c = (err, c')"
  shows "if env_equal E old cl then err = None \<and> c' = c
     else ctx_err (cs_ctxs c') k \<and> clusters_known c' n = (if err = None then Some cl else None)"
proof (cases "env_equal E old cl")
  case True
  with assms show ?thesis by (simp add: clusters_AddOrReplace_def GetTyped_def)
next
  case False
  let ?c1 = "clusters_Remove n c"
  have add: "clusters_Add E parent n cl aware ?c1 = (err, c')"
    using False assms(2,4) by (simp add: clusters_AddOrReplace_def GetTyped_def)
  have "clusters_known ?c1 n = None" by simp
  from clusters_Add_new(1)[OF this add] obtain calls where c': "c' =
      (if err = None then (entered parent n cl ?c1)\<lparr>cs_calls := calls\<rparr>
       else clusters_Remove n ((entered parent n cl ?c1)\<lparr>cs_calls := calls\<rparr>))" by blast
  have k: "k < length (cs_ctxs c)" using clusters_reach_inv[OF assms(1)] assms(3) by (simp add: clusters_inv_def)
  then have "ctx_err (cs_ctxs ?c1) k" using assms(3) by (simp add: clusters_Remove_def ctx_err_cancel_self)
  then have "ctx_err (cs_ctxs c') k"
    using k by (simp add: c' clusters_Remove_def[of n "_\<lparr>cs_calls := calls\<rparr>"] ctx_simps ctx_err_cancel_mono)
  then show ?thesis using False by (simp add: c')
qed

theorem AddOrReplace_known_witness:
  "clusters_known (snd (clusters_AddOrReplace calm_env 0 ''c1'' 8 None demo_clusters)) ''c1'' = Some 8"
proof -
  have "fst (clusters_AddOrReplace calm_env 0 ''c1'' 8 None demo_clusters) = None"
    by (simp add: clusters_AddOrReplace_def GetTyped_def demo_clusters_eq calm_env_def clusters_Add_def
        clusters_add_def with_cancel_def)
  then show ?thesis
    using AddOrReplace_known[OF demo_clusters_reach, of "''c1''" 7 1 calm_env 0 8 None, OF _ _ surjective_pairing]
    by (simp add: demo_clusters_eq calm_env_def)
qed

text \<open>
  The goroutine of a replaced cluster removes its successor. Replacing cancels the old
  cluster's context, so its \<open>Start\<close> returns, and the deferred \<open>Remove\<close> of its goroutine goes
  by name only: it removes the new cluster and cancels the new cluster's context.
\<close>

theorem replaced_cluster_removed_by_predecessor:
  "\<exists>c c'. clusters_step\<^sup>*\<^sup>* (clusters_New [(None, False)]) c \<and> clusters_known c ''c1'' = Some 8 \<and>
     (''c1'', 7, 1) \<in> set (cs_running c) \<and> ctx_err (cs_ctxs c) 1 \<and> \<not> ctx_err (cs_ctxs c) 2 \<and>
     c' = start_returned (''c1'', 7, 1) c \<and> clusters_known c' ''c1'' = None \<and> ctx_err (cs_ctxs c') 2"
proof -
  let ?c = "snd (clusters_AddOrReplace calm_env 0 ''c1'' 8 None demo_clusters)"
  have "clusters_step demo_clusters ?c" by (rule clusters_step.replace) (rule surjective_pairing)
  with demo_clusters_reach have "clusters_step\<^sup>*\<^sup>* (clusters_New [(None, False)]) ?c"
    by (rule rtranclp.rtrancl_into_rtrancl)
  moreover have eq: "?c = \<lparr>cs_clusters = fmupd ''c1'' 8 fmempty, cs_cancels = fmupd ''c1'' 2 fmempty,
      cs_indexers = [], cs_ctxs = [(None, False), (Some 0, True), (Some 0, False)],
      cs_running = [(''c1'', 7, 1), (''c1'', 8, 2)], cs_calls = [CallEngage 1 1 ''c1'' 7]\<rparr>"
    by (simp add: clusters_AddOrReplace_def GetTyped_def demo_clusters_eq calm_env_def clusters_Add_def
        clusters_add_def with_cancel_def clusters_Remove_def cancel_def numeral_eq_Suc)
  moreover have "ctx_err (cs_ctxs (start_returned (''c1'', 7, 1) ?c)) 2"
    unfolding eq by (simp add: start_returned_def clusters_Remove_def ctx_err_cancel_self)
  moreover have "ctx_err (cs_ctxs ?c) 1" "\<not> ctx_err (cs_ctxs ?c) 2"
    unfolding eq by (simp_all add: ctx_err.simps)
  moreover have "clusters_known (start_returned (''c1'', 7, 1) ?c) ''c1'' = None"
    by (simp add: start_returned_def)
  ultimately show ?thesis by - (rule exI[of _ ?c], simp)
qed

end
