(* ===== verification/Registries.thy ===== *)
theory Registries
  imports Clusters
begin

text \<open>
  \<open>pkg/clusters/registry.go\<close>, the registry that consumers add to the manager, and
  \<open>providers/clusters/provider.go\<close>, the provider that embeds \<open>clusters.Clusters\<close>. The registry's
  comparison function is a parameter; the goroutine that waits for a context is an entry of
  the state until it ran.
\<close>

subsection \<open>The registry\<close>

record registry_state =
  rg_clusters :: "(cluster_name, cluster_h) fmap"
  rg_ctxs :: ctxs
  rg_watch :: "(ctx \<times> cluster_name \<times> cluster_h) list"

definition NewRegistry :: "ctxs \<Rightarrow> registry_state" where
  "NewRegistry S = \<lparr>rg_clusters = fmempty, rg_ctxs = S, rg_watch = []\<rparr>"

text \<open>\<open>Start\<close> waits for its context and returns nil: no result while it waits.\<close>

definition registry_Start :: "ctx \<Rightarrow> registry_state \<Rightarrow> go_error option option" where
  "registry_Start cx r = (if ctx_err (rg_ctxs r) cx then Some None else None)"

definition registry_ClusterNames :: "registry_state \<Rightarrow> cluster_name list" where
  "registry_ClusterNames r = sorted_keys (rg_clusters r)"

definition registry_GetTyped :: "registry_state \<Rightarrow> cluster_name \<Rightarrow> go_error + cluster_h" where
  "registry_GetTyped r name =
     (case fmlookup (rg_clusters r) name of
        None \<Rightarrow> Inl (Errorf ''cluster with name %s not found: %w'' [name] (Some ErrClusterNotFound))
      | Some cl \<Rightarrow> Inr cl)"

definition registry_Get :: "registry_state \<Rightarrow> cluster_name \<Rightarrow> go_error + cluster_h" where
  "registry_Get r name = registry_GetTyped r name"

definition registry_Add ::
  "cluster_name \<Rightarrow> cluster_h \<Rightarrow> registry_state \<Rightarrow> go_error option \<times> registry_state" where
  "registry_Add name cl r =
     (case fmlookup (rg_clusters r) name of
        Some _ \<Rightarrow> (Some (Errorf ''cluster with name %s already exists'' [name] None), r)
      | None \<Rightarrow> (None, r\<lparr>rg_clusters := fmupd name cl (rg_clusters r)\<rparr>))"

definition registry_Remove :: "cluster_name \<Rightarrow> registry_state \<Rightarrow> registry_state" where
  "registry_Remove name r = r\<lparr>rg_clusters := fmdrop name (rg_clusters r)\<rparr>"

definition RemoveIfEqual :: "cluster_name \<Rightarrow> cluster_h \<Rightarrow> registry_state \<Rightarrow> registry_state" where
  "RemoveIfEqual name cl r =
     (case fmlookup (rg_clusters r) name of
        None \<Rightarrow> r
      | Some stored \<Rightarrow>
          if cl \<noteq> stored then r else r\<lparr>rg_clusters := fmdrop name (rg_clusters r)\<rparr>)"

definition registry_AddOrReplace ::
  "(cluster_h \<Rightarrow> cluster_h \<Rightarrow> bool) \<Rightarrow> cluster_name \<Rightarrow> cluster_h \<Rightarrow> registry_state \<Rightarrow>
   go_error option \<times> registry_state" where
  "registry_AddOrReplace eq name cl r =
     (case fmlookup (rg_clusters r) name of
        Some stored \<Rightarrow>
          if eq stored cl then (None, r)
          else (None, r\<lparr>rg_clusters := fmupd name cl (fmdrop name (rg_clusters r))\<rparr>)
      | None \<Rightarrow> (None, r\<lparr>rg_clusters := fmupd name cl (rg_clusters r)\<rparr>))"

definition registry_Engage ::
  "(cluster_h \<Rightarrow> cluster_h \<Rightarrow> bool) \<Rightarrow> ctx \<Rightarrow> cluster_name \<Rightarrow> cluster_h \<Rightarrow> registry_state \<Rightarrow>
   go_error option \<times> registry_state" where
  "registry_Engage eq cx name cl r =
     (case registry_AddOrReplace eq name cl r of
        (Some e, r1) \<Rightarrow> (Some e, r1)
      | (None, r1) \<Rightarrow> (None, r1\<lparr>rg_watch := rg_watch r1 @ [(cx, name, cl)]\<rparr>))"

text \<open>The goroutine of \<open>Engage\<close>: blocked until its context is done.\<close>

definition registry_watch_runs ::
  "ctx \<times> cluster_name \<times> cluster_h \<Rightarrow> registry_state \<Rightarrow> registry_state option" where
  "registry_watch_runs w r =
     (case w of (cx, name, cl) \<Rightarrow>
        if ctx_err (rg_ctxs r) cx
        then Some (RemoveIfEqual name cl (r\<lparr>rg_watch := remove1 w (rg_watch r)\<rparr>))
        else None)"

definition ForEach ::
  "cluster_name list \<Rightarrow> (cluster_name \<Rightarrow> cluster_h \<Rightarrow> go_error option) \<Rightarrow> registry_state \<Rightarrow> go_error option" where
  "ForEach ord fn r = first_error (\<lambda>n. fn n (the (fmlookup (rg_clusters r) n))) ord"

abbreviation registry_known :: "registry_state \<Rightarrow> cluster_name \<Rightarrow> cluster_h option" where
  "registry_known r \<equiv> fmlookup (rg_clusters r)"

interpretation registryGet: provider_get registry_Get registry_known
  by unfold_locales (auto simp: registry_Get_def registry_GetTyped_def)

subsection \<open>The clusters provider\<close>

definition InputChannelSize :: nat where "InputChannelSize = 10"

record clusters_provider =
  cp_set :: cluster_set
  cp_waiting :: "(cluster_name, cluster_h) fmap option"
  cp_input :: "(cluster_name \<times> cluster_h) list option"

definition clusters_provider_New :: "ctxs \<Rightarrow> clusters_provider" where
  "clusters_provider_New S = \<lparr>cp_set = clusters_New S, cp_waiting = Some fmempty, cp_input = None\<rparr>"

definition startOnce :: "clusters_provider \<Rightarrow> go_error option \<times> clusters_provider" where
  "startOnce p =
     (case cp_input p of
        Some _ \<Rightarrow> (Some (Errorf ''provider already started'' [] None), p)
      | None \<Rightarrow> (None, p\<lparr>cp_input := Some []\<rparr>))"

text \<open>
  \<open>Add\<close> sends on a buffered channel while it holds the lock: \<open>None\<close> when the buffer is full
  and the call blocks.
\<close>

definition clusters_provider_Add ::
  "cluster_name \<Rightarrow> cluster_h \<Rightarrow> clusters_provider \<Rightarrow> (go_error option \<times> clusters_provider) option" where
  "clusters_provider_Add name cl p =
     (case cp_input p of
        Some q \<Rightarrow>
          if length q < InputChannelSize
          then Some (None, p\<lparr>cp_input := Some (q @ [(name, cl)])\<rparr>) else None
      | None \<Rightarrow>
          (case cp_waiting p of
             Some w \<Rightarrow> Some (None, p\<lparr>cp_waiting := Some (fmupd name cl w)\<rparr>)
           | None \<Rightarrow> None))"

text \<open>Errors of \<open>AddOrReplace\<close> are logged only.\<close>

definition provider_put ::
  "cluster_env \<Rightarrow> ctx \<Rightarrow> aware_h \<Rightarrow> cluster_name \<times> cluster_h \<Rightarrow> clusters_provider \<Rightarrow> clusters_provider" where
  "provider_put E cx aware x p =
     p\<lparr>cp_set := snd (clusters_AddOrReplace E cx (fst x) (snd x) (Some aware) (cp_set p))\<rparr>"

definition clusters_provider_begin ::
  "cluster_env \<Rightarrow> ctx \<Rightarrow> aware_h \<Rightarrow> cluster_name list \<Rightarrow> clusters_provider \<Rightarrow>
   go_error option \<times> clusters_provider" where
  "clusters_provider_begin E cx aware ord p =
     (case startOnce p of
        (Some e, p1) \<Rightarrow> (Some e, p1)
      | (None, p1) \<Rightarrow>
          (let w = (case cp_waiting p1 of None \<Rightarrow> fmempty | Some w \<Rightarrow> w);
               p2 = fold (\<lambda>n. provider_put E cx aware (n, the (fmlookup w n))) ord p1
           in (None, p2\<lparr>cp_waiting := None\<rparr>)))"

text \<open>
  The receiving loop, for the number of items that it takes before it sees the context done:
  it returns nil then.
\<close>

fun clusters_provider_loop ::
  "cluster_env \<Rightarrow> ctx \<Rightarrow> aware_h \<Rightarrow> nat \<Rightarrow> clusters_provider \<Rightarrow> clusters_provider" where
  "clusters_provider_loop E cx aware 0 p = p"
| "clusters_provider_loop E cx aware (Suc k) p =
     (case cp_input p of
        Some (x # q) \<Rightarrow> clusters_provider_loop E cx aware k (provider_put E cx aware x (p\<lparr>cp_input := Some q\<rparr>))
      | _ \<Rightarrow> p)"

definition clusters_provider_Start ::
  "cluster_env \<Rightarrow> ctx \<Rightarrow> aware_h \<Rightarrow> cluster_name list \<Rightarrow> nat \<Rightarrow> clusters_provider \<Rightarrow>
   go_error option \<times> clusters_provider" where
  "clusters_provider_Start E cx aware ord k p =
     (case clusters_provider_begin E cx aware ord p of
        (Some e, p1) \<Rightarrow> (Some e, p1)
      | (None, p1) \<Rightarrow> (None, clusters_provider_loop E cx aware k p1))"

definition clusters_provider_Get :: "clusters_provider \<Rightarrow> cluster_name \<Rightarrow> go_error + cluster_h" where
  "clusters_provider_Get p name = clusters_Get (cp_set p) name"

interpretation clustersProviderGet:
  provider_get clusters_provider_Get "\<lambda>p. fmlookup (cs_clusters (cp_set p))"
  by unfold_locales (auto simp: clusters_provider_Get_def clusters_Get_def GetTyped_def)

lemma provider_put_inv: "clusters_inv (cp_set p) \<Longrightarrow> clusters_inv (cp_set (provider_put E cx a x p))"
  unfolding provider_put_def
  using clusters_AddOrReplace_inv[OF _ surjective_pairing] by simp

lemma clusters_provider_loop_inv:
  "clusters_inv (cp_set p) \<Longrightarrow> clusters_inv (cp_set (clusters_provider_loop E cx a k p))"
  by (induction E cx a k p rule: clusters_provider_loop.induct)
     (auto simp: provider_put_inv split: option.splits list.splits)

lemma fold_put_inv:
  "clusters_inv (cp_set p) \<Longrightarrow> clusters_inv (cp_set (fold (\<lambda>n. provider_put E cx a (n, f n)) ord p))"
  by (induction ord arbitrary: p) (auto simp: provider_put_inv)

text \<open>The queue is received in order, as far as the loop gets.\<close>

lemma provider_put_input [simp]: "cp_input (provider_put E cx a x p) = cp_input p"
  by (simp add: provider_put_def)

lemma provider_put_swap:
  "provider_put E cx a x (p\<lparr>cp_input := i\<rparr>) = (provider_put E cx a x p)\<lparr>cp_input := i\<rparr>"
  by (cases p) (simp add: provider_put_def)

lemma clusters_provider_loop_takes:
  "cp_input p = Some q \<Longrightarrow> cp_input (clusters_provider_loop E cx a k p) = Some (drop k q) \<and>
     cp_set (clusters_provider_loop E cx a k p) =
       cp_set (fold (provider_put E cx a) (take k q) p)"
proof (induction k arbitrary: p q)
  case (Suc k)
  show ?case
  proof (cases q)
    case Nil
    with Suc.prems show ?thesis by simp
  next
    case (Cons x q')
    let ?p = "provider_put E cx a x (p\<lparr>cp_input := Some q'\<rparr>)"
    have "cp_input ?p = Some q'" by simp
    moreover have "fold (provider_put E cx a) xs (p\<lparr>cp_input := i\<rparr>) =
        (fold (provider_put E cx a) xs p)\<lparr>cp_input := i\<rparr>" for xs p i
      by (induction xs arbitrary: p) (simp_all add: provider_put_swap)
    ultimately show ?thesis
      using Suc.IH[of ?p q'] Suc.prems Cons by (simp add: provider_put_swap)
  qed
qed simp

subsection \<open>Properties\<close>

text \<open>
  The registry's cleanup never removes a successor. If the entry of a name was replaced by
  another instance, the goroutine that waits for the old instance's context leaves the new
  one in place; it removes exactly the instance it was started for.
\<close>

theorem registry_watch_removes_own_instance:
  assumes "registry_watch_runs (cx, name, cl) r = Some r'"
  shows "ctx_err (rg_ctxs r) cx \<and>
     (\<forall>n. registry_Get r' n =
        (if n = name \<and> registry_Get r n = Inr cl then registry_GetTyped (NewRegistry []) n
         else registry_Get r n))"
  using assms
  by (auto simp: registry_watch_runs_def RemoveIfEqual_def registry_Get_def registry_GetTyped_def
      NewRegistry_def split: if_splits option.splits)

definition demo_rg :: registry_state where
  "demo_rg = snd (registry_Engage (\<lambda>a b. a = b) 1 ''c1'' 9 (snd (registry_Engage (\<lambda>a b. a = b) 0 ''c1'' 7
     (NewRegistry [(None, True), (None, False)]))))"

lemma demo_rg_eq:
  "demo_rg = \<lparr>rg_clusters = fmupd ''c1'' 9 fmempty, rg_ctxs = [(None, True), (None, False)],
     rg_watch = [(0, ''c1'', 7), (1, ''c1'', 9)]\<rparr>"
  by (simp add: demo_rg_def registry_Engage_def registry_AddOrReplace_def NewRegistry_def)

theorem registry_watch_removes_own_instance_witness:
  "\<exists>r'. registry_watch_runs (0, ''c1'', 7) demo_rg = Some r' \<and> registry_Get r' ''c1'' = Inr 9"
proof -
  have "\<exists>r'. registry_watch_runs (0, ''c1'', 7) demo_rg = Some r'"
    by (simp add: registry_watch_runs_def demo_rg_eq ctx_err.simps)
  then obtain r' where r: "registry_watch_runs (0, ''c1'', 7) demo_rg = Some r'" ..
  moreover have "registry_Get demo_rg ''c1'' = Inr 9"
    by (simp add: demo_rg_eq registry_Get_def registry_GetTyped_def)
  ultimately show ?thesis using registry_watch_removes_own_instance[OF r] by auto
qed

text \<open>
  Re-engaging an equal cluster can lose it. When a cluster is engaged again with an equal
  configuration but as a new instance, the registry keeps the old instance; once the old
  engagement's context ends, its goroutine removes the entry, and the cluster that is still
  engaged is no longer found.
\<close>

theorem registry_equal_reengage_lost:
  "\<exists>r r'. r = snd (registry_Engage (\<lambda>_ _. True) 1 ''c1'' 9 (snd (registry_Engage (\<lambda>_ _. True) 0 ''c1'' 7
       (NewRegistry [(None, True), (None, False)])))) \<and>
     registry_watch_runs (0, ''c1'', 7) r = Some r' \<and> \<not> ctx_err (rg_ctxs r') 1 \<and>
     (1, ''c1'', 9) \<in> set (rg_watch r') \<and> (\<exists>e. registry_Get r' ''c1'' = Inl e)"
  by (simp add: registry_Engage_def registry_AddOrReplace_def NewRegistry_def registry_watch_runs_def
      RemoveIfEqual_def registry_Get_def registry_GetTyped_def ctx_err.simps)

text \<open>
  \<open>ForEach\<close> visits every cluster or stops at the first error. It returns nil exactly when
  the function returned nil for every cluster of the registry; otherwise its error is one
  that the function returned for a cluster of the registry.
\<close>

theorem ForEach_result:
  assumes "iter_order (rg_clusters r) ord"
  shows "case ForEach ord fn r of
      None \<Rightarrow> (\<forall>n cl. registry_Get r n = Inr cl \<longrightarrow> fn n cl = None)
    | Some e \<Rightarrow> (\<exists>n cl. registry_Get r n = Inr cl \<and> fn n cl = Some e)"
proof (cases "ForEach ord fn r")
  case None
  then have "\<forall>n \<in> set ord. fn n (the (registry_known r n)) = None"
    by (simp add: ForEach_def first_error_None_iff)
  then have "fn n cl = None" if "registry_Get r n = Inr cl" for n cl
    using iter_order_iff[OF assms, of n] that by (auto simp: registryGet.get_Inr_iff)
  with None show ?thesis by simp
next
  case (Some e)
  then obtain ys n zs where "ord = ys @ n # zs" "fn n (the (registry_known r n)) = Some e"
    unfolding ForEach_def by (rule first_error_SomeE)
  moreover from this(1) obtain cl where "registry_known r n = Some cl"
    using iter_order_iff[OF assms, of n] by auto
  ultimately show ?thesis using Some by (auto simp: registryGet.get_Inr_iff)
qed

theorem ForEach_result_witness:
  "ForEach [''c1''] (\<lambda>n cl. Some (ErrExt n)) demo_rg = Some (ErrExt ''c1'')"
  using ForEach_result[of demo_rg "[''c1'']" "\<lambda>n cl. Some (ErrExt n)"]
  by (simp add: demo_rg_eq iter_order_def registry_Get_def registry_GetTyped_def ForEach_def
      split: option.splits if_splits)
end
