(* ===== verification/MultiProvider.thy ===== *)
theory MultiProvider
  imports Clusters
begin

text \<open>
  \<open>providers/multi\<close>: a provider of providers. Cluster names are the provider's name, a
  separator and the name the provider uses. The notification channel is its buffer; sending
  on a full one blocks. The goroutine that runs a provider is an entry of the state until
  the provider's \<open>Start\<close> returns.
\<close>

subsection \<open>Names\<close>

text \<open>\<open>strings.SplitN(s, sep, 2)\<close> for a non-empty separator: cut at its first occurrence.\<close>

definition has_prefix :: "string \<Rightarrow> string \<Rightarrow> bool" where
  "has_prefix s pre \<longleftrightarrow> take (length pre) s = pre"

fun split_first :: "string \<Rightarrow> string \<Rightarrow> (string \<times> string) option" where
  "split_first sep [] = None"
| "split_first sep (c # cs) =
     (if has_prefix (c # cs) sep then Some ([], drop (length sep) (c # cs))
      else (case split_first sep cs of None \<Rightarrow> None | Some (a, b) \<Rightarrow> Some (c # a, b)))"

subsection \<open>State\<close>

record multi_options =
  Separator :: string
  ChannelSize :: int
  LoggerSuffix :: string

record multi_provider =
  mp_opts :: multi_options
  mp_once :: bool
  mp_indexers :: "index list"
  mp_ch :: "string list option"
  mp_providers :: "(string, provider_iface) fmap"
  mp_cancels :: "(string, ctx) fmap"
  mp_ctxs :: ctxs
  mp_running :: "(string \<times> ctx) list"
  mp_indexed :: "(string \<times> index) list"

definition multi_New :: "multi_options \<Rightarrow> ctxs \<Rightarrow> multi_provider" where
  "multi_New opts S =
     (let o1 = (if Separator opts = '''' then opts\<lparr>Separator := ''#''\<rparr> else opts);
          o2 = (if ChannelSize o1 \<le> 0 then o1\<lparr>ChannelSize := 10\<rparr> else o1)
      in \<lparr>mp_opts = o2, mp_once = False, mp_indexers = [], mp_ch = None, mp_providers = fmempty,
          mp_cancels = fmempty, mp_ctxs = S, mp_running = [], mp_indexed = []\<rparr>)"

subsection \<open>Operations\<close>

definition splitClusterName :: "multi_provider \<Rightarrow> cluster_name \<Rightarrow> string \<times> cluster_name" where
  "splitClusterName p name =
     (case split_first (Separator (mp_opts p)) name of None \<Rightarrow> ('''', name) | Some ab \<Rightarrow> ab)"

text \<open>\<open>wrappedAware.Engage\<close>: the name the wrapped aware is called with.\<close>

definition wrappedAware_name :: "string \<Rightarrow> string \<Rightarrow> cluster_name \<Rightarrow> cluster_name" where
  "wrappedAware_name providerName sep name = providerName @ sep @ name"

definition startProvider :: "ctx \<Rightarrow> string \<Rightarrow> multi_provider \<Rightarrow> multi_provider" where
  "startProvider parent name p =
     (case fmlookup (mp_providers p) name of
        None \<Rightarrow> p
      | Some provider \<Rightarrow>
          (let p1 = p\<lparr>mp_indexed := mp_indexed p @ map (\<lambda>i. (name, i)) (mp_indexers p)\<rparr>
           in if \<not> pv_runnable provider then p1
              else
                (let (S, cx) = with_cancel (mp_ctxs p1) parent
                 in case fmlookup (mp_cancels p1) name of
                      Some _ \<Rightarrow> p1\<lparr>mp_ctxs := cancel S cx\<rparr>
                    | None \<Rightarrow>
                        p1\<lparr>mp_ctxs := S, mp_cancels := fmupd name cx (mp_cancels p1),
                           mp_running := mp_running p1 @ [(name, cx)]\<rparr>)))"

text \<open>
  \<open>Start\<close> runs \<open>start\<close> once: it makes the channel, starts the providers that are there (in the
  map's order) and then serves the channel until its context is done. \<open>multi_start\<close> is the
  part before the loop, \<open>multi_recv\<close> one turn of the loop.
\<close>

definition multi_start :: "ctx \<Rightarrow> string list \<Rightarrow> multi_provider \<Rightarrow> multi_provider" where
  "multi_start parent ord p = fold (startProvider parent) ord (p\<lparr>mp_ch := Some []\<rparr>)"

definition multi_Start :: "ctx \<Rightarrow> string list \<Rightarrow> multi_provider \<Rightarrow> multi_provider" where
  "multi_Start parent ord p =
     (if mp_once p then p else multi_start parent ord (p\<lparr>mp_once := True\<rparr>))"

definition multi_recv :: "ctx \<Rightarrow> multi_provider \<Rightarrow> multi_provider option" where
  "multi_recv parent p =
     (case mp_ch p of
        Some (name # q) \<Rightarrow> Some (startProvider parent name (p\<lparr>mp_ch := Some q\<rparr>))
      | _ \<Rightarrow> None)"

definition ProviderNames :: "multi_provider \<Rightarrow> string list" where
  "ProviderNames p = sorted_keys (mp_providers p)"

definition multi_GetProvider :: "multi_provider \<Rightarrow> string \<Rightarrow> provider_iface option" where
  "multi_GetProvider p name = fmlookup (mp_providers p) name"

text \<open>\<open>None\<close>: the call blocks on the full channel, holding the lock.\<close>

definition AddProvider ::
  "string \<Rightarrow> provider_iface \<Rightarrow> multi_provider \<Rightarrow> (go_error option \<times> multi_provider) option" where
  "AddProvider name provider p =
     (case fmlookup (mp_providers p) name of
        Some _ \<Rightarrow> Some (Some (Errorf ''provider already exists for provider name %q'' [name] None), p)
      | None \<Rightarrow>
          (let p1 = p\<lparr>mp_providers := fmupd name provider (mp_providers p)\<rparr>
           in case mp_ch p1 of
                None \<Rightarrow> Some (None, p1)
              | Some q \<Rightarrow>
                  if int (length q) < ChannelSize (mp_opts p1)
                  then Some (None, p1\<lparr>mp_ch := Some (q @ [name])\<rparr>) else None))"

definition RemoveProvider :: "string \<Rightarrow> multi_provider \<Rightarrow> multi_provider" where
  "RemoveProvider name p =
     (let p1 = (case fmlookup (mp_cancels p) name of
                  None \<Rightarrow> p
                | Some k \<Rightarrow> p\<lparr>mp_ctxs := cancel (mp_ctxs p) k, mp_cancels := fmdrop name (mp_cancels p)\<rparr>)
      in p1\<lparr>mp_providers := fmdrop name (mp_providers p1)\<rparr>)"

text \<open>The goroutine of a provider after its \<open>Start\<close> returned.\<close>

definition provider_returned :: "string \<times> ctx \<Rightarrow> multi_provider \<Rightarrow> multi_provider" where
  "provider_returned r p = RemoveProvider (fst r) (p\<lparr>mp_running := remove1 r (mp_running p)\<rparr>)"

definition multi_Get :: "multi_provider \<Rightarrow> cluster_name \<Rightarrow> go_error + cluster_h" where
  "multi_Get p input =
     (case splitClusterName p input of
        (providerName, clusterName) \<Rightarrow>
          (case fmlookup (mp_providers p) providerName of
             None \<Rightarrow> Inl (Errorf ''provider not found %q (%q): %w'' [providerName, input] (Some ErrClusterNotFound))
           | Some provider \<Rightarrow> pv_get provider clusterName))"

fun multi_index_all ::
  "index \<Rightarrow> (string \<times> provider_iface) list \<Rightarrow> go_error option \<Rightarrow> go_error option" where
  "multi_index_all i [] errs = errs"
| "multi_index_all i ((name, pv) # rest) errs =
     (case pv_index pv i of
        None \<Rightarrow> multi_index_all i rest errs
      | Some e \<Rightarrow>
          multi_index_all i rest
            (errors_join errs
              (Some (Errorf ''failed to index field %q on provider %q: %w'' [idx_Field i, name] (Some e)))))"

definition multi_IndexField ::
  "string list \<Rightarrow> index \<Rightarrow> multi_provider \<Rightarrow> go_error option \<times> multi_provider" where
  "multi_IndexField ord i p =
     (let p1 = p\<lparr>mp_indexers := mp_indexers p @ [i]\<rparr>
      in case mp_ch p1 of
           None \<Rightarrow> (None, p1)
         | Some _ \<Rightarrow>
             (multi_index_all i (map (\<lambda>n. (n, the (fmlookup (mp_providers p) n))) ord) None,
              p1\<lparr>mp_indexed := mp_indexed p1 @ map (\<lambda>n. (n, i)) ord\<rparr>))"

text \<open>
  \<open>AsRunnable\<close>: a provider that is set up with a manager. \<open>runnableProvider.Start\<close> sets it up with
  the manager that \<open>wrapped\<close> makes, one whose \<open>Engage\<close> is the multi provider's aware, then waits for
  the context; \<open>None\<close> while it waits.
\<close>

type_synonym 'm setup_provider = "ctx \<Rightarrow> 'm \<Rightarrow> go_error option"

record 'm runnableProvider =
  rp_setup :: "'m setup_provider"
  rp_mgr :: 'm

definition AsRunnable :: "'m setup_provider \<Rightarrow> 'm \<Rightarrow> 'm runnableProvider" where
  "AsRunnable p mgr = \<lparr>rp_setup = p, rp_mgr = mgr\<rparr>"

definition runnableProvider_Start ::
  "('m \<Rightarrow> aware_h \<Rightarrow> 'm) \<Rightarrow> 'm runnableProvider \<Rightarrow> aware_h \<Rightarrow> ctx \<Rightarrow> ctxs \<Rightarrow> go_error option option" where
  "runnableProvider_Start wrapped r aware cx S =
     (case rp_setup r cx (wrapped (rp_mgr r) aware) of
        Some e \<Rightarrow> Some (Some e)
      | None \<Rightarrow> if ctx_err S cx then Some None else None)"

definition wrappedManager_Engage ::
  "(ctx \<Rightarrow> cluster_name \<Rightarrow> cluster_h \<Rightarrow> go_error option) \<Rightarrow> ctx \<Rightarrow> cluster_name \<Rightarrow> cluster_h \<Rightarrow> go_error option" where
  "wrappedManager_Engage aware cx name cl = aware cx name cl"

subsection \<open>Splitting undoes prefixing\<close>

lemma has_prefix_append: "has_prefix (pre @ s) pre"
  by (simp add: has_prefix_def)

lemma has_prefix_longer: "length pre \<le> length s \<Longrightarrow> has_prefix (s @ t) pre = has_prefix s pre"
  by (simp add: has_prefix_def)

lemma split_first_prefixed:
  assumes "sep \<noteq> ''''" and "\<And>k. k < length pre \<Longrightarrow> \<not> has_prefix (drop k (pre @ sep)) sep"
  shows "split_first sep (pre @ sep @ name) = Some (pre, name)"
  using assms(2)
proof (induction pre)
  case Nil
  from assms(1) obtain c cs where "sep = c # cs" by (cases sep) auto
  then show ?case using has_prefix_append[of sep name] by simp
next
  case (Cons c pre)
  have "\<not> has_prefix ((c # pre) @ sep) sep" using Cons.prems[of 0] by simp
  then have "\<not> has_prefix ((c # pre) @ sep @ name) sep"
    using has_prefix_longer[of sep "(c # pre) @ sep" name] by simp
  moreover have "split_first sep (pre @ sep @ name) = Some (pre, name)"
  proof (rule Cons.IH)
    fix k assume "k < length pre"
    then show "\<not> has_prefix (drop k (pre @ sep)) sep" using Cons.prems[of "Suc k"] by simp
  qed
  ultimately show ?case by simp
qed

lemma split_first_some:
  "split_first sep s = Some (a, b) \<Longrightarrow> sep \<noteq> '''' \<Longrightarrow> s = a @ sep @ b"
proof (induction s arbitrary: a b)
  case (Cons c cs)
  show ?case
  proof (cases "has_prefix (c # cs) sep")
    case True
    with Cons.prems show ?thesis
      by (auto simp: has_prefix_def) (metis append_take_drop_id)
  next
    case False
    with Cons show ?thesis by (auto split: option.splits prod.splits)
  qed
qed simp

lemma single_char_separator:
  assumes "ch \<notin> set pre" and "k < length pre"
  shows "\<not> has_prefix (drop k (pre @ [ch])) [ch]"
proof -
  have "drop k (pre @ [ch]) = pre ! k # drop (Suc k) (pre @ [ch])"
    using assms(2) by (simp add: Cons_nth_drop_Suc[symmetric] nth_append)
  moreover have "pre ! k \<noteq> ch" using assms by auto
  ultimately show ?thesis by (simp add: has_prefix_def)
qed

lemma multi_New_separator: "Separator (mp_opts (multi_New opts S)) \<noteq> ''''"
  by (simp add: multi_New_def Let_def)

subsection \<open>A provider runs once at a time\<close>

definition multi_inv :: "multi_provider \<Rightarrow> bool" where
  "multi_inv p \<longleftrightarrow>
     (\<forall>n k. fmlookup (mp_cancels p) n = Some k \<longrightarrow> k < length (mp_ctxs p)) \<and>
     (\<forall>n k. (n, k) \<in> set (mp_running p) \<longrightarrow>
        k < length (mp_ctxs p) \<and> (ctx_err (mp_ctxs p) k \<or> fmlookup (mp_cancels p) n = Some k))"

lemma multi_New_inv: "multi_inv (multi_New opts S)"
  by (simp add: multi_inv_def multi_New_def Let_def)

lemma multi_invD:
  assumes "multi_inv p"
  shows "\<And>n k. fmlookup (mp_cancels p) n = Some k \<Longrightarrow> k < length (mp_ctxs p)"
    and "\<And>n k. (n, k) \<in> set (mp_running p) \<Longrightarrow> k < length (mp_ctxs p)"
    and "\<And>n k. (n, k) \<in> set (mp_running p) \<Longrightarrow> \<not> ctx_err (mp_ctxs p) k \<Longrightarrow> fmlookup (mp_cancels p) n = Some k"
  using assms unfolding multi_inv_def by blast+

lemma multi_inv_cong:
  "mp_cancels p' = mp_cancels p \<Longrightarrow> mp_ctxs p' = mp_ctxs p \<Longrightarrow> mp_running p' = mp_running p \<Longrightarrow>
   multi_inv p \<Longrightarrow> multi_inv p'"
  by (simp add: multi_inv_def)

text \<open>Changes that only cancel contexts or make new ones keep it.\<close>

lemma multi_inv_ctxs:
  assumes "multi_inv p" and "length (mp_ctxs p) \<le> length S"
    and "\<And>k. ctx_err (mp_ctxs p) k \<Longrightarrow> ctx_err S k"
  shows "multi_inv (p\<lparr>mp_ctxs := S\<rparr>)"
  using assms unfolding multi_inv_def
  by simp (meson order_less_le_trans)

lemma ctx_err_with_cancel_mono: "ctx_err S k \<Longrightarrow> ctx_err (fst (with_cancel S p)) k"
  using ctx_err_less[of S k] by (simp add: ctx_simps)

lemma startProvider_inv:
  assumes inv: "multi_inv p"
  shows "multi_inv (startProvider parent name p)"
proof (cases "fmlookup (mp_providers p) name")
  case None
  with inv show ?thesis by (simp add: startProvider_def)
next
  case (Some pv)
  let ?p1 = "p\<lparr>mp_indexed := mp_indexed p @ map (\<lambda>i. (name, i)) (mp_indexers p)\<rparr>"
  let ?S = "fst (with_cancel (mp_ctxs p) parent)"
  have inv1: "multi_inv ?p1" using inv by (simp add: multi_inv_def)
  show ?thesis
  proof (cases "pv_runnable pv")
    case False
    with Some inv1 show ?thesis by (simp add: startProvider_def)
  next
    case True
    show ?thesis
    proof (cases "fmlookup (mp_cancels p) name")
      case (Some k)
      have "multi_inv (?p1\<lparr>mp_ctxs := cancel ?S (length (mp_ctxs p))\<rparr>)"
        by (rule multi_inv_ctxs[OF inv1]) (simp_all add: ctx_err_cancel_mono ctx_err_with_cancel_mono)
      then show ?thesis
        using True Some \<open>fmlookup (mp_providers p) name = Some pv\<close>
        by (simp add: startProvider_def with_cancel_def)
    next
      case None
      let ?p2 = "?p1\<lparr>mp_ctxs := ?S, mp_cancels := fmupd name (length (mp_ctxs p)) (mp_cancels p),
          mp_running := mp_running p @ [(name, length (mp_ctxs p))]\<rparr>"
      have "k < length ?S \<and> (ctx_err ?S k \<or> fmlookup (mp_cancels ?p2) n = Some k)"
        if "(n, k) \<in> set (mp_running p)" for n k
      proof -
        from inv that have "k < length (mp_ctxs p)"
          "ctx_err (mp_ctxs p) k \<or> fmlookup (mp_cancels p) n = Some k" by (auto simp: multi_inv_def)
        with None show ?thesis by (auto simp: ctx_err_with_cancel_mono)
      qed
      then have "multi_inv ?p2" using inv by (auto simp: multi_inv_def less_Suc_eq)
      then show ?thesis
        using True None \<open>fmlookup (mp_providers p) name = Some pv\<close>
        by (simp add: startProvider_def with_cancel_def)
    qed
  qed
qed

lemma RemoveProvider_inv:
  assumes inv: "multi_inv p"
  shows "multi_inv (RemoveProvider name p)"
proof (cases "fmlookup (mp_cancels p) name")
  case None
  with inv show ?thesis by (simp add: RemoveProvider_def multi_inv_def)
next
  case (Some k)
  have k: "k < length (mp_ctxs p)" using inv Some by (simp add: multi_inv_def)
  have "ctx_err (cancel (mp_ctxs p) k) j \<or> fmlookup (fmdrop name (mp_cancels p)) n = Some j"
    if "(n, j) \<in> set (mp_running p)" for n j
  proof -
    from inv that have "ctx_err (mp_ctxs p) j \<or> fmlookup (mp_cancels p) n = Some j"
      by (auto simp: multi_inv_def)
    with Some k show ?thesis by (auto simp: ctx_err_cancel_mono ctx_err_cancel_self)
  qed
  with inv Some show ?thesis by (auto simp: RemoveProvider_def multi_inv_def split: if_splits)
qed

lemma fold_startProvider_inv: "multi_inv p \<Longrightarrow> multi_inv (fold (startProvider parent) ord p)"
  by (induction ord arbitrary: p) (auto intro: startProvider_inv)

inductive multi_step :: "multi_provider \<Rightarrow> multi_provider \<Rightarrow> bool" where
  start: "iter_order (mp_providers p) ord \<Longrightarrow> multi_step p (multi_Start parent ord p)"
| recv: "multi_recv parent p = Some p' \<Longrightarrow> multi_step p p'"
| add: "AddProvider name pv p = Some (err, p') \<Longrightarrow> multi_step p p'"
| remove: "multi_step p (RemoveProvider name p)"
| returned: "r \<in> set (mp_running p) \<Longrightarrow> multi_step p (provider_returned r p)"
| index: "multi_IndexField ord i p = (err, p') \<Longrightarrow> multi_step p p'"
| ctx_new: "multi_step p (p\<lparr>mp_ctxs := fst (with_cancel (mp_ctxs p) c)\<rparr>)"
| ctx_cancel: "multi_step p (p\<lparr>mp_ctxs := cancel (mp_ctxs p) k\<rparr>)"

lemma multi_step_inv: "multi_step p p' \<Longrightarrow> multi_inv p \<Longrightarrow> multi_inv p'"
proof (induction rule: multi_step.induct)
  case (start p ord parent)
  have "multi_inv (p\<lparr>mp_once := True, mp_ch := Some []\<rparr>)" using start.prems by (simp add: multi_inv_def)
  with start.prems show ?case
    by (simp add: multi_Start_def multi_start_def fold_startProvider_inv)
next
  case (recv parent p p')
  then obtain name q where "p' = startProvider parent name (p\<lparr>mp_ch := Some q\<rparr>)"
    by (auto simp: multi_recv_def split: option.splits list.splits)
  moreover have "multi_inv (p\<lparr>mp_ch := Some q\<rparr>)" using recv.prems by (simp add: multi_inv_def)
  ultimately show ?case by (simp add: startProvider_inv)
next
  case (add name pv p err p')
  from add.hyps have "mp_cancels p' = mp_cancels p" "mp_ctxs p' = mp_ctxs p" "mp_running p' = mp_running p"
    by (auto simp: AddProvider_def Let_def split: option.splits if_splits)
  then show ?case using add.prems by (rule multi_inv_cong)
next
  case (returned r p)
  have "multi_inv (p\<lparr>mp_running := remove1 r (mp_running p)\<rparr>)"
    using multi_invD[OF returned.prems] set_remove1_subset[of r "mp_running p"]
    unfolding multi_inv_def by (simp, blast)
  then show ?case by (simp add: provider_returned_def RemoveProvider_inv)
next
  case (index ord i p err p')
  from index.hyps have "mp_cancels p' = mp_cancels p" "mp_ctxs p' = mp_ctxs p" "mp_running p' = mp_running p"
    by (auto simp: multi_IndexField_def Let_def split: option.splits)
  then show ?case using index.prems by (rule multi_inv_cong)
qed (auto intro: RemoveProvider_inv multi_inv_ctxs ctx_err_with_cancel_mono ctx_err_cancel_mono)

lemma multi_reach_inv: "multi_step\<^sup>*\<^sup>* (multi_New opts S) p \<Longrightarrow> multi_inv p"
  by (induction rule: rtranclp_induct) (auto intro: multi_New_inv multi_step_inv)

lemma startProvider_opts [simp]: "mp_opts (startProvider parent name p) = mp_opts p"
  by (simp add: startProvider_def Let_def split: option.splits prod.splits)

lemma fold_startProvider_opts [simp]: "mp_opts (fold (startProvider parent) ord p) = mp_opts p"
  by (induction ord arbitrary: p) auto

lemma RemoveProvider_opts [simp]: "mp_opts (RemoveProvider name p) = mp_opts p"
  by (simp add: RemoveProvider_def Let_def split: option.splits)

lemma multi_step_opts: "multi_step p p' \<Longrightarrow> mp_opts p' = mp_opts p"
  by (induction rule: multi_step.induct)
     (auto simp: multi_Start_def multi_start_def multi_recv_def AddProvider_def provider_returned_def
       multi_IndexField_def Let_def split: option.splits list.splits if_splits)

lemma multi_reach_opts: "multi_step\<^sup>*\<^sup>* p p' \<Longrightarrow> mp_opts p' = mp_opts p"
  by (induction rule: rtranclp_induct) (auto dest: multi_step_opts)

subsection \<open>Properties\<close>

definition demo_pv :: provider_iface where
  "demo_pv = \<lparr>pv_get = (\<lambda>n. if n = ''zoo'' then Inr 7 else Inl (Errorf ''gone: %w'' [] (Some ErrClusterNotFound))),
     pv_index = (\<lambda>_. None), pv_runnable = True\<rparr>"

definition demo_multi :: multi_provider where
  "demo_multi = snd (the (AddProvider ''kind'' demo_pv
     (multi_New \<lparr>Separator = '''', ChannelSize = 0, LoggerSuffix = ''''\<rparr> [(None, False)])))"

lemma demo_multi_eq:
  "demo_multi = \<lparr>mp_opts = \<lparr>Separator = ''#'', ChannelSize = 10, LoggerSuffix = ''''\<rparr>, mp_once = False,
     mp_indexers = [], mp_ch = None, mp_providers = fmupd ''kind'' demo_pv fmempty, mp_cancels = fmempty,
     mp_ctxs = [(None, False)], mp_running = [], mp_indexed = []\<rparr>"
  by (simp add: demo_multi_def AddProvider_def multi_New_def)

lemma demo_multi_reach:
  "multi_step\<^sup>*\<^sup>* (multi_New \<lparr>Separator = '''', ChannelSize = 0, LoggerSuffix = ''''\<rparr> [(None, False)]) demo_multi"
  by (rule r_into_rtranclp, rule multi_step.add[where err = None and name = "''kind''" and pv = demo_pv])
     (simp add: demo_multi_def AddProvider_def multi_New_def)



definition demo_hash :: multi_provider where
  "demo_hash = snd (the (AddProvider ''a#b'' demo_pv
     (multi_New \<lparr>Separator = '''', ChannelSize = 0, LoggerSuffix = ''''\<rparr> [])))"

lemma demo_hash_eq:
  "demo_hash = \<lparr>mp_opts = \<lparr>Separator = ''#'', ChannelSize = 10, LoggerSuffix = ''''\<rparr>, mp_once = False,
     mp_indexers = [], mp_ch = None, mp_providers = fmupd ''a#b'' demo_pv fmempty, mp_cancels = fmempty,
     mp_ctxs = [], mp_running = [], mp_indexed = []\<rparr>"
  by (simp add: demo_hash_def AddProvider_def multi_New_def)

text \<open>
  A provider whose name contains the separator is not reachable. With the default
  separator and a provider called "a#b", the name under which its cluster was engaged is
  split at the first hash sign, and \<open>Get\<close> reports that provider "a" does not exist.
\<close>

theorem multi_separator_in_name_lost:
  "\<exists>p. multi_step\<^sup>*\<^sup>* (multi_New \<lparr>Separator = '''', ChannelSize = 0, LoggerSuffix = ''''\<rparr> []) p \<and>
     multi_GetProvider p ''a#b'' = Some demo_pv \<and>
     multi_Get p (wrappedAware_name ''a#b'' ''#'' ''zoo'') =
       Inl (Errorf ''provider not found %q (%q): %w'' [''a'', ''a#b#zoo''] (Some ErrClusterNotFound))"
proof -
  have "multi_step\<^sup>*\<^sup>* (multi_New \<lparr>Separator = '''', ChannelSize = 0, LoggerSuffix = ''''\<rparr> []) demo_hash"
    by (rule r_into_rtranclp, rule multi_step.add[where err = None and name = "''a#b''" and pv = demo_pv])
       (simp add: demo_hash_def AddProvider_def multi_New_def)
  moreover have "multi_Get demo_hash (wrappedAware_name ''a#b'' ''#'' ''zoo'') =
       Inl (Errorf ''provider not found %q (%q): %w'' [''a'', ''a#b#zoo''] (Some ErrClusterNotFound))"
    by (simp add: demo_hash_eq multi_Get_def splitClusterName_def wrappedAware_name_def has_prefix_def)
  moreover have "multi_GetProvider demo_hash ''a#b'' = Some demo_pv"
    by (simp add: demo_hash_eq multi_GetProvider_def)
  ultimately show ?thesis by blast
qed

text \<open>
  C24: no provider runs twice at a time. In every reachable state, two goroutines that run a
  provider under the same name are the same unless the context of one of them is done.
\<close>

theorem multi_provider_runs_once:
  assumes "multi_step\<^sup>*\<^sup>* (multi_New opts S) p"
    and "(n, k) \<in> set (mp_running p)" and "(n, j) \<in> set (mp_running p)"
    and "\<not> ctx_err (mp_ctxs p) k" and "\<not> ctx_err (mp_ctxs p) j"
  shows "k = j"
  using multi_invD(3)[OF multi_reach_inv[OF assms(1)] assms(2,4)]
    multi_invD(3)[OF multi_reach_inv[OF assms(1)] assms(3,5)] by simp

theorem multi_provider_runs_once_witness:
  "(''kind'', 1) \<in> set (mp_running (multi_Start 0 [''kind''] demo_multi)) \<and>
   (''kind'', 2) \<notin> set (mp_running (multi_Start 0 [''kind''] demo_multi))"
proof -
  let ?p = "multi_Start 0 [''kind''] demo_multi"
  have eq: "mp_running ?p = [(''kind'', 1)]" "mp_ctxs ?p = [(None, False), (Some 0, False)]"
    by (simp_all add: multi_Start_def multi_start_def startProvider_def demo_multi_eq demo_pv_def with_cancel_def)
  have "multi_step demo_multi ?p"
    by (rule multi_step.start) (simp add: demo_multi_eq iter_order_def)
  with demo_multi_reach have r: "multi_step\<^sup>*\<^sup>* (multi_New \<lparr>Separator = '''', ChannelSize = 0, LoggerSuffix = ''''\<rparr>
      [(None, False)]) ?p" by (rule rtranclp.rtrancl_into_rtrancl)
  have "\<not> ctx_err (mp_ctxs ?p) 1" "\<not> ctx_err (mp_ctxs ?p) 2" by (simp_all add: eq ctx_err.simps)
  with multi_provider_runs_once[OF r, of "''kind''" 1 2] show ?thesis by (auto simp: eq)
qed

text \<open>
  \<open>Get\<close> keeps the provider contract. If every registered provider reports an unknown
  cluster with an error that wraps \<open>ErrClusterNotFound\<close>, so does the multi provider, for
  unknown clusters of known providers and for every name of an unknown provider.
\<close>

theorem multi_Get_errors_wrap_not_found:
  assumes "\<And>n pv c e. fmlookup (mp_providers p) n = Some pv \<Longrightarrow> pv_get pv c = Inl e \<Longrightarrow> is_cluster_not_found e"
    and "multi_Get p input = Inl e"
  shows "is_cluster_not_found e"
  using assms by (auto simp: multi_Get_def split: option.splits prod.splits)

theorem multi_Get_errors_wrap_not_found_witness:
  "\<exists>e. multi_Get demo_multi ''kind#gone'' = Inl e \<and> is_cluster_not_found e"
proof -
  have "\<exists>e. multi_Get demo_multi ''kind#gone'' = Inl e"
    by (simp add: multi_Get_def splitClusterName_def demo_multi_eq has_prefix_def demo_pv_def)
  then obtain e where e: "multi_Get demo_multi ''kind#gone'' = Inl e" ..
  have "is_cluster_not_found e"
    by (rule multi_Get_errors_wrap_not_found[OF _ e])
       (auto simp: demo_multi_eq demo_pv_def split: if_splits)
  with e show ?thesis by blast
qed

text \<open>
  Adding a provider can block with the lock held. Once the multi provider runs and its
  channel is full, \<open>AddProvider\<close> of a new name does not return; it holds the write lock, and
  only \<open>startProvider\<close>, which begins by taking the lock, takes names off the channel.
\<close>

theorem AddProvider_blocks_when_full:
  "AddProvider name pv p = None \<longleftrightarrow>
     fmlookup (mp_providers p) name = None \<and>
     (\<exists>q. mp_ch p = Some q \<and> ChannelSize (mp_opts p) \<le> int (length q))"
  by (auto simp: AddProvider_def Let_def split: option.splits)

text \<open>
  The goroutine of a removed provider removes its successor. Removing a running provider
  and adding another one under the same name is undone when the old provider's \<open>Start\<close>
  returns: the deferred removal goes by name, cancels the new provider's context and forgets
  the new provider.
\<close>

theorem readded_provider_removed_by_predecessor:
  "\<exists>p p'. multi_step\<^sup>*\<^sup>* (multi_New \<lparr>Separator = '''', ChannelSize = 0, LoggerSuffix = ''''\<rparr> [(None, False)]) p \<and>
     multi_GetProvider p ''kind'' = Some demo_pv \<and> (''kind'', 1) \<in> set (mp_running p) \<and>
     fmlookup (mp_cancels p) ''kind'' = Some 2 \<and> \<not> ctx_err (mp_ctxs p) 2 \<and> ctx_err (mp_ctxs p) 1 \<and>
     p' = provider_returned (''kind'', 1) p \<and> multi_GetProvider p' ''kind'' = None \<and> ctx_err (mp_ctxs p') 2"
proof -
  let ?p1 = "multi_Start 0 [''kind''] demo_multi"
  let ?p2 = "RemoveProvider ''kind'' ?p1"
  let ?p3 = "snd (the (AddProvider ''kind'' demo_pv ?p2))"
  let ?p4 = "the (multi_recv 0 ?p3)"
  have p1: "?p1 = demo_multi\<lparr>mp_once := True, mp_ch := Some [], mp_ctxs := [(None, False), (Some 0, False)],
      mp_cancels := fmupd ''kind'' 1 fmempty, mp_running := [(''kind'', 1)]\<rparr>"
    by (simp add: multi_Start_def multi_start_def startProvider_def demo_multi_eq demo_pv_def with_cancel_def)
  have p2: "?p2 = ?p1\<lparr>mp_ctxs := [(None, False), (Some 0, True)], mp_cancels := fmempty, mp_providers := fmempty\<rparr>"
    unfolding p1 by (simp add: RemoveProvider_def demo_multi_eq cancel_def)
  have a: "AddProvider ''kind'' demo_pv ?p2 = Some (None, ?p2\<lparr>mp_providers := fmupd ''kind'' demo_pv fmempty,
      mp_ch := Some [''kind'']\<rparr>)"
    unfolding p2 unfolding p1 by (simp add: AddProvider_def demo_multi_eq)
  have r: "multi_recv 0 ?p3 = Some (?p3\<lparr>mp_ch := Some [], mp_ctxs := [(None, False), (Some 0, True), (Some 0, False)],
      mp_cancels := fmupd ''kind'' 2 fmempty, mp_running := [(''kind'', 1), (''kind'', 2)]\<rparr>)"
    unfolding a unfolding p2 unfolding p1
    by (simp add: multi_recv_def startProvider_def demo_multi_eq demo_pv_def with_cancel_def numeral_eq_Suc)
  have "multi_step demo_multi ?p1" by (rule multi_step.start) (simp add: demo_multi_eq iter_order_def)
  moreover have "multi_step ?p1 ?p2" by (rule multi_step.remove)
  moreover have "multi_step ?p2 ?p3" by (rule multi_step.add[where err = None and name = "''kind''" and pv = demo_pv]) (simp add: a)
  moreover have "multi_step ?p3 ?p4" by (rule multi_step.recv[where parent = 0]) (simp add: r)
  ultimately have "multi_step\<^sup>*\<^sup>* (multi_New \<lparr>Separator = '''', ChannelSize = 0, LoggerSuffix = ''''\<rparr> [(None, False)]) ?p4"
    using demo_multi_reach by (meson rtranclp.rtrancl_into_rtrancl)
  moreover have e4: "?p4 = demo_multi\<lparr>mp_once := True, mp_ch := Some [],
      mp_ctxs := [(None, False), (Some 0, True), (Some 0, False)],
      mp_cancels := fmupd ''kind'' 2 fmempty, mp_running := [(''kind'', 1), (''kind'', 2)]\<rparr>"
    unfolding r unfolding a unfolding p2 unfolding p1 by (simp add: demo_multi_eq)
  moreover have "ctx_err (mp_ctxs (provider_returned (''kind'', 1) ?p4)) 2"
    "multi_GetProvider (provider_returned (''kind'', 1) ?p4) ''kind'' = None"
    unfolding e4 by (simp_all add: provider_returned_def RemoveProvider_def ctx_err_cancel_self multi_GetProvider_def)
  moreover have "ctx_err (mp_ctxs ?p4) 1" "\<not> ctx_err (mp_ctxs ?p4) 2"
    unfolding e4 by (simp_all add: ctx_err.simps)
  moreover have "multi_GetProvider ?p4 ''kind'' = Some demo_pv" "(''kind'', 1) \<in> set (mp_running ?p4)"
    "fmlookup (mp_cancels ?p4) ''kind'' = Some 2"
    unfolding e4 by (simp_all add: multi_GetProvider_def demo_multi_eq)
  ultimately show ?thesis by blast
qed

end
