(* ===== verification/Reconcile.thy ===== *)
theory Reconcile
  imports Clusters
begin

text \<open>
  \<open>pkg/reconcile\<close> and \<open>pkg/context\<close>: requests that carry a cluster name, the wrapper that
  ignores clusters that are gone, and the cluster name in a context. A reconciler is a
  function from a context value and a request to a result and an error.
\<close>

subsection \<open>Requests\<close>

record Request =
  rq_key :: nsname
  rq_ClusterName :: cluster_name

definition Request_String :: "Request \<Rightarrow> string" where
  "Request_String r =
     (if rq_ClusterName r = '''' then nsname_string (rq_key r)
      else ''cluster://'' @ rq_ClusterName r @ ''/'' @ nsname_string (rq_key r))"

definition Request_Cluster :: "Request \<Rightarrow> cluster_name" where
  "Request_Cluster r = rq_ClusterName r"

definition Request_WithCluster :: "cluster_name \<Rightarrow> Request \<Rightarrow> Request" where
  "Request_WithCluster name r = r\<lparr>rq_ClusterName := name\<rparr>"

text \<open>\<open>WithCluster[request]\<close> lifts a request of any type; \<open>show\<close> is \<open>fmt.Sprint\<close> of it.\<close>

record 'r with_cluster =
  wc_Request :: 'r
  wc_ClusterName :: cluster_name

definition WithCluster_String :: "('r \<Rightarrow> string) \<Rightarrow> 'r with_cluster \<Rightarrow> string" where
  "WithCluster_String show r =
     (if wc_ClusterName r = '''' then show (wc_Request r)
      else ''cluster://'' @ wc_ClusterName r @ ''/'' @ show (wc_Request r))"

definition WithCluster_Cluster :: "'r with_cluster \<Rightarrow> cluster_name" where
  "WithCluster_Cluster r = wc_ClusterName r"

definition WithCluster_WithCluster :: "cluster_name \<Rightarrow> 'r with_cluster \<Rightarrow> 'r with_cluster" where
  "WithCluster_WithCluster name r = r\<lparr>wc_ClusterName := name\<rparr>"

subsection \<open>Reconcilers\<close>

record Result =
  Requeue :: bool
  RequeueAfter :: int

definition zero_Result :: Result where "zero_Result = \<lparr>Requeue = False, RequeueAfter = 0\<rparr>"

type_synonym ('c, 'r) reconciler = "'c \<Rightarrow> 'r \<Rightarrow> Result \<times> go_error option"

definition ClusterNotFoundWrapper :: "('c, 'r) reconciler \<Rightarrow> ('c, 'r) reconciler" where
  "ClusterNotFoundWrapper wrapped cx req =
     (let (res, err) = wrapped cx req
      in if (case err of None \<Rightarrow> False | Some e \<Rightarrow> is_cluster_not_found e)
         then (zero_Result, None) else (res, err))"

definition NewClusterNotFoundWrapper :: "('c, 'r) reconciler \<Rightarrow> ('c, 'r) reconciler" where
  "NewClusterNotFoundWrapper w = ClusterNotFoundWrapper w"

text \<open>The wrapper prints as what it wraps; \<open>show\<close> is \<open>fmt.Sprintf("%v")\<close>.\<close>

definition ClusterNotFoundWrapper_String :: "(('c, 'r) reconciler \<Rightarrow> string) \<Rightarrow> ('c, 'r) reconciler \<Rightarrow> string" where
  "ClusterNotFoundWrapper_String show wrapped = show wrapped"

subsection \<open>The cluster in the context\<close>

text \<open>The part of a context that the package reads and writes: the value under its key.\<close>

record value_ctx =
  vc_cluster :: "cluster_name option"

definition ctx_WithCluster :: "cluster_name \<Rightarrow> value_ctx \<Rightarrow> value_ctx" where
  "ctx_WithCluster name cx = cx\<lparr>vc_cluster := Some name\<rparr>"

definition ctx_ClusterFrom :: "value_ctx \<Rightarrow> cluster_name \<times> bool" where
  "ctx_ClusterFrom cx = (case vc_cluster cx of None \<Rightarrow> ('''', False) | Some n \<Rightarrow> (n, True))"

definition ReconcilerWithClusterInContext ::
  "(value_ctx, nsname) reconciler \<Rightarrow> (value_ctx, Request) reconciler" where
  "ReconcilerWithClusterInContext r cx req =
     r (ctx_WithCluster (rq_ClusterName req) cx) (rq_key req)"

subsection \<open>Printing\<close>

definition plain :: "string \<Rightarrow> bool" where
  "plain s \<longleftrightarrow> CHR ''/'' \<notin> set s"

definition plain_request :: "Request \<Rightarrow> bool" where
  "plain_request r \<longleftrightarrow>
     plain (rq_ClusterName r) \<and> plain (nn_namespace (rq_key r)) \<and> plain (nn_name (rq_key r))"

lemma plain_split: "plain a \<Longrightarrow> plain b \<Longrightarrow> a @ CHR ''/'' # s = b @ CHR ''/'' # t \<Longrightarrow> a = b \<and> s = t"
  by (induction a arbitrary: b) (auto simp: plain_def Cons_eq_append_conv)

lemma plain_count: "plain s \<Longrightarrow> count_list s (CHR ''/'') = 0"
  by (induction s) (auto simp: plain_def)

lemma nsname_string_inj:
  "plain (nn_namespace a) \<Longrightarrow> plain (nn_namespace b) \<Longrightarrow> nsname_string a = nsname_string b \<Longrightarrow> a = b"
  using plain_split[of "nn_namespace a" "nn_namespace b" "nn_name a" "nn_name b"]
  by (auto simp: nsname_string_def intro: nsname.expand)

lemma Request_String_count:
  "plain_request r \<Longrightarrow>
     count_list (Request_String r) (CHR ''/'') = (if rq_ClusterName r = '''' then 1 else 4)"
  by (simp add: Request_String_def nsname_string_def plain_request_def plain_count)

lemma Request_String_local:
  "rq_ClusterName r = '''' \<Longrightarrow> Request_String r = nsname_string (rq_key r)"
  by (simp add: Request_String_def)

lemma Request_String_remote:
  "rq_ClusterName r \<noteq> '''' \<Longrightarrow>
   Request_String r = ''cluster://'' @ rq_ClusterName r @ CHR ''/'' # nsname_string (rq_key r)"
  by (simp add: Request_String_def)

subsection \<open>Properties\<close>

text \<open>
  The printed form identifies a request. Two requests whose cluster name, namespace and
  name contain no slash print differently unless they are equal, also when one of them
  belongs to the local cluster.
\<close>

theorem Request_String_injective:
  assumes "plain_request a" and "plain_request b" and "Request_String a = Request_String b"
  shows "a = b"
proof -
  have count: "(if rq_ClusterName b = '''' then 1 else 4) = (if rq_ClusterName a = '''' then 1 else (4::nat))"
    using Request_String_count[OF assms(1)]
    unfolding assms(3) Request_String_count[OF assms(2)] .
  then have empty: "rq_ClusterName a = '''' \<longleftrightarrow> rq_ClusterName b = ''''"
    by (cases "rq_ClusterName a = ''''"; cases "rq_ClusterName b = ''''") simp_all
  show ?thesis
  proof (cases "rq_ClusterName a = ''''")
    case True
    then have "nsname_string (rq_key a) = nsname_string (rq_key b)"
      using assms(3) empty by (simp only: Request_String_local)
    with assms(1,2) have "rq_key a = rq_key b"
      by (intro nsname_string_inj) (simp_all only: plain_request_def)
    with True empty show ?thesis by simp
  next
    case False
    then have nb: "rq_ClusterName b \<noteq> ''''" using empty by simp
    have "rq_ClusterName a @ CHR ''/'' # nsname_string (rq_key a) =
        rq_ClusterName b @ CHR ''/'' # nsname_string (rq_key b)"
      using assms(3) unfolding Request_String_remote[OF False] Request_String_remote[OF nb]
      by (simp only: same_append_eq)
    then have eq: "rq_ClusterName a = rq_ClusterName b" "nsname_string (rq_key a) = nsname_string (rq_key b)"
      using plain_split assms(1,2) unfolding plain_request_def by blast+
    from eq(2) assms(1,2) have "rq_key a = rq_key b"
      by (intro nsname_string_inj) (simp_all only: plain_request_def)
    with eq(1) show ?thesis by simp
  qed
qed

theorem Request_String_injective_witness:
  "Request_String \<lparr>rq_key = NsName ''ns'' ''a'', rq_ClusterName = ''c''\<rparr> \<noteq>
   Request_String \<lparr>rq_key = NsName ''ns'' ''a'', rq_ClusterName = ''d''\<rparr>"
  using Request_String_injective[of "\<lparr>rq_key = NsName ''ns'' ''a'', rq_ClusterName = ''c''\<rparr>"
      "\<lparr>rq_key = NsName ''ns'' ''a'', rq_ClusterName = ''d''\<rparr>"]
  by (auto simp: plain_request_def plain_def)

definition lookup_reconciler ::
  "cluster_set \<Rightarrow> (go_error \<Rightarrow> go_error) \<Rightarrow> (cluster_h \<Rightarrow> Request \<Rightarrow> Result \<times> go_error option) \<Rightarrow>
   ('c, Request) reconciler" where
  "lookup_reconciler c wrap body cx req =
     (case clusters_Get c (rq_ClusterName req) of
        Inl e \<Rightarrow> (zero_Result, Some (wrap e))
      | Inr cl \<Rightarrow> body cl req)"

text \<open>
  Requests for clusters that are gone are not retried. A wrapped reconciler that looks its
  cluster up among the engaged clusters and returns the lookup's error (possibly wrapped
  again) ends with the empty result and no error when the name is unknown; any other error
  and every result reach the caller unchanged.
\<close>

theorem gone_cluster_not_retried:
  assumes "\<And>e. is_cluster_not_found (wrap e) = is_cluster_not_found e"
    and "\<And>cl e. snd (body cl req) = Some e \<Longrightarrow> \<not> is_cluster_not_found e"
  shows "ClusterNotFoundWrapper (lookup_reconciler c wrap body) cx req =
     (case clusters_known c (rq_ClusterName req) of
        None \<Rightarrow> (zero_Result, None)
      | Some cl \<Rightarrow> body cl req)"
proof (cases "clusters_known c (rq_ClusterName req)")
  case None
  from clustersGet.get_unknown[OF None] obtain e
    where "clusters_Get c (rq_ClusterName req) = Inl e" "is_cluster_not_found e" by blast
  with None assms(1) show ?thesis by (simp add: ClusterNotFoundWrapper_def lookup_reconciler_def)
next
  case (Some cl)
  then have "clusters_Get c (rq_ClusterName req) = Inr cl" by (rule clustersGet.get_known)
  with Some assms(2)[of cl] show ?thesis
    by (auto simp: ClusterNotFoundWrapper_def lookup_reconciler_def split: prod.splits option.splits)
qed

theorem gone_cluster_not_retried_witness:
  "ClusterNotFoundWrapper (lookup_reconciler (clusters_New []) (\<lambda>e. Errorf ''get: %w'' [] (Some e))
     (\<lambda>cl req. (\<lparr>Requeue = True, RequeueAfter = 1\<rparr>, None))) ()
     \<lparr>rq_key = NsName ''ns'' ''a'', rq_ClusterName = ''c''\<rparr> = (zero_Result, None)"
  by (subst gone_cluster_not_retried) (simp_all add: clusters_New_def)

end
