(* ===== verification/Manager.thy ===== *)
theory Manager
  imports Coordinator Reconcile
begin

text \<open>
  \<open>pkg/manager/manager.go\<close>, \<open>pkg/manager/coordinator.go\<close> and the basic coordinator of
  \<open>pkg/manager/coordinator/basic\<close>. The host manager and the provider are interfaces: what their
  methods return is a parameter, and the state records what was added to the host manager.
\<close>

subsection \<open>The basic coordinator\<close>

type_synonym aware_call = "aware_h \<times> ctx \<times> cluster_name \<times> cluster_h"

record basic_coordinator =
  b_awares :: "aware_h list"
  b_calls :: "aware_call list"

definition basic_New :: basic_coordinator where
  "basic_New = \<lparr>b_awares = [], b_calls = []\<rparr>"

definition basic_AddAware :: "aware_h \<Rightarrow> basic_coordinator \<Rightarrow> basic_coordinator" where
  "basic_AddAware r c = c\<lparr>b_awares := b_awares c @ [r]\<rparr>"

definition basic_Engage ::
  "engage_oracle \<Rightarrow> ctx \<Rightarrow> cluster_name \<Rightarrow> cluster_h \<Rightarrow> basic_coordinator \<Rightarrow>
   go_error option \<times> basic_coordinator" where
  "basic_Engage aw cx name cl c =
     (let (err, calls) = engage_awares aw cx name cl (b_awares c) (b_calls c)
      in (err, c\<lparr>b_calls := calls\<rparr>))"

text \<open>No background work: \<open>Runnable\<close> returns nil.\<close>

definition basic_Runnable :: "basic_coordinator \<Rightarrow> nat option" where
  "basic_Runnable c = None"

subsection \<open>The manager\<close>

text \<open>A coordinator as the manager sees it; \<open>OtherCoord\<close> is one that was set by an option.\<close>

datatype coord = BasicCoord basic_coordinator | OtherCoord nat "nat option" "aware_h list"

fun coord_Runnable :: "coord \<Rightarrow> nat option" where
  "coord_Runnable (BasicCoord c) = basic_Runnable c"
| "coord_Runnable (OtherCoord h run as) = run"

fun coord_AddAware :: "aware_h \<Rightarrow> coord \<Rightarrow> coord" where
  "coord_AddAware a (BasicCoord c) = BasicCoord (basic_AddAware a c)"
| "coord_AddAware a (OtherCoord h run as) = OtherCoord h run (as @ [a])"

text \<open>What can be added to the host manager.\<close>

datatype runnable = CoordRunnable nat | UserRunnable aware_h | ProviderRunnable

record host_iface =
  host_cluster :: cluster_h
  host_add :: "runnable \<Rightarrow> go_error option"
  host_index :: "index \<Rightarrow> go_error option"
  host_start :: "runnable list \<Rightarrow> go_error option"

record mc_manager =
  mm_provider :: "provider_iface option"
  mm_coord :: "coord option"
  mm_added :: "runnable list"

type_synonym manager_option = "mc_manager \<Rightarrow> mc_manager"

definition LocalCluster :: cluster_name where "LocalCluster = ''''"

definition WithCoordinator :: "coord option \<Rightarrow> manager_option" where
  "WithCoordinator c m = m\<lparr>mm_coord := c\<rparr>"

definition host_Add :: "host_iface \<Rightarrow> runnable \<Rightarrow> mc_manager \<Rightarrow> go_error option \<times> mc_manager" where
  "host_Add H r m =
     (case host_add H r of
        Some e \<Rightarrow> (Some e, m)
      | None \<Rightarrow> (None, m\<lparr>mm_added := mm_added m @ [r]\<rparr>))"

definition WithMultiCluster ::
  "host_iface \<Rightarrow> provider_iface option \<Rightarrow> manager_option list \<Rightarrow> go_error + mc_manager" where
  "WithMultiCluster H provider mcOpts =
     (let m0 = \<lparr>mm_provider = provider, mm_coord = None, mm_added = []\<rparr>;
          m1 = fold (\<lambda>opt m. opt m) mcOpts m0;
          cd = (case mm_coord m1 of None \<Rightarrow> BasicCoord basic_New | Some cd \<Rightarrow> cd);
          m2 = m1\<lparr>mm_coord := Some cd\<rparr>
      in case coord_Runnable cd of
           None \<Rightarrow> Inr m2
         | Some run \<Rightarrow>
             (case host_Add H (CoordRunnable run) m2 of
                (Some e, _) \<Rightarrow> Inl e
              | (None, m3) \<Rightarrow> Inr m3))"

text \<open>\<open>newhost\<close> is the result of \<open>manager.New(config, opts)\<close>.\<close>

definition manager_New ::
  "go_error + host_iface \<Rightarrow> provider_iface option \<Rightarrow> manager_option list \<Rightarrow> go_error + mc_manager" where
  "manager_New newhost provider mcOpts =
     (case newhost of Inl e \<Rightarrow> Inl e | Inr H \<Rightarrow> WithMultiCluster H provider mcOpts)"

definition GetCluster :: "host_iface \<Rightarrow> mc_manager \<Rightarrow> cluster_name \<Rightarrow> go_error + cluster_h" where
  "GetCluster H m name =
     (if name = LocalCluster then Inr (host_cluster H)
      else (case mm_provider m of
              None \<Rightarrow> Inl (Errorf ''no multicluster provider set, but cluster %q passed'' [name] None)
            | Some p \<Rightarrow> pv_get p name))"

definition ClusterFromContext :: "host_iface \<Rightarrow> mc_manager \<Rightarrow> value_ctx \<Rightarrow> go_error + cluster_h" where
  "ClusterFromContext H m cx =
     (case ctx_ClusterFrom cx of
        (name, ok) \<Rightarrow>
          if \<not> ok
          then Inl (Errorf ''no cluster set in context, use ReconcilerWithCluster helper when building the controller'' [] None)
          else GetCluster H m name)"

text \<open>The host manager and the provider, as the manager was given them.\<close>

definition GetLocalManager :: "host_iface \<Rightarrow> mc_manager \<Rightarrow> host_iface" where
  "GetLocalManager H m = H"

definition manager_GetProvider :: "mc_manager \<Rightarrow> provider_iface option" where
  "manager_GetProvider m = mm_provider m"

lemma manager_getters [simp]: "GetLocalManager H m = H" "manager_GetProvider m = mm_provider m"
  by (simp_all add: GetLocalManager_def manager_GetProvider_def)

definition manager_Add :: "host_iface \<Rightarrow> aware_h \<Rightarrow> mc_manager \<Rightarrow> go_error option \<times> mc_manager" where
  "manager_Add H r m =
     host_Add H (UserRunnable r) (m\<lparr>mm_coord := map_option (coord_AddAware r) (mm_coord m)\<rparr>)"

text \<open>\<open>Engage\<close> hands over to the coordinator; \<open>other\<close> is that of a coordinator that was set.\<close>

definition manager_Engage ::
  "engage_oracle \<Rightarrow> (ctx \<Rightarrow> cluster_name \<Rightarrow> cluster_h \<Rightarrow> go_error option) \<Rightarrow> ctx \<Rightarrow> cluster_name \<Rightarrow> cluster_h \<Rightarrow>
   mc_manager \<Rightarrow> go_error option \<times> mc_manager" where
  "manager_Engage aw other cx name cl m =
     (case mm_coord m of
        Some (BasicCoord c) \<Rightarrow>
          (let (err, c') = basic_Engage aw cx name cl c
           in (err, m\<lparr>mm_coord := Some (BasicCoord c')\<rparr>))
      | _ \<Rightarrow> (other cx name cl, m))"

text \<open>\<open>GetManager\<close> returns the scoped manager: the cluster next to the multicluster manager.\<close>

record scoped_manager =
  sm_cluster :: cluster_h
  sm_manager :: mc_manager

definition GetManager :: "host_iface \<Rightarrow> mc_manager \<Rightarrow> cluster_name \<Rightarrow> go_error + scoped_manager" where
  "GetManager H m name =
     (case GetCluster H m name of
        Inl e \<Rightarrow> Inl e
      | Inr cl \<Rightarrow> Inr \<lparr>sm_cluster = cl, sm_manager = m\<rparr>)"

definition manager_IndexField :: "host_iface \<Rightarrow> mc_manager \<Rightarrow> index \<Rightarrow> go_error option" where
  "manager_IndexField H m i =
     (case mm_provider m of
        Some p \<Rightarrow>
          (case pv_index p i of
             Some e \<Rightarrow> Some (Errorf ''failed to index field %q on multi-cluster provider: %w'' [idx_Field i] (Some e))
           | None \<Rightarrow> None)
      | None \<Rightarrow> host_index H i)"

definition manager_Start :: "host_iface \<Rightarrow> mc_manager \<Rightarrow> go_error option \<times> mc_manager" where
  "manager_Start H m =
     (if (case manager_GetProvider m of None \<Rightarrow> False | Some p \<Rightarrow> pv_runnable p)
      then (case host_Add H ProviderRunnable m of
              (Some e, m1) \<Rightarrow> (Some e, m1)
            | (None, m1) \<Rightarrow> (host_start H (mm_added m1), m1))
      else (host_start H (mm_added m), m))"

subsection \<open>The scoped manager\<close>

definition scoped_Add :: "host_iface \<Rightarrow> runnable \<Rightarrow> scoped_manager \<Rightarrow> go_error option \<times> scoped_manager" where
  "scoped_Add H r s =
     (case host_Add (GetLocalManager H (sm_manager s)) r (sm_manager s) of
        (err, m) \<Rightarrow> (err, s\<lparr>sm_manager := m\<rparr>))"

definition scoped_Start :: "host_iface \<Rightarrow> scoped_manager \<Rightarrow> go_error option" where
  "scoped_Start H s = host_start (GetLocalManager H (sm_manager s)) (mm_added (sm_manager s))"

definition scoped_IndexField ::
  "(cluster_h \<Rightarrow> index \<Rightarrow> go_error option) \<Rightarrow> scoped_manager \<Rightarrow> index \<Rightarrow> go_error option" where
  "scoped_IndexField cluster_index s i = cluster_index (sm_cluster s) i"

text \<open>\<open>conv\<close> is \<open>GetConverterRegistry\<close> of a host manager.\<close>

definition scoped_GetConverterRegistry :: "(host_iface \<Rightarrow> 'reg) \<Rightarrow> host_iface \<Rightarrow> scoped_manager \<Rightarrow> 'reg" where
  "scoped_GetConverterRegistry conv H s = conv (GetLocalManager H (sm_manager s))"

subsection \<open>The coordinator interface\<close>

text \<open>
  What the manager relies on when it hands a cluster to a coordinator: awares are only ever
  called for a cluster that was handed in, and only if they were registered.
\<close>

locale coordinator_if =
  fixes awares :: "'s \<Rightarrow> aware_h list"
    and calls :: "'s \<Rightarrow> aware_call list"
    and offered :: "'s \<Rightarrow> (cluster_name \<times> cluster_h) set"
    and step :: "'s \<Rightarrow> 's \<Rightarrow> bool"
    and good :: "'s \<Rightarrow> bool"
  assumes step_good: "good s \<Longrightarrow> step s s' \<Longrightarrow> good s'"
    and good_calls: "good s \<Longrightarrow> (a, cx, n, cl) \<in> set (calls s) \<Longrightarrow> a \<in> set (awares s) \<and> (n, cl) \<in> offered s"
begin

lemma run_calls_offered:
  assumes "step\<^sup>*\<^sup>* s s'" and "good s" and "(a, cx, n, cl) \<in> set (calls s')"
  shows "a \<in> set (awares s') \<and> (n, cl) \<in> offered s'"
proof -
  from assms(1,2) have "good s'" by (induction rule: rtranclp_induct) (auto intro: step_good)
  with assms(3) show ?thesis by (rule good_calls[rotated])
qed

end

lemma engage_awares_calls:
  "engage_awares aw cx name cl as calls = (err, calls') \<Longrightarrow>
     \<exists>ys zs. as = ys @ zs \<and> calls' = calls @ map (\<lambda>a. (a, cx, name, cl)) ys \<and>
       (err = None \<longrightarrow> zs = [])"
proof (induction aw cx name cl as calls rule: engage_awares.induct)
  case (2 aw cx name cl a as calls)
  show ?case
  proof (cases "aw calls (a, cx, name, cl)")
    case None
    with "2.prems" have "engage_awares aw cx name cl as (calls @ [(a, cx, name, cl)]) = (err, calls')" by simp
    from "2.IH"[OF None this] obtain ys zs where "as = ys @ zs"
      "calls' = (calls @ [(a, cx, name, cl)]) @ map (\<lambda>a. (a, cx, name, cl)) ys" "err = None \<longrightarrow> zs = []"
      by blast
    then show ?thesis by (intro exI[of _ "a # ys"] exI[of _ zs]) simp
  next
    case (Some e)
    with "2.prems" show ?thesis by - (rule exI[of _ "[a]"], rule exI[of _ as], auto)
  qed
qed simp

text \<open>The basic coordinator with the clusters that it was handed so far.\<close>

inductive basic_step ::
  "engage_oracle \<Rightarrow> basic_coordinator \<times> (cluster_name \<times> cluster_h) set \<Rightarrow>
   basic_coordinator \<times> (cluster_name \<times> cluster_h) set \<Rightarrow> bool" for aw :: engage_oracle where
  add: "basic_step aw (c, X) (basic_AddAware a c, X)"
| engage: "basic_Engage aw cx n cl c = (err, c') \<Longrightarrow> basic_step aw (c, X) (c', insert (n, cl) X)"

definition basic_good :: "basic_coordinator \<times> (cluster_name \<times> cluster_h) set \<Rightarrow> bool" where
  "basic_good x \<longleftrightarrow> (\<forall>(a, cx, n, cl) \<in> set (b_calls (fst x)). a \<in> set (b_awares (fst x)) \<and> (n, cl) \<in> snd x)"

interpretation basicCoord: coordinator_if "\<lambda>x. b_awares (fst x)" "\<lambda>x. b_calls (fst x)" snd
  "basic_step aw" basic_good
proof unfold_locales
  fix s s' assume g: "basic_good s" and st: "basic_step aw s s'"
  from st show "basic_good s'"
  proof cases
    case (add c X a)
    with g show ?thesis by (auto simp: basic_good_def basic_AddAware_def)
  next
    case (engage cx n cl c err c' X)
    obtain calls where ea: "engage_awares aw cx n cl (b_awares c) (b_calls c) = (err, calls)"
      and c': "c' = c\<lparr>b_calls := calls\<rparr>"
      using engage(3) by (auto simp: basic_Engage_def split: prod.splits)
    from engage_awares_calls[OF ea] obtain ys zs where
      "b_awares c = ys @ zs" "calls = b_calls c @ map (\<lambda>a. (a, cx, n, cl)) ys" by blast
    with g engage(1,2) c' show ?thesis by (auto simp: basic_good_def)
  qed
qed (auto simp: basic_good_def)

subsection \<open>Properties\<close>

lemma engage_awares_error:
  "engage_awares aw cx name cl as calls = (Some e, calls') \<Longrightarrow>
     \<exists>ys a zs. as = ys @ a # zs \<and> calls' = calls @ map (\<lambda>a. (a, cx, name, cl)) (ys @ [a]) \<and>
       aw (calls @ map (\<lambda>a. (a, cx, name, cl)) ys) (a, cx, name, cl) = Some e"
proof (induction aw cx name cl as calls rule: engage_awares.induct)
  case (2 aw cx name cl a as calls)
  show ?case
  proof (cases "aw calls (a, cx, name, cl)")
    case None
    with "2.prems" have "engage_awares aw cx name cl as (calls @ [(a, cx, name, cl)]) = (Some e, calls')" by simp
    from "2.IH"[OF None this] obtain ys b zs where "as = ys @ b # zs"
      "calls' = (calls @ [(a, cx, name, cl)]) @ map (\<lambda>a. (a, cx, name, cl)) (ys @ [b])"
      "aw ((calls @ [(a, cx, name, cl)]) @ map (\<lambda>a. (a, cx, name, cl)) ys) (b, cx, name, cl) = Some e"
      by blast
    then show ?thesis
      by (intro exI[of _ "a # ys"], intro exI[of _ b], intro exI[of _ zs]) simp
  next
    case (Some x)
    with "2.prems" show ?thesis by (auto intro!: exI[of _ "[]"])
  qed
qed simp

lemma engage_awares_ok:
  "engage_awares aw cx name cl as calls = (None, calls') \<Longrightarrow> as = ys @ a # zs \<Longrightarrow>
     aw (calls @ map (\<lambda>a. (a, cx, name, cl)) ys) (a, cx, name, cl) = None"
proof (induction aw cx name cl as calls arbitrary: ys rule: engage_awares.induct)
  case (2 aw cx name cl b bs calls)
  from "2.prems"(1) have b: "aw calls (b, cx, name, cl) = None" by (simp split: option.splits)
  with "2.prems"(1) have rest: "engage_awares aw cx name cl bs (calls @ [(b, cx, name, cl)]) = (None, calls')" by simp
  show ?case
  proof (cases ys)
    case Nil
    with b "2.prems"(2) show ?thesis by simp
  next
    case (Cons y ys')
    with "2.prems"(2) "2.IH"[OF b rest, of ys'] show ?thesis by simp
  qed
qed simp

text \<open>
  The basic coordinator engages every registered aware, in the order of registration. It
  returns nil exactly when all of them did; otherwise it stops at the first aware that fails
  and returns its error, and the awares after it are not called.
\<close>

theorem basic_Engage_all_in_order:
  assumes "basic_Engage aw cx name cl c = (err, c')"
  shows "b_awares c' = b_awares c \<and>
     (case err of
        None \<Rightarrow> b_calls c' = b_calls c @ map (\<lambda>a. (a, cx, name, cl)) (b_awares c) \<and>
          (\<forall>ys a zs. b_awares c = ys @ a # zs \<longrightarrow>
             aw (b_calls c @ map (\<lambda>a. (a, cx, name, cl)) ys) (a, cx, name, cl) = None)
      | Some e \<Rightarrow> \<exists>ys a zs. b_awares c = ys @ a # zs \<and>
          b_calls c' = b_calls c @ map (\<lambda>a. (a, cx, name, cl)) (ys @ [a]) \<and>
          aw (b_calls c @ map (\<lambda>a. (a, cx, name, cl)) ys) (a, cx, name, cl) = Some e)"
proof -
  obtain calls where e: "engage_awares aw cx name cl (b_awares c) (b_calls c) = (err, calls)"
    and c': "c' = c\<lparr>b_calls := calls\<rparr>"
    using assms by (auto simp: basic_Engage_def split: prod.splits)
  show ?thesis
  proof (cases err)
    case None
    with e engage_awares_calls[OF e] c' show ?thesis by (auto dest: engage_awares_ok)
  next
    case (Some x)
    with e have "engage_awares aw cx name cl (b_awares c) (b_calls c) = (Some x, calls)" by simp
    from engage_awares_error[OF this] Some c' show ?thesis by simp
  qed
qed

theorem basic_Engage_all_in_order_witness:
  "b_calls (snd (basic_Engage (\<lambda>_ _. None) 0 ''c'' 7 \<lparr>b_awares = [1, 2], b_calls = []\<rparr>)) =
     [(1, 0, ''c'', 7), (2, 0, ''c'', 7)]"
  using basic_Engage_all_in_order[OF surjective_pairing, of "\<lambda>_ _. None" 0 "''c''" 7
      "\<lparr>b_awares = [1, 2], b_calls = []\<rparr>"]
  by (simp add: basic_Engage_def)

text \<open>
  Awares only see clusters that were handed in. In every run of the basic coordinator, each
  call of an aware's \<open>Engage\<close> is for a registered aware and for a cluster, under its name,
  that the coordinator's own \<open>Engage\<close> received.
\<close>

theorem basic_calls_offered:
  assumes "(basic_step aw)\<^sup>*\<^sup>* (basic_New, {}) (c, X)" and "(a, cx, n, cl) \<in> set (b_calls c)"
  shows "a \<in> set (b_awares c) \<and> (n, cl) \<in> X"
  using basicCoord.run_calls_offered[OF assms(1), of a cx n cl] assms(2)
  by (simp add: basic_good_def basic_New_def)

theorem basic_calls_offered_witness:
  "1 \<in> set (b_awares (snd (basic_Engage (\<lambda>_ _. None) 0 ''c'' 7 (basic_AddAware 1 basic_New))))"
proof -
  let ?c1 = "basic_AddAware 1 basic_New"
  let ?c2 = "snd (basic_Engage (\<lambda>_ _. None) 0 ''c'' 7 ?c1)"
  have "(basic_step (\<lambda>_ _. None))\<^sup>*\<^sup>* (basic_New, {}) (?c1, {})"
    by (rule r_into_rtranclp, rule basic_step.add)
  moreover have "basic_step (\<lambda>_ _. None) (?c1, {}) (?c2, insert (''c'', 7) {})"
    by (rule basic_step.engage) (rule surjective_pairing)
  ultimately have "(basic_step (\<lambda>_ _. None))\<^sup>*\<^sup>* (basic_New, {}) (?c2, {(''c'', 7)})"
    by (rule rtranclp.rtrancl_into_rtrancl)
  then show ?thesis
    using basic_calls_offered[of "\<lambda>_ _. None" ?c2 "{(''c'', 7)}" 1 0 "''c''" 7]
    by (simp add: basic_Engage_def basic_AddAware_def basic_New_def)
qed

text \<open>
  Cluster lookup and start of the manager. The empty name is the host, whatever the
  provider; without a provider any other name is an error; otherwise the provider decides.
  \<open>Start\<close> adds a runnable provider as the last runnable and then starts the host manager with
  everything that was added; a provider that the host refuses makes it return that error
  without starting.
\<close>

theorem manager_lookup_and_start:
  "GetCluster H m '''' = Inr (host_cluster H) \<and>
   (name \<noteq> '''' \<longrightarrow>
      (case mm_provider m of None \<Rightarrow> \<exists>e. GetCluster H m name = Inl e \<and> \<not> is_cluster_not_found e
       | Some p \<Rightarrow> GetCluster H m name = pv_get p name)) \<and>
   manager_Start H m =
     (case mm_provider m of
        Some p \<Rightarrow>
          if pv_runnable p
          then (case host_add H ProviderRunnable of
                  Some e \<Rightarrow> (Some e, m)
                | None \<Rightarrow> (host_start H (mm_added m @ [ProviderRunnable]),
                           m\<lparr>mm_added := mm_added m @ [ProviderRunnable]\<rparr>))
          else (host_start H (mm_added m), m)
      | None \<Rightarrow> (host_start H (mm_added m), m))"
  by (auto simp: GetCluster_def LocalCluster_def manager_Start_def host_Add_def split: option.splits)

theorem manager_lookup_and_start_witness:
  "\<exists>e. GetCluster \<lparr>host_cluster = 0, host_add = (\<lambda>_. None), host_index = (\<lambda>_. None), host_start = (\<lambda>_. None)\<rparr>
     \<lparr>mm_provider = None, mm_coord = None, mm_added = []\<rparr> ''c'' = Inl e"
  using manager_lookup_and_start[of "\<lparr>host_cluster = 0, host_add = (\<lambda>_. None), host_index = (\<lambda>_. None), host_start = (\<lambda>_. None)\<rparr>"
     "\<lparr>mm_provider = None, mm_coord = None, mm_added = []\<rparr>" "''c''"] by auto

end
