(* ===== verification/Handler.thy ===== *)
theory Handler
  imports Reconcile
begin

text \<open>
  \<open>pkg/handler\<close>: event handlers of controller-runtime made aware of a cluster, by wrapping
  the work queue they write to. A handler of controller-runtime is other code that talks to
  its queue through the methods of the queue: it is a program over queue calls, and may choose
  its next call by the result of the last one. A queue answers calls by what was called before.
\<close>

subsection \<open>Queues and handlers\<close>

text \<open>The methods of \<open>workqueue.TypedRateLimitingInterface\<close>, and what they return.\<close>

datatype 'r queue_call =
    QAdd 'r | QLen | QGet | QDone 'r | QShutDown | QShutDownWithDrain | QShuttingDown
  | QAddAfter 'r int | QAddRateLimited 'r | QForget 'r | QNumRequeues 'r

datatype 'r queue_ret = RNothing | RInt int | RItem 'r bool | RBool bool

fun call_item :: "'r queue_call \<Rightarrow> 'r option" where
  "call_item (QAdd r) = Some r"
| "call_item (QDone r) = Some r"
| "call_item (QAddAfter r d) = Some r"
| "call_item (QAddRateLimited r) = Some r"
| "call_item (QForget r) = Some r"
| "call_item (QNumRequeues r) = Some r"
| "call_item c = None"

datatype 'r queue_prog = Return | Call "'r queue_call" "'r queue_ret \<Rightarrow> 'r queue_prog"

type_synonym 'r queue = "'r queue_call list \<Rightarrow> 'r queue_call \<Rightarrow> 'r queue_ret"

primrec run_prog :: "'r queue \<Rightarrow> 'r queue_prog \<Rightarrow> 'r queue_call list \<Rightarrow> 'r queue_call list" where
  "run_prog q Return log = log"
| "run_prog q (Call c k) log = run_prog q (k (q log c)) (log @ [c])"

record ('e, 'r) event_handler =
  h_Create :: "ctx \<Rightarrow> 'e \<Rightarrow> 'r queue_prog"
  h_Update :: "ctx \<Rightarrow> 'e \<Rightarrow> 'e \<Rightarrow> 'r queue_prog"
  h_Delete :: "ctx \<Rightarrow> 'e \<Rightarrow> 'r queue_prog"
  h_Generic :: "ctx \<Rightarrow> 'e \<Rightarrow> 'r queue_prog"

type_synonym ('e, 'r) event_handler_func = "cluster_name \<Rightarrow> cluster_h \<Rightarrow> ('e, 'r) event_handler"

text \<open>
  A program that runs on a queue that forwards each call to another queue: \<open>call\<close> is the
  forwarded call, and \<open>ret\<close> turns its result into that of the wrapper.
\<close>

primrec wrap_queue ::
  "('a queue_call \<Rightarrow> 'b queue_call) \<Rightarrow> ('b queue_ret \<Rightarrow> 'a queue_ret) \<Rightarrow> 'a queue_prog \<Rightarrow> 'b queue_prog" where
  "wrap_queue call ret Return = Return"
| "wrap_queue call ret (Call c k) = Call (call c) (\<lambda>r. wrap_queue call ret (k (ret r)))"

subsection \<open>Lifted handlers: \<open>lift.go\<close>\<close>

definition on_cluster :: "cluster_name \<Rightarrow> nsname \<Rightarrow> Request" where
  "on_cluster cl item = \<lparr>rq_key = item, rq_ClusterName = cl\<rparr>"

fun clusterQueue :: "cluster_name \<Rightarrow> nsname queue_call \<Rightarrow> Request queue_call" where
  "clusterQueue cl (QAdd item) = QAdd (on_cluster cl item)"
| "clusterQueue cl QLen = QLen"
| "clusterQueue cl QGet = QGet"
| "clusterQueue cl (QDone item) = QDone (on_cluster cl item)"
| "clusterQueue cl QShutDown = QShutDown"
| "clusterQueue cl QShutDownWithDrain = QShutDownWithDrain"
| "clusterQueue cl QShuttingDown = QShuttingDown"
| "clusterQueue cl (QAddAfter item d) = QAddAfter (on_cluster cl item) d"
| "clusterQueue cl (QAddRateLimited item) = QAddRateLimited (on_cluster cl item)"
| "clusterQueue cl (QForget item) = QForget (on_cluster cl item)"
| "clusterQueue cl (QNumRequeues item) = QNumRequeues (on_cluster cl item)"

fun clusterQueue_ret :: "Request queue_ret \<Rightarrow> nsname queue_ret" where
  "clusterQueue_ret (RItem it shutdown) = RItem (rq_key it) shutdown"
| "clusterQueue_ret RNothing = RNothing"
| "clusterQueue_ret (RInt i) = RInt i"
| "clusterQueue_ret (RBool b) = RBool b"

definition clusterHandler ::
  "('e, nsname) event_handler \<Rightarrow> cluster_name \<Rightarrow> ('e, Request) event_handler" where
  "clusterHandler h name =
     (let w = wrap_queue (clusterQueue name) clusterQueue_ret
      in \<lparr>h_Create = (\<lambda>cx evt. w (h_Create h cx evt)),
          h_Update = (\<lambda>cx old new. w (h_Update h cx old new)),
          h_Delete = (\<lambda>cx evt. w (h_Delete h cx evt)),
          h_Generic = (\<lambda>cx evt. w (h_Generic h cx evt))\<rparr>)"

definition TypedForCluster ::
  "('e, nsname) event_handler \<Rightarrow> cluster_name \<Rightarrow> ('e, Request) event_handler" where
  "TypedForCluster h name = clusterHandler h name"

definition TypedLift :: "('e, nsname) event_handler \<Rightarrow> ('e, Request) event_handler_func" where
  "TypedLift h name cl = clusterHandler h name"

definition Lift :: "('e, nsname) event_handler \<Rightarrow> ('e, Request) event_handler_func" where
  "Lift h = TypedLift h"

subsection \<open>Injected clusters: \<open>inject.go\<close>\<close>

text \<open>\<open>with\<close> is the method \<open>WithCluster\<close> of the request type.\<close>

fun clusterInjectingQueue ::
  "(cluster_name \<Rightarrow> 'r \<Rightarrow> 'r) \<Rightarrow> cluster_name \<Rightarrow> 'r queue_call \<Rightarrow> 'r queue_call" where
  "clusterInjectingQueue with cl (QAdd item) = QAdd (with cl item)"
| "clusterInjectingQueue with cl QLen = QLen"
| "clusterInjectingQueue with cl QGet = QGet"
| "clusterInjectingQueue with cl (QDone item) = QDone (with cl item)"
| "clusterInjectingQueue with cl QShutDown = QShutDown"
| "clusterInjectingQueue with cl QShutDownWithDrain = QShutDownWithDrain"
| "clusterInjectingQueue with cl QShuttingDown = QShuttingDown"
| "clusterInjectingQueue with cl (QAddAfter item d) = QAddAfter (with cl item) d"
| "clusterInjectingQueue with cl (QAddRateLimited item) = QAddRateLimited (with cl item)"
| "clusterInjectingQueue with cl (QForget item) = QForget (with cl item)"
| "clusterInjectingQueue with cl (QNumRequeues item) = QNumRequeues (with cl item)"

fun clusterInjectingQueue_ret :: "(cluster_name \<Rightarrow> 'r \<Rightarrow> 'r) \<Rightarrow> 'r queue_ret \<Rightarrow> 'r queue_ret" where
  "clusterInjectingQueue_ret with (RItem it shutdown) = RItem (with '''' it) shutdown"
| "clusterInjectingQueue_ret with r = r"

definition clusterInjectingHandler ::
  "(cluster_name \<Rightarrow> 'r \<Rightarrow> 'r) \<Rightarrow> ('e, 'r) event_handler \<Rightarrow> cluster_name \<Rightarrow> ('e, 'r) event_handler" where
  "clusterInjectingHandler with h name =
     (let w = wrap_queue (clusterInjectingQueue with name) (clusterInjectingQueue_ret with)
      in \<lparr>h_Create = (\<lambda>cx evt. w (h_Create h cx evt)),
          h_Update = (\<lambda>cx old new. w (h_Update h cx old new)),
          h_Delete = (\<lambda>cx evt. w (h_Delete h cx evt)),
          h_Generic = (\<lambda>cx evt. w (h_Generic h cx evt))\<rparr>)"

definition TypedInjectCluster ::
  "(cluster_name \<Rightarrow> 'r \<Rightarrow> 'r) \<Rightarrow> ('e, 'r) event_handler \<Rightarrow> ('e, 'r) event_handler_func" where
  "TypedInjectCluster with h name cl = clusterInjectingHandler with h name"

subsection \<open>The stock handlers: \<open>enqueue.go\<close>, \<open>enqueue_mapped.go\<close>, \<open>enqueue_owner.go\<close>\<close>

text \<open>
  The handlers of controller-runtime are arguments: for an object, from a map function, for an
  owner with the scheme and REST mapper of the cluster, and the one that lowers priorities.
\<close>

definition TypedEnqueueRequestForObject ::
  "('e, nsname) event_handler \<Rightarrow> ('e, Request) event_handler_func" where
  "TypedEnqueueRequestForObject cr = TypedLift cr"

definition EnqueueRequestForObject ::
  "('e, nsname) event_handler \<Rightarrow> ('e, Request) event_handler_func" where
  "EnqueueRequestForObject cr name cl = Lift cr name cl"

definition WithLowPriorityWhenUnchanged ::
  "(('e, 'r) event_handler \<Rightarrow> ('e, 'r) event_handler) \<Rightarrow> ('e, 'r) event_handler_func \<Rightarrow>
   ('e, 'r) event_handler_func" where
  "WithLowPriorityWhenUnchanged cr u name cl = cr (u name cl)"

definition EnqueueRequestsFromMapFunc ::
  "('f \<Rightarrow> ('e, nsname) event_handler) \<Rightarrow> 'f \<Rightarrow> ('e, Request) event_handler_func" where
  "EnqueueRequestsFromMapFunc cr fn = Lift (cr fn)"

definition TypedEnqueueRequestsFromMapFunc ::
  "(cluster_name \<Rightarrow> 'r \<Rightarrow> 'r) \<Rightarrow> ('f \<Rightarrow> ('e, 'r) event_handler) \<Rightarrow> 'f \<Rightarrow> ('e, 'r) event_handler_func" where
  "TypedEnqueueRequestsFromMapFunc with cr fn = TypedInjectCluster with (cr fn)"

definition TypedEnqueueRequestsFromMapFuncWithClusterPreservation ::
  "('f \<Rightarrow> ('e, 'r) event_handler) \<Rightarrow> 'f \<Rightarrow> ('e, 'r) event_handler" where
  "TypedEnqueueRequestsFromMapFuncWithClusterPreservation cr fn = cr fn"

definition TypedEnqueueRequestForOwner ::
  "(cluster_h \<Rightarrow> 'o \<Rightarrow> ('e, nsname) event_handler) \<Rightarrow> 'o \<Rightarrow> ('e, Request) event_handler_func" where
  "TypedEnqueueRequestForOwner cr ownerType name cl = TypedLift (cr cl ownerType) name cl"

definition EnqueueRequestForOwner ::
  "(cluster_h \<Rightarrow> 'o \<Rightarrow> ('e, nsname) event_handler) \<Rightarrow> 'o \<Rightarrow> ('e, Request) event_handler_func" where
  "EnqueueRequestForOwner cr ownerType name cl = Lift (cr cl ownerType) name cl"

subsection \<open>Interfaces\<close>

text \<open>\<open>reconcile.ClusterAware\<close>: \<open>WithCluster\<close> sets what \<open>Cluster\<close> returns.\<close>

locale cluster_aware =
  fixes cluster_of :: "'r \<Rightarrow> cluster_name"
    and with_cl :: "cluster_name \<Rightarrow> 'r \<Rightarrow> 'r"
  assumes cluster_with: "cluster_of (with_cl n r) = n"
    and with_with: "with_cl n (with_cl m r) = with_cl n r"
    and with_same: "with_cl (cluster_of r) r = r"

interpretation awareRequest: cluster_aware Request_Cluster Request_WithCluster
  by unfold_locales (simp_all add: Request_Cluster_def Request_WithCluster_def)

interpretation awareLifted: cluster_aware WithCluster_Cluster WithCluster_WithCluster
  by unfold_locales (simp_all add: WithCluster_Cluster_def WithCluster_WithCluster_def)

text \<open>
  A queue wrapper: item calls reach the wrapped queue with the wrapper's cluster, and an item
  keeps what it was apart from its cluster.
\<close>

locale stamping_queue =
  fixes call :: "cluster_name \<Rightarrow> 'a queue_call \<Rightarrow> 'b queue_call"
    and ret :: "'b queue_ret \<Rightarrow> 'a queue_ret"
    and cluster_of :: "'b \<Rightarrow> cluster_name"
    and stamp :: "cluster_name \<Rightarrow> 'a \<Rightarrow> 'b"
  assumes call_stamped: "call_item (call n c) = map_option (stamp n) (call_item c)"
    and stamp_cluster: "cluster_of (stamp n a) = n"
begin

text \<open>The wrapped handler cannot tell: it runs as on a queue that holds bare items.\<close>

lemma run_wrapped:
  "run_prog q (wrap_queue (call n) ret p) (map (call n) log) =
     map (call n) (run_prog (\<lambda>l c. ret (q (map (call n) l) (call n c))) p log)"
proof (induction p arbitrary: log)
  case (Call c k)
  have "map (call n) log @ [call n c] = map (call n) (log @ [c])" by simp
  with Call[OF rangeI, of "ret (q (map (call n) log) (call n c))" "log @ [c]"] show ?case
    by (simp del: map_append)
qed simp

lemma run_wrapped_from:
  "\<exists>calls. run_prog q (wrap_queue (call n) ret p) log = log @ map (call n) calls"
proof (induction p arbitrary: log)
  case Return
  show ?case by (rule exI[of _ "[]"]) simp
next
  case (Call c k)
  obtain calls where "run_prog q (wrap_queue (call n) ret (k (ret (q log (call n c))))) (log @ [call n c]) =
      (log @ [call n c]) @ map (call n) calls" using Call[OF rangeI] by blast
  then show ?case by (intro exI[of _ "c # calls"]) simp
qed

lemma run_wrapped_stamped:
  assumes "c \<in> set (run_prog q (wrap_queue (call n) ret p) log)" and "c \<notin> set log"
    and "call_item c = Some r"
  shows "cluster_of r = n \<and> (\<exists>a. r = stamp n a)"
proof -
  obtain calls where "run_prog q (wrap_queue (call n) ret p) log = log @ map (call n) calls"
    using run_wrapped_from by blast
  with assms obtain d where "c = call n d" by auto
  with assms(3) show ?thesis by (auto simp: call_stamped stamp_cluster)
qed

end

interpretation liftQueue: stamping_queue clusterQueue clusterQueue_ret Request_Cluster on_cluster
proof unfold_locales
  show "call_item (clusterQueue n c) = map_option (on_cluster n) (call_item c)" for n c
    by (cases c) simp_all
qed (simp add: Request_Cluster_def on_cluster_def)

context cluster_aware
begin

lemma injecting_stamps: "stamping_queue (clusterInjectingQueue with_cl) cluster_of with_cl"
proof
  show "call_item (clusterInjectingQueue with_cl n c) = map_option (with_cl n) (call_item c)" for n c
    by (cases c) simp_all
qed (rule cluster_with)

end

sublocale cluster_aware \<subseteq> inject: stamping_queue "clusterInjectingQueue with_cl"
  "clusterInjectingQueue_ret with_cl" cluster_of with_cl
  by (rule injecting_stamps)

lemmas wrapped_handlers = clusterHandler_def clusterInjectingHandler_def Let_def


subsection \<open>Properties\<close>

text \<open>The part of a queue that a lifted handler sees: the answers without the cluster.\<close>

definition bare_queue :: "cluster_name \<Rightarrow> Request queue \<Rightarrow> nsname queue" where
  "bare_queue n q = (\<lambda>l c. clusterQueue_ret (q (map (clusterQueue n) l) (clusterQueue n c)))"

lemma run_lifted:
  "run_prog q (wrap_queue (clusterQueue n) clusterQueue_ret p) [] =
     map (clusterQueue n) (run_prog (bare_queue n q) p [])"
  using liftQueue.run_wrapped[of q n p "[]"] by (simp add: bare_queue_def)


text \<open>
  Whose cluster a mapped request has. What a handler built by
  \<open>TypedEnqueueRequestsFromMapFunc\<close> adds, requeues or finishes has the cluster the event came from,
  even where the map function chose another one.
\<close>

theorem mapped_requests_on_event_cluster:
  assumes "c \<in> set (run_prog q (h_Create (TypedEnqueueRequestsFromMapFunc Request_WithCluster cr fn n cl) cx e) [])"
    and "call_item c = Some r"
  shows "Request_Cluster r = n"
  using awareRequest.inject.run_wrapped_stamped[of c q n "h_Create (cr fn) cx e" "[]"] assms
  by (simp add: TypedEnqueueRequestsFromMapFunc_def TypedInjectCluster_def wrapped_handlers)

theorem mapped_requests_on_event_cluster_witness:
  "Request_Cluster (on_cluster ''east'' (NsName ''ns'' ''x'')) = ''east''"
  using mapped_requests_on_event_cluster[where n = "''east''" and q = "\<lambda>_ _. RNothing" and fn = "NsName ''ns'' ''x''"
      and cl = 0 and cx = 0 and e = "()" and c = "QAdd (on_cluster ''east'' (NsName ''ns'' ''x''))"
      and cr = "\<lambda>k. \<lparr>h_Create = (\<lambda>_ _. Call (QAdd (on_cluster ''west'' k)) (\<lambda>_. Return)), h_Update = (\<lambda>_ _ _. Return),
        h_Delete = (\<lambda>_ _. Return), h_Generic = (\<lambda>_ _. Return)\<rparr>"
      and r = "on_cluster ''east'' (NsName ''ns'' ''x'')"]
  by (simp add: TypedEnqueueRequestsFromMapFunc_def TypedInjectCluster_def wrapped_handlers
      Request_WithCluster_def on_cluster_def)

end
