(* ===== verification/Source.thy ===== *)
theory Source
  imports Handler
begin

text \<open>
  \<open>pkg/source/kind.go\<close>: a source that watches one kind of object in every cluster. The
  informer of a cluster's cache is other code: its state is the event handlers registered with
  it, and an environment says which of its calls fail.
\<close>

subsection \<open>State\<close>

record 'o predicate =
  p_Create :: "'o \<Rightarrow> bool"
  p_Update :: "'o \<Rightarrow> 'o \<Rightarrow> bool"
  p_Delete :: "'o \<Rightarrow> bool"

text \<open>A handler function may return nil.\<close>

type_synonym ('o, 'r) handler_func = "cluster_name \<Rightarrow> cluster_h \<Rightarrow> ('o, 'r) event_handler option"

type_synonym cluster_filter = "cluster_name \<Rightarrow> cluster_h \<Rightarrow> bool"

record ('o, 'r) kind =
  k_obj :: 'o
  k_handler :: "('o, 'r) handler_func"
  k_predicates :: "'o predicate list"
  k_project :: "cluster_h \<Rightarrow> 'o \<Rightarrow> go_error + 'o"
  k_resync :: int
  k_clusterFilter :: "cluster_filter option"

type_synonym registration = nat

record ('o, 'r) clusterKind =
  ck_clusterName :: cluster_name
  ck_cl :: cluster_h
  ck_obj :: 'o
  ck_h :: "('o, 'r) handler_func"
  ck_preds :: "'o predicate list"
  ck_resync :: int
  ck_registration :: "registration option"
  ck_activeCtx :: "ctx option"

text \<open>The closures of \<open>ResourceEventHandlerFuncs\<close>, by what they capture.\<close>

record ('o, 'r) event_funcs =
  ef_ctx :: ctx
  ef_handler :: "('o, 'r) event_handler"
  ef_preds :: "'o predicate list"

record ('o, 'r) informer =
  inf_handlers :: "(registration, ('o, 'r) event_funcs) fmap"
  inf_next :: registration

text \<open>
  \<open>GetInformer\<close>, \<open>RemoveEventHandler\<close>, \<open>AddEventHandlerWithResyncPeriod\<close> and
  \<open>WaitForCacheSync\<close>; contexts may be cancelled while the last one waits.
\<close>

record informer_env =
  ie_get :: "go_error option"
  ie_remove :: "registration \<Rightarrow> go_error option"
  ie_add :: "go_error option"
  ie_cancelled :: "ctx list"
  ie_synced :: bool

record ('o, 'r) source_state =
  ss_ck :: "('o, 'r) clusterKind"
  ss_inf :: "('o, 'r) informer"
  ss_ctxs :: ctxs
  ss_waiting :: "ctx list"

subsection \<open>The kind source\<close>

definition TypedKind ::
  "'o \<Rightarrow> ('o, 'r) handler_func \<Rightarrow> 'o predicate list \<Rightarrow> ('o, 'r) kind" where
  "TypedKind obj handler predicates =
     \<lparr>k_obj = obj, k_handler = handler, k_predicates = predicates,
      k_project = (\<lambda>cl obj. Inr obj), k_resync = 0, k_clusterFilter = None\<rparr>"

definition Kind ::
  "'o \<Rightarrow> ('o, Request) handler_func \<Rightarrow> 'o predicate list \<Rightarrow> ('o, Request) kind" where
  "Kind obj handler predicates = TypedKind obj handler predicates"

definition WithProjection ::
  "(cluster_h \<Rightarrow> 'o \<Rightarrow> go_error + 'o) \<Rightarrow> ('o, 'r) kind \<Rightarrow> ('o, 'r) kind" where
  "WithProjection project k = k\<lparr>k_project := project\<rparr>"

definition WithClusterFilter :: "cluster_filter option \<Rightarrow> ('o, 'r) kind \<Rightarrow> ('o, 'r) kind" where
  "WithClusterFilter f k = k\<lparr>k_clusterFilter := f\<rparr>"

definition kind_ForCluster ::
  "('o, 'r) kind \<Rightarrow> cluster_name \<Rightarrow> cluster_h \<Rightarrow> go_error + (('o, 'r) clusterKind \<times> bool)" where
  "kind_ForCluster k name cl =
     (case k_project k cl (k_obj k) of
        Inl err \<Rightarrow> Inl err
      | Inr obj \<Rightarrow>
          (let shouldEngage = (case k_clusterFilter k of None \<Rightarrow> True | Some f \<Rightarrow> f name cl)
           in Inr (\<lparr>ck_clusterName = name, ck_cl = cl, ck_obj = obj, ck_h = k_handler k,
                    ck_preds = k_predicates k, ck_resync = k_resync k,
                    ck_registration = None, ck_activeCtx = None\<rparr>, shouldEngage)))"

definition SyncingForCluster ::
  "('o, 'r) kind \<Rightarrow> cluster_name \<Rightarrow> cluster_h \<Rightarrow> go_error + (('o, 'r) clusterKind \<times> bool)" where
  "SyncingForCluster k name cl =
     (case kind_ForCluster k name cl of Inl err \<Rightarrow> Inl err | Inr (src, should) \<Rightarrow> Inr (src, should))"

subsection \<open>The source of one cluster\<close>

definition ctx_Err :: "ctxs \<Rightarrow> ctx \<Rightarrow> go_error option" where
  "ctx_Err S cx = (if ctx_err S cx then Some ErrCtx else None)"

definition WaitForSync :: "informer_env \<Rightarrow> ctxs \<Rightarrow> ctx \<Rightarrow> go_error option" where
  "WaitForSync E S cx = (if \<not> ie_synced E then ctx_Err (cancel_all (ie_cancelled E) S) cx else None)"

text \<open>\<open>gvk\<close> prints the kind of the object in the error.\<close>

definition buildEventHandler ::
  "string \<Rightarrow> ctx \<Rightarrow> ('o, 'r) clusterKind \<Rightarrow> go_error + ('o, 'r) event_funcs" where
  "buildEventHandler gvk cx ck =
     (case ck_h ck (ck_clusterName ck) (ck_cl ck) of
        None \<Rightarrow> Inl (Errorf ''handler for %q built for cluster %q is nil'' [gvk, ck_clusterName ck] None)
      | Some h \<Rightarrow> Inr \<lparr>ef_ctx = cx, ef_handler = h, ef_preds = ck_preds ck\<rparr>)"

definition remove_handler ::
  "informer_env \<Rightarrow> registration \<Rightarrow> ('o, 'r) informer \<Rightarrow> ('o, 'r) informer" where
  "remove_handler E r iv =
     (case ie_remove E r of
        Some _ \<Rightarrow> iv
      | None \<Rightarrow> iv\<lparr>inf_handlers := fmdrop r (inf_handlers iv)\<rparr>)"

definition add_handler ::
  "('o, 'r) event_funcs \<Rightarrow> ('o, 'r) informer \<Rightarrow> registration \<times> ('o, 'r) informer" where
  "add_handler h iv =
     (inf_next iv, iv\<lparr>inf_handlers := fmupd (inf_next iv) h (inf_handlers iv), inf_next := inf_next iv + 1\<rparr>)"

text \<open>Remove the registration that is set, if any, and forget it with its context.\<close>

definition drop_registration :: "informer_env \<Rightarrow> ('o, 'r) source_state \<Rightarrow> ('o, 'r) source_state" where
  "drop_registration E s =
     (case ck_registration (ss_ck s) of
        None \<Rightarrow> s
      | Some r \<Rightarrow> s\<lparr>ss_inf := remove_handler E r (ss_inf s),
                    ss_ck := (ss_ck s)\<lparr>ck_registration := None, ck_activeCtx := None\<rparr>\<rparr>)"

definition already_started :: "ctx \<Rightarrow> ('o, 'r) source_state \<Rightarrow> bool" where
  "already_started cx s \<longleftrightarrow>
     (case (ck_registration (ss_ck s), ck_activeCtx (ss_ck s)) of
        (Some r, Some a) \<Rightarrow> \<not> ctx_err (ss_ctxs s) a \<and> a = cx
      | _ \<Rightarrow> False)"

text \<open>The informer comes from the cache of the cluster; the model keeps the error.\<close>

definition getInformer :: "informer_env \<Rightarrow> go_error option" where
  "getInformer E = ie_get E"

lemma getInformer_get [simp]: "getInformer E = ie_get E"
  by (simp add: getInformer_def)

definition clusterKind_Start ::
  "informer_env \<Rightarrow> string \<Rightarrow> ctx \<Rightarrow> ('o, 'r) source_state \<Rightarrow> go_error option \<times> ('o, 'r) source_state" where
  "clusterKind_Start E gvk cx s =
     (if already_started cx s then (None, s)
      else case getInformer E of
        Some err \<Rightarrow> (Some err, s)
      | None \<Rightarrow>
          (let s1 = drop_registration E s
           in case buildEventHandler gvk cx (ss_ck s1) of
                Inl err \<Rightarrow> (Some (Errorf ''error building event handler: %w'' [] (Some err)), s1)
              | Inr h \<Rightarrow>
                  (case ie_add E of
                     Some err \<Rightarrow> (Some err, s1)
                   | None \<Rightarrow>
                       (let (reg, iv) = add_handler h (ss_inf s1);
                            s2 = s1\<lparr>ss_inf := iv,
                                    ss_ck := (ss_ck s1)\<lparr>ck_registration := Some reg, ck_activeCtx := Some cx\<rparr>,
                                    ss_ctxs := cancel_all (ie_cancelled E) (ss_ctxs s1)\<rparr>
                        in if \<not> ie_synced E
                           then (ctx_Err (ss_ctxs s2) cx, drop_registration E s2)
                           else (None, s2\<lparr>ss_waiting := cx # ss_waiting s2\<rparr>)))))"

text \<open>The goroutine of \<open>Start\<close>, once its context is done.\<close>

definition start_ctx_done :: "informer_env \<Rightarrow> ctx \<Rightarrow> ('o, 'r) source_state \<Rightarrow> ('o, 'r) source_state" where
  "start_ctx_done E cx s =
     (let s1 = s\<lparr>ss_waiting := remove1 cx (ss_waiting s)\<rparr>
      in if ck_activeCtx (ss_ck s1) = Some cx \<and> ck_registration (ss_ck s1) \<noteq> None
         then drop_registration E s1 else s1)"

subsection \<open>Events\<close>

text \<open>
  What an informer may pass: an object of the watched type, another API object, a tombstone
  around one of these, or something else. A type assertion to the watched type panics on the
  second one.
\<close>

datatype 'o informer_obj = IObj 'o | IOther | ITombstone "'o informer_obj" | INoObject

datatype 'r delivery = Ignored | Panicked | Handled "'r queue_prog"

definition passCreate :: "'o predicate list \<Rightarrow> 'o \<Rightarrow> bool" where
  "passCreate ps ob \<longleftrightarrow> list_all (\<lambda>p. p_Create p ob) ps"

definition passUpdate :: "'o predicate list \<Rightarrow> 'o \<Rightarrow> 'o \<Rightarrow> bool" where
  "passUpdate ps oo no \<longleftrightarrow> list_all (\<lambda>p. p_Update p oo no) ps"

definition passDelete :: "'o predicate list \<Rightarrow> 'o \<Rightarrow> bool" where
  "passDelete ps ob \<longleftrightarrow> list_all (\<lambda>p. p_Delete p ob) ps"

definition AddFunc :: "ctxs \<Rightarrow> ('o, 'r) event_funcs \<Rightarrow> 'o informer_obj \<Rightarrow> 'r delivery" where
  "AddFunc S f i =
     (if ctx_err S (ef_ctx f) then Ignored
      else case i of
        IObj ob \<Rightarrow> if passCreate (ef_preds f) ob then Handled (h_Create (ef_handler f) (ef_ctx f) ob) else Ignored
      | IOther \<Rightarrow> Panicked
      | _ \<Rightarrow> Ignored)"

definition UpdateFunc ::
  "ctxs \<Rightarrow> ('o, 'r) event_funcs \<Rightarrow> 'o informer_obj \<Rightarrow> 'o informer_obj \<Rightarrow> 'r delivery" where
  "UpdateFunc S f oo no =
     (if ctx_err S (ef_ctx f) then Ignored
      else case (oo, no) of
        (IObj a, IObj b) \<Rightarrow>
          if passUpdate (ef_preds f) a b then Handled (h_Update (ef_handler f) (ef_ctx f) a b) else Ignored
      | (IOther, IObj _) \<Rightarrow> Panicked
      | (IObj _, IOther) \<Rightarrow> Panicked
      | (IOther, IOther) \<Rightarrow> Panicked
      | _ \<Rightarrow> Ignored)"

definition DeleteFunc :: "ctxs \<Rightarrow> ('o, 'r) event_funcs \<Rightarrow> 'o informer_obj \<Rightarrow> 'r delivery" where
  "DeleteFunc S f i =
     (if ctx_err S (ef_ctx f) then Ignored
      else case (case i of ITombstone j \<Rightarrow> j | _ \<Rightarrow> i) of
        IObj ob \<Rightarrow> if passDelete (ef_preds f) ob then Handled (h_Delete (ef_handler f) (ef_ctx f) ob) else Ignored
      | IOther \<Rightarrow> Panicked
      | _ \<Rightarrow> Ignored)"


subsection \<open>Runs\<close>

text \<open>
  A run interleaves calls of \<open>Start\<close>, new and cancelled contexts, and the goroutines of
  earlier calls. Removing a registered handler does not fail; every other call may.
\<close>

inductive source_step :: "('o, 'r) source_state \<Rightarrow> ('o, 'r) source_state \<Rightarrow> bool" where
  start: "ie_remove E = (\<lambda>_. None) \<Longrightarrow> clusterKind_Start E gvk cx s = (err, s') \<Longrightarrow> source_step s s'"
| derive: "source_step s (s\<lparr>ss_ctxs := fst (with_cancel (ss_ctxs s) p)\<rparr>)"
| cancelled: "source_step s (s\<lparr>ss_ctxs := cancel (ss_ctxs s) cx\<rparr>)"
| ctx_done: "cx \<in> set (ss_waiting s) \<Longrightarrow> ctx_err (ss_ctxs s) cx \<Longrightarrow> ie_remove E = (\<lambda>_. None) \<Longrightarrow>
    source_step s (start_ctx_done E cx s)"

inductive_cases source_stepE: "source_step s s'"

text \<open>
  \<open>others\<close> are the registrations of other users of the informer. A registration that was made
  here is either the current one or gone, and the goroutine that will remove it is there.
\<close>

definition source_inv :: "registration set \<Rightarrow> ('o, 'r) source_state \<Rightarrow> bool" where
  "source_inv others s \<longleftrightarrow>
     (\<forall>r \<in> others. r < inf_next (ss_inf s)) \<and>
     (case ck_registration (ss_ck s) of
        None \<Rightarrow> ck_activeCtx (ss_ck s) = None \<and> fset (fmdom (inf_handlers (ss_inf s))) = others
      | Some r \<Rightarrow> r \<notin> others \<and> r < inf_next (ss_inf s) \<and>
          fset (fmdom (inf_handlers (ss_inf s))) = insert r others \<and>
          (\<exists>a f. ck_activeCtx (ss_ck s) = Some a \<and> a \<in> set (ss_waiting s) \<and>
             fmlookup (inf_handlers (ss_inf s)) r = Some f \<and> ef_ctx f = a))"

lemma drop_registration_inv:
  assumes "source_inv F s" and "ie_remove E = (\<lambda>_. None)"
  shows "source_inv F (drop_registration E s)" "ck_registration (ss_ck (drop_registration E s)) = None"
  using assms by (auto simp: drop_registration_def source_inv_def remove_handler_def split: option.splits)

lemma drop_registration_sel [simp]:
  "ss_ctxs (drop_registration E s) = ss_ctxs s" "ss_waiting (drop_registration E s) = ss_waiting s"
  "ck_preds (ss_ck (drop_registration E s)) = ck_preds (ss_ck s)"
  by (simp_all add: drop_registration_def split: option.splits)

text \<open>What registering leaves behind, and what the failed wait undoes.\<close>

lemma Start_inv:
  assumes inv: "source_inv F s" and rm: "ie_remove E = (\<lambda>_. None)"
    and st: "clusterKind_Start E gvk cx s = (err, s')"
  shows "source_inv F s'"
proof -
  let ?s1 = "drop_registration E s"
  have d: "source_inv F ?s1" and n: "ck_registration (ss_ck ?s1) = None"
    using drop_registration_inv[OF inv rm] by auto
  have noreg: "\<forall>r \<in> F. r < inf_next (ss_inf ?s1)" "fset (fmdom (inf_handlers (ss_inf ?s1))) = F"
    using d n by (auto simp: source_inv_def)
  show ?thesis
  proof (cases "already_started cx s \<or> ie_get E \<noteq> None")
    case True
    with st inv show ?thesis by (auto simp: clusterKind_Start_def split: if_splits)
  next
    case False
    show ?thesis
    proof (cases "\<exists>h. buildEventHandler gvk cx (ss_ck ?s1) = Inr h \<and> ie_add E = None")
      case False
      with \<open>\<not> (already_started cx s \<or> ie_get E \<noteq> None)\<close> st d show ?thesis
        by (auto simp: clusterKind_Start_def Let_def split: sum.splits option.splits)
    next
      case True
      then obtain h where h: "buildEventHandler gvk cx (ss_ck ?s1) = Inr h" "ie_add E = None" by blast
      have hc: "ef_ctx h = cx" using h(1) by (auto simp: buildEventHandler_def split: option.splits)
      define s2 where "s2 = ?s1\<lparr>ss_inf := snd (add_handler h (ss_inf ?s1)),
        ss_ck := (ss_ck ?s1)\<lparr>ck_registration := Some (inf_next (ss_inf ?s1)), ck_activeCtx := Some cx\<rparr>,
        ss_ctxs := cancel_all (ie_cancelled E) (ss_ctxs ?s1)\<rparr>"
      have s': "s' = (if ie_synced E then s2\<lparr>ss_waiting := cx # ss_waiting s2\<rparr> else drop_registration E s2)"
        using st h \<open>\<not> (already_started cx s \<or> ie_get E \<noteq> None)\<close>
        by (auto simp: clusterKind_Start_def s2_def add_handler_def Let_def split: if_splits)
      have "source_inv F (s2\<lparr>ss_waiting := cx # ss_waiting s2\<rparr>)"
        using noreg hc by (auto simp: source_inv_def s2_def add_handler_def)
      moreover have "source_inv F (drop_registration E s2)"
        using noreg rm
        by (auto simp: source_inv_def s2_def add_handler_def drop_registration_def remove_handler_def)
      ultimately show ?thesis using s' by simp
    qed
  qed
qed

lemma ctx_done_inv:
  assumes "source_inv F s" and "ie_remove E = (\<lambda>_. None)"
  shows "source_inv F (start_ctx_done E cx s)"
proof (cases "ck_activeCtx (ss_ck s) = Some cx \<and> ck_registration (ss_ck s) \<noteq> None")
  case True
  with assms show ?thesis
    by (auto simp: start_ctx_done_def source_inv_def drop_registration_def remove_handler_def Let_def
        split: option.splits)
next
  case False
  with assms(1) show ?thesis
    by (auto simp: start_ctx_done_def source_inv_def Let_def split: option.splits)
qed

lemma source_inv_ctxs [simp]: "source_inv F (s\<lparr>ss_ctxs := S\<rparr>) = source_inv F s"
  by (simp add: source_inv_def split: option.splits)

lemma source_step_inv: "source_inv F s \<Longrightarrow> source_step s s' \<Longrightarrow> source_inv F s'"
  by (erule source_stepE) (auto intro: Start_inv ctx_done_inv)

lemma source_run_inv: "source_step\<^sup>*\<^sup>* s s' \<Longrightarrow> source_inv F s \<Longrightarrow> source_inv F s'"
  by (induction rule: rtranclp_induct) (auto intro: source_step_inv)


subsection \<open>Properties\<close>

definition fresh_source :: "('o, 'r) clusterKind \<Rightarrow> ('o, 'r) informer \<Rightarrow> ctxs \<Rightarrow> ('o, 'r) source_state" where
  "fresh_source ck iv S = \<lparr>ss_ck = ck, ss_inf = iv, ss_ctxs = S, ss_waiting = []\<rparr>"

lemma fresh_source_inv:
  assumes "kind_ForCluster k name cl = Inr (ck, should)" and "\<forall>r \<in> fset (fmdom (inf_handlers iv)). r < inf_next iv"
  shows "source_inv (fset (fmdom (inf_handlers iv))) (fresh_source ck iv S)"
proof -
  have "ck_registration ck = None" "ck_activeCtx ck = None"
    using assms(1) by (auto simp: kind_ForCluster_def Let_def split: sum.splits)
  with assms(2) show ?thesis by (simp add: source_inv_def fresh_source_def)
qed

definition demo_handler :: "(nat, Request) event_handler" where
  "demo_handler = \<lparr>h_Create = (\<lambda>_ _. Return), h_Update = (\<lambda>_ _ _. Return), h_Delete = (\<lambda>_ _. Return), h_Generic = (\<lambda>_ _. Return)\<rparr>"

definition demo_source :: "(nat, Request) source_state" where
  "demo_source = snd (clusterKind_Start
     \<lparr>ie_get = None, ie_remove = (\<lambda>_. None), ie_add = None, ie_cancelled = [], ie_synced = True\<rparr> '''' 0
     (fresh_source (fst (projr (kind_ForCluster (TypedKind 3 (\<lambda>_ _. Some demo_handler) []) ''c'' 1)))
       \<lparr>inf_handlers = fmempty, inf_next = 0\<rparr> [(None, False)]))"



text \<open>
  Which events reach the handler. While the context of the registration is live, an object
  of the watched kind is handed to the handler exactly if every predicate passes it, a deleted
  one also when it arrives in a tombstone; once the context is done nothing is handed over.
\<close>

theorem kind_event_delivery:
  "(AddFunc S f (IObj a) = Handled p \<longleftrightarrow>
      \<not> ctx_err S (ef_ctx f) \<and> (\<forall>q \<in> set (ef_preds f). p_Create q a) \<and> p = h_Create (ef_handler f) (ef_ctx f) a) \<and>
   (UpdateFunc S f (IObj a) (IObj b) = Handled p \<longleftrightarrow>
      \<not> ctx_err S (ef_ctx f) \<and> (\<forall>q \<in> set (ef_preds f). p_Update q a b) \<and> p = h_Update (ef_handler f) (ef_ctx f) a b) \<and>
   (DeleteFunc S f (IObj a) = Handled p \<longleftrightarrow>
      \<not> ctx_err S (ef_ctx f) \<and> (\<forall>q \<in> set (ef_preds f). p_Delete q a) \<and> p = h_Delete (ef_handler f) (ef_ctx f) a) \<and>
   DeleteFunc S f (ITombstone (IObj a)) = DeleteFunc S f (IObj a) \<and>
   (ctx_err S (ef_ctx f) \<longrightarrow>
      AddFunc S f i = Ignored \<and> UpdateFunc S f i j = Ignored \<and> DeleteFunc S f i = Ignored)"
  by (auto simp: AddFunc_def UpdateFunc_def DeleteFunc_def passCreate_def passUpdate_def passDelete_def list_all_iff)

theorem kind_event_delivery_witness:
  "DeleteFunc [(None, True)] \<lparr>ef_ctx = 0,
     ef_handler = \<lparr>h_Create = (\<lambda>_ _. Return), h_Update = (\<lambda>_ _ _. Return), h_Delete = (\<lambda>_ _. Return), h_Generic = (\<lambda>_ _. Return)\<rparr>
       :: (nat, Request) event_handler,
     ef_preds = []\<rparr> (IObj 3) = Ignored"
  using kind_event_delivery[of "[(None, True)]" "\<lparr>ef_ctx = 0,
     ef_handler = \<lparr>h_Create = (\<lambda>_ _. Return), h_Update = (\<lambda>_ _ _. Return), h_Delete = (\<lambda>_ _. Return), h_Generic = (\<lambda>_ _. Return)\<rparr>
       :: (nat, Request) event_handler,
     ef_preds = []\<rparr>" 3 Return 3 "IObj 3" "IObj 3"]
  by (simp add: ctx_err.simps)

end
