(* ===== verification/Controller.thy ===== *)
theory Controller
  imports Manager Source
begin

text \<open>
  \<open>pkg/controller/controller.go\<close>: the controller that watches its sources in every engaged
  cluster. The controller of controller-runtime that it embeds is other code: what \<open>Watch\<close> and
  its own \<open>Engage\<close> return is a parameter, and the state records the watches it accepted.
\<close>

subsection \<open>State\<close>

type_synonym source_h = nat

record engagedCluster =
  ec_name :: cluster_name
  ec_cluster :: cluster_h
  ec_ctx :: ctx

record watch =
  w_source :: source_h
  w_name :: cluster_name
  w_cluster :: cluster_h
  w_ctx :: ctx

text \<open>
  \<open>mcc_waiting\<close> holds the goroutines that wait for the end of an engagement. An engagement has
  a context of its own, so equal engagement records are one pointer. \<open>mcc_started\<close> holds the
  sources that were started: the context of the controller, the one of the source, its watch.
\<close>

record mc_controller =
  mcc_clusters :: "(cluster_name, engagedCluster) fmap"
  mcc_sources :: "source_h list"
  mcc_ctxs :: ctxs
  mcc_watches :: "watch list"
  mcc_waiting :: "engagedCluster list"
  mcc_started :: "(ctx \<times> ctx \<times> watch) list"

text \<open>What \<open>ForCluster\<close> of a source says of a cluster, and what \<open>Watch\<close> returns.\<close>

type_synonym for_cluster = "source_h \<Rightarrow> cluster_name \<Rightarrow> cluster_h \<Rightarrow> go_error + bool"
type_synonym watch_result = "watch list \<Rightarrow> watch \<Rightarrow> go_error option"

text \<open>The \<open>Engage\<close> of the embedded controller, if it has one.\<close>

type_synonym inner_engage = "(ctx \<Rightarrow> cluster_name \<Rightarrow> cluster_h \<Rightarrow> go_error option) option"

subsection \<open>Operations\<close>

text \<open>
  \<open>dflt\<close> is \<open>options.DefaultFromConfig\<close> with the options of the manager, and \<open>cr_new\<close> the
  constructor of controller-runtime.
\<close>

definition NewTypedUnmanaged ::
  "('opt \<Rightarrow> 'opt) \<Rightarrow> (string \<Rightarrow> 'opt \<Rightarrow> go_error + 'ctl) \<Rightarrow> ctxs \<Rightarrow> string \<Rightarrow> 'opt \<Rightarrow> go_error + ('ctl \<times> mc_controller)" where
  "NewTypedUnmanaged dflt cr_new S name options =
     (case cr_new name (dflt options) of
        Inl err \<Rightarrow> Inl err
      | Inr c \<Rightarrow> Inr (c, \<lparr>mcc_clusters = fmempty, mcc_sources = [], mcc_ctxs = S, mcc_watches = [],
                           mcc_waiting = [], mcc_started = []\<rparr>))"

definition NewTyped ::
  "('opt \<Rightarrow> 'opt) \<Rightarrow> (string \<Rightarrow> 'opt \<Rightarrow> go_error + 'ctl) \<Rightarrow> host_iface \<Rightarrow> aware_h \<Rightarrow> ctxs \<Rightarrow> string \<Rightarrow> 'opt \<Rightarrow>
   mc_manager \<Rightarrow> ('ctl \<times> mc_controller) option \<times> go_error option \<times> mc_manager" where
  "NewTyped dflt cr_new H self S name options m =
     (case NewTypedUnmanaged dflt cr_new S name (dflt options) of
        Inl err \<Rightarrow> (None, Some err, m)
      | Inr c \<Rightarrow> (let (err, m') = manager_Add H self m in (Some c, err, m')))"

text \<open>The constructors for the requests of this package.\<close>

definition controller_New ::
  "('opt \<Rightarrow> 'opt) \<Rightarrow> (string \<Rightarrow> 'opt \<Rightarrow> go_error + 'ctl) \<Rightarrow> host_iface \<Rightarrow> aware_h \<Rightarrow> ctxs \<Rightarrow> string \<Rightarrow> 'opt \<Rightarrow>
   mc_manager \<Rightarrow> ('ctl \<times> mc_controller) option \<times> go_error option \<times> mc_manager" where
  "controller_New dflt cr_new H self S name options m = NewTyped dflt cr_new H self S name options m"

definition NewUnmanaged ::
  "('opt \<Rightarrow> 'opt) \<Rightarrow> (string \<Rightarrow> 'opt \<Rightarrow> go_error + 'ctl) \<Rightarrow> ctxs \<Rightarrow> string \<Rightarrow> 'opt \<Rightarrow> go_error + ('ctl \<times> mc_controller)" where
  "NewUnmanaged dflt cr_new S name options = NewTypedUnmanaged dflt cr_new S name options"

fun watch_sources ::
  "for_cluster \<Rightarrow> watch_result \<Rightarrow> ctx \<Rightarrow> cluster_name \<Rightarrow> cluster_h \<Rightarrow> source_h list \<Rightarrow> watch list \<Rightarrow>
   go_error option \<times> watch list" where
  "watch_sources fc wt cx name cl [] ws = (None, ws)"
| "watch_sources fc wt cx name cl (aware # awares) ws =
     (case fc aware name cl of
        Inl err \<Rightarrow> (Some (Errorf ''failed to engage for cluster %q: %w'' [name] (Some err)), ws)
      | Inr shouldEngage \<Rightarrow>
          if \<not> shouldEngage then watch_sources fc wt cx name cl awares ws
          else (let w = \<lparr>w_source = aware, w_name = name, w_cluster = cl, w_ctx = cx\<rparr>
                in case wt ws w of
                     Some err \<Rightarrow> (Some (Errorf ''failed to watch for cluster %q: %w'' [name] (Some err)), ws)
                   | None \<Rightarrow> watch_sources fc wt cx name cl awares (ws @ [w])))"

text \<open>The end of an engagement that is in the way: cancelled if it still lives, and forgotten.\<close>

definition disengage :: "cluster_name \<Rightarrow> engagedCluster \<Rightarrow> mc_controller \<Rightarrow> mc_controller" where
  "disengage name old c =
     c\<lparr>mcc_ctxs := (if ctx_err (mcc_ctxs c) (ec_ctx old) then mcc_ctxs c else cancel (mcc_ctxs c) (ec_ctx old)),
       mcc_clusters := fmdrop name (mcc_clusters c)\<rparr>"

definition engage_fresh ::
  "for_cluster \<Rightarrow> watch_result \<Rightarrow> inner_engage \<Rightarrow> ctx \<Rightarrow> cluster_name \<Rightarrow> cluster_h \<Rightarrow> mc_controller \<Rightarrow>
   go_error option \<times> mc_controller" where
  "engage_fresh fc wt inner cx name cl c =
     (let (S, engCtx) = with_cancel (mcc_ctxs c) cx;
          c1 = c\<lparr>mcc_ctxs := S\<rparr>
      in case (case inner of None \<Rightarrow> None | Some f \<Rightarrow> f engCtx name cl) of
           Some err \<Rightarrow> (Some err, c1\<lparr>mcc_ctxs := cancel S engCtx\<rparr>)
         | None \<Rightarrow>
             (case watch_sources fc wt engCtx name cl (mcc_sources c1) (mcc_watches c1) of
                (Some err, ws) \<Rightarrow> (Some err, c1\<lparr>mcc_watches := ws, mcc_ctxs := cancel S engCtx\<rparr>)
              | (None, ws) \<Rightarrow>
                  (let ec = \<lparr>ec_name = name, ec_cluster = cl, ec_ctx = engCtx\<rparr>
                   in (None, c1\<lparr>mcc_watches := ws, mcc_clusters := fmupd name ec (mcc_clusters c1),
                                mcc_waiting := ec # mcc_waiting c1\<rparr>))))"

definition controller_Engage ::
  "for_cluster \<Rightarrow> watch_result \<Rightarrow> inner_engage \<Rightarrow> ctx \<Rightarrow> cluster_name \<Rightarrow> cluster_h \<Rightarrow> mc_controller \<Rightarrow>
   go_error option \<times> mc_controller" where
  "controller_Engage fc wt inner cx name cl c =
     (case fmlookup (mcc_clusters c) name of
        None \<Rightarrow> engage_fresh fc wt inner cx name cl c
      | Some old \<Rightarrow>
          if ec_cluster old = cl \<and> \<not> ctx_err (mcc_ctxs c) (ec_ctx old) then (None, c)
          else engage_fresh fc wt inner cx name cl (disengage name old c))"

text \<open>The goroutine of \<open>Engage\<close>, once the context of its engagement is done.\<close>

definition engagement_done :: "engagedCluster \<Rightarrow> mc_controller \<Rightarrow> mc_controller" where
  "engagement_done token c =
     (let c1 = c\<lparr>mcc_waiting := remove1 token (mcc_waiting c)\<rparr>
      in if fmlookup (mcc_clusters c1) (ec_name token) = Some token
         then c1\<lparr>mcc_clusters := fmdrop (ec_name token) (mcc_clusters c1)\<rparr> else c1)"

fun watch_clusters ::
  "for_cluster \<Rightarrow> watch_result \<Rightarrow> source_h \<Rightarrow> (cluster_name \<times> engagedCluster) list \<Rightarrow> watch list \<Rightarrow>
   go_error option \<times> watch list" where
  "watch_clusters fc wt src [] ws = (None, ws)"
| "watch_clusters fc wt src ((name, eng) # cls) ws =
     (case fc src name (ec_cluster eng) of
        Inl err \<Rightarrow> (Some (Errorf ''failed to engage for cluster %q: %w'' [name] (Some err)), ws)
      | Inr shouldEngage \<Rightarrow>
          if \<not> shouldEngage then watch_clusters fc wt src cls ws
          else (let w = \<lparr>w_source = src, w_name = name, w_cluster = ec_cluster eng, w_ctx = ec_ctx eng\<rparr>
                in case wt ws w of
                     Some err \<Rightarrow> (Some (Errorf ''failed to watch for cluster %q: %w'' [name] (Some err)), ws)
                   | None \<Rightarrow> watch_clusters fc wt src cls (ws @ [w])))"

definition MultiClusterWatch ::
  "for_cluster \<Rightarrow> watch_result \<Rightarrow> cluster_name list \<Rightarrow> source_h \<Rightarrow> mc_controller \<Rightarrow>
   go_error option \<times> mc_controller" where
  "MultiClusterWatch fc wt ord src c =
     (case watch_clusters fc wt src (map (\<lambda>n. (n, the (fmlookup (mcc_clusters c) n))) ord) (mcc_watches c) of
        (Some err, ws) \<Rightarrow> (Some err, c\<lparr>mcc_watches := ws\<rparr>)
      | (None, ws) \<Rightarrow> (None, c\<lparr>mcc_watches := ws, mcc_sources := mcc_sources c @ [src]\<rparr>))"

text \<open>
  The source function of \<open>startWithinContext\<close>: the source runs in a context derived from
  the one of the engagement, and a goroutine cancels it when the controller stops.
\<close>

definition startWithinContext :: "watch \<Rightarrow> ctx \<Rightarrow> mc_controller \<Rightarrow> mc_controller" where
  "startWithinContext w ctlCtx c =
     (let (S, cx) = with_cancel (mcc_ctxs c) (w_ctx w)
      in c\<lparr>mcc_ctxs := S, mcc_started := (ctlCtx, cx, w) # mcc_started c\<rparr>)"

definition controller_stopped :: "ctx \<times> ctx \<times> watch \<Rightarrow> mc_controller \<Rightarrow> mc_controller" where
  "controller_stopped t c = c\<lparr>mcc_ctxs := cancel (mcc_ctxs c) (fst (snd t))\<rparr>"


subsection \<open>Watch loops\<close>

lemma watch_sources_result:
  "watch_sources fc wt cx n cl srcs ws = (err, ws') \<Longrightarrow>
     \<exists>new. ws' = ws @ new \<and>
       (\<forall>w \<in> set new. w_name w = n \<and> w_cluster w = cl \<and> w_ctx w = cx \<and> w_source w \<in> set srcs) \<and>
       (err = None \<longrightarrow> (\<forall>s \<in> set srcs. fc s n cl = Inr True \<longrightarrow>
          \<lparr>w_source = s, w_name = n, w_cluster = cl, w_ctx = cx\<rparr> \<in> set new))"
proof (induction fc wt cx n cl srcs ws rule: watch_sources.induct)
  case (2 fc wt cx n cl s srcs ws)
  let ?w = "\<lparr>w_source = s, w_name = n, w_cluster = cl, w_ctx = cx\<rparr>"
  consider (fail) e where "fc s n cl = Inl e" | (skip) "fc s n cl = Inr False"
    | (refused) e where "fc s n cl = Inr True" "wt ws ?w = Some e"
    | (ok) "fc s n cl = Inr True" "wt ws ?w = None"
    by (cases "fc s n cl"; cases "projr (fc s n cl)"; cases "wt ws ?w") auto
  then show ?case
  proof cases
    case skip
    with "2.prems" "2.IH"(1)[OF skip] show ?thesis by auto
  next
    case ok
    with "2.prems" have "watch_sources fc wt cx n cl srcs (ws @ [?w]) = (err, ws')" by simp
    with ok "2.IH"(2)[OF ok(1) _ refl] obtain new where
      "ws' = (ws @ [?w]) @ new \<and>
       (\<forall>w \<in> set new. w_name w = n \<and> w_cluster w = cl \<and> w_ctx w = cx \<and> w_source w \<in> set srcs) \<and>
       (err = None \<longrightarrow> (\<forall>s \<in> set srcs. fc s n cl = Inr True \<longrightarrow>
          \<lparr>w_source = s, w_name = n, w_cluster = cl, w_ctx = cx\<rparr> \<in> set new))" by auto
    then show ?thesis by (intro exI[of _ "?w # new"]) auto
  qed (use "2.prems" in auto)
qed auto

lemma watch_clusters_result:
  "watch_clusters fc wt src cls ws = (err, ws') \<Longrightarrow>
     \<exists>new. ws' = ws @ new \<and>
       (\<forall>w \<in> set new. w_source w = src \<and>
          (\<exists>eng. (w_name w, eng) \<in> set cls \<and> w_cluster w = ec_cluster eng \<and> w_ctx w = ec_ctx eng)) \<and>
       (err = None \<longrightarrow> (\<forall>(n, eng) \<in> set cls. fc src n (ec_cluster eng) = Inr True \<longrightarrow>
          \<lparr>w_source = src, w_name = n, w_cluster = ec_cluster eng, w_ctx = ec_ctx eng\<rparr> \<in> set new))"
proof (induction fc wt src cls ws rule: watch_clusters.induct)
  case (2 fc wt src n eng cls ws)
  let ?w = "\<lparr>w_source = src, w_name = n, w_cluster = ec_cluster eng, w_ctx = ec_ctx eng\<rparr>"
  let ?f = "fc src n (ec_cluster eng)"
  consider (fail) e where "?f = Inl e" | (skip) "?f = Inr False"
    | (refused) e where "?f = Inr True" "wt ws ?w = Some e" | (ok) "?f = Inr True" "wt ws ?w = None"
    by (cases ?f; cases "projr ?f"; cases "wt ws ?w") auto
  then show ?case
  proof cases
    case skip
    with "2.prems" "2.IH"(1)[OF skip] show ?thesis by fastforce
  next
    case ok
    with "2.prems" have "watch_clusters fc wt src cls (ws @ [?w]) = (err, ws')" by simp
    with ok "2.IH"(2)[OF ok(1) _ refl] obtain new where
      "ws' = (ws @ [?w]) @ new \<and>
       (\<forall>w \<in> set new. w_source w = src \<and>
          (\<exists>eng. (w_name w, eng) \<in> set cls \<and> w_cluster w = ec_cluster eng \<and> w_ctx w = ec_ctx eng)) \<and>
       (err = None \<longrightarrow> (\<forall>(n, eng) \<in> set cls. fc src n (ec_cluster eng) = Inr True \<longrightarrow>
          \<lparr>w_source = src, w_name = n, w_cluster = ec_cluster eng, w_ctx = ec_ctx eng\<rparr> \<in> set new))" by auto
    then show ?thesis by (intro exI[of _ "?w # new"]) auto
  qed (use "2.prems" in auto)
qed auto

subsection \<open>Invariant\<close>

text \<open>An engagement that is on the books has every watch its sources want.\<close>

definition covered :: "for_cluster \<Rightarrow> mc_controller \<Rightarrow> bool" where
  "covered fc c \<longleftrightarrow>
     (\<forall>n ec s. fmlookup (mcc_clusters c) n = Some ec \<longrightarrow> s \<in> set (mcc_sources c) \<longrightarrow>
        fc s n (ec_cluster ec) = Inr True \<longrightarrow>
        \<lparr>w_source = s, w_name = n, w_cluster = ec_cluster ec, w_ctx = ec_ctx ec\<rparr> \<in> set (mcc_watches c))"

text \<open>A watch whose context lives belongs to the engagement that is on the books.\<close>

definition current_only :: "mc_controller \<Rightarrow> bool" where
  "current_only c \<longleftrightarrow>
     (\<forall>w \<in> set (mcc_watches c). w_ctx w < length (mcc_ctxs c) \<and>
        (\<not> ctx_err (mcc_ctxs c) (w_ctx w) \<longrightarrow>
           fmlookup (mcc_clusters c) (w_name w) =
             Some \<lparr>ec_name = w_name w, ec_cluster = w_cluster w, ec_ctx = w_ctx w\<rparr>))"

definition engagements_ok :: "mc_controller \<Rightarrow> bool" where
  "engagements_ok c \<longleftrightarrow>
     (\<forall>n ec. fmlookup (mcc_clusters c) n = Some ec \<longrightarrow>
        ec_name ec = n \<and> ec_ctx ec < length (mcc_ctxs c) \<and> ec \<in> set (mcc_waiting c))"

definition controller_inv :: "for_cluster \<Rightarrow> mc_controller \<Rightarrow> bool" where
  "controller_inv fc c \<longleftrightarrow> covered fc c \<and> current_only c \<and> engagements_ok c"

lemma current_only_ctxs:
  assumes "current_only c" and "length (mcc_ctxs c) \<le> length S"
    and "\<And>k. k < length (mcc_ctxs c) \<Longrightarrow> ctx_err (mcc_ctxs c) k \<Longrightarrow> ctx_err S k"
  shows "current_only (c\<lparr>mcc_ctxs := S\<rparr>)"
  using assms unfolding current_only_def by fastforce

lemma controller_inv_ctxs:
  assumes "controller_inv fc c" and "length (mcc_ctxs c) \<le> length S"
    and "\<And>k. k < length (mcc_ctxs c) \<Longrightarrow> ctx_err (mcc_ctxs c) k \<Longrightarrow> ctx_err S k"
  shows "controller_inv fc (c\<lparr>mcc_ctxs := S\<rparr>)"
  using assms current_only_ctxs[of c S]
  unfolding controller_inv_def covered_def engagements_ok_def by fastforce

lemma disengage_inv:
  assumes inv: "controller_inv fc c" and old: "fmlookup (mcc_clusters c) n = Some old"
  shows "controller_inv fc (disengage n old c)"
    and "fmlookup (mcc_clusters (disengage n old c)) n = None"
proof -
  let ?S = "mcc_ctxs (disengage n old c)"
  have len: "length ?S = length (mcc_ctxs c)" by (simp add: disengage_def)
  have dead: "ctx_err ?S (ec_ctx old)"
    using inv old by (auto simp: disengage_def controller_inv_def engagements_ok_def ctx_err_cancel_self)
  have mono: "ctx_err (mcc_ctxs c) k \<Longrightarrow> ctx_err ?S k" for k
    by (simp add: disengage_def ctx_err_cancel_mono)
  have cl: "mcc_clusters (disengage n old c) = fmdrop n (mcc_clusters c)"
    and ws: "mcc_watches (disengage n old c) = mcc_watches c" by (simp_all add: disengage_def)
  have "current_only (disengage n old c)"
    unfolding current_only_def ws cl len
  proof (intro ballI conjI impI)
    fix w assume w: "w \<in> set (mcc_watches c)"
    with inv show "w_ctx w < length (mcc_ctxs c)" by (simp add: controller_inv_def current_only_def)
    assume live: "\<not> ctx_err ?S (w_ctx w)"
    with mono inv w have e: "fmlookup (mcc_clusters c) (w_name w) =
        Some \<lparr>ec_name = w_name w, ec_cluster = w_cluster w, ec_ctx = w_ctx w\<rparr>"
      by (auto simp: controller_inv_def current_only_def)
    with live dead old have "w_name w \<noteq> n" by auto
    with e show "fmlookup (fmdrop n (mcc_clusters c)) (w_name w) =
        Some \<lparr>ec_name = w_name w, ec_cluster = w_cluster w, ec_ctx = w_ctx w\<rparr>" by simp
  qed
  then show "controller_inv fc (disengage n old c)"
    using inv by (auto simp: controller_inv_def covered_def engagements_ok_def disengage_def split: if_splits)
  show "fmlookup (mcc_clusters (disengage n old c)) n = None" by (simp add: disengage_def)
qed


text \<open>Watches in a context that is dead, or in the one the entry is made for, do no harm.\<close>

lemma current_only_append:
  assumes "current_only c"
    and "\<And>w. w \<in> set new \<Longrightarrow> w_ctx w < length (mcc_ctxs c) \<and>
        (\<not> ctx_err (mcc_ctxs c) (w_ctx w) \<longrightarrow>
           fmlookup (mcc_clusters c) (w_name w) =
             Some \<lparr>ec_name = w_name w, ec_cluster = w_cluster w, ec_ctx = w_ctx w\<rparr>)"
  shows "current_only (c\<lparr>mcc_watches := mcc_watches c @ new\<rparr>)"
  using assms by (auto simp: current_only_def)

lemma engage_fresh_cases:
  assumes "engage_fresh fc wt inner cx n cl c = (err, c')"
  obtains (failed) e new where "err = Some e"
      "c' = c\<lparr>mcc_watches := mcc_watches c @ new,
             mcc_ctxs := cancel (fst (with_cancel (mcc_ctxs c) cx)) (length (mcc_ctxs c))\<rparr>"
      "\<forall>w \<in> set new. w_ctx w = length (mcc_ctxs c)"
  | (engaged) new where "err = None"
      "c' = c\<lparr>mcc_ctxs := fst (with_cancel (mcc_ctxs c) cx), mcc_watches := mcc_watches c @ new,
             mcc_clusters := fmupd n \<lparr>ec_name = n, ec_cluster = cl, ec_ctx = length (mcc_ctxs c)\<rparr> (mcc_clusters c),
             mcc_waiting := \<lparr>ec_name = n, ec_cluster = cl, ec_ctx = length (mcc_ctxs c)\<rparr> # mcc_waiting c\<rparr>"
      "\<forall>w \<in> set new. w_name w = n \<and> w_cluster w = cl \<and> w_ctx w = length (mcc_ctxs c)"
      "\<forall>s \<in> set (mcc_sources c). fc s n cl = Inr True \<longrightarrow>
          \<lparr>w_source = s, w_name = n, w_cluster = cl, w_ctx = length (mcc_ctxs c)\<rparr> \<in> set new"
proof -
  let ?i = "case inner of None \<Rightarrow> None | Some f \<Rightarrow> f (length (mcc_ctxs c)) n cl"
  obtain e ws where ws: "watch_sources fc wt (length (mcc_ctxs c)) n cl (mcc_sources c) (mcc_watches c) = (e, ws)"
    by fastforce
  from watch_sources_result[OF ws] obtain new where new: "ws = mcc_watches c @ new"
    "\<forall>w \<in> set new. w_name w = n \<and> w_cluster w = cl \<and> w_ctx w = length (mcc_ctxs c)"
    "e = None \<Longrightarrow> \<forall>s \<in> set (mcc_sources c). fc s n cl = Inr True \<longrightarrow>
          \<lparr>w_source = s, w_name = n, w_cluster = cl, w_ctx = length (mcc_ctxs c)\<rparr> \<in> set new"
    by blast
  show ?thesis
  proof (cases "?i = None \<and> e = None")
    case True
    with assms ws new show ?thesis
      by (intro engaged[of new]) (auto simp: engage_fresh_def with_cancel_def Let_def)
  next
    case False
    show ?thesis
    proof (cases "?i = None")
      case True
      with False obtain x where "e = Some x" by auto
      with True assms ws new show ?thesis
        by (intro failed[of x new]) (auto simp: engage_fresh_def with_cancel_def Let_def)
    next
      case False
      then obtain x where "?i = Some x" by blast
      with assms show ?thesis
        by (intro failed[of x "[]"]) (auto simp: engage_fresh_def with_cancel_def Let_def)
    qed
  qed
qed

lemma engage_fresh_inv:
  assumes inv: "controller_inv fc c" and none: "fmlookup (mcc_clusters c) n = None"
    and eng: "engage_fresh fc wt inner cx n cl c = (err, c')"
  shows "controller_inv fc c'"
  using eng
proof (cases rule: engage_fresh_cases)
  case (failed e new)
  let ?S = "cancel (fst (with_cancel (mcc_ctxs c) cx)) (length (mcc_ctxs c))"
  have old: "ctx_err ?S k = ctx_err (mcc_ctxs c) k" if "k < length (mcc_ctxs c)" for k
    using that by (rule cancel_fresh_child)
  have dead: "ctx_err ?S (length (mcc_ctxs c))" by (simp add: ctx_err_cancel_self)
  have "controller_inv fc (c\<lparr>mcc_ctxs := ?S\<rparr>)" using old by (intro controller_inv_ctxs[OF inv]) auto
  moreover have "current_only (c\<lparr>mcc_ctxs := ?S, mcc_watches := mcc_watches c @ new\<rparr>)"
    using current_only_append[of "c\<lparr>mcc_ctxs := ?S\<rparr>" new] calculation failed(3) dead
    by (simp add: controller_inv_def)
  ultimately show ?thesis
    unfolding failed(2) by (auto simp: controller_inv_def covered_def engagements_ok_def current_only_def)
next
  case (engaged new)
  let ?S = "fst (with_cancel (mcc_ctxs c) cx)"
  have old: "ctx_err ?S k = ctx_err (mcc_ctxs c) k" if "k < length (mcc_ctxs c)" for k
    using that by (rule ctx_err_with_cancel_old)
  have "current_only c'"
    unfolding current_only_def
  proof (intro ballI conjI impI)
    fix w assume "w \<in> set (mcc_watches c')"
    then consider (o) "w \<in> set (mcc_watches c)" | (n) "w \<in> set new" using engaged(2) by auto
    note c = this
    from c show "w_ctx w < length (mcc_ctxs c')"
      using inv engaged(2,3) by cases (auto simp: controller_inv_def current_only_def less_Suc_eq)
    assume live: "\<not> ctx_err (mcc_ctxs c') (w_ctx w)"
    from c show "fmlookup (mcc_clusters c') (w_name w) =
        Some \<lparr>ec_name = w_name w, ec_cluster = w_cluster w, ec_ctx = w_ctx w\<rparr>"
      using inv engaged(2,3) live old none
      by cases (auto simp: controller_inv_def current_only_def)
  qed
  moreover have "covered fc c'"
    using inv engaged(2,4) by (auto simp: covered_def controller_inv_def)
  moreover have "engagements_ok c'"
    using inv engaged(2) by (auto simp: engagements_ok_def controller_inv_def less_Suc_eq split: if_splits)
  ultimately show ?thesis by (simp add: controller_inv_def)
qed

lemma controller_Engage_inv:
  assumes "controller_inv fc c" and "controller_Engage fc wt inner cx n cl c = (err, c')"
  shows "controller_inv fc c'"
proof (cases "fmlookup (mcc_clusters c) n")
  case None
  with assms engage_fresh_inv show ?thesis by (auto simp: controller_Engage_def)
next
  case (Some old)
  note d = disengage_inv[OF assms(1) Some]
  show ?thesis
  proof (cases "ec_cluster old = cl \<and> \<not> ctx_err (mcc_ctxs c) (ec_ctx old)")
    case True
    with Some assms show ?thesis by (simp add: controller_Engage_def)
  next
    case False
    with Some assms(2) have "engage_fresh fc wt inner cx n cl (disengage n old c) = (err, c')"
      by (auto simp: controller_Engage_def)
    with d show ?thesis by (rule engage_fresh_inv)
  qed
qed

lemma MultiClusterWatch_inv:
  assumes inv: "controller_inv fc c" and ord: "iter_order (mcc_clusters c) ord"
    and st: "MultiClusterWatch fc wt ord src c = (err, c')"
  shows "controller_inv fc c'"
proof -
  let ?cls = "map (\<lambda>n. (n, the (fmlookup (mcc_clusters c) n))) ord"
  obtain ws where ws: "watch_clusters fc wt src ?cls (mcc_watches c) = (err, ws)"
    and c': "c' = (if err = None then c\<lparr>mcc_watches := ws, mcc_sources := mcc_sources c @ [src]\<rparr>
                   else c\<lparr>mcc_watches := ws\<rparr>)"
    using st by (auto simp: MultiClusterWatch_def split: prod.splits option.splits)
  from watch_clusters_result[OF ws] obtain new where new: "ws = mcc_watches c @ new"
    "\<forall>w \<in> set new. w_source w = src \<and>
        (\<exists>eng. (w_name w, eng) \<in> set ?cls \<and> w_cluster w = ec_cluster eng \<and> w_ctx w = ec_ctx eng)"
    "err = None \<longrightarrow> (\<forall>(n, eng) \<in> set ?cls. fc src n (ec_cluster eng) = Inr True \<longrightarrow>
        \<lparr>w_source = src, w_name = n, w_cluster = ec_cluster eng, w_ctx = ec_ctx eng\<rparr> \<in> set new)" by blast
  have cls: "(n, eng) \<in> set ?cls \<longleftrightarrow> fmlookup (mcc_clusters c) n = Some eng" for n eng
    using iter_order_iff[OF ord, of n] by auto
  have "current_only (c\<lparr>mcc_watches := ws\<rparr>)"
    unfolding new(1)
  proof (rule current_only_append)
    show "current_only c" using inv by (simp add: controller_inv_def)
    fix w assume "w \<in> set new"
    with new(2) obtain eng where e: "fmlookup (mcc_clusters c) (w_name w) = Some eng"
      "w_cluster w = ec_cluster eng" "w_ctx w = ec_ctx eng" using cls by blast
    with inv have "ec_name eng = w_name w" "ec_ctx eng < length (mcc_ctxs c)"
      by (auto simp: controller_inv_def engagements_ok_def)
    with e show "w_ctx w < length (mcc_ctxs c) \<and> (\<not> ctx_err (mcc_ctxs c) (w_ctx w) \<longrightarrow>
        fmlookup (mcc_clusters c) (w_name w) = Some \<lparr>ec_name = w_name w, ec_cluster = w_cluster w, ec_ctx = w_ctx w\<rparr>)"
      by (cases eng) simp
  qed
  moreover have "covered fc c'"
    unfolding covered_def
  proof (intro allI impI)
    fix n ec s
    assume e: "fmlookup (mcc_clusters c') n = Some ec" and s: "s \<in> set (mcc_sources c')"
      and f: "fc s n (ec_cluster ec) = Inr True"
    let ?w = "\<lparr>w_source = s, w_name = n, w_cluster = ec_cluster ec, w_ctx = ec_ctx ec\<rparr>"
    from e c' have e': "fmlookup (mcc_clusters c) n = Some ec" by (auto split: if_splits)
    show "?w \<in> set (mcc_watches c')"
    proof (cases "s \<in> set (mcc_sources c)")
      case True
      with inv e' f c' new(1) show ?thesis by (auto simp: controller_inv_def covered_def)
    next
      case False
      with s c' have "s = src" "err = None" by (auto split: if_splits)
      moreover have "(n, ec) \<in> set ?cls" using e' cls by blast
      ultimately show ?thesis using f c' new(1,3) by fastforce
    qed
  qed
  ultimately show ?thesis
    using inv c' by (auto simp: controller_inv_def current_only_def engagements_ok_def)
qed

lemma engagement_done_inv:
  assumes inv: "controller_inv fc c" and don: "ctx_err (mcc_ctxs c) (ec_ctx tok)"
  shows "controller_inv fc (engagement_done tok c)"
proof (cases "fmlookup (mcc_clusters c) (ec_name tok) = Some tok")
  case True
  have "ctx_err (mcc_ctxs c) (w_ctx w)" if "w \<in> set (mcc_watches c)" "w_name w = ec_name tok" for w
  proof (rule ccontr)
    assume "\<not> ctx_err (mcc_ctxs c) (w_ctx w)"
    with that inv True have "tok = \<lparr>ec_name = w_name w, ec_cluster = w_cluster w, ec_ctx = w_ctx w\<rparr>"
      unfolding controller_inv_def current_only_def by (metis option.inject)
    then have "ec_ctx tok = w_ctx w" by (metis engagedCluster.select_convs(3))
    with don \<open>\<not> ctx_err (mcc_ctxs c) (w_ctx w)\<close> show False by simp
  qed
  note dead = this
  have e: "engagement_done tok c =
      c\<lparr>mcc_waiting := remove1 tok (mcc_waiting c), mcc_clusters := fmdrop (ec_name tok) (mcc_clusters c)\<rparr>"
    using True by (simp add: engagement_done_def)
  have "current_only (engagement_done tok c)"
    using inv dead by (auto simp: e controller_inv_def current_only_def)
  moreover have "covered fc (engagement_done tok c)"
    using inv by (auto simp: e controller_inv_def covered_def)
  moreover have "engagements_ok (engagement_done tok c)"
    using inv unfolding controller_inv_def engagements_ok_def by (simp add: e) (metis in_set_remove1)
  ultimately show ?thesis by (simp add: controller_inv_def)
next
  case False
  then have "engagement_done tok c = c\<lparr>mcc_waiting := remove1 tok (mcc_waiting c)\<rparr>"
    by (simp add: engagement_done_def)
  moreover have "ec \<noteq> tok" if "fmlookup (mcc_clusters c) n = Some ec" for n ec
    using that False inv by (auto simp: controller_inv_def engagements_ok_def)
  ultimately show ?thesis
    using inv by (auto simp: controller_inv_def current_only_def covered_def engagements_ok_def)
qed


subsection \<open>Runs\<close>

text \<open>
  A run interleaves engagements, new watches, started sources, goroutines of ended engagements
  and contexts that are derived and cancelled by others.
\<close>

inductive controller_step :: "for_cluster \<Rightarrow> mc_controller \<Rightarrow> mc_controller \<Rightarrow> bool" for fc :: for_cluster where
  engage: "controller_Engage fc wt inner cx n cl c = (err, c') \<Longrightarrow> controller_step fc c c'"
| watch: "iter_order (mcc_clusters c) ord \<Longrightarrow> MultiClusterWatch fc wt ord src c = (err, c') \<Longrightarrow>
    controller_step fc c c'"
| ended: "tok \<in> set (mcc_waiting c) \<Longrightarrow> ctx_err (mcc_ctxs c) (ec_ctx tok) \<Longrightarrow>
    controller_step fc c (engagement_done tok c)"
| started: "w \<in> set (mcc_watches c) \<Longrightarrow> controller_step fc c (startWithinContext w ctl c)"
| stopped: "t \<in> set (mcc_started c) \<Longrightarrow> ctx_err (mcc_ctxs c) (fst t) \<Longrightarrow> controller_step fc c (controller_stopped t c)"
| derived: "controller_step fc c (c\<lparr>mcc_ctxs := fst (with_cancel (mcc_ctxs c) p)\<rparr>)"
| cancelled: "controller_step fc c (c\<lparr>mcc_ctxs := cancel (mcc_ctxs c) cx\<rparr>)"

lemma controller_inv_started: "controller_inv fc (c\<lparr>mcc_started := ts\<rparr>) = controller_inv fc c"
  by (simp add: controller_inv_def covered_def current_only_def engagements_ok_def)

lemma controller_step_inv:
  assumes "controller_step fc c c'" and inv: "controller_inv fc c"
  shows "controller_inv fc c'"
  using assms(1)
proof cases
  case (engage wt inner cx n cl err)
  with inv show ?thesis by (auto intro: controller_Engage_inv)
next
  case (watch ord wt src err)
  with inv show ?thesis by (auto intro: MultiClusterWatch_inv)
next
  case (ended tok)
  with inv show ?thesis by (auto intro: engagement_done_inv)
next
  case (started w ctl)
  have "controller_inv fc (c\<lparr>mcc_ctxs := fst (with_cancel (mcc_ctxs c) (w_ctx w))\<rparr>)"
    by (rule controller_inv_ctxs[OF inv]) (auto simp: ctx_simps)
  then have "controller_inv fc ((c\<lparr>mcc_ctxs := fst (with_cancel (mcc_ctxs c) (w_ctx w))\<rparr>)
      \<lparr>mcc_started := (ctl, length (mcc_ctxs c), w) # mcc_started c\<rparr>)"
    by (simp only: controller_inv_started)
  with started show ?thesis by (simp add: startWithinContext_def with_cancel_def)
next
  case (stopped t)
  then show ?thesis unfolding stopped(1) controller_stopped_def
    by (intro controller_inv_ctxs[OF inv]) (auto intro: ctx_err_cancel_mono)
next
  case (derived p)
  then show ?thesis unfolding derived by (intro controller_inv_ctxs[OF inv]) (auto simp: ctx_simps)
next
  case (cancelled cx)
  then show ?thesis unfolding cancelled by (intro controller_inv_ctxs[OF inv]) (auto intro: ctx_err_cancel_mono)
qed

lemma controller_run_inv: "(controller_step fc)\<^sup>*\<^sup>* c c' \<Longrightarrow> controller_inv fc c \<Longrightarrow> controller_inv fc c'"
  by (induction rule: rtranclp_induct) (auto intro: controller_step_inv)

lemma NewTypedUnmanaged_inv:
  "NewTypedUnmanaged dflt cr S name opts = Inr (ctl, c) \<Longrightarrow> controller_inv fc c"
  by (auto simp: NewTypedUnmanaged_def controller_inv_def covered_def current_only_def engagements_ok_def
      split: sum.splits)


subsection \<open>Properties\<close>

text \<open>
  C18: an engaged cluster is watched, and only as long as it is engaged. In every run of a new
  controller, an engagement on the books has a watch for every source that wants its cluster,
  in the context of the engagement, in whichever order sources and clusters came; and a watch
  whose context lives is for the cluster that is on the books under its name.
\<close>

theorem engaged_clusters_watched:
  assumes "NewTypedUnmanaged dflt cr S name opts = Inr (ctl, c0)" and "(controller_step fc)\<^sup>*\<^sup>* c0 c"
  shows "(\<forall>n ec s. fmlookup (mcc_clusters c) n = Some ec \<longrightarrow> s \<in> set (mcc_sources c) \<longrightarrow>
        fc s n (ec_cluster ec) = Inr True \<longrightarrow>
        \<lparr>w_source = s, w_name = n, w_cluster = ec_cluster ec, w_ctx = ec_ctx ec\<rparr> \<in> set (mcc_watches c)) \<and>
     (\<forall>w \<in> set (mcc_watches c). \<not> ctx_err (mcc_ctxs c) (w_ctx w) \<longrightarrow>
        fmlookup (mcc_clusters c) (w_name w) =
          Some \<lparr>ec_name = w_name w, ec_cluster = w_cluster w, ec_ctx = w_ctx w\<rparr>)"
  using controller_run_inv[OF assms(2) NewTypedUnmanaged_inv[OF assms(1)]]
  by (simp add: controller_inv_def covered_def current_only_def)

lemma controller_Engage_result:
  assumes "controller_inv fc c" and "controller_Engage fc wt inner cx n cl c = (err, c')"
  shows "case err of
      None \<Rightarrow> \<exists>ec. fmlookup (mcc_clusters c') n = Some ec \<and> ec_cluster ec = cl
    | Some e \<Rightarrow> fmlookup (mcc_clusters c') n = None \<and>
        (\<forall>w \<in> set (mcc_watches c'). w_name w = n \<longrightarrow> ctx_err (mcc_ctxs c') (w_ctx w))"
proof -
  have inv': "controller_inv fc c'" by (rule controller_Engage_inv[OF assms])
  have fresh: "(err = None \<longrightarrow> (\<exists>ec. fmlookup (mcc_clusters c') n = Some ec \<and> ec_cluster ec = cl)) \<and>
      (err \<noteq> None \<longrightarrow> fmlookup (mcc_clusters c') n = None)"
    if "engage_fresh fc wt inner cx n cl d = (err, c')" "fmlookup (mcc_clusters d) n = None" for d
    using that(1) by (cases rule: engage_fresh_cases) (use that(2) in auto)
  have "(err = None \<longrightarrow> (\<exists>ec. fmlookup (mcc_clusters c') n = Some ec \<and> ec_cluster ec = cl)) \<and>
      (err \<noteq> None \<longrightarrow> fmlookup (mcc_clusters c') n = None)"
    using assms(2) fresh[of c] fresh[OF _ disengage_inv(2)[OF assms(1)]]
    by (auto simp: controller_Engage_def split: option.splits if_splits)
  with inv' show ?thesis by (auto simp: controller_inv_def current_only_def split: option.split)
qed

text \<open>
  \<open>Engage\<close> of a controller engages completely or not at all. When it returns nil the cluster is on
  the books under its name. When it returns an error, the name is not on the books and no
  watch for it lives: those it had started, and those of an engagement it was to replace, are
  cancelled.
\<close>

theorem controller_Engage_all_or_nothing:
  assumes "controller_inv fc c" and "controller_Engage fc wt inner cx n cl c = (err, c')"
  shows "case err of
      None \<Rightarrow> \<exists>ec. fmlookup (mcc_clusters c') n = Some ec \<and> ec_cluster ec = cl
    | Some e \<Rightarrow> fmlookup (mcc_clusters c') n = None \<and>
        (\<forall>w \<in> set (mcc_watches c'). w_name w = n \<longrightarrow> ctx_err (mcc_ctxs c') (w_ctx w))"
  using assms by (rule controller_Engage_result)

definition demo_controller :: mc_controller where
  "demo_controller = \<lparr>mcc_clusters = fmempty, mcc_sources = [5], mcc_ctxs = [(None, False)], mcc_watches = [],
     mcc_waiting = [], mcc_started = []\<rparr>"

lemma demo_controller_inv: "controller_inv fc demo_controller"
  by (simp add: demo_controller_def controller_inv_def covered_def current_only_def engagements_ok_def)

theorem controller_Engage_all_or_nothing_witness:
  "fmlookup (mcc_clusters (snd (controller_Engage (\<lambda>_ _ _. Inr True) (\<lambda>_ _. Some ErrCtx) None 0 ''a'' 9 demo_controller))) ''a'' = None"
proof -
  let ?r = "controller_Engage (\<lambda>_ _ _. Inr True) (\<lambda>_ _. Some ErrCtx) None 0 ''a'' 9 demo_controller"
  have "fst ?r \<noteq> None"
    by (simp add: controller_Engage_def engage_fresh_def with_cancel_def demo_controller_def Let_def)
  then show ?thesis
    using controller_Engage_all_or_nothing[OF demo_controller_inv surjective_pairing, of "\<lambda>_ _ _. Inr True" "\<lambda>_ _. Some ErrCtx"
        None 0 "''a''" 9] by (auto split: option.splits)
qed

theorem engaged_clusters_watched_witness:
  "\<lparr>w_source = 5, w_name = ''a'', w_cluster = 9, w_ctx = 1\<rparr> \<in>
     set (mcc_watches (snd (controller_Engage (\<lambda>_ _ _. Inr True) (\<lambda>_ _. None) None 0 ''a'' 9 demo_controller)))"
proof -
  let ?fc = "\<lambda>_ _ _. Inr True :: go_error + bool"
  let ?c0 = "\<lparr>mcc_clusters = fmempty, mcc_sources = [], mcc_ctxs = [(None, False)], mcc_watches = [],
     mcc_waiting = [], mcc_started = []\<rparr>"
  let ?c2 = "snd (controller_Engage ?fc (\<lambda>_ _. None) None 0 ''a'' 9 demo_controller)"
  have new: "NewTypedUnmanaged id (\<lambda>_ _. Inr ()) [(None, False)] ''ctl'' () = Inr ((), ?c0)"
    by (simp add: NewTypedUnmanaged_def)
  have "MultiClusterWatch ?fc (\<lambda>_ _. None) [] 5 ?c0 = (None, demo_controller)"
    by (simp add: MultiClusterWatch_def demo_controller_def)
  then have "controller_step ?fc ?c0 demo_controller"
    by (rule controller_step.watch[rotated]) (simp add: iter_order_def)
  moreover have "controller_step ?fc demo_controller ?c2"
    by (rule controller_step.engage) (rule surjective_pairing)
  ultimately have run: "(controller_step ?fc)\<^sup>*\<^sup>* ?c0 ?c2"
    by (rule converse_rtranclp_into_rtranclp[OF _ r_into_rtranclp])
  have "fmlookup (mcc_clusters ?c2) ''a'' = Some \<lparr>ec_name = ''a'', ec_cluster = 9, ec_ctx = 1\<rparr>"
    "mcc_sources ?c2 = [5]"
    by (simp_all add: controller_Engage_def engage_fresh_def with_cancel_def demo_controller_def Let_def)
  with engaged_clusters_watched[OF new run] show ?thesis by force
qed

text \<open>
  A watch that fails for a later cluster keeps running in the earlier ones.
  \<open>MultiClusterWatch\<close> returns an error and does not register the source, but what it started
  before the failure stays live; calling it again watches those clusters twice.
\<close>

theorem failed_watch_keeps_running:
  "let c = (demo_controller\<lparr>mcc_sources := []\<rparr>);
       c1 = snd (controller_Engage (\<lambda>_ _ _. Inr True) (\<lambda>_ _. None) None 0 ''a'' 9 c);
       c2 = snd (controller_Engage (\<lambda>_ _ _. Inr True) (\<lambda>_ _. None) None 0 ''b'' 8 c1);
       wt = (\<lambda>_ w. if w_name w = ''b'' then Some ErrCtx else None);
       (err, c3) = MultiClusterWatch (\<lambda>_ _ _. Inr True) wt [''a'', ''b''] 5 c2;
       (err', c4) = MultiClusterWatch (\<lambda>_ _ _. Inr True) (\<lambda>_ _. None) [''a'', ''b''] 5 c3
   in err \<noteq> None \<and> mcc_sources c3 = [] \<and>
      mcc_watches c3 = [\<lparr>w_source = 5, w_name = ''a'', w_cluster = 9, w_ctx = 1\<rparr>] \<and> \<not> ctx_err (mcc_ctxs c3) 1 \<and>
      err' = None \<and> count_list (mcc_watches c4) \<lparr>w_source = 5, w_name = ''a'', w_cluster = 9, w_ctx = 1\<rparr> = 2"
  by (simp add: MultiClusterWatch_def controller_Engage_def engage_fresh_def with_cancel_def demo_controller_def
      ctx_err.simps Let_def)

end
