(* ===== verification/Tracking.thy ===== *)
theory Tracking
  imports Reconcile
begin

text \<open>
  What the providers that create clusters themselves have in common: the calls they make into
  other code, and the promise that no cluster is left running behind the provider's back. A
  running cluster is tracked if its context is done or its provider knows it under its name.
\<close>

subsection \<open>Running clusters\<close>

type_synonym running = "(cluster_name \<times> cluster_h \<times> ctx) list"

definition tracked ::
  "ctxs \<Rightarrow> (cluster_name \<Rightarrow> cluster_h option) \<Rightarrow> (cluster_name \<Rightarrow> ctx option) \<Rightarrow> running \<Rightarrow> bool" where
  "tracked S known ctx_of run \<longleftrightarrow>
     (\<forall>(n, cl, k) \<in> set run. k < length S \<and>
        (\<not> ctx_err S k \<longrightarrow> known n = Some cl \<and> ctx_of n = Some k))"

lemma trackedD:
  "tracked S known ctx_of run \<Longrightarrow> (n, cl, k) \<in> set run \<Longrightarrow>
   k < length S \<and> (\<not> ctx_err S k \<longrightarrow> known n = Some cl \<and> ctx_of n = Some k)"
  by (auto simp: tracked_def)

lemma tracked_ctxs:
  assumes "tracked S known ctx_of run" and "length S \<le> length T"
    and "\<And>k. k < length S \<Longrightarrow> ctx_err S k \<Longrightarrow> ctx_err T k"
  shows "tracked T known ctx_of run"
  using assms unfolding tracked_def by fastforce

text \<open>A cluster that was started in a fresh context and entered into the tables.\<close>

lemma tracked_enter:
  assumes "tracked S known ctx_of run" and "known n = None"
  shows "tracked (fst (with_cancel S p)) (known(n \<mapsto> cl)) (ctx_of(n \<mapsto> length S)) ((n, cl, length S) # run)"
  unfolding tracked_def
proof (intro ballI, clarify, intro conjI impI)
  fix m c k assume m: "(m, c, k) \<in> set ((n, cl, length S) # run)"
  then consider "(m, c, k) = (n, cl, length S)" | "(m, c, k) \<in> set run" by auto
  note cases = this
  from cases show "k < length (fst (with_cancel S p))"
    using trackedD[OF assms(1)] by cases (auto simp: less_Suc_eq)
  assume live: "\<not> ctx_err (fst (with_cancel S p)) k"
  have "m \<noteq> n \<and> known m = Some c \<and> ctx_of m = Some k" if "(m, c, k) \<in> set run"
    using trackedD[OF assms(1) that] live assms(2) by (auto simp: ctx_err_with_cancel_old)
  with cases show "(known(n \<mapsto> cl)) m = Some c" "(ctx_of(n \<mapsto> length S)) m = Some k"
    by (auto split: if_splits)
qed

text \<open>A cluster that was started and given up again before it was entered.\<close>

lemma tracked_abort:
  assumes "tracked S known ctx_of run"
  shows "tracked (cancel (fst (with_cancel S p)) (length S)) known ctx_of ((n, cl, length S) # run)"
proof -
  have "tracked (cancel (fst (with_cancel S p)) (length S)) known ctx_of run"
    using assms by (rule tracked_ctxs) (auto simp: cancel_fresh_child)
  then show ?thesis by (auto simp: tracked_def ctx_err_cancel_self)
qed

locale cluster_tracking = cluster_lifecycle ctxs_of known ctx_of inv drop
  for ctxs_of :: "'s \<Rightarrow> ctxs" and known :: "'s \<Rightarrow> cluster_name \<Rightarrow> cluster_h option"
    and ctx_of :: "'s \<Rightarrow> cluster_name \<Rightarrow> ctx option" and inv :: "'s \<Rightarrow> bool"
    and drop :: "cluster_name \<Rightarrow> 's \<Rightarrow> 's" +
  fixes running :: "'s \<Rightarrow> running"
  assumes drop_running: "running (drop n s) = running s"
begin

lemma drop_tracked:
  assumes "inv s" and "tracked (ctxs_of s) (known s) (ctx_of s) (running s)"
  shows "tracked (ctxs_of (drop n s)) (known (drop n s)) (ctx_of (drop n s)) (running (drop n s))"
  unfolding tracked_def drop_running
proof (intro ballI, clarify, intro conjI impI)
  fix m c k assume m: "(m, c, k) \<in> set (running s)"
  note t = trackedD[OF assms(2) m]
  show "k < length (ctxs_of (drop n s))" using t by (simp add: drop_length)
  assume live: "\<not> ctx_err (ctxs_of (drop n s)) k"
  with drop_mono[of s k n] have "\<not> ctx_err (ctxs_of s) k" by blast
  with t have k: "known s m = Some c" "ctx_of s m = Some k" by auto
  moreover have "m \<noteq> n" using drop_cancels[OF assms(1), of n k] k live by auto
  ultimately show "known (drop n s) m = Some c" "ctx_of (drop n s) m = Some k"
    by (simp_all add: drop_known drop_ctx)
qed

text \<open>No cluster of a dropped name runs on.\<close>

lemma dropped_not_running:
  assumes "inv s" and "tracked (ctxs_of s) (known s) (ctx_of s) (running s)"
    and "(n, cl, k) \<in> set (running s)"
  shows "ctx_err (ctxs_of (drop n s)) k"
  using trackedD[OF drop_tracked[OF assms(1,2), of n], of n cl k] assms(3) by (auto simp: drop_running drop_known)

end

interpretation clustersTrack: cluster_tracking cs_ctxs clusters_known "\<lambda>c. fmlookup (cs_cancels c)"
  clusters_inv clusters_Remove cs_running
  by unfold_locales simp

subsection \<open>Calls into other code\<close>

text \<open>
  What a provider that connects to clusters calls: the REST configuration from a kubeconfig,
  \<open>cluster.New\<close>, the field indexer and the cache of a cluster, and \<open>Engage\<close> of the manager.
\<close>

type_synonym rest_config = nat

record connect_env =
  ce_rest :: "string \<Rightarrow> go_error + rest_config"
  ce_new :: "rest_config \<Rightarrow> go_error + cluster_h"
  ce_index :: "cluster_h \<Rightarrow> index \<Rightarrow> go_error option"
  ce_sync :: "cluster_h \<Rightarrow> bool"
  ce_engage :: "cluster_name \<Rightarrow> cluster_h \<Rightarrow> go_error option"
  ce_hash :: "string \<Rightarrow> string"

text \<open>\<open>apierrors.IsNotFound\<close>.\<close>

definition IsNotFound :: "go_error \<Rightarrow> bool" where
  "IsNotFound e \<longleftrightarrow> e = ErrApi NotFound"

text \<open>REST options change the configuration in place, until one fails.\<close>

fun apply_rest_options ::
  "(rest_config \<Rightarrow> go_error + rest_config) list \<Rightarrow> rest_config \<Rightarrow> go_error + rest_config" where
  "apply_rest_options [] cfg = Inr cfg"
| "apply_rest_options (opt # opts) cfg =
     (case opt cfg of Inl err \<Rightarrow> Inl err | Inr cfg' \<Rightarrow> apply_rest_options opts cfg')"


fun index_loop ::
  "(cluster_h \<Rightarrow> index \<Rightarrow> go_error option) \<Rightarrow> cluster_h \<Rightarrow> index list \<Rightarrow> cluster_call list \<Rightarrow>
   (index \<times> go_error) option \<times> cluster_call list" where
  "index_loop ix cl [] calls = (None, calls)"
| "index_loop ix cl (i # is) calls =
     (case ix cl i of
        Some e \<Rightarrow> (Some (i, e), calls @ [CallIndex cl i])
      | None \<Rightarrow> index_loop ix cl is (calls @ [CallIndex cl i]))"

lemma index_loop_ok:
  "index_loop ix cl is calls = (None, calls') \<Longrightarrow> calls' = calls @ map (CallIndex cl) is"
  by (induction ix cl "is" calls rule: index_loop.induct) (auto split: option.splits)

lemma index_loop_None_iff: "fst (index_loop ix cl is calls) = None \<longleftrightarrow> (\<forall>i \<in> set is. ix cl i = None)"
  by (induction ix cl "is" calls rule: index_loop.induct) (auto split: option.splits)

text \<open>A new index on the clusters that exist, until one of them fails.\<close>

fun index_clusters ::
  "(cluster_h \<Rightarrow> index \<Rightarrow> go_error option) \<Rightarrow> index \<Rightarrow> (cluster_name \<times> cluster_h) list \<Rightarrow> cluster_call list \<Rightarrow>
   (cluster_name \<times> go_error) option \<times> cluster_call list" where
  "index_clusters ix i [] calls = (None, calls)"
| "index_clusters ix i ((name, cl) # cls) calls =
     (case ix cl i of
        Some e \<Rightarrow> (Some (name, e), calls @ [CallIndex cl i])
      | None \<Rightarrow> index_clusters ix i cls (calls @ [CallIndex cl i]))"

lemma index_clusters_ok:
  "index_clusters ix i cls calls = (None, calls') \<Longrightarrow> calls' = calls @ map (\<lambda>x. CallIndex (snd x) i) cls"
  by (induction ix i cls calls rule: index_clusters.induct) (auto split: option.splits)

end
