(* ===== verification/Kubeconfig.thy ===== *)
theory Kubeconfig
  imports Tracking
begin

text \<open>
  \<open>providers/kubeconfig/provider.go\<close> and \<open>providers/cluster-api/provider.go\<close>: providers that
  reconcile objects of the host cluster, secrets with a kubeconfig and Cluster API clusters,
  into engaged clusters. Both keep a table of active clusters with the hash of the kubeconfig
  they were made from. The API client's answer is an argument of \<open>Reconcile\<close>, and the hash
  function is one of its environment: only the equality of hashes matters to the providers.
\<close>

subsection \<open>State\<close>

record activeCluster =
  ac_Cluster :: cluster_h
  ac_Context :: ctx
  ac_Hash :: string

record 'o active_provider =
  ap_opts :: 'o
  ap_clusters :: "(cluster_name, activeCluster) fmap"
  ap_indexers :: "index list"
  ap_mgr :: "aware_h option"
  ap_ctxs :: ctxs
  ap_running :: running
  ap_calls :: "cluster_call list"

definition new_active :: "'o \<Rightarrow> ctxs \<Rightarrow> 'o active_provider" where
  "new_active opts S =
     \<lparr>ap_opts = opts, ap_clusters = fmempty, ap_indexers = [], ap_mgr = None, ap_ctxs = S,
      ap_running = [], ap_calls = []\<rparr>"

subsection \<open>The kubeconfig provider\<close>

record kubeconfig_options =
  ko_Namespace :: string
  ko_KubeconfigSecretLabel :: string
  ko_KubeconfigSecretKey :: string
  ko_RESTOptions :: "(rest_config \<Rightarrow> go_error + rest_config) list"
  ko_ControllerName :: string

record secret =
  sec_name :: nsname
  sec_labels :: "string \<rightharpoonup> string"
  sec_deleted :: bool
  sec_Data :: "string \<rightharpoonup> string"

definition kubeconfig_defaults :: "kubeconfig_options \<Rightarrow> kubeconfig_options" where
  "kubeconfig_defaults o1 =
     (let o2 = (if ko_KubeconfigSecretLabel o1 = ''''
                then o1\<lparr>ko_KubeconfigSecretLabel := ''sigs.k8s.io/multicluster-runtime-kubeconfig''\<rparr> else o1);
          o3 = (if ko_KubeconfigSecretKey o2 = '''' then o2\<lparr>ko_KubeconfigSecretKey := ''kubeconfig''\<rparr> else o2)
      in if ko_ControllerName o3 = '''' then o3\<lparr>ko_ControllerName := ''kubeconfig-provider''\<rparr> else o3)"

definition kubeconfig_New :: "kubeconfig_options \<Rightarrow> ctxs \<Rightarrow> kubeconfig_options active_provider" where
  "kubeconfig_New opts S = new_active (kubeconfig_defaults opts) S"

definition getCluster :: "cluster_name \<Rightarrow> 'o active_provider \<Rightarrow> activeCluster option" where
  "getCluster name p = fmlookup (ap_clusters p) name"

definition setCluster :: "cluster_name \<Rightarrow> activeCluster \<Rightarrow> 'o active_provider \<Rightarrow> 'o active_provider" where
  "setCluster name ac p = p\<lparr>ap_clusters := fmupd name ac (ap_clusters p)\<rparr>"

definition addIndexer :: "index \<Rightarrow> 'o active_provider \<Rightarrow> 'o active_provider" where
  "addIndexer i p = p\<lparr>ap_indexers := ap_indexers p @ [i]\<rparr>"

definition kubeconfig_Get :: "'o active_provider \<Rightarrow> cluster_name \<Rightarrow> go_error + cluster_h" where
  "kubeconfig_Get p name =
     (case getCluster name p of None \<Rightarrow> Inl ErrClusterNotFound | Some ac \<Rightarrow> Inr (ac_Cluster ac))"

text \<open>Which secrets the controller of the provider sees.\<close>

definition secret_selected :: "kubeconfig_options \<Rightarrow> secret \<Rightarrow> bool" where
  "secret_selected opts s \<longleftrightarrow>
     nn_namespace (sec_name s) = ko_Namespace opts \<and>
     sec_labels s (ko_KubeconfigSecretLabel opts) = Some ''true''"

text \<open>\<open>local\<close> says whether there is a local manager, \<open>complete\<close> what the builder returns.\<close>

definition kubeconfig_SetupWithManager ::
  "aware_h option \<Rightarrow> bool \<Rightarrow> go_error option \<Rightarrow> 'o active_provider \<Rightarrow> go_error option \<times> 'o active_provider" where
  "kubeconfig_SetupWithManager mgr local complete p =
     (case mgr of
        None \<Rightarrow> (Some (Errorf ''manager is nil'' [] None), p)
      | Some m \<Rightarrow>
          (let p1 = p\<lparr>ap_mgr := Some m\<rparr>
           in if \<not> local then (Some (Errorf ''local manager is nil'' [] None), p1)
              else (case complete of
                      Some err \<Rightarrow> (Some (Errorf ''failed to create controller: %w'' [] (Some err)), p1)
                    | None \<Rightarrow> (None, p1))))"

definition getSecret :: "go_error + secret \<Rightarrow> go_error + secret option" where
  "getSecret got =
     (case got of
        Inr s \<Rightarrow> Inr (Some s)
      | Inl err \<Rightarrow>
          if IsNotFound err then Inr None
          else Inl (Errorf ''failed to get secret: %w'' [] (Some err)))"

definition hashKubeconfig :: "connect_env \<Rightarrow> string \<Rightarrow> string" where
  "hashKubeconfig E kubeconfigData = ce_hash E kubeconfigData"

definition removeCluster :: "cluster_name \<Rightarrow> 'o active_provider \<Rightarrow> 'o active_provider" where
  "removeCluster name p =
     (case fmlookup (ap_clusters p) name of
        None \<Rightarrow> p
      | Some ac \<Rightarrow> p\<lparr>ap_clusters := fmdrop name (ap_clusters p), ap_ctxs := cancel (ap_ctxs p) (ac_Context ac)\<rparr>)"

definition applyIndexers ::
  "connect_env \<Rightarrow> cluster_h \<Rightarrow> 'o active_provider \<Rightarrow> go_error option \<times> 'o active_provider" where
  "applyIndexers E cl p =
     (case index_loop (ce_index E) cl (ap_indexers p) (ap_calls p) of
        (None, calls) \<Rightarrow> (None, p\<lparr>ap_calls := calls\<rparr>)
      | (Some (idx, err), calls) \<Rightarrow>
          (Some (Errorf ''failed to index field %q: %w'' [idx_Field idx] (Some err)), p\<lparr>ap_calls := calls\<rparr>))"

text \<open>
  Start of a cluster: a goroutine runs it in a context of its own, which ends here when the
  cache does not sync; otherwise the cluster is entered and the manager engages it. The manager
  is set, since the controller that calls \<open>Reconcile\<close> is made after it was.
\<close>

definition kubeconfig_createAndEngage ::
  "connect_env \<Rightarrow> ctx \<Rightarrow> cluster_name \<Rightarrow> string \<Rightarrow> string \<Rightarrow> kubeconfig_options active_provider \<Rightarrow>
   go_error option \<times> kubeconfig_options active_provider" where
  "kubeconfig_createAndEngage E cx name kubeconfigData hashStr p =
     (case ce_rest E kubeconfigData of
        Inl err \<Rightarrow> (Some (Errorf ''failed to parse kubeconfig: %w'' [] (Some err)), p)
      | Inr cfg0 \<Rightarrow>
     (case apply_rest_options (ko_RESTOptions (ap_opts p)) cfg0 of
        Inl err \<Rightarrow> (Some (Errorf ''failed to apply REST option: %w'' [] (Some err)), p)
      | Inr cfg \<Rightarrow>
     (case ce_new E cfg of
        Inl err \<Rightarrow> (Some (Errorf ''failed to create cluster: %w'' [] (Some err)), p)
      | Inr cl \<Rightarrow>
     (case applyIndexers E cl p of
        (Some err, p1) \<Rightarrow> (Some err, p1)
      | (None, p1) \<Rightarrow>
     (let (S, clusterCtx) = with_cancel (ap_ctxs p1) cx;
          p2 = p1\<lparr>ap_ctxs := S, ap_running := (name, cl, clusterCtx) # ap_running p1\<rparr>
      in if \<not> ce_sync E cl
         then (Some (Errorf ''failed to wait for cache sync'' [] None), p2\<lparr>ap_ctxs := cancel S clusterCtx\<rparr>)
         else (let p3 = setCluster name \<lparr>ac_Cluster = cl, ac_Context = clusterCtx, ac_Hash = hashStr\<rparr> p2;
                   p4 = p3\<lparr>ap_calls := ap_calls p3 @ [CallEngage (the (ap_mgr p3)) clusterCtx name cl]\<rparr>
               in case ce_engage E name cl of
                    Some err \<Rightarrow> (Some (Errorf ''failed to engage manager: %w'' [] (Some err)), removeCluster name p4)
                  | None \<Rightarrow> (None, p4)))))))"

definition kubeconfig_Reconcile ::
  "connect_env \<Rightarrow> go_error + secret \<Rightarrow> ctx \<Rightarrow> nsname \<Rightarrow> kubeconfig_options active_provider \<Rightarrow>
   (Result \<times> go_error option) \<times> kubeconfig_options active_provider" where
  "kubeconfig_Reconcile E got cx req p =
     (case getSecret got of
        Inl err \<Rightarrow> ((zero_Result, Some err), p)
      | Inr None \<Rightarrow> ((zero_Result, None), removeCluster (nn_name req) p)
      | Inr (Some s) \<Rightarrow>
          (let name = nn_name (sec_name s)
           in if sec_deleted s then ((zero_Result, None), removeCluster name p)
              else case sec_Data s (ko_KubeconfigSecretKey (ap_opts p)) of
                     None \<Rightarrow> ((zero_Result, None), p)
                   | Some kubeconfigData \<Rightarrow>
                       if kubeconfigData = '''' then ((zero_Result, None), p)
                       else (let hashStr = hashKubeconfig E kubeconfigData;
                                 create = (\<lambda>q. let (err, q') = kubeconfig_createAndEngage E cx name kubeconfigData hashStr q
                                               in ((zero_Result, err), q'))
                             in case getCluster name p of
                                  Some ac \<Rightarrow>
                                    if ac_Hash ac = hashStr then ((zero_Result, None), p)
                                    else create (removeCluster name p)
                                | None \<Rightarrow> create p)))"

definition active_entries :: "'o active_provider \<Rightarrow> cluster_name list \<Rightarrow> (cluster_name \<times> cluster_h) list" where
  "active_entries p ord = map (\<lambda>n. (n, ac_Cluster (the (fmlookup (ap_clusters p) n)))) ord"

definition kubeconfig_IndexField ::
  "connect_env \<Rightarrow> cluster_name list \<Rightarrow> index \<Rightarrow> 'o active_provider \<Rightarrow> go_error option \<times> 'o active_provider" where
  "kubeconfig_IndexField E ord i p =
     (let p1 = addIndexer i p
      in case index_clusters (ce_index E) i (active_entries p1 ord) (ap_calls p1) of
           (None, calls) \<Rightarrow> (None, p1\<lparr>ap_calls := calls\<rparr>)
         | (Some (name, err), calls) \<Rightarrow>
             (Some (Errorf ''failed to index field %q on cluster %q: %w'' [idx_Field i, name] (Some err)),
              p1\<lparr>ap_calls := calls\<rparr>))"

text \<open>\<open>ListClusters\<close> returns the names in the order in which the map is ranged over.\<close>

definition kubeconfig_ListClusters :: "cluster_name list \<Rightarrow> 'o active_provider \<Rightarrow> cluster_name list" where
  "kubeconfig_ListClusters ord p = filter (\<lambda>n. fmlookup (ap_clusters p) n \<noteq> None) ord"


subsection \<open>The Cluster API provider\<close>

text \<open>
  A Cluster API object: its key, whether it is being deleted, whether it is of the version the
  default readiness check knows, and the flag that check reads.
\<close>

record capi_object =
  co_key :: nsname
  co_deleted :: bool
  co_v1beta2 :: bool
  co_ControlPlaneInitialized :: "bool option"

record capi_user_options =
  cu_GetSecret :: "(capi_object \<Rightarrow> go_error + string) option"
  cu_NewCluster :: "(capi_object \<Rightarrow> rest_config \<Rightarrow> go_error + cluster_h) option"
  cu_IsReady :: "(capi_object \<Rightarrow> bool) option"

record capi_options =
  cp_GetSecret :: "capi_object \<Rightarrow> go_error + string"
  cp_NewCluster :: "capi_object \<Rightarrow> rest_config \<Rightarrow> go_error + cluster_h"
  cp_IsReady :: "capi_object \<Rightarrow> bool"

definition default_IsReady :: "capi_object \<Rightarrow> bool" where
  "default_IsReady ccl =
     (if \<not> co_v1beta2 ccl then False else co_ControlPlaneInitialized ccl = Some True)"

text \<open>\<open>from_secret\<close> is \<open>kubeconfig.FromSecret\<close> of Cluster API and \<open>new_cluster\<close> \<open>cluster.New\<close>.\<close>

definition capi_setDefaults ::
  "(nsname \<Rightarrow> go_error + string) \<Rightarrow> (rest_config \<Rightarrow> go_error + cluster_h) \<Rightarrow> capi_user_options \<Rightarrow> capi_options" where
  "capi_setDefaults from_secret new_cluster opts =
     \<lparr>cp_GetSecret =
        (case cu_GetSecret opts of
           Some f \<Rightarrow> f
         | None \<Rightarrow> (\<lambda>ccl. case from_secret (co_key ccl) of
                             Inl err \<Rightarrow> Inl (Errorf ''failed to get kubeconfig: %w'' [] (Some err))
                           | Inr bs \<Rightarrow> Inr bs)),
      cp_NewCluster = (case cu_NewCluster opts of Some f \<Rightarrow> f | None \<Rightarrow> (\<lambda>ccl cfg. new_cluster cfg)),
      cp_IsReady = (case cu_IsReady opts of Some f \<Rightarrow> f | None \<Rightarrow> default_IsReady)\<rparr>"

definition capi_New ::
  "(nsname \<Rightarrow> go_error + string) \<Rightarrow> (rest_config \<Rightarrow> go_error + cluster_h) \<Rightarrow> capi_user_options \<Rightarrow> ctxs \<Rightarrow>
   capi_options active_provider" where
  "capi_New from_secret new_cluster opts S = new_active (capi_setDefaults from_secret new_cluster opts) S"

definition capi_SetupWithManager ::
  "aware_h option \<Rightarrow> bool \<Rightarrow> go_error option \<Rightarrow> 'o active_provider \<Rightarrow> go_error option \<times> 'o active_provider" where
  "capi_SetupWithManager mgr local complete p =
     (case mgr of
        None \<Rightarrow> (Some (Errorf ''manager is nil'' [] None), p)
      | Some m \<Rightarrow>
          (let p1 = p\<lparr>ap_mgr := Some m\<rparr>
           in if \<not> local then (Some (Errorf ''local manager is nil'' [] None), p1)
              else (case complete of
                      Some err \<Rightarrow> (Some (Errorf ''failed to create controller: %w'' [] (Some err)), p1)
                    | None \<Rightarrow> (None, p1))))"

definition capi_Get :: "'o active_provider \<Rightarrow> cluster_name \<Rightarrow> go_error + cluster_h" where
  "capi_Get p name =
     (case fmlookup (ap_clusters p) name of None \<Rightarrow> Inl ErrClusterNotFound | Some ac \<Rightarrow> Inr (ac_Cluster ac))"

definition capi_removeCluster :: "cluster_name \<Rightarrow> 'o active_provider \<Rightarrow> 'o active_provider" where
  "capi_removeCluster key p =
     (case fmlookup (ap_clusters p) key of
        None \<Rightarrow> p
      | Some ac \<Rightarrow> p\<lparr>ap_clusters := fmdrop key (ap_clusters p), ap_ctxs := cancel (ap_ctxs p) (ac_Context ac)\<rparr>)"

definition capi_applyIndexers ::
  "connect_env \<Rightarrow> cluster_h \<Rightarrow> 'o active_provider \<Rightarrow> go_error option \<times> 'o active_provider" where
  "capi_applyIndexers E cl p =
     (case index_loop (ce_index E) cl (ap_indexers p) (ap_calls p) of
        (None, calls) \<Rightarrow> (None, p\<lparr>ap_calls := calls\<rparr>)
      | (Some (idx, err), calls) \<Rightarrow>
          (Some (Errorf ''failed to index field %q: %w'' [idx_Field idx] (Some err)), p\<lparr>ap_calls := calls\<rparr>))"

definition capi_hashKubeconfig :: "connect_env \<Rightarrow> string \<Rightarrow> string" where
  "capi_hashKubeconfig E kubeconfigData = ce_hash E kubeconfigData"

lemma capi_hash [simp]: "capi_hashKubeconfig = hashKubeconfig"
  by (simp add: fun_eq_iff capi_hashKubeconfig_def hashKubeconfig_def)

definition capi_createAndEngage ::
  "connect_env \<Rightarrow> ctx \<Rightarrow> cluster_name \<Rightarrow> capi_object \<Rightarrow> rest_config \<Rightarrow> string \<Rightarrow> capi_options active_provider \<Rightarrow>
   go_error option \<times> capi_options active_provider" where
  "capi_createAndEngage E cx key ccl cfg hashStr p =
     (case cp_NewCluster (ap_opts p) ccl cfg of
        Inl err \<Rightarrow> (Some (Errorf ''failed to create cluster for %s: %w'' [key] (Some err)), p)
      | Inr cl \<Rightarrow>
     (case capi_applyIndexers E cl p of
        (Some err, p1) \<Rightarrow> (Some err, p1)
      | (None, p1) \<Rightarrow>
     (let (S, clusterCtx) = with_cancel (ap_ctxs p1) cx;
          p2 = p1\<lparr>ap_ctxs := S, ap_running := (key, cl, clusterCtx) # ap_running p1\<rparr>
      in if \<not> ce_sync E cl
         then (Some (Errorf ''failed to sync cache for Cluster %s'' [key] None), p2\<lparr>ap_ctxs := cancel S clusterCtx\<rparr>)
         else (let p3 = p2\<lparr>ap_clusters := fmupd key \<lparr>ac_Cluster = cl, ac_Context = clusterCtx, ac_Hash = hashStr\<rparr>
                             (ap_clusters p2)\<rparr>;
                   p4 = p3\<lparr>ap_calls := ap_calls p3 @ [CallEngage (the (ap_mgr p3)) clusterCtx key cl]\<rparr>
               in case ce_engage E key cl of
                    Some err \<Rightarrow> (Some (Errorf ''failed to engage Cluster %s: %w'' [key] (Some err)),
                                  capi_removeCluster key p4)
                  | None \<Rightarrow> (None, p4)))))"

definition capi_Reconcile ::
  "connect_env \<Rightarrow> go_error + capi_object \<Rightarrow> ctx \<Rightarrow> nsname \<Rightarrow> capi_options active_provider \<Rightarrow>
   (Result \<times> go_error option) \<times> capi_options active_provider" where
  "capi_Reconcile E got cx req p =
     (let key = nsname_string req
      in case got of
           Inl err \<Rightarrow>
             if IsNotFound err then ((zero_Result, None), capi_removeCluster key p)
             else ((zero_Result, Some (Errorf ''failed to get Cluster %s: %w'' [key] (Some err))), p)
         | Inr ccl \<Rightarrow>
             if co_deleted ccl then ((zero_Result, None), capi_removeCluster key p)
             else if \<not> cp_IsReady (ap_opts p) ccl then ((zero_Result, None), p)
             else case cp_GetSecret (ap_opts p) ccl of
                    Inl err \<Rightarrow>
                      ((zero_Result, Some (Errorf ''failed to get kubeconfig for Cluster %s: %w'' [key] (Some err))), p)
                  | Inr kubeconfigData \<Rightarrow>
                      (let hashStr = capi_hashKubeconfig E kubeconfigData;
                           create = (\<lambda>q. case ce_rest E kubeconfigData of
                               Inl err \<Rightarrow> ((zero_Result, Some (Errorf ''failed to parse kubeconfig for Cluster %s: %w'' [key] (Some err))), q)
                             | Inr cfg \<Rightarrow> (let (err, q') = capi_createAndEngage E cx key ccl cfg hashStr q
                                            in ((zero_Result, err), q')))
                       in case fmlookup (ap_clusters p) key of
                            Some ac \<Rightarrow>
                              if ac_Hash ac = hashStr then ((zero_Result, None), p)
                              else create (capi_removeCluster key p)
                          | None \<Rightarrow> create p))"

definition capi_IndexField ::
  "connect_env \<Rightarrow> cluster_name list \<Rightarrow> index \<Rightarrow> 'o active_provider \<Rightarrow> go_error option \<times> 'o active_provider" where
  "capi_IndexField E ord i p =
     (let p1 = p\<lparr>ap_indexers := ap_indexers p @ [i]\<rparr>
      in case index_clusters (ce_index E) i (active_entries p ord) (ap_calls p1) of
           (None, calls) \<Rightarrow> (None, p1\<lparr>ap_calls := calls\<rparr>)
         | (Some (name, err), calls) \<Rightarrow>
             (Some (Errorf ''failed to index field %q on cluster %q: %w'' [idx_Field i, name] (Some err)),
              p1\<lparr>ap_calls := calls\<rparr>))"

definition capi_ListClusters :: "cluster_name list \<Rightarrow> 'o active_provider \<Rightarrow> cluster_name list" where
  "capi_ListClusters ord p = filter (\<lambda>n. fmlookup (ap_clusters p) n \<noteq> None) ord"

subsection \<open>The two tables are one\<close>

text \<open>The bookkeeping of the two providers is the same; what holds of one holds of the other.\<close>

lemma capi_same_tables:
  "capi_removeCluster = removeCluster" "capi_applyIndexers = applyIndexers" "capi_Get = kubeconfig_Get"
  "capi_IndexField = kubeconfig_IndexField"
  by (simp_all add: fun_eq_iff capi_IndexField_def kubeconfig_IndexField_def addIndexer_def active_entries_def Let_def
      capi_removeCluster_def removeCluster_def capi_applyIndexers_def applyIndexers_def
      capi_Get_def kubeconfig_Get_def getCluster_def)

abbreviation active_known :: "'o active_provider \<Rightarrow> cluster_name \<Rightarrow> cluster_h option" where
  "active_known p \<equiv> \<lambda>n. map_option ac_Cluster (fmlookup (ap_clusters p) n)"

abbreviation active_ctx :: "'o active_provider \<Rightarrow> cluster_name \<Rightarrow> ctx option" where
  "active_ctx p \<equiv> \<lambda>n. map_option ac_Context (fmlookup (ap_clusters p) n)"

definition active_inv :: "'o active_provider \<Rightarrow> bool" where
  "active_inv p \<longleftrightarrow> (\<forall>n ac. fmlookup (ap_clusters p) n = Some ac \<longrightarrow> ac_Context ac < length (ap_ctxs p))"

interpretation activeGet: provider_get kubeconfig_Get active_known
  by unfold_locales (auto simp: kubeconfig_Get_def getCluster_def)

interpretation activeTrack: cluster_tracking ap_ctxs active_known active_ctx active_inv removeCluster ap_running
  by unfold_locales
     (auto simp: active_inv_def removeCluster_def fun_eq_iff split: option.splits if_splits)

abbreviation active_tracked :: "'o active_provider \<Rightarrow> bool" where
  "active_tracked p \<equiv> tracked (ap_ctxs p) (active_known p) (active_ctx p) (ap_running p)"


subsection \<open>What a start comes to\<close>

text \<open>The state after a cluster was started under a name, entered or given up.\<close>

definition started_in ::
  "ctx \<Rightarrow> cluster_name \<Rightarrow> cluster_h \<Rightarrow> cluster_call list \<Rightarrow> 'o active_provider \<Rightarrow> 'o active_provider" where
  "started_in cx n cl calls p =
     p\<lparr>ap_ctxs := fst (with_cancel (ap_ctxs p) cx), ap_running := (n, cl, length (ap_ctxs p)) # ap_running p,
       ap_calls := calls\<rparr>"

definition entered_in ::
  "ctx \<Rightarrow> cluster_name \<Rightarrow> cluster_h \<Rightarrow> string \<Rightarrow> cluster_call list \<Rightarrow> 'o active_provider \<Rightarrow> 'o active_provider" where
  "entered_in cx n cl h calls p =
     (started_in cx n cl calls p)\<lparr>ap_clusters :=
        fmupd n \<lparr>ac_Cluster = cl, ac_Context = length (ap_ctxs p), ac_Hash = h\<rparr> (ap_clusters p)\<rparr>"

definition given_up :: "ctx \<Rightarrow> cluster_name \<Rightarrow> cluster_h \<Rightarrow> cluster_call list \<Rightarrow> 'o active_provider \<Rightarrow> 'o active_provider" where
  "given_up cx n cl calls p =
     (started_in cx n cl calls p)\<lparr>ap_ctxs := cancel (fst (with_cancel (ap_ctxs p) cx)) (length (ap_ctxs p))\<rparr>"

definition start_outcome ::
  "ctx \<Rightarrow> cluster_name \<Rightarrow> string \<Rightarrow> 'o active_provider \<Rightarrow> go_error option \<Rightarrow> 'o active_provider \<Rightarrow> bool" where
  "start_outcome cx n h p err p' \<longleftrightarrow>
     (\<exists>cl calls. err \<noteq> None \<and> (p' = p\<lparr>ap_calls := calls\<rparr> \<or> p' = given_up cx n cl calls p) \<or>
        err = None \<and> p' = entered_in cx n cl h calls p \<and>
        (\<forall>i \<in> set (ap_indexers p). CallIndex cl i \<in> set calls))"

lemmas start_states = start_outcome_def entered_in_def given_up_def started_in_def

lemma start_failed: "err \<noteq> None \<Longrightarrow> start_outcome cx n h p err p"
  unfolding start_outcome_def by (rule exI[of _ 0], rule exI[of _ "ap_calls p"]) simp

lemma start_indexed:
  assumes "fmlookup (ap_clusters p) n = None" and "applyIndexers E cl p = (ierr, p1)"
  shows "case ierr of
      Some e \<Rightarrow> start_outcome cx n h p (Some e) p1
    | None \<Rightarrow> p1 = p\<lparr>ap_calls := ap_calls p @ map (CallIndex cl) (ap_indexers p)\<rparr>"
  using assms(2)
  by (auto simp: applyIndexers_def start_outcome_def dest: index_loop_ok split: prod.splits option.splits)

text \<open>From the start of the cluster on, the two providers differ in their messages only.\<close>

lemma start_synced:
  fixes p :: "'o active_provider"
  assumes none: "fmlookup (ap_clusters p) n = None"
    and calls: "calls = ap_calls p @ map (CallIndex cl) (ap_indexers p)"
    and res: "(err, p') =
      (let p2 = p\<lparr>ap_calls := calls, ap_ctxs := fst (with_cancel (ap_ctxs p) cx),
                 ap_running := (n, cl, length (ap_ctxs p)) # ap_running p\<rparr>
       in if \<not> sync then (Some esync, p2\<lparr>ap_ctxs := cancel (fst (with_cancel (ap_ctxs p) cx)) (length (ap_ctxs p))\<rparr>)
          else (let p4 = p2\<lparr>ap_clusters := fmupd n \<lparr>ac_Cluster = cl, ac_Context = length (ap_ctxs p), ac_Hash = h\<rparr> (ap_clusters p),
                           ap_calls := calls @ [c]\<rparr>
                in case engaged of Some e \<Rightarrow> (Some (eeng e), removeCluster n p4) | None \<Rightarrow> (None, p4)))"
  shows "start_outcome cx n h p err p'"
proof -
  have drop: "removeCluster n (entered_in cx n cl h cs p) = given_up cx n cl cs p" for cs
  proof -
    have "fmdrop n (ap_clusters p) = ap_clusters p" using none by (intro fmap_ext) auto
    then show ?thesis by (simp add: removeCluster_def start_states)
  qed
  have nf: "given_up cx n cl calls p = p\<lparr>ap_calls := calls, ap_running := (n, cl, length (ap_ctxs p)) # ap_running p,
        ap_ctxs := cancel (fst (with_cancel (ap_ctxs p) cx)) (length (ap_ctxs p))\<rparr>"
    "entered_in cx n cl h (calls @ [c]) p = p\<lparr>ap_ctxs := fst (with_cancel (ap_ctxs p) cx),
        ap_running := (n, cl, length (ap_ctxs p)) # ap_running p,
        ap_clusters := fmupd n \<lparr>ac_Cluster = cl, ac_Context = length (ap_ctxs p), ac_Hash = h\<rparr> (ap_clusters p),
        ap_calls := calls @ [c]\<rparr>"
    by (cases p, simp add: start_states)+
  have idx: "\<forall>i \<in> set (ap_indexers p). CallIndex cl i \<in> set (calls @ [c])" by (auto simp: calls)
  consider (unsynced) "err \<noteq> None" "p' = given_up cx n cl calls p"
    | (refused) "err \<noteq> None" "p' = given_up cx n cl (calls @ [c]) p"
    | (engaged) "err = None" "p' = entered_in cx n cl h (calls @ [c]) p"
    using res by (auto simp: drop[of "calls @ [c]", unfolded nf(2)] nf Let_def split: if_splits option.splits)
  then show ?thesis
    unfolding start_outcome_def using idx by cases blast+
qed


lemma kubeconfig_create_outcome:
  assumes none: "fmlookup (ap_clusters p) n = None"
    and create: "kubeconfig_createAndEngage E cx n d h p = (err, p')"
  shows "start_outcome cx n h p err p'"
proof -
  consider (early) "err \<noteq> None" "p' = p"
    | (made) cfg0 cfg cl where "ce_rest E d = Inr cfg0" "apply_rest_options (ko_RESTOptions (ap_opts p)) cfg0 = Inr cfg"
        "ce_new E cfg = Inr cl"
    using create by (auto simp: kubeconfig_createAndEngage_def split: sum.splits)
  then show ?thesis
  proof cases
    case early
    then show ?thesis by (simp add: start_failed)
  next
    case made
    obtain ierr p1 where ix: "applyIndexers E cl p = (ierr, p1)" by fastforce
    note o = start_indexed[OF none ix, of cx h]
    show ?thesis
    proof (cases ierr)
      case (Some e)
      with create made ix o show ?thesis by (auto simp: kubeconfig_createAndEngage_def)
    next
      case None
      let ?c = "CallEngage (the (ap_mgr p)) (length (ap_ctxs p)) n cl"
      show ?thesis
        by (rule start_synced[OF none refl, where cl = cl and sync = "ce_sync E cl" and engaged = "ce_engage E n cl" and c = ?c
            and esync = "Errorf ''failed to wait for cache sync'' [] None"
            and eeng = "\<lambda>e. Errorf ''failed to engage manager: %w'' [] (Some e)"])
           (use create made ix o None in \<open>auto simp: kubeconfig_createAndEngage_def setCluster_def
              with_cancel_def Let_def split: if_splits option.splits\<close>)
    qed
  qed
qed

lemma capi_create_outcome:
  assumes none: "fmlookup (ap_clusters p) n = None"
    and create: "capi_createAndEngage E cx n ccl cfg h p = (err, p')"
  shows "start_outcome cx n h p err p'"
proof (cases "cp_NewCluster (ap_opts p) ccl cfg")
  case (Inl e)
  with create show ?thesis by (auto simp: capi_createAndEngage_def start_failed)
next
  case (Inr cl)
  obtain ierr p1 where ix: "applyIndexers E cl p = (ierr, p1)" by fastforce
  note o = start_indexed[OF none ix, of cx h]
  show ?thesis
  proof (cases ierr)
    case (Some e)
    with create Inr ix o show ?thesis by (auto simp: capi_createAndEngage_def capi_same_tables)
  next
    case None
    let ?c = "CallEngage (the (ap_mgr p)) (length (ap_ctxs p)) n cl"
    show ?thesis
      by (rule start_synced[OF none refl, where cl = cl and sync = "ce_sync E cl" and engaged = "ce_engage E n cl" and c = ?c
          and esync = "Errorf ''failed to sync cache for Cluster %s'' [n] None"
          and eeng = "\<lambda>e. Errorf ''failed to engage Cluster %s: %w'' [n] (Some e)"])
         (use create Inr ix o None in \<open>auto simp: capi_createAndEngage_def capi_same_tables
            with_cancel_def Let_def split: if_splits option.splits\<close>)
  qed
qed

text \<open>A start keeps the tables in order, whatever it comes to.\<close>

lemma start_outcome_inv:
  assumes out: "start_outcome cx n h p err p'" and none: "fmlookup (ap_clusters p) n = None"
    and inv: "active_inv p" "active_tracked p"
  shows "active_inv p'" "active_tracked p'"
proof -
  from out obtain cl calls where c: "p' = p\<lparr>ap_calls := calls\<rparr> \<or> p' = given_up cx n cl calls p \<or>
      p' = entered_in cx n cl h calls p" by (auto simp: start_outcome_def)
  show "active_inv p'"
    using c inv(1) by (auto simp: active_inv_def start_states less_Suc_eq split: if_splits)
  have known: "active_known (entered_in cx n cl h calls p) = (active_known p)(n \<mapsto> cl)"
    "active_ctx (entered_in cx n cl h calls p) = (active_ctx p)(n \<mapsto> length (ap_ctxs p))"
    by (auto simp: start_states)
  have "active_tracked (entered_in cx n cl h calls p)"
    unfolding known using tracked_enter[OF inv(2), of n cx cl] none by (simp add: entered_in_def started_in_def)
  moreover have "active_tracked (given_up cx n cl calls p)"
    using tracked_abort[OF inv(2), of cx n cl] by (simp add: start_states)
  ultimately show "active_tracked p'" using c inv(2) by auto
qed

lemma start_outcome_lookup:
  assumes "start_outcome cx n h p err p'"
  shows "m \<noteq> n \<Longrightarrow> fmlookup (ap_clusters p') m = fmlookup (ap_clusters p) m"
    and "err = None \<Longrightarrow> \<exists>ac. fmlookup (ap_clusters p') n = Some ac \<and> ac_Hash ac = h"
    and "err \<noteq> None \<Longrightarrow> fmlookup (ap_clusters p') n = fmlookup (ap_clusters p) n"
  using assms by (auto simp: start_states)

lemma removeCluster_lookup [simp]:
  "fmlookup (ap_clusters (removeCluster n p)) m = (if m = n then None else fmlookup (ap_clusters p) m)"
  by (auto simp: removeCluster_def split: option.splits)

lemma removeCluster_opts [simp]: "ap_opts (removeCluster n p) = ap_opts p"
  by (simp add: removeCluster_def split: option.splits)


subsection \<open>Reconciling\<close>

text \<open>
  Both reconcilers come to one of four things: nothing, a removal, or a start under a name that
  is free, be it because it was or because the old cluster was removed first.
\<close>

definition reconcile_outcome ::
  "ctx \<Rightarrow> cluster_name \<Rightarrow> string \<Rightarrow> 'o active_provider \<Rightarrow> go_error option \<Rightarrow> 'o active_provider \<Rightarrow> bool" where
  "reconcile_outcome cx n h p err p' \<longleftrightarrow>
     p' = p \<or> p' = removeCluster n p \<or> start_outcome cx n h (removeCluster n p) err p'"

lemma removeCluster_free: "fmlookup (ap_clusters p) n = None \<Longrightarrow> removeCluster n p = p"
  by (simp add: removeCluster_def)

lemma reconcile_outcome_inv:
  assumes "reconcile_outcome cx n h p err p'" and "active_inv p" and "active_tracked p"
  shows "active_inv p' \<and> active_tracked p'"
proof -
  note r = activeTrack.drop_inv[OF assms(2), of n] activeTrack.drop_tracked[OF assms(2,3), of n]
  have "active_inv p' \<and> active_tracked p'" if "start_outcome cx n h (removeCluster n p) err p'"
    using start_outcome_inv[OF that _ r] by simp
  with assms r show ?thesis by (auto simp: reconcile_outcome_def)
qed

lemma kubeconfig_Reconcile_cases:
  assumes "kubeconfig_Reconcile E got cx req p = ((res, err), p')"
  obtains (unreadable) e where "getSecret got = Inl e" "err = Some e" "p' = p"
  | (gone) "getSecret got = Inr None" "err = None" "p' = removeCluster (nn_name req) p"
  | (deleted) s where "getSecret got = Inr (Some s)" "sec_deleted s" "err = None" "p' = removeCluster (nn_name (sec_name s)) p"
  | (no_data) s where "getSecret got = Inr (Some s)" "\<not> sec_deleted s" "err = None" "p' = p"
      "sec_Data s (ko_KubeconfigSecretKey (ap_opts p)) \<in> {None, Some ''''}"
  | (unchanged) s d ac where "getSecret got = Inr (Some s)" "\<not> sec_deleted s" "err = None" "p' = p"
      "sec_Data s (ko_KubeconfigSecretKey (ap_opts p)) = Some d" "d \<noteq> ''''"
      "fmlookup (ap_clusters p) (nn_name (sec_name s)) = Some ac" "ac_Hash ac = ce_hash E d"
  | (connected) s d where "getSecret got = Inr (Some s)" "\<not> sec_deleted s"
      "sec_Data s (ko_KubeconfigSecretKey (ap_opts p)) = Some d" "d \<noteq> ''''"
      "start_outcome cx (nn_name (sec_name s)) (ce_hash E d) (removeCluster (nn_name (sec_name s)) p) err p'"
proof -
  note def = kubeconfig_Reconcile_def hashKubeconfig_def getCluster_def
  show ?thesis
  proof (cases "getSecret got")
    case (Inl e)
    with assms unreadable show ?thesis by (auto simp: def)
  next
    case (Inr os)
    note got = this
    show ?thesis
    proof (cases os)
      case None
      with assms got gone show ?thesis by (auto simp: def)
    next
      case (Some s)
      let ?n = "nn_name (sec_name s)" and ?d = "sec_Data s (ko_KubeconfigSecretKey (ap_opts p))"
      show ?thesis
      proof (cases "sec_deleted s \<or> ?d \<in> {None, Some ''''}")
        case True
        with assms got Some deleted[of s] no_data[of s] show ?thesis by (auto simp: def Let_def split: if_splits)
      next
        case False
        then obtain d where d: "?d = Some d" "d \<noteq> ''''" "\<not> sec_deleted s" by auto
        let ?h = "ce_hash E d"
        show ?thesis
        proof (cases "\<exists>ac. fmlookup (ap_clusters p) ?n = Some ac \<and> ac_Hash ac = ?h")
          case True
          with assms got Some d unchanged[of s d] show ?thesis by (auto simp: def Let_def)
        next
          case False
          with assms got Some d have "kubeconfig_createAndEngage E cx ?n d ?h (removeCluster ?n p) = (err, p')"
            by (auto simp: def Let_def removeCluster_free split: option.splits prod.splits)
          from kubeconfig_create_outcome[OF _ this] got Some d connected show ?thesis by simp
        qed
      qed
    qed
  qed
qed

lemma capi_Reconcile_cases:
  assumes "capi_Reconcile E got cx req p = ((res, err), p')"
  obtains (unreadable) e where "got = Inl e" "\<not> IsNotFound e" "err \<noteq> None" "p' = p"
  | (gone) "(\<exists>e. got = Inl e \<and> IsNotFound e) \<or> (\<exists>o1. got = Inr o1 \<and> co_deleted o1)" "err = None"
      "p' = removeCluster (nsname_string req) p"
  | (waiting) o1 where "got = Inr o1" "\<not> co_deleted o1" "\<not> cp_IsReady (ap_opts p) o1" "err = None" "p' = p"
  | (no_secret) o1 e where "got = Inr o1" "\<not> co_deleted o1" "cp_IsReady (ap_opts p) o1" "cp_GetSecret (ap_opts p) o1 = Inl e"
      "err \<noteq> None" "p' = p"
  | (unchanged) o1 d ac where "got = Inr o1" "\<not> co_deleted o1" "cp_IsReady (ap_opts p) o1" "cp_GetSecret (ap_opts p) o1 = Inr d"
      "err = None" "p' = p" "fmlookup (ap_clusters p) (nsname_string req) = Some ac" "ac_Hash ac = ce_hash E d"
  | (connected) o1 d where "got = Inr o1" "\<not> co_deleted o1" "cp_IsReady (ap_opts p) o1" "cp_GetSecret (ap_opts p) o1 = Inr d"
      "start_outcome cx (nsname_string req) (ce_hash E d) (removeCluster (nsname_string req) p) err p'"
proof -
  note def = capi_Reconcile_def capi_same_tables hashKubeconfig_def
  let ?n = "nsname_string req"
  show ?thesis
  proof (cases got)
    case (Inl e)
    with assms unreadable[of e] gone show ?thesis by (auto simp: def Let_def split: if_splits)
  next
    case (Inr o1)
    note got = this
    show ?thesis
    proof (cases "co_deleted o1 \<or> \<not> cp_IsReady (ap_opts p) o1")
      case True
      show ?thesis
      proof (cases "co_deleted o1")
        case True
        with assms got have "err = None" "p' = removeCluster ?n p" by (simp_all add: def Let_def)
        with True got show ?thesis by (intro gone) simp_all
      next
        case False
        with True assms got have "err = None" "p' = p" by (simp_all add: def Let_def)
        with False True got show ?thesis by (intro waiting) simp_all
      qed
    next
      case False
      note live = this
      show ?thesis
      proof (cases "cp_GetSecret (ap_opts p) o1")
        case (Inl e)
        with assms got live no_secret[of o1 e] show ?thesis by (auto simp: def Let_def)
      next
        case (Inr d)
        let ?h = "ce_hash E d"
        show ?thesis
        proof (cases "\<exists>ac. fmlookup (ap_clusters p) ?n = Some ac \<and> ac_Hash ac = ?h")
          case True
          with assms got live Inr unchanged[of o1 d] show ?thesis by (auto simp: def Let_def)
        next
          case False
          have "start_outcome cx ?n ?h (removeCluster ?n p) err p'"
          proof (cases "ce_rest E d")
            case (Inl e)
            with assms got live Inr False show ?thesis
              by (auto simp: def Let_def removeCluster_free start_failed split: option.splits)
          next
            case (Inr cfg)
            with assms got live \<open>cp_GetSecret (ap_opts p) o1 = Inr d\<close> False
            have "capi_createAndEngage E cx ?n o1 cfg ?h (removeCluster ?n p) = (err, p')"
              by (auto simp: def Let_def removeCluster_free split: option.splits prod.splits)
            from capi_create_outcome[OF _ this] show ?thesis by simp
          qed
          with got live Inr connected[of o1 d] show ?thesis by auto
        qed
      qed
    qed
  qed
qed


subsection \<open>Runs\<close>

definition kubeconfig_recon :: "kubeconfig_options active_provider \<Rightarrow> kubeconfig_options active_provider \<Rightarrow> bool" where
  "kubeconfig_recon p p' \<longleftrightarrow> (\<exists>E got cx req r. kubeconfig_Reconcile E got cx req p = (r, p'))"

definition capi_recon :: "capi_options active_provider \<Rightarrow> capi_options active_provider \<Rightarrow> bool" where
  "capi_recon p p' \<longleftrightarrow> (\<exists>E got cx req r. capi_Reconcile E got cx req p = (r, p'))"

text \<open>A provider between its reconciliations, new indexes, and contexts that come and go.\<close>

inductive active_step ::
  "('o active_provider \<Rightarrow> 'o active_provider \<Rightarrow> bool) \<Rightarrow> 'o active_provider \<Rightarrow> 'o active_provider \<Rightarrow> bool"
  for recon :: "'o active_provider \<Rightarrow> 'o active_provider \<Rightarrow> bool" where
  reconciled: "recon p p' \<Longrightarrow> active_step recon p p'"
| indexed: "kubeconfig_IndexField E ord i p = (err, p') \<Longrightarrow> active_step recon p p'"
| derived: "active_step recon p (p\<lparr>ap_ctxs := fst (with_cancel (ap_ctxs p) q)\<rparr>)"
| cancelled: "active_step recon p (p\<lparr>ap_ctxs := cancel (ap_ctxs p) k\<rparr>)"

lemma kubeconfig_recon_outcome:
  assumes "kubeconfig_Reconcile E got cx req p = ((res, err), p')"
  shows "\<exists>n h. reconcile_outcome cx n h p err p'"
  using assms by (cases rule: kubeconfig_Reconcile_cases) (auto simp: reconcile_outcome_def)

lemma capi_recon_outcome:
  assumes "capi_Reconcile E got cx req p = ((res, err), p')"
  shows "\<exists>n h. reconcile_outcome cx n h p err p'"
  using assms by (cases rule: capi_Reconcile_cases) (auto simp: reconcile_outcome_def)

lemma kubeconfig_recon_inv:
  "kubeconfig_recon p p' \<Longrightarrow> active_inv p \<Longrightarrow> active_tracked p \<Longrightarrow> active_inv p' \<and> active_tracked p'"
  unfolding kubeconfig_recon_def by (metis surj_pair kubeconfig_recon_outcome reconcile_outcome_inv)

lemma capi_recon_inv:
  "capi_recon p p' \<Longrightarrow> active_inv p \<Longrightarrow> active_tracked p \<Longrightarrow> active_inv p' \<and> active_tracked p'"
  unfolding capi_recon_def by (metis surj_pair capi_recon_outcome reconcile_outcome_inv)

lemma active_ctxs_inv:
  assumes "active_inv p" "active_tracked p" and "length (ap_ctxs p) \<le> length S"
    and "\<And>k. k < length (ap_ctxs p) \<Longrightarrow> ctx_err (ap_ctxs p) k \<Longrightarrow> ctx_err S k"
  shows "active_inv (p\<lparr>ap_ctxs := S\<rparr>) \<and> active_tracked (p\<lparr>ap_ctxs := S\<rparr>)"
  using assms tracked_ctxs[OF assms(2), of S] by (fastforce simp: active_inv_def)

lemma active_step_inv:
  assumes step: "active_step recon p p'" and inv: "active_inv p" "active_tracked p"
    and recon: "recon p p' \<Longrightarrow> active_inv p' \<and> active_tracked p'"
  shows "active_inv p' \<and> active_tracked p'"
  using step
proof cases
  case reconciled
  then show ?thesis by (rule recon)
next
  case (indexed E ord i err)
  then have "\<exists>calls is. p' = p\<lparr>ap_indexers := is, ap_calls := calls\<rparr>"
    by (auto simp: kubeconfig_IndexField_def addIndexer_def Let_def split: prod.splits option.splits)
  with inv show ?thesis by (auto simp: active_inv_def)
next
  case (derived q)
  show ?thesis unfolding derived by (rule active_ctxs_inv[OF inv]) (auto simp: ctx_simps)
next
  case (cancelled k)
  show ?thesis unfolding cancelled by (rule active_ctxs_inv[OF inv]) (auto intro: ctx_err_cancel_mono)
qed

lemma active_run_inv:
  assumes "(active_step recon)\<^sup>*\<^sup>* p p'" and "active_inv p \<and> active_tracked p"
    and "\<And>p p'. recon p p' \<Longrightarrow> active_inv p \<Longrightarrow> active_tracked p \<Longrightarrow> active_inv p' \<and> active_tracked p'"
  shows "active_inv p' \<and> active_tracked p'"
  using assms(1,2)
proof (induction rule: rtranclp_induct)
  case (step y z)
  then have y: "active_inv y" "active_tracked y" by auto
  show ?case by (rule active_step_inv[OF step(2) y]) (rule assms(3)[OF _ y])
qed simp

lemma new_active_inv: "active_inv (new_active opts S) \<and> active_tracked (new_active opts S)"
  by (simp add: new_active_def active_inv_def tracked_def)

lemma new_inv:
  "active_inv (kubeconfig_New ko S) \<and> active_tracked (kubeconfig_New ko S)"
  "active_inv (capi_New fs nc cu S) \<and> active_tracked (capi_New fs nc cu S)"
  by (simp_all only: kubeconfig_New_def capi_New_def new_active_inv)

subsection \<open>Properties\<close>

text \<open>
  C27: no cluster outlives its entry. In every run of the kubeconfig provider and of the Cluster API
  provider, through failing reconciliations, changed kubeconfigs and removals, a cluster that
  was ever started is either cancelled or the one that the provider knows under its name.
\<close>

theorem providers_track_clusters:
  assumes "(active_step kubeconfig_recon)\<^sup>*\<^sup>* (kubeconfig_New ko S) p"
    and "(active_step capi_recon)\<^sup>*\<^sup>* (capi_New from_secret new_cluster cu S) q"
  shows "(\<forall>(n, cl, k) \<in> set (ap_running p). ctx_err (ap_ctxs p) k \<or>
      (\<exists>ac. fmlookup (ap_clusters p) n = Some ac \<and> ac_Cluster ac = cl \<and> ac_Context ac = k)) \<and>
    (\<forall>(n, cl, k) \<in> set (ap_running q). ctx_err (ap_ctxs q) k \<or>
      (\<exists>ac. fmlookup (ap_clusters q) n = Some ac \<and> ac_Cluster ac = cl \<and> ac_Context ac = k))"
proof -
  have "active_inv p \<and> active_tracked p"
    by (rule active_run_inv[OF assms(1) new_inv(1) kubeconfig_recon_inv])
  moreover have "active_inv q \<and> active_tracked q"
    by (rule active_run_inv[OF assms(2) new_inv(2) capi_recon_inv])
  ultimately show ?thesis unfolding tracked_def by fastforce
qed


text \<open>
  The Cluster API provider follows its objects. A ready cluster object is engaged under its
  namespaced name with the current kubeconfig when no error is returned. One that is gone or
  being deleted has no cluster and the one it had is cancelled. One that is not ready, or whose
  kubeconfig cannot be read, changes nothing; other names are never touched.
\<close>

theorem capi_follows_object:
  assumes "capi_Reconcile E got cx req p = ((res, err), p')" and "active_inv p"
  shows "(got = Inl (ErrApi NotFound) \<or> (\<exists>c. got = Inr c \<and> co_deleted c) \<longrightarrow>
      err = None \<and> fmlookup (ap_clusters p') (nsname_string req) = None \<and>
      (\<forall>ac. fmlookup (ap_clusters p) (nsname_string req) = Some ac \<longrightarrow> ctx_err (ap_ctxs p') (ac_Context ac))) \<and>
    (\<forall>c. got = Inr c \<and> \<not> co_deleted c \<longrightarrow>
      (if cp_IsReady (ap_opts p) c
       then (case cp_GetSecret (ap_opts p) c of
               Inl e \<Rightarrow> err \<noteq> None \<and> p' = p
             | Inr d \<Rightarrow> (case err of
                 None \<Rightarrow> \<exists>ac. fmlookup (ap_clusters p') (nsname_string req) = Some ac \<and> ac_Hash ac = hashKubeconfig E d
               | Some e \<Rightarrow> fmlookup (ap_clusters p') (nsname_string req) = None))
       else err = None \<and> p' = p)) \<and>
    (\<forall>m. m \<noteq> nsname_string req \<longrightarrow> fmlookup (ap_clusters p') m = fmlookup (ap_clusters p) m)"
proof -
  have removed: "ctx_err (ap_ctxs (removeCluster k p)) (ac_Context ac)" if "fmlookup (ap_clusters p) k = Some ac" for k ac
    using activeTrack.drop_cancels[OF assms(2), of k] that by simp
  show ?thesis
    using assms(1)
  proof (cases rule: capi_Reconcile_cases)
    case (unreadable e)
    then show ?thesis by (auto simp: IsNotFound_def)
  next
    case gone
    then show ?thesis using removed by auto
  next
    case (waiting o1)
    then show ?thesis by auto
  next
    case (no_secret o1 e)
    then show ?thesis by auto
  next
    case (unchanged o1 d ac)
    then show ?thesis by (auto simp: hashKubeconfig_def)
  next
    case (connected o1 d)
    note l = start_outcome_lookup[OF connected(5)]
    have "case err of None \<Rightarrow> \<exists>ac. fmlookup (ap_clusters p') (nsname_string req) = Some ac \<and> ac_Hash ac = hashKubeconfig E d
        | Some e \<Rightarrow> fmlookup (ap_clusters p') (nsname_string req) = None"
      using l(2,3) by (auto simp: hashKubeconfig_def split: option.splits)
    moreover have "m \<noteq> nsname_string req \<Longrightarrow> fmlookup (ap_clusters p') m = fmlookup (ap_clusters p) m" for m
      using l(1)[of m] by simp
    ultimately show ?thesis using connected(1-4) by auto
  qed
qed


subsection \<open>Concrete runs\<close>

definition demo_env :: connect_env where
  "demo_env = \<lparr>ce_rest = (\<lambda>_. Inr 0), ce_new = (\<lambda>_. Inr 7), ce_index = (\<lambda>_ _. None), ce_sync = (\<lambda>_. True),
     ce_engage = (\<lambda>_ _. None), ce_hash = (\<lambda>d. d)\<rparr>"

definition demo_kubeconfig :: "kubeconfig_options active_provider" where
  "demo_kubeconfig = kubeconfig_New \<lparr>ko_Namespace = ''ns'', ko_KubeconfigSecretLabel = '''', ko_KubeconfigSecretKey = '''',
     ko_RESTOptions = [], ko_ControllerName = ''''\<rparr> [(None, False)]"

definition demo_secret :: secret where
  "demo_secret = \<lparr>sec_name = NsName ''ns'' ''east'', sec_labels = Map.empty, sec_deleted = False,
     sec_Data = [''kubeconfig'' \<mapsto> ''cfg'']\<rparr>"

definition demo_capi :: "capi_options active_provider" where
  "demo_capi = capi_New (\<lambda>_. Inr ''cfg'') (ce_new demo_env)
     \<lparr>cu_GetSecret = None, cu_NewCluster = None, cu_IsReady = None\<rparr> [(None, False)]"

definition demo_object :: capi_object where
  "demo_object = \<lparr>co_key = NsName ''ns'' ''east'', co_deleted = False, co_v1beta2 = True,
     co_ControlPlaneInitialized = Some True\<rparr>"

abbreviation demo_reconciled :: "(Result \<times> go_error option) \<times> kubeconfig_options active_provider" where
  "demo_reconciled \<equiv> kubeconfig_Reconcile demo_env (Inr demo_secret) 0 (NsName ''ns'' ''east'') demo_kubeconfig"

abbreviation demo_capi_reconciled :: "(Result \<times> go_error option) \<times> capi_options active_provider" where
  "demo_capi_reconciled \<equiv> capi_Reconcile demo_env (Inr demo_object) 0 (NsName ''ns'' ''east'') demo_capi"

lemmas demo_defs = demo_env_def demo_kubeconfig_def demo_secret_def kubeconfig_New_def kubeconfig_defaults_def
  new_active_def kubeconfig_Reconcile_def getSecret_def hashKubeconfig_def getCluster_def kubeconfig_createAndEngage_def
  applyIndexers_def setCluster_def with_cancel_def Let_def

lemmas demo_capi_defs = demo_env_def demo_capi_def demo_object_def capi_New_def capi_setDefaults_def default_IsReady_def
  new_active_def capi_Reconcile_def hashKubeconfig_def capi_createAndEngage_def capi_applyIndexers_def
  with_cancel_def nsname_string_def Let_def

lemma demo_reconciled_eval:
  "fst demo_reconciled = (zero_Result, None)" "ap_running (snd demo_reconciled) = [(''east'', 7, 1)]"
  "fmlookup (ap_clusters (snd demo_reconciled)) ''east'' = Some \<lparr>ac_Cluster = 7, ac_Context = 1, ac_Hash = ''cfg''\<rparr>"
  by (simp_all add: demo_defs)

lemma demo_capi_reconciled_eval:
  "fst demo_capi_reconciled = (zero_Result, None)" "ap_running (snd demo_capi_reconciled) = [(''ns/east'', 7, 1)]"
  "ap_ctxs (snd demo_capi_reconciled) = [(None, False), (Some 0, False)]"
  by (simp_all add: demo_capi_defs)


theorem capi_follows_object_witness:
  "\<exists>ac. fmlookup (ap_clusters (snd demo_capi_reconciled)) ''ns/east'' = Some ac \<and> ac_Hash ac = ''cfg''"
proof -
  have "demo_capi_reconciled = ((zero_Result, None), snd demo_capi_reconciled)"
    by (metis demo_capi_reconciled_eval(1) prod.collapse)
  from capi_follows_object[OF this] have "active_inv demo_capi \<Longrightarrow> \<forall>c. Inr demo_object = Inr c \<and> \<not> co_deleted c \<longrightarrow>
      (if cp_IsReady (ap_opts demo_capi) c
       then (case cp_GetSecret (ap_opts demo_capi) c of
               Inl e \<Rightarrow> False
             | Inr d \<Rightarrow> \<exists>ac. fmlookup (ap_clusters (snd demo_capi_reconciled)) (nsname_string (NsName ''ns'' ''east'')) = Some ac \<and>
                 ac_Hash ac = hashKubeconfig demo_env d)
       else snd demo_capi_reconciled = demo_capi)"
    by (auto split: sum.splits)
  moreover have "active_inv demo_capi" using new_inv(2) by (auto simp: demo_capi_def)
  moreover have "cp_IsReady (ap_opts demo_capi) demo_object" "cp_GetSecret (ap_opts demo_capi) demo_object = Inr ''cfg''"
    "\<not> co_deleted demo_object"
    by (simp_all add: demo_capi_defs)
  ultimately show ?thesis by (auto simp: hashKubeconfig_def demo_env_def nsname_string_def)
qed

theorem providers_track_clusters_witness:
  "ctx_err (ap_ctxs (snd demo_reconciled)) 1 \<or>
     (\<exists>ac. fmlookup (ap_clusters (snd demo_reconciled)) ''east'' = Some ac \<and> ac_Cluster ac = 7 \<and> ac_Context ac = 1)"
proof -
  have "kubeconfig_recon demo_kubeconfig (snd demo_reconciled)"
    unfolding kubeconfig_recon_def by (metis prod.collapse)
  then have "active_step kubeconfig_recon demo_kubeconfig (snd demo_reconciled)" by (rule active_step.reconciled)
  then have p: "(active_step kubeconfig_recon)\<^sup>*\<^sup>* demo_kubeconfig (snd demo_reconciled)" by simp
  have q: "(active_step capi_recon)\<^sup>*\<^sup>* demo_capi demo_capi" by simp
  from providers_track_clusters[OF p[unfolded demo_kubeconfig_def] q[unfolded demo_capi_def]]
  show ?thesis using demo_reconciled_eval(2) by (auto simp: demo_kubeconfig_def)
qed

end
