(* ===== verification/Inventory.thy ===== *)
theory Inventory
  imports Tracking
begin

text \<open>
  \<open>providers/cluster-inventory-api\<close>: the provider that reconciles ClusterProfile objects, and the
  strategies by which it finds the kubeconfig of a profile. \<open>Reconcile\<close> holds the lock, so it is
  one function; the API client, the access plugin and the cluster objects are parameters.
\<close>

subsection \<open>Kubeconfig strategies: \<open>kubeconfigstrategy\<close>\<close>

record profile =
  pr_key :: nsname
  pr_Conditions :: "(string \<times> string) list"

record labelled_secret =
  ls_key :: nsname
  ls_labels :: "(string, string) fmap option"
  ls_Data :: "(string, string) fmap"

text \<open>\<open>AccessProviderOption\<close> with its provider, which may be nil; the deprecated option is an alias.\<close>

record strategy_option =
  so_Secret :: "string option"
  so_AccessProvider :: "nat option option"
  so_CredentialsProvider :: "nat option option"

datatype strategy = SecretStrategy string | AccessProviderStrategy nat

definition newSecretKubeConfigStrategy :: "string \<Rightarrow> go_error + strategy" where
  "newSecretKubeConfigStrategy consumer =
     (if consumer = '''' then Inl (Errorf ''consumer name must be set for Secret strategy'' [] None)
      else Inr (SecretStrategy consumer))"

definition newAccessProviderStrategy :: "nat option \<Rightarrow> go_error + strategy" where
  "newAccessProviderStrategy provider =
     (case provider of
        None \<Rightarrow> Inl (Errorf ''access provider must be set for AccessProvider strategy'' [] None)
      | Some a \<Rightarrow> Inr (AccessProviderStrategy a))"

definition strategy_New :: "strategy_option \<Rightarrow> go_error + strategy" where
  "strategy_New opt =
     (let count = (if so_AccessProvider opt \<noteq> None then 1 else 0) +
                  (if so_Secret opt \<noteq> None then 1 else 0) +
                  (if so_CredentialsProvider opt \<noteq> None then 1 else (0::nat));
          accessProvider = (case so_CredentialsProvider opt of Some c \<Rightarrow> Some c | None \<Rightarrow> so_AccessProvider opt)
      in if count = 0
         then Inl (Errorf ''one of AccessProvider, Secret, or CredentialsProvider must be provided'' [] None)
         else if count > 1
         then Inl (Errorf ''only one of AccessProvider, Secret, or CredentialsProvider can be provided'' [] None)
         else case so_Secret opt of
                Some consumer \<Rightarrow> newSecretKubeConfigStrategy consumer
              | None \<Rightarrow> newAccessProviderStrategy (the accessProvider))"

definition consumerLabel :: string where "consumerLabel = ''x-k8s.io/cluster-inventory-consumer''"
definition profileLabel :: string where "profileLabel = ''x-k8s.io/cluster-profile''"
definition configKey :: string where "configKey = ''Config''"

text \<open>Indexing a Go map that may be nil gives the empty string for a missing key.\<close>

definition label_of :: "labelled_secret \<Rightarrow> string \<Rightarrow> string" where
  "label_of s k = (case ls_labels s of None \<Rightarrow> '''' | Some m \<Rightarrow> (case fmlookup m k of None \<Rightarrow> '''' | Some v \<Rightarrow> v))"

text \<open>
  \<open>CustomWatches\<close>: the map function of the watch on secrets and its predicate. An object that
  is no secret is \<open>None\<close>.
\<close>

definition secret_requests :: "string \<Rightarrow> labelled_secret option \<Rightarrow> nsname list" where
  "secret_requests consumer obj =
     (case obj of
        None \<Rightarrow> []
      | Some s \<Rightarrow>
          if ls_labels s = None \<or> label_of s consumerLabel \<noteq> consumer \<or> label_of s profileLabel = ''''
          then [] else [NsName (nn_namespace (ls_key s)) (label_of s profileLabel)])"

definition secret_predicate :: "string \<Rightarrow> labelled_secret option \<Rightarrow> bool" where
  "secret_predicate consumer obj =
     (case obj of
        None \<Rightarrow> False
      | Some s \<Rightarrow> label_of s consumerLabel = consumer \<and> label_of s profileLabel \<noteq> '''')"

type_synonym custom_watch = "(labelled_secret option \<Rightarrow> nsname list) \<times> (labelled_secret option \<Rightarrow> bool)"

text \<open>The watches of the access provider strategy: nil.\<close>

definition access_CustomWatches :: "custom_watch list" where
  "access_CustomWatches = []"

fun CustomWatches :: "strategy \<Rightarrow> custom_watch list" where
  "CustomWatches (AccessProviderStrategy a) = access_CustomWatches"
| "CustomWatches (SecretStrategy consumer) = [(secret_requests consumer, secret_predicate consumer)]"

text \<open>
  \<open>GetKubeConfig\<close>: \<open>lst\<close> is the client's \<open>List\<close> in a namespace by labels, \<open>parse\<close>
  \<open>clientcmd.RESTConfigFromKubeConfig\<close> and \<open>build\<close> \<open>BuildConfigFromCP\<close> of an access provider.
\<close>

definition secret_GetKubeConfig ::
  "(string \<Rightarrow> (string \<times> string) list \<Rightarrow> go_error + labelled_secret list) \<Rightarrow> (string \<Rightarrow> go_error + rest_config) \<Rightarrow>
   string \<Rightarrow> profile \<Rightarrow> go_error + rest_config" where
  "secret_GetKubeConfig lst parse consumer clp =
     (case lst (nn_namespace (pr_key clp)) [(consumerLabel, consumer), (profileLabel, nn_name (pr_key clp))] of
        Inl err \<Rightarrow> Inl (Errorf ''failed to list secrets: %w'' [] (Some err))
      | Inr items \<Rightarrow>
          (case items of
             [] \<Rightarrow> Inl (Errorf ''no secrets found'' [] None)
           | [s] \<Rightarrow>
               (case fmlookup (ls_Data s) configKey of
                  None \<Rightarrow> Inl (Errorf ''secret %s/%s does not contain Config data''
                                [nn_namespace (ls_key s), nn_name (ls_key s)] None)
                | Some d \<Rightarrow> parse d)
           | _ \<Rightarrow> Inl (Errorf ''multiple secrets found, expected one, got %d'' [] None)))"

fun GetKubeConfig ::
  "(string \<Rightarrow> (string \<times> string) list \<Rightarrow> go_error + labelled_secret list) \<Rightarrow> (string \<Rightarrow> go_error + rest_config) \<Rightarrow>
   (nat \<Rightarrow> profile \<Rightarrow> go_error + rest_config) \<Rightarrow> strategy \<Rightarrow> profile \<Rightarrow> go_error + rest_config" where
  "GetKubeConfig lst parse build (AccessProviderStrategy a) clp = build a clp"
| "GetKubeConfig lst parse build (SecretStrategy consumer) clp = secret_GetKubeConfig lst parse consumer clp"

subsection \<open>The provider\<close>

record inventory_options =
  io_NewCluster :: "(profile \<Rightarrow> rest_config \<Rightarrow> go_error + cluster_h) option"
  io_IsReady :: "(profile \<Rightarrow> bool) option"

record inventory =
  iv_NewCluster :: "profile \<Rightarrow> rest_config \<Rightarrow> go_error + cluster_h"
  iv_IsReady :: "profile \<Rightarrow> bool"
  iv_strategy :: strategy
  iv_mcMgr :: "aware_h option"
  iv_clusters :: "(cluster_name, cluster_h) fmap"
  iv_cancelFns :: "(cluster_name, ctx) fmap"
  iv_kubeconfig :: "(cluster_name, rest_config) fmap"
  iv_indexers :: "index list"
  iv_ctxs :: ctxs
  iv_running :: running
  iv_calls :: "cluster_call list"

text \<open>\<open>meta.FindStatusCondition\<close> takes the first condition of the type.\<close>

definition profile_healthy :: "profile \<Rightarrow> bool" where
  "profile_healthy clp =
     (case find (\<lambda>c. fst c = ''ControlPlaneHealthy'') (pr_Conditions clp) of
        None \<Rightarrow> False | Some c \<Rightarrow> snd c = ''True'')"

definition inventory_setDefaults ::
  "(rest_config \<Rightarrow> go_error + cluster_h) \<Rightarrow> inventory_options \<Rightarrow> inventory_options" where
  "inventory_setDefaults new_cluster opts =
     opts\<lparr>io_NewCluster := Some (case io_NewCluster opts of Some f \<Rightarrow> f | None \<Rightarrow> (\<lambda>clp cfg. new_cluster cfg)),
          io_IsReady := Some (case io_IsReady opts of Some f \<Rightarrow> f | None \<Rightarrow> profile_healthy)\<rparr>"

lemma inventory_setDefaults_sel [simp]:
  "io_NewCluster (inventory_setDefaults nc opts) =
     Some (case io_NewCluster opts of Some f \<Rightarrow> f | None \<Rightarrow> (\<lambda>clp cfg. nc cfg))"
  "io_IsReady (inventory_setDefaults nc opts) = Some (case io_IsReady opts of Some f \<Rightarrow> f | None \<Rightarrow> profile_healthy)"
  by (simp_all add: inventory_setDefaults_def)

definition inventory_New ::
  "(rest_config \<Rightarrow> go_error + cluster_h) \<Rightarrow> inventory_options \<Rightarrow> strategy_option \<Rightarrow> ctxs \<Rightarrow> go_error + inventory" where
  "inventory_New new_cluster opts sopt S =
     (case strategy_New sopt of
        Inl err \<Rightarrow> Inl (Errorf ''failed to create kubeconfig strategy: %w'' [] (Some err))
      | Inr st \<Rightarrow> Inr
          \<lparr>iv_NewCluster = the (io_NewCluster (inventory_setDefaults new_cluster opts)),
           iv_IsReady = the (io_IsReady (inventory_setDefaults new_cluster opts)),
           iv_strategy = st, iv_mcMgr = None, iv_clusters = fmempty, iv_cancelFns = fmempty,
           iv_kubeconfig = fmempty, iv_indexers = [], iv_ctxs = S, iv_running = [], iv_calls = []\<rparr>)"

definition inventory_SetupWithManager ::
  "aware_h option \<Rightarrow> bool \<Rightarrow> go_error option \<Rightarrow> inventory \<Rightarrow> go_error option \<times> inventory" where
  "inventory_SetupWithManager mgr local complete p =
     (case mgr of
        None \<Rightarrow> (Some (Errorf ''manager is nil'' [] None), p)
      | Some m \<Rightarrow>
          (let p1 = p\<lparr>iv_mcMgr := Some m\<rparr>
           in if \<not> local then (Some (Errorf ''local manager is nil'' [] None), p1)
              else (case complete of
                      Some err \<Rightarrow> (Some (Errorf ''failed to create controller: %w'' [] (Some err)), p1)
                    | None \<Rightarrow> (None, p1))))"

definition inventory_Get :: "inventory \<Rightarrow> cluster_name \<Rightarrow> go_error + cluster_h" where
  "inventory_Get p name =
     (case fmlookup (iv_clusters p) name of Some cl \<Rightarrow> Inr cl | None \<Rightarrow> Inl ErrClusterNotFound)"

definition inventory_forget :: "cluster_name \<Rightarrow> inventory \<Rightarrow> inventory" where
  "inventory_forget key p =
     p\<lparr>iv_clusters := fmdrop key (iv_clusters p), iv_cancelFns := fmdrop key (iv_cancelFns p),
       iv_kubeconfig := fmdrop key (iv_kubeconfig p)\<rparr>"

text \<open>The branch of a profile that is gone: the cancel function stays in its table.\<close>

definition inventory_gone :: "cluster_name \<Rightarrow> inventory \<Rightarrow> inventory" where
  "inventory_gone key p =
     (let p1 = p\<lparr>iv_clusters := fmdrop key (iv_clusters p)\<rparr>
      in case fmlookup (iv_cancelFns p1) key of
           None \<Rightarrow> p1 | Some k \<Rightarrow> p1\<lparr>iv_ctxs := cancel (iv_ctxs p1) k\<rparr>)"

definition inventory_disengage :: "cluster_name \<Rightarrow> inventory \<Rightarrow> inventory" where
  "inventory_disengage key p =
     (case fmlookup (iv_cancelFns p) key of
        None \<Rightarrow> p
      | Some k \<Rightarrow> inventory_forget key (p\<lparr>iv_ctxs := cancel (iv_ctxs p) k\<rparr>))"

text \<open>From the creation of the cluster on.\<close>

definition inventory_create ::
  "connect_env \<Rightarrow> ctx \<Rightarrow> cluster_name \<Rightarrow> profile \<Rightarrow> rest_config \<Rightarrow> inventory \<Rightarrow> go_error option \<times> inventory" where
  "inventory_create E cx key clp cfg p =
     (case iv_NewCluster p clp cfg of
        Inl err \<Rightarrow> (Some (Errorf ''failed to create cluster for ClusterProfile=%s: %w'' [key] (Some err)), p)
      | Inr cl \<Rightarrow>
     (case index_loop (ce_index E) cl (iv_indexers p) (iv_calls p) of
        (Some (idx, err), calls) \<Rightarrow>
          (Some (Errorf ''failed to index field %q for %s=%s: %w'' [idx_Field idx, idx_Object idx, key] (Some err)),
           p\<lparr>iv_calls := calls\<rparr>)
      | (None, calls) \<Rightarrow>
     (let (S, clusterCtx) = with_cancel (iv_ctxs p) cx;
          p1 = p\<lparr>iv_calls := calls, iv_ctxs := S, iv_running := (key, cl, clusterCtx) # iv_running p\<rparr>
      in if \<not> ce_sync E cl
         then (Some (Errorf ''failed to sync cache for ClusterProfile=%s'' [key] None), p1\<lparr>iv_ctxs := cancel S clusterCtx\<rparr>)
         else (let p2 = p1\<lparr>iv_clusters := fmupd key cl (iv_clusters p1),
                           iv_cancelFns := fmupd key clusterCtx (iv_cancelFns p1),
                           iv_kubeconfig := fmupd key cfg (iv_kubeconfig p1),
                           iv_calls := iv_calls p1 @ [CallEngage (the (iv_mcMgr p1)) clusterCtx key cl]\<rparr>
               in case ce_engage E key cl of
                    Some err \<Rightarrow> (Some err, inventory_forget key p2)
                  | None \<Rightarrow> (None, p2)))))"

text \<open>\<open>kubeconfig\<close> is the strategy's \<open>GetKubeConfig\<close> for the profile; configurations are compared deeply.\<close>

definition inventory_Reconcile ::
  "connect_env \<Rightarrow> (strategy \<Rightarrow> profile \<Rightarrow> go_error + rest_config) \<Rightarrow> go_error + profile \<Rightarrow> ctx \<Rightarrow> nsname \<Rightarrow> inventory \<Rightarrow>
   (Result \<times> go_error option) \<times> inventory" where
  "inventory_Reconcile E kubeconfig got cx req p =
     (let key = nsname_string req
      in case got of
           Inl err \<Rightarrow>
             if IsNotFound err then ((zero_Result, None), inventory_gone key p)
             else ((zero_Result, Some (Errorf ''failed to get ClusterProfile %s: %w'' [key] (Some err))), p)
         | Inr clp \<Rightarrow>
             if iv_mcMgr p = None then ((zero_Result\<lparr>RequeueAfter := 2 * second\<rparr>, None), p)
             else if \<not> iv_IsReady p clp then ((zero_Result\<lparr>RequeueAfter := 10 * second\<rparr>, None), p)
             else case kubeconfig (iv_strategy p) clp of
                    Inl err \<Rightarrow>
                      ((zero_Result, Some (Errorf ''failed to get kubeconfig for ClusterProfile=%s: %w'' [key] (Some err))), p)
                  | Inr cfg \<Rightarrow>
                      (let create = (\<lambda>q. let (err, q') = inventory_create E cx key clp cfg q in ((zero_Result, err), q'))
                       in if fmlookup (iv_clusters p) key \<noteq> None
                          then if fmlookup (iv_kubeconfig p) key = Some cfg then ((zero_Result, None), p)
                               else create (inventory_disengage key p)
                          else create p))"

definition inventory_IndexField ::
  "connect_env \<Rightarrow> cluster_name list \<Rightarrow> index \<Rightarrow> inventory \<Rightarrow> go_error option \<times> inventory" where
  "inventory_IndexField E ord i p =
     (let p1 = p\<lparr>iv_indexers := iv_indexers p @ [i]\<rparr>
      in case index_clusters (ce_index E) i (map (\<lambda>n. (n, the (fmlookup (iv_clusters p1) n))) ord) (iv_calls p1) of
           (None, calls) \<Rightarrow> (None, p1\<lparr>iv_calls := calls\<rparr>)
         | (Some (name, err), calls) \<Rightarrow>
             (Some (Errorf ''failed to index field %q on ClusterProfile %q: %w'' [idx_Field i, name] (Some err)),
              p1\<lparr>iv_calls := calls\<rparr>))"


subsection \<open>Strategies\<close>

interpretation inventoryGet: provider_get inventory_Get "\<lambda>p. fmlookup (iv_clusters p)"
  by unfold_locales (auto simp: inventory_Get_def)

lemma strategy_New_ok_iff:
  "(\<exists>st. strategy_New opt = Inr st) \<longleftrightarrow>
     (\<exists>x. so_Secret opt = Some x \<and> x \<noteq> '''' \<and> so_AccessProvider opt = None \<and> so_CredentialsProvider opt = None) \<or>
     (\<exists>x. so_AccessProvider opt = Some (Some x) \<and> so_Secret opt = None \<and> so_CredentialsProvider opt = None) \<or>
     (\<exists>x. so_CredentialsProvider opt = Some (Some x) \<and> so_Secret opt = None \<and> so_AccessProvider opt = None)"
  by (auto simp: strategy_New_def newSecretKubeConfigStrategy_def newAccessProviderStrategy_def
      Let_def split: option.splits)

text \<open>The map function and the predicate of the secret watch select the same secrets.\<close>

lemma secret_watch_agrees: "consumer \<noteq> '''' \<Longrightarrow> secret_requests consumer obj \<noteq> [] \<longleftrightarrow> secret_predicate consumer obj"
  by (auto simp: secret_requests_def secret_predicate_def label_of_def split: option.splits)

subsection \<open>Reconciling\<close>

definition inventory_inv :: "inventory \<Rightarrow> bool" where
  "inventory_inv p \<longleftrightarrow>
     (\<forall>n cl. fmlookup (iv_clusters p) n = Some cl \<longrightarrow>
        (\<exists>k. fmlookup (iv_cancelFns p) n = Some k) \<and> (\<exists>c. fmlookup (iv_kubeconfig p) n = Some c)) \<and>
     (\<forall>n k. fmlookup (iv_cancelFns p) n = Some k \<longrightarrow> k < length (iv_ctxs p))"

lemma inventory_create_result:
  assumes "inventory_create E cx key clp cfg p = (err, p')"
  shows "m \<noteq> key \<Longrightarrow> fmlookup (iv_clusters p') m = fmlookup (iv_clusters p) m"
    and "fmlookup (iv_clusters p) key = None \<Longrightarrow>
      (case err of None \<Rightarrow> \<exists>cl. fmlookup (iv_clusters p') key = Some cl \<and> fmlookup (iv_kubeconfig p') key = Some cfg
       | Some e \<Rightarrow> fmlookup (iv_clusters p') key = None)"
    and "ctx_err (iv_ctxs p) k \<Longrightarrow> ctx_err (iv_ctxs p') k"
proof -
  show "fmlookup (iv_clusters p') m = fmlookup (iv_clusters p) m" if "m \<noteq> key"
    using assms that by (auto simp: inventory_create_def inventory_forget_def Let_def split: sum.splits option.splits prod.splits if_splits)
  show "case err of None \<Rightarrow> \<exists>cl. fmlookup (iv_clusters p') key = Some cl \<and> fmlookup (iv_kubeconfig p') key = Some cfg
       | Some e \<Rightarrow> fmlookup (iv_clusters p') key = None" if "fmlookup (iv_clusters p) key = None"
    using assms that by (auto simp: inventory_create_def inventory_forget_def Let_def split: sum.splits option.splits prod.splits if_splits)
  have old: "ctx_err (fst (with_cancel (iv_ctxs p) cx)) k" "ctx_err (cancel (fst (with_cancel (iv_ctxs p) cx)) j) k"
    if "ctx_err (iv_ctxs p) k" for j
    using ctx_err_less[OF that] that by (simp_all add: ctx_err_with_cancel_old ctx_err_cancel_mono)
  show "ctx_err (iv_ctxs p') k" if "ctx_err (iv_ctxs p) k"
    using assms that old[OF that]
    by (auto simp: inventory_create_def inventory_forget_def with_cancel_def Let_def split: sum.splits option.splits prod.splits if_splits)
qed

lemma inventory_disengage_result:
  assumes "inventory_inv p" and "fmlookup (iv_clusters p) key = Some cl"
  shows "fmlookup (iv_clusters (inventory_disengage key p)) m = (if m = key then None else fmlookup (iv_clusters p) m)"
    and "fmlookup (iv_cancelFns p) key = Some k \<Longrightarrow> ctx_err (iv_ctxs (inventory_disengage key p)) k"
  using assms by (auto simp: inventory_disengage_def inventory_forget_def inventory_inv_def ctx_err_cancel_self split: option.splits)



lemma inventory_create_inv:
  assumes "inventory_create E cx key clp cfg p = (err, p')" and "inventory_inv p"
  shows "inventory_inv p'"
proof -
  have len: "fmlookup (iv_cancelFns p) n = Some k \<Longrightarrow> k < Suc (length (iv_ctxs p))" for n k
    using assms(2) by (auto simp: inventory_inv_def less_SucI)
  show ?thesis
    using assms
    by (auto simp: inventory_create_def inventory_forget_def inventory_inv_def with_cancel_def Let_def intro: len
        split: sum.splits option.splits prod.splits if_splits)
qed

lemma inventory_Reconcile_inv:
  assumes "inventory_Reconcile E kubeconfig got cx req p = (r, p')" and inv: "inventory_inv p"
  shows "inventory_inv p'"
proof -
  have "inventory_inv (inventory_gone key p)" "inventory_inv (inventory_disengage key p)" for key
    using inv by (auto simp: inventory_gone_def inventory_disengage_def inventory_forget_def inventory_inv_def Let_def
        split: option.splits)
  with assms show ?thesis
    by (auto simp: inventory_Reconcile_def Let_def dest: inventory_create_inv split: sum.splits if_splits prod.splits)
qed

lemma inventory_New_inv: "inventory_New nc opts sopt S = Inr p \<Longrightarrow> inventory_inv p"
  by (auto simp: inventory_New_def inventory_inv_def split: sum.splits)

subsection \<open>Concrete runs\<close>

definition inventory_env :: "go_error option \<Rightarrow> connect_env" where
  "inventory_env engage = \<lparr>ce_rest = (\<lambda>_. Inr 0), ce_new = (\<lambda>_. Inr 7), ce_index = (\<lambda>_ _. None), ce_sync = (\<lambda>_. True),
     ce_engage = (\<lambda>_ _. engage), ce_hash = (\<lambda>d. d)\<rparr>"

definition demo_profile :: profile where
  "demo_profile = \<lparr>pr_key = NsName ''ns'' ''east'', pr_Conditions = [(''ControlPlaneHealthy'', ''True'')]\<rparr>"

definition demo_inventory :: inventory where
  "demo_inventory = (projr (inventory_New (\<lambda>_. Inr 7) \<lparr>io_NewCluster = None, io_IsReady = None\<rparr>
     \<lparr>so_Secret = Some ''me'', so_AccessProvider = None, so_CredentialsProvider = None\<rparr> [(None, False)]))\<lparr>iv_mcMgr := Some 1\<rparr>"

abbreviation inventory_run :: "go_error option \<Rightarrow> (Result \<times> go_error option) \<times> inventory" where
  "inventory_run engage \<equiv> inventory_Reconcile (inventory_env engage) (\<lambda>_ _. Inr 3) (Inr demo_profile) 0
     (NsName ''ns'' ''east'') demo_inventory"

lemmas inventory_demo = demo_inventory_def inventory_New_def strategy_New_def newSecretKubeConfigStrategy_def
  demo_profile_def inventory_env_def inventory_Reconcile_def profile_healthy_def inventory_create_def with_cancel_def
  nsname_string_def inventory_forget_def zero_Result_def Let_def


text \<open>
  A refused cluster keeps running. When the manager refuses to engage the cluster of a profile,
  the provider forgets the cluster and its cancel function without calling it: the cluster
  runs on in a live context that nothing in the provider can end.
\<close>

theorem inventory_refused_cluster_leaks:
  "let (r, p) = inventory_run (Some ErrCtx)
   in snd r = Some ErrCtx \<and> (''ns/east'', 7, 1) \<in> set (iv_running p) \<and> \<not> ctx_err (iv_ctxs p) 1 \<and>
      fmlookup (iv_clusters p) ''ns/east'' = None \<and> fmlookup (iv_cancelFns p) ''ns/east'' = None"
  by (simp add: inventory_demo ctx_err.simps)

end
