(* ===== verification/KindProvider.thy ===== *)
theory KindProvider
  imports Tracking
begin

text \<open>
  \<open>providers/kind/provider.go\<close>: a provider that polls the local kind installation and keeps one
  engaged cluster per kind cluster. One poll is one function: what kind lists is an argument,
  the kubeconfigs, the clusters and the manager are an environment.
\<close>

subsection \<open>State and operations\<close>

record kind_provider =
  kp_Prefix :: string
  kp_RESTOptions :: "(rest_config \<Rightarrow> go_error + rest_config) list"
  kp_mcAware :: "aware_h option"
  kp_clusters :: "(cluster_name, cluster_h) fmap"
  kp_cancelFns :: "(cluster_name, ctx) fmap"
  kp_indexers :: "index list"
  kp_ctxs :: ctxs
  kp_running :: running
  kp_calls :: "cluster_call list"

definition kind_New ::
  "string \<Rightarrow> (rest_config \<Rightarrow> go_error + rest_config) list \<Rightarrow> ctxs \<Rightarrow> kind_provider" where
  "kind_New prefix restopts S =
     \<lparr>kp_Prefix = prefix, kp_RESTOptions = restopts, kp_mcAware = None, kp_clusters = fmempty,
      kp_cancelFns = fmempty, kp_indexers = [], kp_ctxs = S, kp_running = [], kp_calls = []\<rparr>"

definition kind_Get :: "kind_provider \<Rightarrow> cluster_name \<Rightarrow> go_error + cluster_h" where
  "kind_Get p name =
     (case fmlookup (kp_clusters p) name of Some cl \<Rightarrow> Inr cl | None \<Rightarrow> Inl ErrClusterNotFound)"

text \<open>
  How the loop over the listed names goes on: with the next name, not in this poll
  (\<open>return false, nil\<close>), or not at all (\<open>return false, err\<close>).
\<close>

datatype flow = NextName | PollDone | PollFailed go_error

definition kind_forget :: "cluster_name \<Rightarrow> kind_provider \<Rightarrow> kind_provider" where
  "kind_forget name p =
     p\<lparr>kp_clusters := fmdrop name (kp_clusters p), kp_cancelFns := fmdrop name (kp_cancelFns p)\<rparr>"

text \<open>\<open>kubeconfig\<close> is what kind returns as kubeconfig of a name.\<close>

definition kind_start_one ::
  "connect_env \<Rightarrow> (cluster_name \<Rightarrow> go_error + string) \<Rightarrow> ctx \<Rightarrow> cluster_name \<Rightarrow> kind_provider \<Rightarrow> flow \<times> kind_provider" where
  "kind_start_one E kubeconfig cx name p =
     (if kp_Prefix p \<noteq> '''' \<and> take (length (kp_Prefix p)) name \<noteq> kp_Prefix p then (NextName, p)
      else if fmlookup (kp_clusters p) name \<noteq> None then (NextName, p)
      else case kubeconfig name of
        Inl _ \<Rightarrow> (PollDone, p)
      | Inr kc \<Rightarrow>
     (case ce_rest E kc of
        Inl _ \<Rightarrow> (PollDone, p)
      | Inr cfg0 \<Rightarrow>
     (case apply_rest_options (kp_RESTOptions p) cfg0 of
        Inl _ \<Rightarrow> (PollDone, p)
      | Inr cfg \<Rightarrow>
     (case ce_new E cfg of
        Inl _ \<Rightarrow> (PollDone, p)
      | Inr cl \<Rightarrow>
     (case index_loop (ce_index E) cl (kp_indexers p) (kp_calls p) of
        (Some (idx, err), calls) \<Rightarrow>
          (PollFailed (Errorf ''failed to index field %q: %w'' [idx_Field idx] (Some err)), p\<lparr>kp_calls := calls\<rparr>)
      | (None, calls) \<Rightarrow>
     (let (S, clusterCtx) = with_cancel (kp_ctxs p) cx;
          p1 = p\<lparr>kp_calls := calls, kp_ctxs := S, kp_running := (name, cl, clusterCtx) # kp_running p\<rparr>
      in if \<not> ce_sync E cl then (PollDone, p1\<lparr>kp_ctxs := cancel S clusterCtx\<rparr>)
         else (let p2 = p1\<lparr>kp_clusters := fmupd name cl (kp_clusters p1),
                           kp_cancelFns := fmupd name clusterCtx (kp_cancelFns p1),
                           kp_calls := kp_calls p1 @ [CallEngage (the (kp_mcAware p1)) clusterCtx name cl]\<rparr>
               in case ce_engage E name cl of
                    Some err \<Rightarrow> (PollDone, kind_forget name p2)
                  | None \<Rightarrow> (NextName, p2))))))))"

fun kind_start_all ::
  "connect_env \<Rightarrow> (cluster_name \<Rightarrow> go_error + string) \<Rightarrow> ctx \<Rightarrow> cluster_name list \<Rightarrow> kind_provider \<Rightarrow> flow \<times> kind_provider" where
  "kind_start_all E kubeconfig cx [] p = (NextName, p)"
| "kind_start_all E kubeconfig cx (name # names) p =
     (case kind_start_one E kubeconfig cx name p of
        (NextName, p1) \<Rightarrow> kind_start_all E kubeconfig cx names p1
      | (f, p1) \<Rightarrow> (f, p1))"

text \<open>
  Removing what kind no longer lists. Calling a cancel function that is not in the table is a
  nil dereference: \<open>None\<close> is the panic.
\<close>

fun kind_remove_old :: "cluster_name list \<Rightarrow> cluster_name list \<Rightarrow> kind_provider \<Rightarrow> kind_provider option" where
  "kind_remove_old kindNames [] p = Some p"
| "kind_remove_old kindNames (name # names) p =
     (if name \<in> set kindNames then kind_remove_old kindNames names p
      else case fmlookup (kp_cancelFns p) name of
             None \<Rightarrow> None
           | Some k \<Rightarrow> kind_remove_old kindNames names (kind_forget name (p\<lparr>kp_ctxs := cancel (kp_ctxs p) k\<rparr>)))"

text \<open>\<open>ord\<close> is the order in which the keys of the table are collected, given the table.\<close>

definition kind_poll ::
  "connect_env \<Rightarrow> (cluster_name \<Rightarrow> go_error + string) \<Rightarrow> ((cluster_name, cluster_h) fmap \<Rightarrow> cluster_name list) \<Rightarrow> ctx \<Rightarrow>
   go_error + cluster_name list \<Rightarrow> kind_provider \<Rightarrow> (go_error option \<times> kind_provider) option" where
  "kind_poll E kubeconfig ord cx listed p =
     (case listed of
        Inl _ \<Rightarrow> Some (None, p)
      | Inr names \<Rightarrow>
          (case kind_start_all E kubeconfig cx names p of
             (PollFailed err, p1) \<Rightarrow> Some (Some err, p1)
           | (PollDone, p1) \<Rightarrow> Some (None, p1)
           | (NextName, p1) \<Rightarrow>
               (case kind_remove_old names (ord (kp_clusters p1)) p1 of
                  None \<Rightarrow> None
                | Some p2 \<Rightarrow> Some (None, p2))))"

text \<open>
  \<open>Start\<close>: a first listing as a test, then polls until one fails or the context is done, here
  after the listings that are given.
\<close>

fun kind_loop ::
  "connect_env \<Rightarrow> (cluster_name \<Rightarrow> go_error + string) \<Rightarrow> ((cluster_name, cluster_h) fmap \<Rightarrow> cluster_name list) \<Rightarrow> ctx \<Rightarrow>
   (go_error + cluster_name list) list \<Rightarrow> kind_provider \<Rightarrow> (go_error option \<times> kind_provider) option" where
  "kind_loop E kubeconfig ord cx [] p = Some (Some ErrCtx, p)"
| "kind_loop E kubeconfig ord cx (l # ls) p =
     (case kind_poll E kubeconfig ord cx l p of
        None \<Rightarrow> None
      | Some (Some err, p1) \<Rightarrow> Some (Some err, p1)
      | Some (None, p1) \<Rightarrow> kind_loop E kubeconfig ord cx ls p1)"

definition kind_Start ::
  "connect_env \<Rightarrow> (cluster_name \<Rightarrow> go_error + string) \<Rightarrow> ((cluster_name, cluster_h) fmap \<Rightarrow> cluster_name list) \<Rightarrow> ctx \<Rightarrow>
   aware_h \<Rightarrow> go_error + cluster_name list \<Rightarrow> (go_error + cluster_name list) list \<Rightarrow> kind_provider \<Rightarrow>
   (go_error option \<times> kind_provider) option" where
  "kind_Start E kubeconfig ord cx aware smoke listings p =
     (let p1 = p\<lparr>kp_mcAware := Some aware\<rparr>
      in case smoke of
           Inl err \<Rightarrow> Some (Some err, p1)
         | Inr _ \<Rightarrow> kind_loop E kubeconfig ord cx listings p1)"

definition kind_IndexField ::
  "connect_env \<Rightarrow> cluster_name list \<Rightarrow> index \<Rightarrow> kind_provider \<Rightarrow> go_error option \<times> kind_provider" where
  "kind_IndexField E ord i p =
     (let p1 = p\<lparr>kp_indexers := kp_indexers p @ [i]\<rparr>
      in case index_clusters (ce_index E) i (map (\<lambda>n. (n, the (fmlookup (kp_clusters p1) n))) ord) (kp_calls p1) of
           (None, calls) \<Rightarrow> (None, p1\<lparr>kp_calls := calls\<rparr>)
         | (Some (name, err), calls) \<Rightarrow>
             (Some (Errorf ''failed to index field %q on cluster %q: %w'' [idx_Field i, name] (Some err)),
              p1\<lparr>kp_calls := calls\<rparr>))"

subsection \<open>Invariant\<close>

definition kind_wanted :: "string \<Rightarrow> cluster_name \<Rightarrow> bool" where
  "kind_wanted prefix name \<longleftrightarrow> prefix = '''' \<or> take (length prefix) name = prefix"

definition kind_inv :: "kind_provider \<Rightarrow> bool" where
  "kind_inv p \<longleftrightarrow>
     fmdom (kp_clusters p) = fmdom (kp_cancelFns p) \<and>
     (\<forall>n k. fmlookup (kp_cancelFns p) n = Some k \<longrightarrow> k < length (kp_ctxs p)) \<and>
     (\<forall>n cl. fmlookup (kp_clusters p) n = Some cl \<longrightarrow> kind_wanted (kp_Prefix p) n)"

interpretation kindGet: provider_get kind_Get "\<lambda>p. fmlookup (kp_clusters p)"
  by unfold_locales (auto simp: kind_Get_def)

definition kind_drop :: "cluster_name \<Rightarrow> kind_provider \<Rightarrow> kind_provider" where
  "kind_drop name p =
     (case fmlookup (kp_cancelFns p) name of
        None \<Rightarrow> kind_forget name p
      | Some k \<Rightarrow> kind_forget name (p\<lparr>kp_ctxs := cancel (kp_ctxs p) k\<rparr>))"

lemma kind_inv_lookup: "kind_inv p \<Longrightarrow> fmlookup (kp_clusters p) n = None \<longleftrightarrow> fmlookup (kp_cancelFns p) n = None"
  unfolding kind_inv_def by (metis fmdom_notD fmdom_notI)

interpretation kindTrack: cluster_tracking kp_ctxs "\<lambda>p. fmlookup (kp_clusters p)" "\<lambda>p. fmlookup (kp_cancelFns p)"
  kind_inv kind_drop kp_running
proof unfold_locales
  show "\<exists>k. fmlookup (kp_cancelFns s) n = Some k" if "kind_inv s" "fmlookup (kp_clusters s) n = Some cl" for s n cl
    using kind_inv_lookup[OF that(1), of n] that(2) by auto
qed (auto simp: kind_inv_def kind_drop_def kind_forget_def fun_eq_iff split: option.splits if_splits)

text \<open>Removing never panics, and drops what is not listed.\<close>

lemma kind_remove_old_drops:
  assumes "kind_inv p" and "distinct names" and "\<forall>n \<in> set names. fmlookup (kp_clusters p) n \<noteq> None"
  shows "kind_remove_old kindNames names p = Some (fold kind_drop (filter (\<lambda>n. n \<notin> set kindNames) names) p)"
  using assms
proof (induction names arbitrary: p)
  case (Cons n names)
  show ?case
  proof (cases "n \<in> set kindNames")
    case True
    with Cons show ?thesis by simp
  next
    case False
    obtain k where k: "fmlookup (kp_cancelFns p) n = Some k"
      using kind_inv_lookup[OF Cons.prems(1), of n] Cons.prems(3) by auto
    have d: "kind_drop n p = kind_forget n (p\<lparr>kp_ctxs := cancel (kp_ctxs p) k\<rparr>)" by (simp add: kind_drop_def k)
    have "\<forall>m \<in> set names. fmlookup (kp_clusters (kind_drop n p)) m \<noteq> None"
      using Cons.prems(2,3) kindTrack.drop_known[of n p] by (auto simp: fun_eq_iff)
    with Cons.IH[OF kindTrack.drop_inv[OF Cons.prems(1)]] Cons.prems(2) False k show ?thesis
      by (simp add: d[symmetric])
  qed
qed simp


subsection \<open>Starting\<close>

text \<open>What one name comes to: nothing, a cluster given up, a cluster refused, or one entered.\<close>

lemma kind_start_one_cases:
  assumes "kind_start_one E kubeconfig cx name p = (f, p')"
  obtains (skipped) "f = NextName" "p' = p" "fmlookup (kp_clusters p) name = None \<Longrightarrow> \<not> kind_wanted (kp_Prefix p) name"
  | (failed) calls where "f \<noteq> NextName" "p' = p\<lparr>kp_calls := calls\<rparr>"
  | (unsynced) cl calls where "f \<noteq> NextName" "p' = p\<lparr>kp_calls := calls, kp_running := (name, cl, length (kp_ctxs p)) # kp_running p,
        kp_ctxs := cancel (fst (with_cancel (kp_ctxs p) cx)) (length (kp_ctxs p))\<rparr>"
  | (refused) cl calls e where "f \<noteq> NextName" "ce_engage E name cl = Some e"
      "p' = p\<lparr>kp_ctxs := fst (with_cancel (kp_ctxs p) cx), kp_running := (name, cl, length (kp_ctxs p)) # kp_running p,
        kp_calls := calls, kp_clusters := fmdrop name (kp_clusters p), kp_cancelFns := fmdrop name (kp_cancelFns p)\<rparr>"
  | (entered) cl calls where "f = NextName" "fmlookup (kp_clusters p) name = None" "kind_wanted (kp_Prefix p) name"
      "p' = p\<lparr>kp_ctxs := fst (with_cancel (kp_ctxs p) cx), kp_running := (name, cl, length (kp_ctxs p)) # kp_running p,
        kp_clusters := fmupd name cl (kp_clusters p), kp_cancelFns := fmupd name (length (kp_ctxs p)) (kp_cancelFns p),
        kp_calls := calls\<rparr>"
proof (cases "\<not> kind_wanted (kp_Prefix p) name \<or> fmlookup (kp_clusters p) name \<noteq> None")
  case True
  with assms have "f = NextName" "p' = p" by (auto simp: kind_start_one_def kind_wanted_def split: if_splits)
  with True show ?thesis by (intro skipped) auto
next
  case False
  then have w: "kind_wanted (kp_Prefix p) name" "fmlookup (kp_clusters p) name = None" by auto
  show ?thesis
  proof (cases "\<exists>kc cfg0 cfg cl. kubeconfig name = Inr kc \<and> ce_rest E kc = Inr cfg0 \<and>
      apply_rest_options (kp_RESTOptions p) cfg0 = Inr cfg \<and> ce_new E cfg = Inr cl")
    case False
    with assms w have "f \<noteq> NextName" "p' = p\<lparr>kp_calls := kp_calls p\<rparr>"
      by (auto simp: kind_start_one_def kind_wanted_def split: sum.splits if_splits)
    then show ?thesis by (rule failed)
  next
    case True
    then obtain kc cfg0 cfg cl where c: "kubeconfig name = Inr kc" "ce_rest E kc = Inr cfg0"
      "apply_rest_options (kp_RESTOptions p) cfg0 = Inr cfg" "ce_new E cfg = Inr cl" by blast
    obtain r calls where l: "index_loop (ce_index E) cl (kp_indexers p) (kp_calls p) = (r, calls)" by fastforce
    have pre: "(kp_Prefix p \<noteq> '''' \<and> take (length (kp_Prefix p)) name \<noteq> kp_Prefix p) = False" "(fmlookup (kp_clusters p) name \<noteq> None) = False"
      using w by (auto simp: kind_wanted_def)
    note st = assms[unfolded kind_start_one_def pre if_False c sum.case l prod.case]
    show ?thesis
    proof (cases "r = None \<and> ce_sync E cl")
      case False
      then consider i e where "r = Some (i, e)" | "r = None" "\<not> ce_sync E cl" by (cases r) auto
      then show ?thesis
      proof cases
        case (1 i e)
        with st have "f \<noteq> NextName" "p' = p\<lparr>kp_calls := calls\<rparr>" by auto
        then show ?thesis by (rule failed)
      next
        case 2
        with st w have "f \<noteq> NextName" "p' = p\<lparr>kp_calls := calls, kp_running := (name, cl, length (kp_ctxs p)) # kp_running p,
          kp_ctxs := cancel (fst (with_cancel (kp_ctxs p) cx)) (length (kp_ctxs p))\<rparr>"
          by (auto simp: kind_wanted_def with_cancel_def Let_def)
        then show ?thesis by (rule unsynced)
      qed
    next
      case True
      show ?thesis
      proof (cases "ce_engage E name cl")
        case None
        with st w True entered[where cl = cl] show ?thesis
          by (auto simp: kind_wanted_def with_cancel_def Let_def)
      next
        case (Some e)
        with st w True refused[where cl = cl and e = e] show ?thesis
          by (auto simp: kind_wanted_def with_cancel_def kind_forget_def Let_def)
      qed
    qed
  qed
qed


lemma kind_inv_dom:
  "fmdom (kp_clusters p) = fmdom (kp_cancelFns p) \<longleftrightarrow>
   (\<forall>n. fmlookup (kp_clusters p) n = None \<longleftrightarrow> fmlookup (kp_cancelFns p) n = None)"
  by (metis fmdom_notD fmdom_notI fset_eqI)

lemma kind_start_one_inv:
  assumes st: "kind_start_one E kubeconfig cx name p = (f, p')" and inv: "kind_inv p"
  shows "kind_inv p' \<and> kp_Prefix p' = kp_Prefix p \<and> (\<forall>k. ctx_err (kp_ctxs p) k \<longrightarrow> ctx_err (kp_ctxs p') k) \<and>
    length (kp_ctxs p) \<le> length (kp_ctxs p')"
proof -
  have old: "ctx_err (fst (with_cancel (kp_ctxs p) cx)) k" "ctx_err (cancel (fst (with_cancel (kp_ctxs p) cx)) j) k"
    if "ctx_err (kp_ctxs p) k" for j k
    using ctx_err_less[OF that] that by (simp_all add: ctx_err_with_cancel_old ctx_err_cancel_mono)
  have len: "fmlookup (kp_cancelFns p) n = Some k \<Longrightarrow> k < Suc (length (kp_ctxs p))" for n k
    using inv by (auto simp: kind_inv_def less_SucI)
  show ?thesis
    using st by (cases rule: kind_start_one_cases) (use inv old len in \<open>auto simp: kind_inv_def\<close>)
qed

lemma kind_start_one_next:
  assumes "kind_start_one E kubeconfig cx name p = (NextName, p')"
  shows "(fmlookup (kp_clusters p') n \<noteq> None \<longleftrightarrow>
        fmlookup (kp_clusters p) n \<noteq> None \<or> n = name \<and> kind_wanted (kp_Prefix p) n) \<and>
    (\<forall>k. fmlookup (kp_cancelFns p) n = Some k \<and> fmlookup (kp_clusters p) n \<noteq> None \<longrightarrow>
        fmlookup (kp_cancelFns p') n = Some k)"
  using assms by (cases rule: kind_start_one_cases) auto

lemma kind_start_all_inv:
  assumes "kind_start_all E kubeconfig cx names p = (f, p')" and "kind_inv p"
  shows "kind_inv p' \<and> kp_Prefix p' = kp_Prefix p \<and>
    (\<forall>n. f = NextName \<longrightarrow> (fmlookup (kp_clusters p') n \<noteq> None \<longleftrightarrow>
        fmlookup (kp_clusters p) n \<noteq> None \<or> n \<in> set names \<and> kind_wanted (kp_Prefix p) n)) \<and>
    (\<forall>n k. f = NextName \<longrightarrow> fmlookup (kp_cancelFns p) n = Some k \<longrightarrow> fmlookup (kp_cancelFns p') n = Some k)"
  using assms
proof (induction names arbitrary: p)
  case (Cons a names)
  obtain g p1 where one: "kind_start_one E kubeconfig cx a p = (g, p1)" by fastforce
  note i = kind_start_one_inv[OF one Cons.prems(2)]
  show ?case
  proof (cases "g = NextName")
    case True
    with one Cons.prems(1) have rest: "kind_start_all E kubeconfig cx names p1 = (f, p')" by simp
    note n = kind_start_one_next[OF one[unfolded True]]
    have "fmlookup (kp_cancelFns p) m = Some k \<Longrightarrow> fmlookup (kp_clusters p) m \<noteq> None" for m k
      using kind_inv_lookup[OF Cons.prems(2), of m] by auto
    with Cons.IH[OF rest] i n show ?thesis by auto
  next
    case False
    with one Cons.prems(1) have "f = g" "p' = p1" by (auto split: flow.splits)
    with False i show ?thesis by auto
  qed
qed simp

text \<open>
  C30: a poll makes the provider mirror kind. A poll never panics and keeps the tables in order; when no
  listed cluster fails on the way, exactly the listed clusters with the prefix are known
  afterwards, and the contexts of those that are no longer listed are cancelled.
\<close>

theorem kind_poll_mirrors_list:
  assumes inv: "kind_inv p" and ord: "\<And>m. iter_order m (ord m)"
  shows "\<exists>err p'. kind_poll E kubeconfig ord cx (Inr names) p = Some (err, p') \<and> kind_inv p' \<and>
    (fst (kind_start_all E kubeconfig cx names p) = NextName \<longrightarrow>
       err = None \<and>
       (\<forall>n. (\<exists>cl. fmlookup (kp_clusters p') n = Some cl) \<longleftrightarrow> n \<in> set names \<and> kind_wanted (kp_Prefix p) n) \<and>
       (\<forall>n k. n \<notin> set names \<and> fmlookup (kp_cancelFns p) n = Some k \<longrightarrow> ctx_err (kp_ctxs p') k))"
proof -
  obtain f p1 where all: "kind_start_all E kubeconfig cx names p = (f, p1)" by fastforce
  note a = kind_start_all_inv[OF all inv]
  show ?thesis
  proof (cases "f = NextName")
    case False
    then obtain err where "kind_poll E kubeconfig ord cx (Inr names) p = Some (err, p1)"
      using all by (cases f) (auto simp: kind_poll_def)
    with a False all show ?thesis by auto
  next
    case True
    let ?gone = "filter (\<lambda>n. n \<notin> set names) (ord (kp_clusters p1))"
    let ?p2 = "fold kind_drop ?gone p1"
    have o: "distinct (ord (kp_clusters p1))" "\<forall>n \<in> set (ord (kp_clusters p1)). fmlookup (kp_clusters p1) n \<noteq> None"
      using ord[of "kp_clusters p1"] iter_order_iff[OF ord, of _ "kp_clusters p1"] by (auto simp: iter_order_def)
    have "kind_remove_old names (ord (kp_clusters p1)) p1 = Some ?p2"
      using kind_remove_old_drops[OF _ o] a by blast
    with all True have poll: "kind_poll E kubeconfig ord cx (Inr names) p = Some (None, ?p2)"
      by (simp add: kind_poll_def)
    have inv1: "kind_inv p1" using a by blast
    note d = kindTrack.drop_all[OF inv1, of ?gone]
    have gone: "n \<in> set ?gone \<longleftrightarrow> n \<notin> set names \<and> fmlookup (kp_clusters p1) n \<noteq> None" for n
      using iter_order_iff[OF ord, of n "kp_clusters p1"] by auto
    have "(\<exists>cl. fmlookup (kp_clusters ?p2) n = Some cl) \<longleftrightarrow> n \<in> set names \<and> kind_wanted (kp_Prefix p) n" for n
    proof -
      have "fmlookup (kp_clusters ?p2) n = (if n \<in> set ?gone then None else fmlookup (kp_clusters p1) n)" using d by blast
      moreover have "fmlookup (kp_clusters p1) n \<noteq> None \<longleftrightarrow>
          fmlookup (kp_clusters p) n \<noteq> None \<or> n \<in> set names \<and> kind_wanted (kp_Prefix p) n" using a True by blast
      moreover have "fmlookup (kp_clusters p) n \<noteq> None \<longrightarrow> kind_wanted (kp_Prefix p) n"
        using inv by (auto simp: kind_inv_def)
      ultimately show ?thesis using gone[of n] by auto
    qed
    moreover have "ctx_err (kp_ctxs ?p2) k" if "n \<notin> set names" "fmlookup (kp_cancelFns p) n = Some k" for n k
    proof -
      have "fmlookup (kp_cancelFns p1) n = Some k" using a True that(2) by blast
      moreover from this have "fmlookup (kp_clusters p1) n \<noteq> None" using kind_inv_lookup[OF inv1, of n] by auto
      ultimately show ?thesis using d gone[of n] that(1) by blast
    qed
    ultimately show ?thesis using poll d by blast
  qed
qed

definition kind_env :: "connect_env" where
  "kind_env = \<lparr>ce_rest = (\<lambda>_. Inr 0), ce_new = (\<lambda>_. Inr 7), ce_index = (\<lambda>_ _. None), ce_sync = (\<lambda>_. True),
     ce_engage = (\<lambda>n _. if n = ''bad'' then Some ErrCtx else None), ce_hash = (\<lambda>d. d)\<rparr>"

definition kind_demo :: kind_provider where
  "kind_demo = (kind_New '''' [] [(None, False)])\<lparr>kp_mcAware := Some 1\<rparr>"

lemmas kind_demo_defs = kind_demo_def kind_New_def kind_env_def kind_start_one_def with_cancel_def kind_forget_def Let_def

lemma kind_demo_inv: "kind_inv kind_demo"
  by (simp add: kind_demo_def kind_New_def kind_inv_def)

theorem kind_poll_mirrors_list_witness:
  "\<exists>err p'. kind_poll kind_env (\<lambda>_. Inr '''') sorted_keys 0 (Inr [''a'']) kind_demo = Some (err, p') \<and>
     (\<exists>cl. fmlookup (kp_clusters p') ''a'' = Some cl)"
proof -
  have "fst (kind_start_all kind_env (\<lambda>_. Inr '''') 0 [''a''] kind_demo) = NextName" by (simp add: kind_demo_defs)
  with kind_poll_mirrors_list[OF kind_demo_inv iter_order_sorted_keys, of kind_env "\<lambda>_. Inr ''''" 0 "[''a'']"]
  show ?thesis by (auto simp: kind_wanted_def kind_demo_def kind_New_def)
qed

text \<open>
  One cluster that fails holds up the others. A listed cluster that the manager refuses ends the
  poll: the clusters listed after it are not started and those no longer listed are not
  removed, in this poll and in every one like it. The refused cluster itself is forgotten but
  not cancelled, so each poll leaves another one running.
\<close>

theorem kind_refused_cluster_blocks_and_leaks:
  "let p1 = snd (the (kind_poll kind_env (\<lambda>_. Inr '''') sorted_keys 0 (Inr [''bad'', ''good'']) kind_demo));
       p2 = snd (the (kind_poll kind_env (\<lambda>_. Inr '''') sorted_keys 0 (Inr [''bad'', ''good'']) p1))
   in fmlookup (kp_clusters p2) ''good'' = None \<and> kp_running p2 = [(''bad'', 7, 2), (''bad'', 7, 1)] \<and>
      fmlookup (kp_clusters p2) ''bad'' = None \<and> \<not> ctx_err (kp_ctxs p2) 1 \<and> \<not> ctx_err (kp_ctxs p2) 2"
  by (simp add: kind_poll_def kind_demo_defs ctx_err.simps)

end
