(* ===== verification/NamespaceProvider.thy ===== *)
theory NamespaceProvider
  imports Tracking
begin

text \<open>
  \<open>providers/namespace\<close>: every namespace of a host cluster as a cluster of its own that has the
  single namespace \<open>default\<close>. The host's cache, client and informers are parameters; the model
  is the translation between the namespace of the host and the one the user sees.
\<close>

subsection \<open>Objects\<close>

record kobject =
  ob_namespace :: string
  ob_name :: string
  ob_body :: nat

definition NamespaceDefault :: string where "NamespaceDefault = ''default''"

definition SetNamespace :: "string \<Rightarrow> kobject \<Rightarrow> kobject" where
  "SetNamespace ns ob = ob\<lparr>ob_namespace := ns\<rparr>"

lemma SetNamespace_sel [simp]:
  "ob_namespace (SetNamespace ns ob) = ns" "ob_name (SetNamespace ns ob) = ob_name ob"
  "ob_body (SetNamespace ns ob) = ob_body ob"
  by (simp_all add: SetNamespace_def)

text \<open>\<open>apierrors.NewInvalid\<close> for an object outside of the one namespace there is.\<close>

definition NewInvalid :: "string \<Rightarrow> go_error" where
  "NewInvalid ns = ErrApi (OtherApi (''Invalid metadata.namespace '' @ ns))"

text \<open>List options, applied in order; the namespace is the last one set.\<close>

datatype list_option = InNamespace string | OtherListOption nat

fun list_namespace :: "list_option list \<Rightarrow> string \<Rightarrow> string" where
  "list_namespace [] ns = ns"
| "list_namespace (InNamespace ns' # opts) ns = list_namespace opts ns'"
| "list_namespace (OtherListOption k # opts) ns = list_namespace opts ns"

subsection \<open>The cache: \<open>cache.go\<close>\<close>

definition NamespacedCache_Get ::
  "cluster_name \<Rightarrow> (nsname \<Rightarrow> go_error + kobject) \<Rightarrow> nsname \<Rightarrow> go_error + kobject" where
  "NamespacedCache_Get name get key =
     (if nn_namespace key \<noteq> NamespaceDefault then Inl (ErrApi NotFound)
      else case get (NsName name (nn_name key)) of
             Inl err \<Rightarrow> Inl err
           | Inr ob \<Rightarrow> Inr (SetNamespace NamespaceDefault ob))"

text \<open>\<open>lst\<close> fills the list \<open>items\<close> that the caller passes.\<close>

definition NamespacedCache_List ::
  "cluster_name \<Rightarrow> (list_option list \<Rightarrow> kobject list \<Rightarrow> go_error option \<times> kobject list) \<Rightarrow> list_option list \<Rightarrow> kobject list \<Rightarrow>
   go_error option \<times> kobject list" where
  "NamespacedCache_List name lst opts items =
     (let given = list_namespace opts ''''
      in if given \<noteq> '''' \<and> given \<noteq> NamespaceDefault then (None, items)
         else (let ns = (if name = ''*'' then '''' else name)
               in case lst (opts @ [InNamespace ns]) items of
                    (Some err, items') \<Rightarrow> (Some err, items')
                  | (None, items') \<Rightarrow> (None, map (SetNamespace NamespaceDefault) items')))"

text \<open>An informer of the host becomes a scoped one with the name of the cluster.\<close>

definition GetInformer :: "cluster_name \<Rightarrow> go_error + 'i \<Rightarrow> go_error + (cluster_name \<times> 'i)" where
  "GetInformer name got = (case got of Inl err \<Rightarrow> Inl err | Inr iv \<Rightarrow> Inr (name, iv))"

definition GetInformerForKind :: "cluster_name \<Rightarrow> go_error + 'i \<Rightarrow> go_error + (cluster_name \<times> 'i)" where
  "GetInformerForKind name got = (case got of Inl err \<Rightarrow> Inl err | Inr iv \<Rightarrow> Inr (name, iv))"

definition RemoveInformer :: go_error where
  "RemoveInformer = Errorf ''informer cannot be removed from scoped cache'' [] None"

definition AddIndexers :: go_error where
  "AddIndexers = Errorf ''indexes cannot be added to scoped informers'' [] None"

text \<open>
  What the host's informer passes to a handler, and what the handler that was given sees of it:
  a call, nothing, or the panic of a failed type assertion.
\<close>

datatype informer_arg = AnObject kobject | ATombstone informer_arg | NoObject

datatype host_event = OnAdd informer_arg bool | OnUpdate informer_arg informer_arg | OnDelete informer_arg

datatype seen = SeenAdd kobject bool | SeenUpdate kobject kobject | SeenDelete kobject | SeenNothing | SeenPanic

fun unwrap_tombstone :: "informer_arg \<Rightarrow> informer_arg" where
  "unwrap_tombstone (ATombstone a) = a"
| "unwrap_tombstone a = a"

fun ScopedInformer_AddEventHandler :: "cluster_name \<Rightarrow> host_event \<Rightarrow> seen" where
  "ScopedInformer_AddEventHandler name (OnAdd a init) =
     (case a of
        AnObject ob \<Rightarrow> if ob_namespace ob = name then SeenAdd (SetNamespace NamespaceDefault ob) init else SeenNothing
      | _ \<Rightarrow> SeenPanic)"
| "ScopedInformer_AddEventHandler name (OnUpdate old new) =
     (case (new, old) of
        (AnObject n, AnObject p) \<Rightarrow>
          if ob_namespace n = name
          then SeenUpdate (SetNamespace NamespaceDefault p) (SetNamespace NamespaceDefault n) else SeenNothing
      | _ \<Rightarrow> SeenPanic)"
| "ScopedInformer_AddEventHandler name (OnDelete a) =
     (case unwrap_tombstone a of
        AnObject ob \<Rightarrow> if ob_namespace ob = name then SeenDelete (SetNamespace NamespaceDefault ob) else SeenNothing
      | _ \<Rightarrow> SeenPanic)"

text \<open>The variant with options looks at the old object only if the new one is in the namespace.\<close>

fun AddEventHandlerWithOptions :: "cluster_name \<Rightarrow> host_event \<Rightarrow> seen" where
  "AddEventHandlerWithOptions name (OnAdd a init) =
     (case a of
        AnObject ob \<Rightarrow> if ob_namespace ob = name then SeenAdd (SetNamespace NamespaceDefault ob) init else SeenNothing
      | _ \<Rightarrow> SeenPanic)"
| "AddEventHandlerWithOptions name (OnUpdate old new) =
     (case new of
        AnObject n \<Rightarrow>
          if ob_namespace n = name
          then (case old of
                  AnObject p \<Rightarrow> SeenUpdate (SetNamespace NamespaceDefault p) (SetNamespace NamespaceDefault n)
                | _ \<Rightarrow> SeenPanic)
          else SeenNothing
      | _ \<Rightarrow> SeenPanic)"
| "AddEventHandlerWithOptions name (OnDelete a) =
     (case unwrap_tombstone a of
        AnObject ob \<Rightarrow> if ob_namespace ob = name then SeenDelete (SetNamespace NamespaceDefault ob) else SeenNothing
      | _ \<Rightarrow> SeenPanic)"

definition AddEventHandlerWithResyncPeriod :: "cluster_name \<Rightarrow> int \<Rightarrow> host_event \<Rightarrow> seen" where
  "AddEventHandlerWithResyncPeriod name resync = AddEventHandlerWithOptions name"

subsection \<open>The client: \<open>client.go\<close>\<close>

text \<open>A call of the host's client: its result, and the object as it leaves it.\<close>

type_synonym client_call = "kobject \<Rightarrow> go_error option \<times> kobject"

definition NamespacedClient_Get ::
  "cluster_name \<Rightarrow> (nsname \<Rightarrow> go_error + kobject) \<Rightarrow> nsname \<Rightarrow> go_error + kobject" where
  "NamespacedClient_Get name get key =
     (if nn_namespace key \<noteq> NamespaceDefault then Inl (NewInvalid (nn_namespace key))
      else case get (NsName name (nn_name key)) of
             Inl err \<Rightarrow> Inl err
           | Inr ob \<Rightarrow> Inr (SetNamespace NamespaceDefault ob))"

definition NamespacedClient_List ::
  "cluster_name \<Rightarrow> (list_option list \<Rightarrow> kobject list \<Rightarrow> go_error option \<times> kobject list) \<Rightarrow> list_option list \<Rightarrow> kobject list \<Rightarrow>
   go_error option \<times> kobject list" where
  "NamespacedClient_List name lst opts items =
     (if list_namespace opts '''' \<noteq> NamespaceDefault then (Some (ErrApi NotFound), items)
      else case lst (opts @ [InNamespace name]) items of
             (Some err, items') \<Rightarrow> (Some err, items')
           | (None, items') \<Rightarrow> (None, map (SetNamespace NamespaceDefault) items'))"

definition NamespacedClient_Create :: "cluster_name \<Rightarrow> client_call \<Rightarrow> client_call" where
  "NamespacedClient_Create name create ob =
     (if ob_namespace ob \<noteq> NamespaceDefault then (Some (NewInvalid (ob_namespace ob)), ob)
      else (let (err, ob') = create (SetNamespace name ob) in (err, SetNamespace NamespaceDefault ob')))"

definition NamespacedClient_Delete :: "cluster_name \<Rightarrow> client_call \<Rightarrow> client_call" where
  "NamespacedClient_Delete name delete ob =
     (if ob_namespace ob \<noteq> NamespaceDefault then (Some (NewInvalid (ob_namespace ob)), ob)
      else (let (err, ob') = delete (SetNamespace name ob) in (err, SetNamespace NamespaceDefault ob')))"

definition NamespacedClient_Update :: "cluster_name \<Rightarrow> client_call \<Rightarrow> client_call" where
  "NamespacedClient_Update name update ob =
     (if ob_namespace ob \<noteq> NamespaceDefault then (Some (NewInvalid (ob_namespace ob)), ob)
      else (let (err, ob') = update (SetNamespace name ob) in (err, SetNamespace NamespaceDefault ob')))"

definition NamespacedClient_DeleteAllOf :: "cluster_name \<Rightarrow> client_call \<Rightarrow> client_call" where
  "NamespacedClient_DeleteAllOf name deleteAll ob =
     (if ob_namespace ob \<noteq> NamespaceDefault then (Some (NewInvalid (ob_namespace ob)), ob)
      else (let (err, ob') = deleteAll (SetNamespace name ob) in (err, SetNamespace NamespaceDefault ob')))"

text \<open>\<open>Patch\<close> is not implemented and panics; \<open>Apply\<close> hands over what it was given.\<close>

definition NamespacedClient_Patch :: "cluster_name \<Rightarrow> client_call \<Rightarrow> kobject \<Rightarrow> (go_error option \<times> kobject) option" where
  "NamespacedClient_Patch name patch ob = None"

definition NamespacedClient_Apply :: "cluster_name \<Rightarrow> client_call \<Rightarrow> client_call" where
  "NamespacedClient_Apply name apply_conf ob = apply_conf ob"

text \<open>Subresource clients; \<open>Get\<close> and \<open>Create\<close> also fill a subresource object.\<close>

definition NamespacedClient_SubResource :: "cluster_name \<Rightarrow> (string \<Rightarrow> 'c) \<Rightarrow> string \<Rightarrow> cluster_name \<times> 'c" where
  "NamespacedClient_SubResource name client subResource = (name, client subResource)"

definition NamespacedClient_Status :: "cluster_name \<Rightarrow> (string \<Rightarrow> 'c) \<Rightarrow> cluster_name \<times> 'c" where
  "NamespacedClient_Status name client = (name, client ''status'')"

definition SubResource_call ::
  "cluster_name \<Rightarrow> (kobject \<Rightarrow> kobject \<Rightarrow> go_error option \<times> kobject \<times> kobject) \<Rightarrow> kobject \<Rightarrow> kobject \<Rightarrow>
   go_error option \<times> kobject \<times> kobject" where
  "SubResource_call name call ob sub =
     (if ob_namespace ob \<noteq> NamespaceDefault then (Some (NewInvalid (ob_namespace ob)), ob, sub)
      else (let (err, ob', sub') = call (SetNamespace name ob) sub
            in (err, SetNamespace NamespaceDefault ob', SetNamespace NamespaceDefault sub')))"

definition SubResource_Update :: "cluster_name \<Rightarrow> client_call \<Rightarrow> client_call" where
  "SubResource_Update name update ob =
     (if ob_namespace ob \<noteq> NamespaceDefault then (Some (NewInvalid (ob_namespace ob)), ob)
      else (let (err, ob') = update (SetNamespace name ob) in (err, SetNamespace NamespaceDefault ob')))"

text \<open>\<open>Patch\<close> panics here too.\<close>

definition SubResource_Patch :: "cluster_name \<Rightarrow> client_call \<Rightarrow> kobject \<Rightarrow> (go_error option \<times> kobject) option" where
  "SubResource_Patch name patch ob = None"

definition SubResource_Apply :: "cluster_name \<Rightarrow> client_call \<Rightarrow> client_call" where
  "SubResource_Apply name apply_conf ob = apply_conf ob"


subsection \<open>The cluster and the provider: \<open>cluster.go\<close>, \<open>provider.go\<close>\<close>

text \<open>
  A \<open>NamespacedCluster\<close> is made anew for every namespace: a handle with the name it is scoped
  to. Its event recorders are not implemented and panic (\<open>None\<close>); its \<open>Start\<close> does nothing.
\<close>

record namespaced_cluster =
  nc_handle :: cluster_h
  nc_clusterName :: cluster_name

definition NamespacedCluster_Name :: "namespaced_cluster \<Rightarrow> string" where
  "NamespacedCluster_Name c = nc_clusterName c"

definition NamespacedCluster_GetCache :: "namespaced_cluster \<Rightarrow> 'c \<Rightarrow> cluster_name \<times> 'c" where
  "NamespacedCluster_GetCache c host_cache = (nc_clusterName c, host_cache)"

definition NamespacedCluster_GetClient :: "namespaced_cluster \<Rightarrow> 'c \<Rightarrow> cluster_name \<times> 'c" where
  "NamespacedCluster_GetClient c host_client = (nc_clusterName c, host_client)"

definition NamespacedCluster_GetAPIReader :: "namespaced_cluster \<Rightarrow> 'c \<Rightarrow> cluster_name \<times> 'c" where
  "NamespacedCluster_GetAPIReader c host_client = NamespacedCluster_GetClient c host_client"

definition NamespacedCluster_GetEventRecorderFor :: "namespaced_cluster \<Rightarrow> string \<Rightarrow> 'r option" where
  "NamespacedCluster_GetEventRecorderFor c name = None"

definition NamespacedCluster_GetEventRecorder :: "namespaced_cluster \<Rightarrow> string \<Rightarrow> 'r option" where
  "NamespacedCluster_GetEventRecorder c name = None"

definition NamespacedCluster_Start :: "namespaced_cluster \<Rightarrow> ctx \<Rightarrow> go_error option" where
  "NamespacedCluster_Start c cx = None"

record namespace_provider =
  np_mcAware :: "aware_h option"
  np_clusters :: "(cluster_name, namespaced_cluster) fmap"
  np_cancelFns :: "(cluster_name, ctx) fmap"
  np_next :: cluster_h
  np_ctxs :: ctxs
  np_engaged :: running

definition namespace_New :: "ctxs \<Rightarrow> namespace_provider" where
  "namespace_New S =
     \<lparr>np_mcAware = None, np_clusters = fmempty, np_cancelFns = fmempty, np_next = 0, np_ctxs = S, np_engaged = []\<rparr>"

text \<open>
  The event handlers on namespaces: an argument that is no namespace object fails the type
  assertion (\<open>None\<close>). \<open>engage\<close> is the result of the manager's \<open>Engage\<close>; \<open>np_engaged\<close> records the
  clusters it was given.
\<close>

definition ns_forget :: "cluster_name \<Rightarrow> namespace_provider \<Rightarrow> namespace_provider" where
  "ns_forget name p =
     p\<lparr>np_clusters := fmdrop name (np_clusters p), np_cancelFns := fmdrop name (np_cancelFns p)\<rparr>"

definition ns_AddFunc ::
  "(cluster_name \<Rightarrow> go_error option) \<Rightarrow> ctx \<Rightarrow> informer_arg \<Rightarrow> namespace_provider \<Rightarrow> namespace_provider option" where
  "ns_AddFunc engage cx arg p =
     (case arg of
        AnObject ns \<Rightarrow>
          (let name = ob_name ns
           in if fmlookup (np_clusters p) name \<noteq> None then Some p
              else (let (S, clusterCtx) = with_cancel (np_ctxs p) cx;
                        cl = \<lparr>nc_handle = np_next p, nc_clusterName = name\<rparr>;
                        p1 = p\<lparr>np_ctxs := S, np_next := np_next p + 1,
                               np_clusters := fmupd name cl (np_clusters p),
                               np_cancelFns := fmupd name clusterCtx (np_cancelFns p),
                               np_engaged := (name, nc_handle cl, clusterCtx) # np_engaged p\<rparr>
                    in case engage name of
                         Some err \<Rightarrow> Some (ns_forget name p1)
                       | None \<Rightarrow> Some p1))
      | _ \<Rightarrow> None)"

definition ns_DeleteFunc :: "informer_arg \<Rightarrow> namespace_provider \<Rightarrow> namespace_provider option" where
  "ns_DeleteFunc arg p =
     (case arg of
        AnObject ns \<Rightarrow>
          (let name = ob_name ns
           in case fmlookup (np_cancelFns p) name of
                None \<Rightarrow> Some p
              | Some k \<Rightarrow> Some (ns_forget name (p\<lparr>np_ctxs := cancel (cancel (np_ctxs p) k) k\<rparr>)))
      | _ \<Rightarrow> None)"

text \<open>
  \<open>Start\<close> until its context is done: \<open>informer\<close> and \<open>added\<close> are the results of \<open>GetInformer\<close> and
  \<open>AddEventHandler\<close>, and the events are those the informer delivers meanwhile.
\<close>

datatype ns_event = NsAdded informer_arg | NsDeleted informer_arg

fun ns_deliver ::
  "(cluster_name \<Rightarrow> go_error option) \<Rightarrow> ctx \<Rightarrow> ns_event list \<Rightarrow> namespace_provider \<Rightarrow> namespace_provider option" where
  "ns_deliver engage cx [] p = Some p"
| "ns_deliver engage cx (NsAdded a # evs) p =
     (case ns_AddFunc engage cx a p of None \<Rightarrow> None | Some p1 \<Rightarrow> ns_deliver engage cx evs p1)"
| "ns_deliver engage cx (NsDeleted a # evs) p =
     (case ns_DeleteFunc a p of None \<Rightarrow> None | Some p1 \<Rightarrow> ns_deliver engage cx evs p1)"

definition namespace_Start ::
  "(cluster_name \<Rightarrow> go_error option) \<Rightarrow> ctx \<Rightarrow> aware_h \<Rightarrow> go_error option \<Rightarrow> go_error option \<Rightarrow> ns_event list \<Rightarrow>
   namespace_provider \<Rightarrow> (go_error option \<times> namespace_provider) option" where
  "namespace_Start engage cx aware informer added evs p =
     (let p1 = p\<lparr>np_mcAware := Some aware\<rparr>
      in case informer of
           Some err \<Rightarrow> Some (Some err, p1)
         | None \<Rightarrow>
             (case added of
                Some err \<Rightarrow> Some (Some err, p1)
              | None \<Rightarrow> map_option (\<lambda>p2. (None, p2)) (ns_deliver engage cx evs p1)))"

definition namespace_Get :: "namespace_provider \<Rightarrow> cluster_name \<Rightarrow> go_error + cluster_h" where
  "namespace_Get p name =
     (case fmlookup (np_clusters p) name of Some cl \<Rightarrow> Inr (nc_handle cl) | None \<Rightarrow> Inl ErrClusterNotFound)"

definition namespace_IndexField :: "(index \<Rightarrow> go_error option) \<Rightarrow> index \<Rightarrow> go_error option" where
  "namespace_IndexField host_index i = host_index i"

subsection \<open>The provider's invariant\<close>

abbreviation ns_known :: "namespace_provider \<Rightarrow> cluster_name \<Rightarrow> cluster_h option" where
  "ns_known p \<equiv> \<lambda>n. map_option nc_handle (fmlookup (np_clusters p) n)"

definition ns_inv :: "namespace_provider \<Rightarrow> bool" where
  "ns_inv p \<longleftrightarrow>
     (\<forall>n. fmlookup (np_clusters p) n = None \<longleftrightarrow> fmlookup (np_cancelFns p) n = None) \<and>
     (\<forall>n k. fmlookup (np_cancelFns p) n = Some k \<longrightarrow> k < length (np_ctxs p)) \<and>
     (\<forall>n c. fmlookup (np_clusters p) n = Some c \<longrightarrow> nc_clusterName c = n)"

definition ns_drop :: "cluster_name \<Rightarrow> namespace_provider \<Rightarrow> namespace_provider" where
  "ns_drop name p =
     (case fmlookup (np_cancelFns p) name of
        None \<Rightarrow> ns_forget name p
      | Some k \<Rightarrow> ns_forget name (p\<lparr>np_ctxs := cancel (np_ctxs p) k\<rparr>))"

interpretation nsGet: provider_get namespace_Get ns_known
  by unfold_locales (auto simp: namespace_Get_def)

interpretation nsTrack: cluster_tracking np_ctxs ns_known "\<lambda>p. fmlookup (np_cancelFns p)" ns_inv ns_drop np_engaged
proof unfold_locales
  show "\<exists>k. fmlookup (np_cancelFns s) n = Some k" if "ns_inv s" "ns_known s n = Some cl" for s n cl
    using that unfolding ns_inv_def by (metis option.exhaust option.map_disc_iff option.distinct(1))
qed (auto simp: ns_inv_def ns_drop_def ns_forget_def fun_eq_iff split: option.splits if_splits)

lemma cancel_twice [simp]: "cancel (cancel S k) k = cancel S k"
  by (simp add: cancel_def)

lemma ns_forget_unknown: "fmlookup (np_clusters p) n = None \<Longrightarrow> fmlookup (np_cancelFns p) n = None \<Longrightarrow> ns_forget n p = p"
proof -
  assume "fmlookup (np_clusters p) n = None" "fmlookup (np_cancelFns p) n = None"
  then have "fmdrop n (np_clusters p) = np_clusters p" "fmdrop n (np_cancelFns p) = np_cancelFns p"
    by (auto intro: fmap_ext)
  then show ?thesis by (simp add: ns_forget_def)
qed

lemma ns_DeleteFunc_drop:
  "ns_inv p \<Longrightarrow> ns_DeleteFunc (AnObject ns) p = Some (ns_drop (ob_name ns) p)"
  by (auto simp: ns_DeleteFunc_def ns_drop_def ns_inv_def Let_def ns_forget_unknown split: option.splits)


subsection \<open>What the provider promises\<close>

text \<open>The namespaces that exist after a sequence of events, given those that existed before.\<close>

fun live_namespaces :: "ns_event list \<Rightarrow> string set \<Rightarrow> string set" where
  "live_namespaces [] A = A"
| "live_namespaces (NsAdded (AnObject ns) # evs) A = live_namespaces evs (insert (ob_name ns) A)"
| "live_namespaces (NsDeleted (AnObject ns) # evs) A = live_namespaces evs (A - {ob_name ns})"
| "live_namespaces (ev # evs) A = live_namespaces evs A"

fun plain_event :: "ns_event \<Rightarrow> bool" where
  "plain_event (NsAdded (AnObject ns)) = True"
| "plain_event (NsDeleted (AnObject ns)) = True"
| "plain_event ev = False"

definition ns_names :: "namespace_provider \<Rightarrow> string set" where
  "ns_names p = {n. fmlookup (np_clusters p) n \<noteq> None}"

abbreviation ns_tracked :: "namespace_provider \<Rightarrow> bool" where
  "ns_tracked p \<equiv> tracked (np_ctxs p) (ns_known p) (\<lambda>n. fmlookup (np_cancelFns p) n) (np_engaged p)"

lemma ns_AddFunc_engaged:
  assumes inv: "ns_inv p" and tr: "ns_tracked p" and ok: "engage (ob_name ns) = None"
  shows "\<exists>p'. ns_AddFunc engage cx (AnObject ns) p = Some p' \<and> ns_inv p' \<and> ns_tracked p' \<and>
    ns_names p' = insert (ob_name ns) (ns_names p)"
proof (cases "fmlookup (np_clusters p) (ob_name ns)")
  case (Some c)
  with assms show ?thesis by (auto simp: ns_AddFunc_def ns_names_def)
next
  case None
  let ?n = "ob_name ns" and ?k = "length (np_ctxs p)" and ?c = "\<lparr>nc_handle = np_next p, nc_clusterName = ob_name ns\<rparr>"
  let ?p = "p\<lparr>np_ctxs := fst (with_cancel (np_ctxs p) cx), np_next := np_next p + 1,
     np_clusters := fmupd ?n ?c (np_clusters p), np_cancelFns := fmupd ?n ?k (np_cancelFns p),
     np_engaged := (?n, np_next p, ?k) # np_engaged p\<rparr>"
  have add: "ns_AddFunc engage cx (AnObject ns) p = Some ?p"
    using None ok by (simp add: ns_AddFunc_def with_cancel_def Let_def)
  have "ns_inv ?p" using inv by (auto simp: ns_inv_def less_SucI split: if_splits)
  moreover have "ns_known ?p = (ns_known p)(?n \<mapsto> np_next p)"
    "(\<lambda>n. fmlookup (np_cancelFns ?p) n) = (\<lambda>n. fmlookup (np_cancelFns p) n)(?n \<mapsto> ?k)" by auto
  then have "ns_tracked ?p" using tracked_enter[OF tr, of ?n cx "np_next p"] None by simp
  moreover have "ns_names ?p = insert ?n (ns_names p)" by (auto simp: ns_names_def)
  ultimately show ?thesis using add by blast
qed

lemma ns_DeleteFunc_engaged:
  assumes "ns_inv p" and "ns_tracked p"
  shows "\<exists>p'. ns_DeleteFunc (AnObject ns) p = Some p' \<and> ns_inv p' \<and> ns_tracked p' \<and>
    ns_names p' = ns_names p - {ob_name ns}"
proof -
  have "ns_names (ns_drop (ob_name ns) p) = ns_names p - {ob_name ns}"
    by (auto simp: ns_names_def ns_drop_def ns_forget_def split: option.splits)
  with ns_DeleteFunc_drop[OF assms(1)] nsTrack.drop_inv[OF assms(1)] nsTrack.drop_tracked[OF assms]
  show ?thesis by blast
qed

lemma ns_deliver_live:
  assumes "list_all plain_event evs" and "\<And>n. engage n = None" and "ns_inv p" and "ns_tracked p"
  shows "\<exists>p'. ns_deliver engage cx evs p = Some p' \<and> ns_inv p' \<and> ns_tracked p' \<and>
    ns_names p' = live_namespaces evs (ns_names p)"
  using assms(1,3,4)
proof (induction evs "ns_names p" arbitrary: p rule: live_namespaces.induct)
  case (2 ns evs)
  obtain p1 where "ns_AddFunc engage cx (AnObject ns) p = Some p1" "ns_inv p1" "ns_tracked p1"
    "ns_names p1 = insert (ob_name ns) (ns_names p)"
    using ns_AddFunc_engaged[where engage = engage and ns = ns and cx = cx, OF "2.prems"(2,3) assms(2)] by blast
  with "2.hyps"[of p1] "2.prems"(1) show ?case by simp
next
  case (3 ns evs)
  obtain p1 where "ns_DeleteFunc (AnObject ns) p = Some p1" "ns_inv p1" "ns_tracked p1"
    "ns_names p1 = ns_names p - {ob_name ns}"
    using ns_DeleteFunc_engaged[OF "3.prems"(2,3), of ns] by blast
  with "3.hyps"[of p1] "3.prems"(1) show ?case by simp
qed auto

lemma namespace_New_inv: "ns_inv (namespace_New S) \<and> ns_tracked (namespace_New S) \<and> ns_names (namespace_New S) = {}"
  by (simp add: namespace_New_def ns_inv_def tracked_def ns_names_def)




subsection \<open>Isolation\<close>

lemma list_namespace_append: "list_namespace (opts @ [InNamespace ns]) d = ns"
  by (induction opts d rule: list_namespace.induct) auto

text \<open>Two hosts that cannot be told apart from within a namespace.\<close>

definition same_gets :: "string \<Rightarrow> (nsname \<Rightarrow> go_error + kobject) \<Rightarrow> (nsname \<Rightarrow> go_error + kobject) \<Rightarrow> bool" where
  "same_gets ns g g' \<longleftrightarrow> (\<forall>k. nn_namespace k = ns \<longrightarrow> g k = g' k)"

definition same_lists ::
  "string \<Rightarrow> (list_option list \<Rightarrow> kobject list \<Rightarrow> go_error option \<times> kobject list) \<Rightarrow>
   (list_option list \<Rightarrow> kobject list \<Rightarrow> go_error option \<times> kobject list) \<Rightarrow> bool" where
  "same_lists ns l l' \<longleftrightarrow> (\<forall>opts items. list_namespace opts '''' = ns \<longrightarrow> l opts items = l' opts items)"

definition same_calls :: "string \<Rightarrow> client_call \<Rightarrow> client_call \<Rightarrow> bool" where
  "same_calls ns f f' \<longleftrightarrow> (\<forall>ob. ob_namespace ob = ns \<longrightarrow> f ob = f' ob)"

text \<open>
  A client call that is scoped to a namespace: it reaches the host only with the object moved
  there, and the caller's object is where it was before.
\<close>

locale scoped_call =
  fixes op :: "cluster_name \<Rightarrow> client_call \<Rightarrow> client_call"
  assumes default: "op name f (SetNamespace NamespaceDefault ob) =
      (let (err, ob') = f (SetNamespace name ob) in (err, SetNamespace NamespaceDefault ob'))"
    and foreign: "ob_namespace ob \<noteq> NamespaceDefault \<Longrightarrow> op name f ob = (Some (NewInvalid (ob_namespace ob)), ob)"
begin

lemma at_default:
  "ob_namespace ob = NamespaceDefault \<Longrightarrow>
   op name f ob = (let (err, ob') = f (SetNamespace name ob) in (err, SetNamespace NamespaceDefault ob'))"
proof -
  assume "ob_namespace ob = NamespaceDefault"
  then have "SetNamespace NamespaceDefault ob = ob" by (simp add: SetNamespace_def)
  with default[of name f ob] show ?thesis by simp
qed

lemma keeps_namespace: "ob_namespace (snd (op name f ob)) = ob_namespace ob"
  by (cases "ob_namespace ob = NamespaceDefault") (auto simp: at_default foreign Let_def split: prod.splits)

lemma isolated: "same_calls name f f' \<Longrightarrow> op name f ob = op name f' ob"
  by (cases "ob_namespace ob = NamespaceDefault") (auto simp: at_default foreign same_calls_def Let_def split: prod.splits)

end

lemmas client_ops = NamespacedClient_Create_def NamespacedClient_Update_def NamespacedClient_Delete_def
  NamespacedClient_DeleteAllOf_def SubResource_Update_def

interpretation scopedCreate: scoped_call NamespacedClient_Create
  by unfold_locales (simp_all add: client_ops SetNamespace_def)

interpretation scopedUpdate: scoped_call NamespacedClient_Update
  by unfold_locales (simp_all add: client_ops SetNamespace_def)

interpretation scopedDelete: scoped_call NamespacedClient_Delete
  by unfold_locales (simp_all add: client_ops SetNamespace_def)

interpretation scopedDeleteAllOf: scoped_call NamespacedClient_DeleteAllOf
  by unfold_locales (simp_all add: client_ops SetNamespace_def)

interpretation scopedSubUpdate: scoped_call SubResource_Update
  by unfold_locales (simp_all add: client_ops SetNamespace_def)



text \<open>
  Apply is not scoped. \<open>Apply\<close>, on objects and on subresources, hands the object to the host in
  whatever namespace it names: an object in \<open>default\<close> goes to the host's own \<open>default\<close> namespace
  and not to the namespace of the cluster.
\<close>

theorem Apply_not_isolated:
  "\<exists>f f' ob. same_calls ''team'' f f' \<and> NamespacedClient_Apply ''team'' f ob \<noteq> NamespacedClient_Apply ''team'' f' ob \<and>
     SubResource_Apply ''team'' f ob \<noteq> SubResource_Apply ''team'' f' ob"
proof -
  let ?f = "\<lambda>ob. (if ob_namespace ob = ''default'' then Some ErrCtx else None, ob)"
  let ?ob = "\<lparr>ob_namespace = ''default'', ob_name = ''x'', ob_body = 0\<rparr>"
  have "same_calls ''team'' ?f (\<lambda>ob. (None, ob))" by (simp add: same_calls_def)
  moreover have "NamespacedClient_Apply ''team'' ?f ?ob \<noteq> NamespacedClient_Apply ''team'' (\<lambda>ob. (None, ob)) ?ob"
    "SubResource_Apply ''team'' ?f ?ob \<noteq> SubResource_Apply ''team'' (\<lambda>ob. (None, ob)) ?ob"
    by (simp_all add: NamespacedClient_Apply_def SubResource_Apply_def)
  ultimately show ?thesis by blast
qed

fun event_objects :: "host_event \<Rightarrow> bool" where
  "event_objects (OnAdd (AnObject ob) init) = True"
| "event_objects (OnUpdate (AnObject old) (AnObject new)) = True"
| "event_objects (OnDelete (AnObject ob)) = True"
| "event_objects (OnDelete (ATombstone (AnObject ob))) = True"
| "event_objects ev = False"

text \<open>
  The two ways to add a handler to a scoped informer agree. On every event that carries objects,
  the handler sees the same and there is no panic; it sees an event exactly if its object is
  in the namespace of the cluster, with the object shown in \<open>default\<close>.
\<close>

theorem scoped_handlers_agree:
  assumes "event_objects ev"
  shows "AddEventHandlerWithResyncPeriod name resync ev = ScopedInformer_AddEventHandler name ev \<and>
    ScopedInformer_AddEventHandler name ev \<noteq> SeenPanic \<and>
    (\<forall>ob init. ScopedInformer_AddEventHandler name ev = SeenAdd ob init \<longleftrightarrow>
       (\<exists>src. ev = OnAdd (AnObject src) init \<and> ob_namespace src = name \<and> ob = SetNamespace NamespaceDefault src)) \<and>
    (\<forall>ob. ScopedInformer_AddEventHandler name ev = SeenDelete ob \<longleftrightarrow>
       (\<exists>src. ev \<in> {OnDelete (AnObject src), OnDelete (ATombstone (AnObject src))} \<and> ob_namespace src = name \<and>
          ob = SetNamespace NamespaceDefault src))"
  using assms by (cases ev rule: event_objects.cases) (auto simp: AddEventHandlerWithResyncPeriod_def)

theorem scoped_handlers_agree_witness:
  "ScopedInformer_AddEventHandler ''a'' (OnDelete (ATombstone (AnObject \<lparr>ob_namespace = ''a'', ob_name = ''x'', ob_body = 1\<rparr>))) =
     AddEventHandlerWithResyncPeriod ''a'' 5 (OnDelete (ATombstone (AnObject \<lparr>ob_namespace = ''a'', ob_name = ''x'', ob_body = 1\<rparr>)))"
  using scoped_handlers_agree[of "OnDelete (ATombstone (AnObject \<lparr>ob_namespace = ''a'', ob_name = ''x'', ob_body = 1\<rparr>))" "''a''" 5]
  by simp

text \<open>
  What the handlers on namespaces do not handle. A tombstone for a deleted namespace, which an
  informer sends when it missed the deletion, makes the provider panic; and a namespace that
  the manager refuses is forgotten while its context stays live.
\<close>

theorem namespace_handlers_gaps:
  "ns_deliver (\<lambda>_. None) 0
     [NsAdded (AnObject \<lparr>ob_namespace = '''', ob_name = ''a'', ob_body = 0\<rparr>),
      NsDeleted (ATombstone (AnObject \<lparr>ob_namespace = '''', ob_name = ''a'', ob_body = 0\<rparr>))] (namespace_New [(None, False)]) = None \<and>
   (let p = the (ns_AddFunc (\<lambda>_. Some ErrCtx) 0 (AnObject \<lparr>ob_namespace = '''', ob_name = ''a'', ob_body = 0\<rparr>) (namespace_New [(None, False)]))
    in np_engaged p = [(''a'', 0, 1)] \<and> \<not> ctx_err (np_ctxs p) 1 \<and> fmlookup (np_cancelFns p) ''a'' = None)"
  by (simp add: ns_AddFunc_def ns_DeleteFunc_def namespace_New_def ns_forget_def with_cancel_def ctx_err.simps Let_def)

end
