(* ===== verification/FileProvider.thy ===== *)
theory FileProvider
  imports Tracking
begin

text \<open>
  \<open>providers/file\<close>, \<open>providers/single\<close> and \<open>providers/nop\<close>. The file provider embeds the cluster
  set of \<open>pkg/clusters\<close> and fills it from kubeconfig files. The file system, the kubeconfig
  loader and the file watcher are parameters.
\<close>

subsection \<open>Options and paths: \<open>provider.go\<close>, \<open>clusters.go\<close>\<close>

record file_options =
  fo_KubeconfigFiles :: "string list"
  fo_KubeconfigDirs :: "string list"
  fo_KubeconfigGlobs :: "string list"
  fo_Separator :: string

datatype stat = StatOk | StatNotExist | StatError go_error

text \<open>
  The environment: the variable \<open>KUBECONFIG\<close>, the expanded default path, \<open>os.Stat\<close>, \<open>os.Getwd\<close>,
  \<open>filepath.Glob\<close> of a joined pattern, the contexts of a kubeconfig file with the REST
  configuration of each, and \<open>cluster.New\<close>.
\<close>

record file_env =
  fe_KUBECONFIG :: string
  fe_default :: string
  fe_stat :: "string \<Rightarrow> stat"
  fe_cwd :: "go_error + string"
  fe_glob :: "string \<Rightarrow> string \<Rightarrow> go_error + string list"
  fe_load :: "string \<Rightarrow> go_error + (string \<times> (go_error + rest_config)) list"
  fe_new :: "rest_config \<Rightarrow> go_error + cluster_h"

definition DefaultKubeconfigGlobs :: "string list" where
  "DefaultKubeconfigGlobs =
     [''kubeconfig.yaml'', ''kubeconfig.yml'', ''*.kubeconfig'', ''*.kubeconfig.yaml'', ''*.kubeconfig.yml'']"

definition defaultKubeconfigPaths :: "file_env \<Rightarrow> string list \<times> string list" where
  "defaultKubeconfigPaths E =
     (if fe_KUBECONFIG E \<noteq> '''' then ([fe_KUBECONFIG E], [])
      else if fe_stat E (fe_default E) = StatOk then ([fe_default E], [])
      else ([], [case fe_cwd E of Inl err \<Rightarrow> ''.'' | Inr pwd \<Rightarrow> pwd]))"

definition file_defaults :: "file_env \<Rightarrow> file_options \<Rightarrow> file_options" where
  "file_defaults E o1 =
     (let o2 = (if fo_KubeconfigFiles o1 = [] \<and> fo_KubeconfigDirs o1 = []
                then o1\<lparr>fo_KubeconfigFiles := fst (defaultKubeconfigPaths E),
                        fo_KubeconfigDirs := snd (defaultKubeconfigPaths E)\<rparr> else o1);
          o3 = (if fo_KubeconfigGlobs o2 = [] then o2\<lparr>fo_KubeconfigGlobs := DefaultKubeconfigGlobs\<rparr> else o2)
      in if fo_Separator o3 = '''' then o3\<lparr>fo_Separator := ''+''\<rparr> else o3)"

record file_provider =
  fp_opts :: file_options
  fp_Clusters :: cluster_set

definition file_New :: "file_env \<Rightarrow> file_options \<Rightarrow> ctxs \<Rightarrow> file_provider" where
  "file_New E opts S = \<lparr>fp_opts = file_defaults E opts, fp_Clusters = clusters_New S\<rparr>"

definition matchKubeconfigGlobs :: "file_env \<Rightarrow> file_options \<Rightarrow> string \<Rightarrow> string list" where
  "matchKubeconfigGlobs E opts dirpath =
     concat (map (\<lambda>glob. case fe_glob E dirpath glob of Inl err \<Rightarrow> [] | Inr ms \<Rightarrow> ms) (fo_KubeconfigGlobs opts))"

text \<open>One of the two loops: missing paths are skipped, any other failure ends the collection.\<close>

fun collect :: "file_env \<Rightarrow> string \<Rightarrow> (string \<Rightarrow> string list) \<Rightarrow> string list \<Rightarrow> string list \<Rightarrow> go_error + string list" where
  "collect E msg found [] acc = Inr acc"
| "collect E msg found (path # paths) acc =
     (case fe_stat E path of
        StatNotExist \<Rightarrow> collect E msg found paths acc
      | StatError err \<Rightarrow> Inl (Errorf msg [path] (Some err))
      | StatOk \<Rightarrow> collect E msg found paths (acc @ found path))"

definition collectPaths :: "file_env \<Rightarrow> file_options \<Rightarrow> go_error + string list" where
  "collectPaths E opts =
     (case collect E ''failed to stat kubeconfig file %q: %w'' (\<lambda>f. [f]) (fo_KubeconfigFiles opts) [] of
        Inl err \<Rightarrow> Inl err
      | Inr files \<Rightarrow>
          collect E ''failed to stat directory %q: %w'' (matchKubeconfigGlobs E opts) (fo_KubeconfigDirs opts) files)"

text \<open>A context without a REST configuration spoils its whole file.\<close>

fun read_contexts :: "(string \<times> (go_error + rest_config)) list \<Rightarrow> (string, rest_config) fmap \<Rightarrow> go_error + (string, rest_config) fmap" where
  "read_contexts [] ret = Inr ret"
| "read_contexts ((name, cfg) # cs) ret =
     (case cfg of
        Inl err \<Rightarrow> Inl (Errorf ''failed to create rest config for context %q: %w'' [name] (Some err))
      | Inr c \<Rightarrow> read_contexts cs (fmupd name c ret))"

definition readFile :: "file_env \<Rightarrow> string \<Rightarrow> go_error + (string, rest_config) fmap" where
  "readFile E path =
     (case fe_load E path of
        Inl err \<Rightarrow> Inl (Errorf ''failed to load kubeconfig from file %q: %w'' [path] (Some err))
      | Inr cs \<Rightarrow> read_contexts cs fmempty)"

text \<open>The contexts of one file, in the order in which the map is ranged over; the first one wins.\<close>

fun add_contexts ::
  "string \<Rightarrow> string \<Rightarrow> (string, rest_config) fmap \<Rightarrow> string list \<Rightarrow> (cluster_name, rest_config) fmap \<Rightarrow>
   (cluster_name, rest_config) fmap" where
  "add_contexts path sep m [] acc = acc"
| "add_contexts path sep m (name # names) acc =
     (let clusterName = path @ sep @ name
      in if fmlookup acc clusterName \<noteq> None then add_contexts path sep m names acc
         else case fmlookup m name of
                None \<Rightarrow> add_contexts path sep m names acc
              | Some cfg \<Rightarrow> add_contexts path sep m names (fmupd clusterName cfg acc))"

fun load_files ::
  "file_env \<Rightarrow> string \<Rightarrow> string list \<Rightarrow> (cluster_name, rest_config) fmap \<Rightarrow> (cluster_name, rest_config) fmap" where
  "load_files E sep [] acc = acc"
| "load_files E sep (path # paths) acc =
     (case readFile E path of
        Inl err \<Rightarrow> load_files E sep paths acc
      | Inr m \<Rightarrow> load_files E sep paths (add_contexts path sep m (sorted_keys m) acc))"

definition fromContexts :: "file_env \<Rightarrow> (cluster_name, rest_config) fmap \<Rightarrow> (cluster_name, cluster_h) fmap" where
  "fromContexts E kubeCtxs =
     fmap_of_list (concat (map (\<lambda>n. case fmlookup kubeCtxs n of
        None \<Rightarrow> []
      | Some cfg \<Rightarrow> (case fe_new E cfg of Inl err \<Rightarrow> [] | Inr cl \<Rightarrow> [(n, cl)])) (sorted_keys kubeCtxs)))"

definition loadClusters :: "file_env \<Rightarrow> file_options \<Rightarrow> go_error + (cluster_name, cluster_h) fmap" where
  "loadClusters E opts =
     (case collectPaths E opts of
        Inl err \<Rightarrow> Inl err
      | Inr paths \<Rightarrow> Inr (fromContexts E (load_files E (fo_Separator opts) paths fmempty)))"

subsection \<open>The provider\<close>

text \<open>An error of \<open>AddOrReplace\<close> is logged and the loop goes on.\<close>

fun put_all ::
  "cluster_env \<Rightarrow> ctx \<Rightarrow> aware_h option \<Rightarrow> (cluster_name, cluster_h) fmap \<Rightarrow> cluster_name list \<Rightarrow> cluster_set \<Rightarrow> cluster_set" where
  "put_all C cx aware loaded [] c = c"
| "put_all C cx aware loaded (name # names) c =
     put_all C cx aware loaded names
       (case fmlookup loaded name of
          None \<Rightarrow> c
        | Some cl \<Rightarrow> snd (clusters_AddOrReplace C cx name cl aware c))"

definition drop_missing ::
  "(cluster_name, cluster_h) fmap \<Rightarrow> cluster_name list \<Rightarrow> cluster_set \<Rightarrow> cluster_set" where
  "drop_missing loaded known c = fold clusters_Remove (filter (\<lambda>n. fmlookup loaded n = None) known) c"

definition file_run ::
  "file_env \<Rightarrow> cluster_env \<Rightarrow> ctx \<Rightarrow> aware_h option \<Rightarrow> ((cluster_name, cluster_h) fmap \<Rightarrow> cluster_name list) \<Rightarrow> file_provider \<Rightarrow>
   go_error option \<times> file_provider" where
  "file_run E C cx aware ord p =
     (case loadClusters E (fp_opts p) of
        Inl err \<Rightarrow> (Some (Errorf ''failed to load clusters: %w'' [] (Some err)), p)
      | Inr loaded \<Rightarrow>
          (let known = ClusterNames (fp_Clusters p);
               c1 = put_all C cx aware loaded (ord loaded) (fp_Clusters p)
           in (None, p\<lparr>fp_Clusters := drop_missing loaded known c1\<rparr>)))"

definition RunOnce ::
  "file_env \<Rightarrow> cluster_env \<Rightarrow> ctx \<Rightarrow> aware_h option \<Rightarrow> ((cluster_name, cluster_h) fmap \<Rightarrow> cluster_name list) \<Rightarrow> file_provider \<Rightarrow>
   go_error option \<times> file_provider" where
  "RunOnce E C cx aware ord p = file_run E C cx aware ord p"

definition file_Get :: "file_provider \<Rightarrow> cluster_name \<Rightarrow> go_error + cluster_h" where
  "file_Get p name =
     (if name = ''''
      then (case ClusterNames (fp_Clusters p) of
              [] \<Rightarrow> Inl ErrClusterNotFound
            | n # ns \<Rightarrow> clusters_Get (fp_Clusters p) n)
      else clusters_Get (fp_Clusters p) name)"

text \<open>
  The loop of \<open>Start\<close>: what the select receives, with the environment in which the files are
  read after an event. The loop goes on after a failed update and after a watcher error.
\<close>

datatype file_turn = FileCtxDone | FileEvent file_env | FileEventsClosed | FileError | FileErrorsClosed

fun file_loop ::
  "cluster_env \<Rightarrow> ctx \<Rightarrow> aware_h option \<Rightarrow> ((cluster_name, cluster_h) fmap \<Rightarrow> cluster_name list) \<Rightarrow> file_turn list \<Rightarrow>
   file_provider \<Rightarrow> (go_error option \<times> file_provider) option" where
  "file_loop C cx aware ord [] p = None"
| "file_loop C cx aware ord (FileCtxDone # ts) p = Some (Some ErrCtx, p)"
| "file_loop C cx aware ord (FileEvent E # ts) p = file_loop C cx aware ord ts (snd (file_run E C cx aware ord p))"
| "file_loop C cx aware ord (FileEventsClosed # ts) p = Some (Some (Errorf ''file watcher closed'' [] None), p)"
| "file_loop C cx aware ord (FileError # ts) p = file_loop C cx aware ord ts p"
| "file_loop C cx aware ord (FileErrorsClosed # ts) p =
     Some (Some (Errorf ''file watcher errors channel closed'' [] None), p)"

text \<open>\<open>watcher\<close> is the result of \<open>fsnotify.NewWatcher\<close>, \<open>watch\<close> that of adding a path to it.\<close>

definition file_Start ::
  "file_env \<Rightarrow> cluster_env \<Rightarrow> go_error option \<Rightarrow> (string \<Rightarrow> go_error option) \<Rightarrow> (string \<Rightarrow> string) \<Rightarrow> ctx \<Rightarrow> aware_h option \<Rightarrow>
   ((cluster_name, cluster_h) fmap \<Rightarrow> cluster_name list) \<Rightarrow> file_turn list \<Rightarrow> file_provider \<Rightarrow>
   (go_error option \<times> file_provider) option" where
  "file_Start E C watcher watch dir cx aware ord ts p =
     (case file_run E C cx aware ord p of
        (Some err, p1) \<Rightarrow> Some (Some (Errorf ''initial update failed: %w'' [] (Some err)), p1)
      | (None, p1) \<Rightarrow>
     (case watcher of
        Some err \<Rightarrow> Some (Some (Errorf ''failed to create file watcher: %w'' [] (Some err)), p1)
      | None \<Rightarrow>
     (case first_error (\<lambda>f. map_option (\<lambda>e. Errorf ''failed to watch parent dir of kubeconfig file %q: %w'' [f] (Some e)) (watch (dir f)))
             (fo_KubeconfigFiles (fp_opts p1)) of
        Some err \<Rightarrow> Some (Some err, p1)
      | None \<Rightarrow>
     (case first_error (\<lambda>d. map_option (\<lambda>e. Errorf ''failed to watch kubeconfig directory %q: %w'' [d] (Some e)) (watch d))
             (fo_KubeconfigDirs (fp_opts p1)) of
        Some err \<Rightarrow> Some (Some err, p1)
      | None \<Rightarrow> file_loop C cx aware ord ts p1))))"

subsection \<open>The single and the nop provider\<close>

record single_provider =
  sp_name :: cluster_name
  sp_cl :: cluster_h

definition single_New :: "cluster_name \<Rightarrow> cluster_h \<Rightarrow> single_provider" where
  "single_New name cl = \<lparr>sp_name = name, sp_cl = cl\<rparr>"

text \<open>\<open>Start\<close> engages the cluster in the context of the provider and returns when it is done.\<close>

definition single_Start ::
  "(ctx \<Rightarrow> cluster_name \<Rightarrow> cluster_h \<Rightarrow> go_error option) \<Rightarrow> ctx \<Rightarrow> single_provider \<Rightarrow> go_error option" where
  "single_Start engage cx p = engage cx (sp_name p) (sp_cl p)"

definition single_Get :: "single_provider \<Rightarrow> cluster_name \<Rightarrow> go_error + cluster_h" where
  "single_Get p name = (if name = sp_name p then Inr (sp_cl p) else Inl ErrClusterNotFound)"

definition single_IndexField :: "(cluster_h \<Rightarrow> index \<Rightarrow> go_error option) \<Rightarrow> single_provider \<Rightarrow> index \<Rightarrow> go_error option" where
  "single_IndexField ix p i = ix (sp_cl p) i"

definition nop_Start :: "ctx \<Rightarrow> go_error option" where
  "nop_Start cx = None"

definition nop_Get :: "unit \<Rightarrow> cluster_name \<Rightarrow> go_error + cluster_h" where
  "nop_Get p name = Inl ErrClusterNotFound"

definition nop_IndexField :: "index \<Rightarrow> go_error option" where
  "nop_IndexField i = None"

interpretation singleGet: provider_get single_Get "\<lambda>p n. if n = sp_name p then Some (sp_cl p) else None"
  by unfold_locales (auto simp: single_Get_def split: if_splits)

interpretation nopGet: provider_get nop_Get "\<lambda>p n. None"
  by unfold_locales (auto simp: nop_Get_def)

text \<open>The empty name stands for the first cluster there is.\<close>

definition file_known :: "file_provider \<Rightarrow> cluster_name \<Rightarrow> cluster_h option" where
  "file_known p name =
     (if name = '''' then (case ClusterNames (fp_Clusters p) of [] \<Rightarrow> None | n # ns \<Rightarrow> clusters_known (fp_Clusters p) n)
      else clusters_known (fp_Clusters p) name)"

interpretation fileGet: provider_get file_Get file_known
proof unfold_locales
  fix s n cl
  show "file_known s n = Some cl \<Longrightarrow> file_Get s n = Inr cl"
    by (auto simp: file_known_def file_Get_def clustersGet.get_Inr_iff split: if_splits list.splits)
  show "\<exists>e. file_Get s n = Inl e \<and> is_cluster_not_found e" if "file_known s n = None"
    using that clustersGet.get_unknown[of "fp_Clusters s"]
    by (auto simp: file_known_def file_Get_def split: if_splits list.splits)
qed


subsection \<open>Loading\<close>

text \<open>The order in which the contexts of a file are visited does not matter.\<close>

lemma add_contexts_lookup:
  "fmlookup (add_contexts path sep m names acc) n =
     (case fmlookup acc n of
        Some cfg \<Rightarrow> Some cfg
      | None \<Rightarrow> if \<exists>name \<in> set names. n = path @ sep @ name
                then fmlookup m (drop (length path + length sep) n) else None)"
proof (induction path sep m names acc rule: add_contexts.induct)
  case (2 path sep m name names acc)
  then show ?case by (cases "fmlookup acc (path @ sep @ name)") (auto simp: Let_def split: option.splits)
qed (simp split: option.splits)

lemma fromContexts_lookup:
  "fmlookup (fromContexts E kubeCtxs) n =
     (case fmlookup kubeCtxs n of
        None \<Rightarrow> None
      | Some cfg \<Rightarrow> (case fe_new E cfg of Inl err \<Rightarrow> None | Inr cl \<Rightarrow> Some cl))"
proof -
  let ?f = "\<lambda>n. case fmlookup kubeCtxs n of None \<Rightarrow> []
      | Some cfg \<Rightarrow> (case fe_new E cfg of Inl err \<Rightarrow> [] | Inr cl \<Rightarrow> [(n, cl)])"
  have "map_of (concat (map ?f ns)) n =
      (if n \<in> set ns then (case fmlookup kubeCtxs n of None \<Rightarrow> None
         | Some cfg \<Rightarrow> (case fe_new E cfg of Inl err \<Rightarrow> None | Inr cl \<Rightarrow> Some cl)) else None)" for ns
    by (induction ns) (auto split: option.splits sum.splits)
  then show ?thesis
    by (auto simp: fromContexts_def fmlookup_of_list fmlookup_dom_iff split: option.splits)
qed

subsection \<open>Updating\<close>

definition accepted :: "cluster_env \<Rightarrow> aware_h option \<Rightarrow> index list \<Rightarrow> cluster_name \<Rightarrow> cluster_h \<Rightarrow> bool" where
  "accepted C aware is n cl \<longleftrightarrow>
     env_sync C n cl \<and> (\<forall>i \<in> set is. env_index C cl i = None) \<and> (\<forall>a. aware = Some a \<longrightarrow> env_engage C a n cl = None)"

definition replaced ::
  "cluster_env \<Rightarrow> aware_h option \<Rightarrow> index list \<Rightarrow> cluster_name \<Rightarrow> cluster_h \<Rightarrow> cluster_h option \<Rightarrow> cluster_h option" where
  "replaced C aware is n cl old =
     (if \<exists>o1. old = Some o1 \<and> env_equal C o1 cl then old
      else if accepted C aware is n cl then Some cl else None)"

lemma Add_lookup:
  assumes "clusters_known c n = None" and "clusters_Add C cx n cl aware c = (err, c')"
  shows "clusters_known c' = (clusters_known c)(n := if accepted C aware (cs_indexers c) n cl then Some cl else None)"
    and "cs_indexers c' = cs_indexers c"
    and "m \<noteq> n \<Longrightarrow> fmlookup (cs_cancels c') m = fmlookup (cs_cancels c) m"
    and "ctx_err (cs_ctxs c) k \<Longrightarrow> ctx_err (cs_ctxs c') k"
proof -
  obtain calls where c': "c' = (if err = None then (entered cx n cl c)\<lparr>cs_calls := calls\<rparr>
       else clusters_Remove n ((entered cx n cl c)\<lparr>cs_calls := calls\<rparr>))" using clusters_Add_new(1)[OF assms] by blast
  have err: "err = None \<longleftrightarrow> accepted C aware (cs_indexers c) n cl"
    using clusters_Add_new(2)[OF assms] by (simp add: accepted_def)
  show "clusters_known c' = (clusters_known c)(n := if accepted C aware (cs_indexers c) n cl then Some cl else None)"
    using c' err assms(1) by (auto simp: fun_eq_iff)
  show "cs_indexers c' = cs_indexers c" "m \<noteq> n \<Longrightarrow> fmlookup (cs_cancels c') m = fmlookup (cs_cancels c) m"
    using c' by auto
  show "ctx_err (cs_ctxs c') k" if "ctx_err (cs_ctxs c) k"
  proof -
    have "ctx_err (cs_ctxs (entered cx n cl c)) k"
      using ctx_err_less[OF that] that by (simp add: ctx_err_with_cancel_old)
    with c' clustersLife.drop_mono show ?thesis by auto
  qed
qed

lemma AddOrReplace_lookup:
  assumes "clusters_AddOrReplace C cx n cl aware c = (err, c')"
  shows "clusters_known c' = (clusters_known c)(n := replaced C aware (cs_indexers c) n cl (clusters_known c n))"
    and "cs_indexers c' = cs_indexers c"
    and "m \<noteq> n \<Longrightarrow> fmlookup (cs_cancels c') m = fmlookup (cs_cancels c) m"
    and "ctx_err (cs_ctxs c) k \<Longrightarrow> ctx_err (cs_ctxs c') k"
proof -
  consider (kept) o1 where "clusters_known c n = Some o1" "env_equal C o1 cl" "c' = c"
    | (new) "clusters_known c n = None" "clusters_Add C cx n cl aware c = (err, c')"
    | (again) o1 where "clusters_known c n = Some o1" "\<not> env_equal C o1 cl"
        "clusters_Add C cx n cl aware (clusters_Remove n c) = (err, c')"
    using assms by (cases "clusters_known c n") (auto simp: clusters_AddOrReplace_def GetTyped_def split: if_splits)
  note cs = this
  have free: "clusters_known (clusters_Remove n c) n = None" by simp
  show "clusters_known c' = (clusters_known c)(n := replaced C aware (cs_indexers c) n cl (clusters_known c n))"
    using cs
  proof cases
    case again
    then show ?thesis using Add_lookup(1)[OF free again(3)] by (auto simp: replaced_def fun_eq_iff)
  qed (auto simp: replaced_def Add_lookup(1))
  show "cs_indexers c' = cs_indexers c"
    using cs by cases (auto simp: Add_lookup(2) Add_lookup(2)[OF free])
  show "fmlookup (cs_cancels c') m = fmlookup (cs_cancels c) m" if "m \<noteq> n"
    using cs by cases (use that in \<open>auto simp: Add_lookup(3) Add_lookup(3)[OF free]\<close>)
  show "ctx_err (cs_ctxs c') k" if "ctx_err (cs_ctxs c) k"
    using cs
  proof cases
    case again
    from Add_lookup(4)[OF free again(3)] clustersLife.drop_mono[OF that] show ?thesis by blast
  qed (use that in \<open>auto intro: Add_lookup(4)\<close>)
qed

lemma put_all_result:
  assumes "distinct names" and "clusters_inv c"
  shows "clusters_inv (put_all C cx aware loaded names c) \<and>
    (\<forall>n. clusters_known (put_all C cx aware loaded names c) n =
       (case if n \<in> set names then fmlookup loaded n else None of
          None \<Rightarrow> clusters_known c n
        | Some cl \<Rightarrow> replaced C aware (cs_indexers c) n cl (clusters_known c n))) \<and>
    (\<forall>n. n \<notin> set names \<longrightarrow> fmlookup (cs_cancels (put_all C cx aware loaded names c)) n = fmlookup (cs_cancels c) n) \<and>
    (\<forall>k. ctx_err (cs_ctxs c) k \<longrightarrow> ctx_err (cs_ctxs (put_all C cx aware loaded names c)) k)"
  using assms
proof (induction names arbitrary: c)
  case (Cons a names)
  show ?case
  proof (cases "fmlookup loaded a")
    case None
    with Cons show ?thesis by auto
  next
    case (Some cl)
    obtain err c1 where r: "clusters_AddOrReplace C cx a cl aware c = (err, c1)" by fastforce
    note l = AddOrReplace_lookup[OF r]
    have "clusters_inv c1" by (rule clusters_AddOrReplace_inv[OF Cons.prems(2) r])
    note IH = Cons.IH[OF _ this]
    from Cons.prems(1) Some r l IH show ?thesis by (auto split: option.splits if_splits)
  qed
qed (auto split: option.splits)



definition demo_files :: file_env where
  "demo_files = \<lparr>fe_KUBECONFIG = ''k'', fe_default = '''', fe_stat = (\<lambda>_. StatOk), fe_cwd = Inr ''.'',
     fe_glob = (\<lambda>_ _. Inr []), fe_load = (\<lambda>_. Inr [(''a'', Inr 5)]), fe_new = (\<lambda>_. Inr 7)\<rparr>"

definition demo_file :: file_provider where
  "demo_file = file_New demo_files \<lparr>fo_KubeconfigFiles = [], fo_KubeconfigDirs = [], fo_KubeconfigGlobs = [], fo_Separator = ''''\<rparr>
     [(None, False)]"

lemma demo_file_loaded: "\<exists>m. loadClusters demo_files (fp_opts demo_file) = Inr m \<and> fmlookup m ''k+a'' = Some 7"
proof -
  have keys: "sorted_keys (fmupd ''a'' (5::nat) fmempty) = [''a'']"
    by (simp add: sorted_keys_def sorted_list_of_fset.rep_eq)
  show ?thesis
    by (simp add: loadClusters_def demo_file_def file_New_def file_defaults_def defaultKubeconfigPaths_def collectPaths_def
        demo_files_def readFile_def keys fromContexts_lookup Let_def)
qed


end
