(* ===== verification/Builder.thy ===== *)
theory Builder
  imports Controller
begin

text \<open>
  \<open>pkg/builder/forked_controller.go\<close>, \<open>forked_options.go\<close> and \<open>multicluster_options.go\<close>: the
  fluent builder of controllers. Builder methods are functions on the builder's record. The
  controller that \<open>Build\<close> makes is an interface here: what its \<open>Watch\<close> and
  \<open>MultiClusterWatch\<close> return is a parameter, and the builder records the calls it made. Schemes,
  the stock handlers and the request type's identity are the environment.
\<close>

subsection \<open>Options\<close>

text \<open>A nil pointer is \<open>None\<close>; a set pointer to a filter may still point to a nil function.\<close>

record EngageOptions =
  engageWithLocalCluster :: "bool option"
  engageWithProviderClusters :: "bool option"
  clusterFilter :: "cluster_filter option option"

definition no_engage :: EngageOptions where
  "no_engage = \<lparr>engageWithLocalCluster = None, engageWithProviderClusters = None, clusterFilter = None\<rparr>"

definition getClusterFilter :: "EngageOptions \<Rightarrow> cluster_filter option" where
  "getClusterFilter w = (case clusterFilter w of Some f \<Rightarrow> f | None \<Rightarrow> None)"

definition WithEngageWithLocalCluster :: "bool \<Rightarrow> EngageOptions" where
  "WithEngageWithLocalCluster engage = no_engage\<lparr>engageWithLocalCluster := Some engage\<rparr>"

definition WithEngageWithProviderClusters :: "bool \<Rightarrow> EngageOptions" where
  "WithEngageWithProviderClusters engage = no_engage\<lparr>engageWithProviderClusters := Some engage\<rparr>"

definition builder_WithClusterFilter :: "cluster_filter option \<Rightarrow> EngageOptions" where
  "builder_WithClusterFilter f = no_engage\<lparr>clusterFilter := Some f\<rparr>"

definition WithClustersFromProvider :: "(cluster_name \<Rightarrow> go_error + cluster_h) \<Rightarrow> EngageOptions" where
  "WithClustersFromProvider get =
     no_engage\<lparr>clusterFilter := Some (Some (\<lambda>clusterName cluster.
       case get clusterName of Inl err \<Rightarrow> False | Inr cl \<Rightarrow> cl = cluster))\<rparr>"

datatype objectProjection = projectAsNormal | projectAsMetadata

text \<open>What the inputs of \<open>For\<close>, \<open>Owns\<close> and \<open>Watches\<close> have in common, and the three inputs.\<close>

record 'o watch_input =
  wi_predicates :: "'o predicate list"
  wi_projection :: objectProjection
  wi_engage :: EngageOptions

record 'o ForInput = "'o watch_input" +
  for_object :: "'o option"
  for_err :: "go_error option"

record 'o OwnsInput = "'o watch_input" +
  own_object :: 'o
  own_matchEveryOwner :: bool

record ('o, 'r) WatchesInput = "'o watch_input" +
  wa_obj :: 'o
  wa_handler :: "('o, 'r) handler_func"

text \<open>The setters that options use on the input of \<open>Watches\<close>.\<close>

definition setPredicates :: "'o predicate list \<Rightarrow> ('o, 'z) watch_input_scheme \<Rightarrow> ('o, 'z) watch_input_scheme" where
  "setPredicates ps w = w\<lparr>wi_predicates := ps\<rparr>"

definition setObjectProjection :: "objectProjection \<Rightarrow> ('o, 'z) watch_input_scheme \<Rightarrow> ('o, 'z) watch_input_scheme" where
  "setObjectProjection p w = w\<lparr>wi_projection := p\<rparr>"

lemma watch_input_setters [simp]: "setPredicates ps w = w\<lparr>wi_predicates := ps\<rparr>" "setObjectProjection p w = w\<lparr>wi_projection := p\<rparr>"
  by (simp_all add: setPredicates_def setObjectProjection_def)

text \<open>
  \<open>ApplyToFor\<close>, \<open>ApplyToOwns\<close> and \<open>ApplyToWatches\<close> of an option set the same fields, the last one
  by the setters.
\<close>

definition Predicates_Apply :: "'o predicate list \<Rightarrow> ('o, 'z) watch_input_scheme \<Rightarrow> ('o, 'z) watch_input_scheme" where
  "Predicates_Apply ps opts = setPredicates ps opts"

definition projectAs_Apply :: "objectProjection \<Rightarrow> ('o, 'z) watch_input_scheme \<Rightarrow> ('o, 'z) watch_input_scheme" where
  "projectAs_Apply p opts = setObjectProjection p opts"

definition OnlyMetadata :: "('o, 'z) watch_input_scheme \<Rightarrow> ('o, 'z) watch_input_scheme" where
  "OnlyMetadata = projectAs_Apply projectAsMetadata"

definition override :: "'a option \<Rightarrow> 'a option \<Rightarrow> 'a option" where
  "override new old = (case new of Some v \<Rightarrow> Some v | None \<Rightarrow> old)"

definition Engage_Apply :: "EngageOptions \<Rightarrow> ('o, 'z) watch_input_scheme \<Rightarrow> ('o, 'z) watch_input_scheme" where
  "Engage_Apply w opts =
     opts\<lparr>wi_engage := \<lparr>
       engageWithLocalCluster = override (engageWithLocalCluster w) (engageWithLocalCluster (wi_engage opts)),
       engageWithProviderClusters =
         override (engageWithProviderClusters w) (engageWithProviderClusters (wi_engage opts)),
       clusterFilter = override (clusterFilter w) (clusterFilter (wi_engage opts))\<rparr>\<rparr>"

definition MatchEveryOwner :: "'o OwnsInput \<Rightarrow> 'o OwnsInput" where
  "MatchEveryOwner opts = opts\<lparr>own_matchEveryOwner := True\<rparr>"

definition apply_options :: "('i \<Rightarrow> 'i) list \<Rightarrow> 'i \<Rightarrow> 'i" where
  "apply_options opts input = fold (\<lambda>opt i. opt i) opts input"

subsection \<open>The builder\<close>

record gvk =
  gvk_Group :: string
  gvk_Version :: string
  gvk_Kind :: string

text \<open>
  \<open>controller.TypedOptions\<close>: what the builder reads or sets. A logger is its list of values.
  The options of the manager give concurrency per group kind and a timeout.
\<close>

type_synonym logger = "(string \<times> string) list"

record 'r ctrl_options =
  op_Reconciler :: "(value_ctx, 'r) reconciler option"
  op_MaxConcurrentReconciles :: int
  op_CacheSyncTimeout :: int
  op_LogConstructor :: "('r option \<Rightarrow> logger) option"

record global_options =
  go_GroupKindConcurrency :: "(string, int) fmap"
  go_CacheSyncTimeout :: int

datatype ('o, 'r) ctrl_call =
    WatchLocal "('o, 'r) clusterKind"
  | WatchClusters "('o, 'r) kind"
  | WatchRaw source_h

type_synonym ('o, 'r) ctrl_oracle = "('o, 'r) ctrl_call list \<Rightarrow> ('o, 'r) ctrl_call \<Rightarrow> go_error option"

type_synonym ('r, 'k) new_controller =
  "string \<Rightarrow> mc_manager \<Rightarrow> 'r ctrl_options \<Rightarrow> 'k option \<times> go_error option \<times> mc_manager"

record ('o, 'r, 'k) builder =
  forInput :: "'o ForInput"
  ownsInput :: "'o OwnsInput list"
  rawSources :: "source_h list"
  watchesInput :: "('o, 'r) WatchesInput list"
  bl_mgr :: "mc_manager option"
  globalPredicates :: "'o predicate list"
  bl_ctrl :: "'k option"
  ctrlOptions :: "'r ctrl_options"
  bl_name :: string
  newController :: "('r, 'k) new_controller option"
  enableClusterNotFoundWrapper :: "bool option"
  bl_calls :: "('o, 'r) ctrl_call list"

text \<open>
  The environment: the kind of an object by the scheme of a cluster, an object that carries
  only metadata of a kind, the printed group kind, the handlers of controller-runtime for an
  object and for an owner (by the REST mapper of the cluster; the flag is
  \<open>OnlyControllerOwner\<close>), the handler as one of the request type if that is
  \<open>mcreconcile.Request\<close>, the namespaced name if it is \<open>reconcile.Request\<close>, the options and the logger of the
  manager, and \<open>NewTyped\<close>.
\<close>

record ('o, 'r, 'k) builder_env =
  be_gvk :: "cluster_h \<Rightarrow> 'o \<Rightarrow> go_error + gvk"
  be_partial :: "gvk \<Rightarrow> 'o"
  be_groupkind :: "gvk \<Rightarrow> string"
  be_object :: "('o, nsname) event_handler"
  be_owner :: "cluster_h \<Rightarrow> 'o \<Rightarrow> bool \<Rightarrow> ('o, nsname) event_handler"
  be_request :: "(('o, Request) event_handler \<Rightarrow> ('o, 'r) event_handler) option"
  be_plain :: "('r \<Rightarrow> nsname) option"
  be_global :: global_options
  be_logger :: logger
  be_new :: "('r, 'k) new_controller"

definition for_input :: "'o option \<Rightarrow> 'o ForInput" where
  "for_input ob =
     \<lparr>wi_predicates = [], wi_projection = projectAsNormal, wi_engage = no_engage,
      for_object = ob, for_err = None\<rparr>"

definition TypedControllerManagedBy :: "mc_manager option \<Rightarrow> ('o, 'r, 'k) builder" where
  "TypedControllerManagedBy m =
     \<lparr>forInput = for_input None, ownsInput = [], rawSources = [], watchesInput = [], bl_mgr = m,
      globalPredicates = [], bl_ctrl = None,
      ctrlOptions = \<lparr>op_Reconciler = None, op_MaxConcurrentReconciles = 0, op_CacheSyncTimeout = 0,
                     op_LogConstructor = None\<rparr>,
      bl_name = '''', newController = None, enableClusterNotFoundWrapper = None, bl_calls = []\<rparr>"

definition ControllerManagedBy :: "mc_manager option \<Rightarrow> ('o, Request, 'k) builder" where
  "ControllerManagedBy m = TypedControllerManagedBy m"

text \<open>An object may be nil.\<close>

definition For ::
  "'o option \<Rightarrow> ('o ForInput \<Rightarrow> 'o ForInput) list \<Rightarrow> ('o, 'r, 'k) builder \<Rightarrow> ('o, 'r, 'k) builder" where
  "For object opts b =
     (if for_object (forInput b) \<noteq> None
      then b\<lparr>forInput := (forInput b)\<lparr>for_err :=
        Some (Errorf ''For(...) should only be called once, could not assign multiple objects for reconciliation'' [] None)\<rparr>\<rparr>
      else b\<lparr>forInput := apply_options opts (for_input object)\<rparr>)"

definition Owns ::
  "'o \<Rightarrow> ('o OwnsInput \<Rightarrow> 'o OwnsInput) list \<Rightarrow> ('o, 'r, 'k) builder \<Rightarrow> ('o, 'r, 'k) builder" where
  "Owns object opts b =
     b\<lparr>ownsInput := ownsInput b @ [apply_options opts
        \<lparr>wi_predicates = [], wi_projection = projectAsNormal, wi_engage = no_engage,
         own_object = object, own_matchEveryOwner = False\<rparr>]\<rparr>"

definition Watches ::
  "'o \<Rightarrow> ('o, 'r) handler_func \<Rightarrow> (('o, 'r) WatchesInput \<Rightarrow> ('o, 'r) WatchesInput) list \<Rightarrow>
   ('o, 'r, 'k) builder \<Rightarrow> ('o, 'r, 'k) builder" where
  "Watches object eventHandler opts b =
     b\<lparr>watchesInput := watchesInput b @ [apply_options opts
        \<lparr>wi_predicates = [], wi_projection = projectAsNormal, wi_engage = no_engage,
         wa_obj = object, wa_handler = eventHandler\<rparr>]\<rparr>"

definition WatchesMetadata ::
  "'o \<Rightarrow> ('o, 'r) handler_func \<Rightarrow> (('o, 'r) WatchesInput \<Rightarrow> ('o, 'r) WatchesInput) list \<Rightarrow>
   ('o, 'r, 'k) builder \<Rightarrow> ('o, 'r, 'k) builder" where
  "WatchesMetadata object eventHandler opts b = Watches object eventHandler (opts @ [OnlyMetadata]) b"

definition WatchesRawSource :: "source_h \<Rightarrow> ('o, 'r, 'k) builder \<Rightarrow> ('o, 'r, 'k) builder" where
  "WatchesRawSource src b = b\<lparr>rawSources := rawSources b @ [src]\<rparr>"

definition WithEventFilter :: "'o predicate \<Rightarrow> ('o, 'r, 'k) builder \<Rightarrow> ('o, 'r, 'k) builder" where
  "WithEventFilter p b = b\<lparr>globalPredicates := globalPredicates b @ [p]\<rparr>"

definition WithOptions :: "'r ctrl_options \<Rightarrow> ('o, 'r, 'k) builder \<Rightarrow> ('o, 'r, 'k) builder" where
  "WithOptions options b = b\<lparr>ctrlOptions := options\<rparr>"

definition WithLogConstructor ::
  "('r option \<Rightarrow> logger) option \<Rightarrow> ('o, 'r, 'k) builder \<Rightarrow> ('o, 'r, 'k) builder" where
  "WithLogConstructor lc b = b\<lparr>ctrlOptions := (ctrlOptions b)\<lparr>op_LogConstructor := lc\<rparr>\<rparr>"

definition WithClusterNotFoundWrapper :: "bool \<Rightarrow> ('o, 'r, 'k) builder \<Rightarrow> ('o, 'r, 'k) builder" where
  "WithClusterNotFoundWrapper enabled b = b\<lparr>enableClusterNotFoundWrapper := Some enabled\<rparr>"

definition Named :: "string \<Rightarrow> ('o, 'r, 'k) builder \<Rightarrow> ('o, 'r, 'k) builder" where
  "Named name b = b\<lparr>bl_name := name\<rparr>"

subsection \<open>Build\<close>

definition builder_project ::
  "('o, 'r, 'k) builder_env \<Rightarrow> objectProjection \<Rightarrow> cluster_h \<Rightarrow> 'o \<Rightarrow> go_error + 'o" where
  "builder_project E proj cl obj =
     (case proj of
        projectAsNormal \<Rightarrow> Inr obj
      | projectAsMetadata \<Rightarrow>
          (case be_gvk E cl obj of
             Inl err \<Rightarrow> Inl (Errorf ''unable to determine GVK of %T for a metadata-only watch: %w'' [] (Some err))
           | Inr g \<Rightarrow> Inr (be_partial E g)))"

definition Deref :: "'a option \<Rightarrow> 'a \<Rightarrow> 'a" where
  "Deref p d = (case p of Some v \<Rightarrow> v | None \<Rightarrow> d)"

text \<open>A call of the controller, recorded if it is made.\<close>

definition ctrl_do ::
  "('o, 'r) ctrl_oracle \<Rightarrow> ('o, 'r) ctrl_call \<Rightarrow> ('o, 'r) ctrl_call list \<Rightarrow>
   go_error option \<times> ('o, 'r) ctrl_call list" where
  "ctrl_do ctl call calls = (ctl calls call, calls @ [call])"

text \<open>
  The part that \<open>doWatch\<close> repeats for each of its inputs: the source with the builder's
  predicates before the input's own, watched in the local cluster and handed over for the
  clusters of the provider. The result of the filter for the local cluster is not used.
\<close>

definition input_source ::
  "('o, 'r, 'k) builder_env \<Rightarrow> 'o predicate list \<Rightarrow> 'o \<Rightarrow> ('o, 'r) handler_func \<Rightarrow>
   ('o, 'z) watch_input_scheme \<Rightarrow> ('o, 'r) kind" where
  "input_source E global obj hdler input =
     WithClusterFilter (getClusterFilter (wi_engage input))
       (WithProjection (builder_project E (wi_projection input))
         (TypedKind obj hdler (global @ wi_predicates input)))"

definition do_input ::
  "('o, 'r, 'k) builder_env \<Rightarrow> host_iface \<Rightarrow> ('o, 'r) ctrl_oracle \<Rightarrow> bool \<Rightarrow> 'o predicate list \<Rightarrow>
   'o \<Rightarrow> ('o, 'r) handler_func \<Rightarrow> ('o, 'z) watch_input_scheme \<Rightarrow> ('o, 'r) ctrl_call list \<Rightarrow>
   go_error option \<times> ('o, 'r) ctrl_call list" where
  "do_input E H ctl noProvider global obj hdler input calls =
     (let src = input_source E global obj hdler input;
          (err, calls1) =
            (if Deref (engageWithLocalCluster (wi_engage input)) noProvider
             then (case kind_ForCluster src '''' (host_cluster H) of
                     Inl err \<Rightarrow> (Some err, calls)
                   | Inr (s, _) \<Rightarrow> ctrl_do ctl (WatchLocal s) calls)
             else (None, calls))
      in case err of
           Some e \<Rightarrow> (Some e, calls1)
         | None \<Rightarrow>
             if Deref (engageWithProviderClusters (wi_engage input)) (\<not> noProvider)
             then ctrl_do ctl (WatchClusters src) calls1
             else (None, calls1))"

definition owner_handler ::
  "('o, 'r, 'k) builder_env \<Rightarrow> (('o, Request) event_handler \<Rightarrow> ('o, 'r) event_handler) \<Rightarrow> 'o \<Rightarrow> bool \<Rightarrow>
   ('o, 'r) handler_func" where
  "owner_handler E conv owner every name cl =
     Some (conv (TypedForCluster (be_owner E cl owner (\<not> every)) name))"

fun do_owns ::
  "('o, 'r, 'k) builder_env \<Rightarrow> host_iface \<Rightarrow> ('o, 'r) ctrl_oracle \<Rightarrow> bool \<Rightarrow> 'o predicate list \<Rightarrow>
   (('o, Request) event_handler \<Rightarrow> ('o, 'r) event_handler) \<Rightarrow> 'o \<Rightarrow> 'o OwnsInput list \<Rightarrow>
   ('o, 'r) ctrl_call list \<Rightarrow> go_error option \<times> ('o, 'r) ctrl_call list" where
  "do_owns E H ctl np global conv owner [] calls = (None, calls)"
| "do_owns E H ctl np global conv owner (own # owns) calls =
     (case do_input E H ctl np global (own_object own)
             (owner_handler E conv owner (own_matchEveryOwner own)) own calls of
        (Some e, calls1) \<Rightarrow> (Some e, calls1)
      | (None, calls1) \<Rightarrow> do_owns E H ctl np global conv owner owns calls1)"

fun do_watches ::
  "('o, 'r, 'k) builder_env \<Rightarrow> host_iface \<Rightarrow> ('o, 'r) ctrl_oracle \<Rightarrow> bool \<Rightarrow> 'o predicate list \<Rightarrow>
   ('o, 'r) WatchesInput list \<Rightarrow> ('o, 'r) ctrl_call list \<Rightarrow> go_error option \<times> ('o, 'r) ctrl_call list" where
  "do_watches E H ctl np global [] calls = (None, calls)"
| "do_watches E H ctl np global (w # ws) calls =
     (case do_input E H ctl np global (wa_obj w) (wa_handler w) w calls of
        (Some e, calls1) \<Rightarrow> (Some e, calls1)
      | (None, calls1) \<Rightarrow> do_watches E H ctl np global ws calls1)"

fun do_raw ::
  "('o, 'r) ctrl_oracle \<Rightarrow> source_h list \<Rightarrow> ('o, 'r) ctrl_call list \<Rightarrow>
   go_error option \<times> ('o, 'r) ctrl_call list" where
  "do_raw ctl [] calls = (None, calls)"
| "do_raw ctl (src # srcs) calls =
     (case ctrl_do ctl (WatchRaw src) calls of
        (Some e, calls1) \<Rightarrow> (Some e, calls1)
      | (None, calls1) \<Rightarrow> do_raw ctl srcs calls1)"

text \<open>
  \<open>doWatch\<close>: \<open>For\<close> and \<open>Owns\<close> come first and need the request type of this package, then
  \<open>Watches\<close>, then the raw sources.
\<close>

definition do_for_owns ::
  "('o, 'r, 'k) builder_env \<Rightarrow> host_iface \<Rightarrow> ('o, 'r) ctrl_oracle \<Rightarrow> bool \<Rightarrow> ('o, 'r, 'k) builder \<Rightarrow>
   ('o, 'r) ctrl_call list \<Rightarrow> go_error option \<times> ('o, 'r) ctrl_call list" where
  "do_for_owns E H ctl np b calls =
     (case for_object (forInput b) of
        None \<Rightarrow>
          if ownsInput b \<noteq> [] then (Some (Errorf ''Owns() can only be used together with For()'' [] None), calls)
          else (None, calls)
      | Some obj \<Rightarrow>
          (case be_request E of
             None \<Rightarrow> (Some (Errorf ''For() can only be used with mcreconcile.Request, got %T'' [] None), calls)
           | Some conv \<Rightarrow>
               (case do_input E H ctl np (globalPredicates b) obj
                       (\<lambda>name cl. Some (conv (EnqueueRequestForObject (be_object E) name cl))) (forInput b) calls of
                  (Some e, calls1) \<Rightarrow> (Some e, calls1)
                | (None, calls1) \<Rightarrow>
                    do_owns E H ctl np (globalPredicates b) conv obj (ownsInput b) calls1)))"

definition doWatch ::
  "('o, 'r, 'k) builder_env \<Rightarrow> host_iface \<Rightarrow> ('o, 'r) ctrl_oracle \<Rightarrow> bool \<Rightarrow> ('o, 'r, 'k) builder \<Rightarrow>
   ('o, 'r) ctrl_call list \<Rightarrow> go_error option \<times> ('o, 'r) ctrl_call list" where
  "doWatch E H ctl np b calls =
     (case do_for_owns E H ctl np b calls of
        (Some e, calls1) \<Rightarrow> (Some e, calls1)
      | (None, calls1) \<Rightarrow>
          if watchesInput b = [] \<and> for_object (forInput b) = None \<and> rawSources b = []
          then (Some (Errorf ''there are no watches configured, controller will never get triggered. Use For(), Owns(), Watches() or WatchesRawSource() to set them up'' [] None), calls1)
          else (case do_watches E H ctl np (globalPredicates b) (watchesInput b) calls1 of
                  (Some e, calls2) \<Rightarrow> (Some e, calls2)
                | (None, calls2) \<Rightarrow> do_raw ctl (rawSources b) calls2))"

text \<open>\<open>strings.ToLower\<close> for the ASCII names that kinds have.\<close>

definition lower_char :: "char \<Rightarrow> char" where
  "lower_char c = (let n = of_char c :: nat in if 65 \<le> n \<and> n \<le> 90 then char_of (n + 32) else c)"

definition ToLower :: "string \<Rightarrow> string" where "ToLower s = map lower_char s"

definition getControllerName :: "gvk \<Rightarrow> bool \<Rightarrow> ('o, 'r, 'k) builder \<Rightarrow> go_error + string" where
  "getControllerName g hasGVK b =
     (if bl_name b \<noteq> '''' then Inr (bl_name b)
      else if \<not> hasGVK then Inl (Errorf ''one of For() or Named() must be called'' [] None)
      else Inr (ToLower (gvk_Kind g)))"

text \<open>The default log constructor: it adds the object only to requests of controller-runtime's own type.\<close>

definition defaultLog ::
  "('o, 'r, 'k) builder_env \<Rightarrow> string \<Rightarrow> gvk \<Rightarrow> bool \<Rightarrow> 'r option \<Rightarrow> logger" where
  "defaultLog E name g hasGVK inp =
     be_logger E @ [(''controller'', name)] @
     (if hasGVK then [(''controllerGroup'', gvk_Group g), (''controllerKind'', gvk_Kind g)] else []) @
     (case (be_plain E, inp) of
        (Some key, Some req) \<Rightarrow>
          (if hasGVK then [(gvk_Kind g, nsname_string (key req))] else []) @
          [(''namespace'', nn_namespace (key req)), (''name'', nn_name (key req))]
      | _ \<Rightarrow> [])"

definition doController_options ::
  "('o, 'r, 'k) builder_env \<Rightarrow> (value_ctx, 'r) reconciler \<Rightarrow> gvk \<Rightarrow> bool \<Rightarrow> string \<Rightarrow> ('o, 'r, 'k) builder \<Rightarrow>
   'r ctrl_options" where
  "doController_options E r g hasGVK name b =
     (let o0 = ctrlOptions b
      in \<lparr>op_Reconciler =
            Some (if Deref (enableClusterNotFoundWrapper b) True then ClusterNotFoundWrapper r else r),
          op_MaxConcurrentReconciles =
            (if op_MaxConcurrentReconciles o0 = 0 \<and> hasGVK
             then (case fmlookup (go_GroupKindConcurrency (be_global E)) (be_groupkind E g) of
                     Some n \<Rightarrow> if 0 < n then n else 0
                   | None \<Rightarrow> 0)
             else op_MaxConcurrentReconciles o0),
          op_CacheSyncTimeout =
            (if op_CacheSyncTimeout o0 = 0 \<and> 0 < go_CacheSyncTimeout (be_global E)
             then go_CacheSyncTimeout (be_global E) else op_CacheSyncTimeout o0),
          op_LogConstructor =
            (case op_LogConstructor o0 of Some lc \<Rightarrow> Some lc | None \<Rightarrow> Some (defaultLog E name g hasGVK))\<rparr>)"

definition doController ::
  "('o, 'r, 'k) builder_env \<Rightarrow> host_iface \<Rightarrow> mc_manager \<Rightarrow> (value_ctx, 'r) reconciler \<Rightarrow> ('o, 'r, 'k) builder \<Rightarrow>
   go_error option \<times> ('o, 'r, 'k) builder" where
  "doController E H m r b =
     (if op_Reconciler (ctrlOptions b) \<noteq> None
      then (Some (Errorf ''reconciler was set via WithOptions() and via Build() or Complete()'' [] None), b)
      else
        (let hasGVK = (for_object (forInput b) \<noteq> None)
         in case (case for_object (forInput b) of
                    None \<Rightarrow> Inr \<lparr>gvk_Group = '''', gvk_Version = '''', gvk_Kind = ''''\<rparr>
                  | Some obj \<Rightarrow> be_gvk E (host_cluster H) obj) of
              Inl err \<Rightarrow> (Some err, b)
            | Inr g \<Rightarrow>
                (case getControllerName g hasGVK b of
                   Inl err \<Rightarrow> (Some err, b)
                 | Inr name \<Rightarrow>
                     (let newc = Deref (newController b) (be_new E);
                          (c, err, m') = newc name m (doController_options E r g hasGVK name b)
                      in (err, b\<lparr>newController := Some newc, bl_ctrl := c, bl_mgr := Some m'\<rparr>)))))"

definition no_provider :: "('o, 'r, 'k) builder \<Rightarrow> bool" where
  "no_provider b = (case bl_mgr b of None \<Rightarrow> True | Some m \<Rightarrow> mm_provider m = None)"

definition Build ::
  "('o, 'r, 'k) builder_env \<Rightarrow> host_iface \<Rightarrow> ('o, 'r) ctrl_oracle \<Rightarrow> (value_ctx, 'r) reconciler option \<Rightarrow>
   ('o, 'r, 'k) builder \<Rightarrow> (go_error + 'k option) \<times> ('o, 'r, 'k) builder" where
  "Build E H ctl r b =
     (case r of
        None \<Rightarrow> (Inl (Errorf ''must provide a non-nil Reconciler'' [] None), b)
      | Some r \<Rightarrow>
          (case bl_mgr b of
             None \<Rightarrow> (Inl (Errorf ''must provide a non-nil Manager'' [] None), b)
           | Some m \<Rightarrow>
               (case for_err (forInput b) of
                  Some e \<Rightarrow> (Inl e, b)
                | None \<Rightarrow>
                    (case doController E H m r b of
                       (Some e, b1) \<Rightarrow> (Inl e, b1)
                     | (None, b1) \<Rightarrow>
                         (case doWatch E H ctl (no_provider b1) b1 (bl_calls b1) of
                            (Some e, calls) \<Rightarrow> (Inl e, b1\<lparr>bl_calls := calls\<rparr>)
                          | (None, calls) \<Rightarrow> (Inr (bl_ctrl b1), b1\<lparr>bl_calls := calls\<rparr>))))))"

definition builder_Complete ::
  "('o, 'r, 'k) builder_env \<Rightarrow> host_iface \<Rightarrow> ('o, 'r) ctrl_oracle \<Rightarrow> (value_ctx, 'r) reconciler option \<Rightarrow>
   ('o, 'r, 'k) builder \<Rightarrow> go_error option \<times> ('o, 'r, 'k) builder" where
  "builder_Complete E H ctl r b =
     (case Build E H ctl r b of (Inl e, b') \<Rightarrow> (Some e, b') | (Inr _, b') \<Rightarrow> (None, b'))"

subsection \<open>What a builder is to watch\<close>

text \<open>
  The calls that an input asks for: one for the local cluster, one for the clusters of the
  provider, each by its option or by whether there is a provider.
\<close>

definition input_calls ::
  "('o, 'r, 'k) builder_env \<Rightarrow> host_iface \<Rightarrow> bool \<Rightarrow> ('o, 'r) kind \<Rightarrow> ('o, 'z) watch_input_scheme \<Rightarrow>
   ('o, 'r) ctrl_call list" where
  "input_calls E H np src input =
     (if Deref (engageWithLocalCluster (wi_engage input)) np
      then (case kind_ForCluster src '''' (host_cluster H) of Inl _ \<Rightarrow> [] | Inr (s, _) \<Rightarrow> [WatchLocal s])
      else []) @
     (if Deref (engageWithProviderClusters (wi_engage input)) (\<not> np) then [WatchClusters src] else [])"

definition for_source ::
  "('o, 'r, 'k) builder_env \<Rightarrow> (('o, Request) event_handler \<Rightarrow> ('o, 'r) event_handler) \<Rightarrow>
   ('o, 'r, 'k) builder \<Rightarrow> 'o \<Rightarrow> ('o, 'r) kind" where
  "for_source E conv b obj =
     input_source E (globalPredicates b) obj
       (\<lambda>name cl. Some (conv (TypedLift (be_object E) name cl))) (forInput b)"

definition own_source ::
  "('o, 'r, 'k) builder_env \<Rightarrow> (('o, Request) event_handler \<Rightarrow> ('o, 'r) event_handler) \<Rightarrow>
   ('o, 'r, 'k) builder \<Rightarrow> 'o \<Rightarrow> 'o OwnsInput \<Rightarrow> ('o, 'r) kind" where
  "own_source E conv b owner own =
     input_source E (globalPredicates b) (own_object own)
       (owner_handler E conv owner (own_matchEveryOwner own)) own"

definition watch_source ::
  "('o, 'r, 'k) builder_env \<Rightarrow> ('o, 'r, 'k) builder \<Rightarrow> ('o, 'r) WatchesInput \<Rightarrow> ('o, 'r) kind" where
  "watch_source E b w = input_source E (globalPredicates b) (wa_obj w) (wa_handler w) w"

definition planned ::
  "('o, 'r, 'k) builder_env \<Rightarrow> host_iface \<Rightarrow> bool \<Rightarrow> ('o, 'r, 'k) builder \<Rightarrow> ('o, 'r) ctrl_call list" where
  "planned E H np b =
     (case (for_object (forInput b), be_request E) of
        (Some obj, Some conv) \<Rightarrow>
          input_calls E H np (for_source E conv b obj) (forInput b) @
          concat (map (\<lambda>own. input_calls E H np (own_source E conv b obj own) own) (ownsInput b))
      | _ \<Rightarrow> []) @
     concat (map (\<lambda>w. input_calls E H np (watch_source E b w) w) (watchesInput b)) @
     map WatchRaw (rawSources b)"

subsection \<open>Plans\<close>

text \<open>
  Code that makes calls of a controller and stops at the first error follows a plan: it makes
  the planned calls in order, all of them if it returns nil.
\<close>

definition follows :: "('a list \<Rightarrow> go_error option \<times> 'a list) \<Rightarrow> 'a list \<Rightarrow> bool" where
  "follows f plan \<longleftrightarrow>
     (\<forall>calls err calls'. f calls = (err, calls') \<longrightarrow>
        (\<exists>made rest. calls' = calls @ made \<and> plan = made @ rest \<and> (err = None \<longrightarrow> rest = [])))"

lemma follows_result:
  assumes "follows f plan" and "f calls = (err, calls')"
  obtains made rest where "calls' = calls @ made" and "plan = made @ rest" and "err = None \<Longrightarrow> rest = []"
  using assms unfolding follows_def by blast

lemma follows_nothing: "follows (\<lambda>calls. (err, calls)) [] \<longleftrightarrow> True"
  by (simp add: follows_def)

lemma follows_stop: "follows (\<lambda>calls. (Some e, calls)) plan"
  by (simp add: follows_def)

lemma follows_call: "follows (ctrl_do ctl c) [c]"
  by (simp add: follows_def ctrl_do_def)

lemma follows_seq:
  assumes "follows f p" and "follows g q"
  shows "follows (\<lambda>calls. case f calls of (Some e, calls1) \<Rightarrow> (Some e, calls1) | (None, calls1) \<Rightarrow> g calls1) (p @ q)"
  unfolding follows_def
proof (intro allI impI)
  fix calls err calls'
  assume run: "(case f calls of (Some e, calls1) \<Rightarrow> (Some e, calls1) | (None, calls1) \<Rightarrow> g calls1) = (err, calls')"
  obtain e calls1 where f: "f calls = (e, calls1)" by fastforce
  obtain made rest where fm: "calls1 = calls @ made" "p = made @ rest" "e = None \<Longrightarrow> rest = []"
    using follows_result[OF assms(1) f] by blast
  show "\<exists>made rest. calls' = calls @ made \<and> p @ q = made @ rest \<and> (err = None \<longrightarrow> rest = [])"
  proof (cases e)
    case None
    with run f have "g calls1 = (err, calls')" by simp
    then obtain made' rest' where "calls' = calls1 @ made'" "q = made' @ rest'" "err = None \<Longrightarrow> rest' = []"
      using follows_result[OF assms(2)] by blast
    with fm None show ?thesis by (intro exI[of _ "made @ made'"] exI[of _ rest']) auto
  next
    case (Some x)
    with run f fm show ?thesis by (intro exI[of _ made] exI[of _ "rest @ q"]) auto
  qed
qed

lemmas follows_intros = follows_stop follows_call follows_seq

lemma do_input_follows:
  "follows (do_input E H ctl np global obj h input) (input_calls E H np (input_source E global obj h input) input)"
proof -
  let ?s = "input_source E global obj h input"
  let ?local = "\<lambda>calls. if Deref (engageWithLocalCluster (wi_engage input)) np
     then (case kind_ForCluster ?s '''' (host_cluster H) of
             Inl err \<Rightarrow> (Some err, calls) | Inr (s, _) \<Rightarrow> ctrl_do ctl (WatchLocal s) calls)
     else (None, calls)"
  let ?multi = "\<lambda>calls. if Deref (engageWithProviderClusters (wi_engage input)) (\<not> np)
     then ctrl_do ctl (WatchClusters ?s) calls else (None, calls)"
  have "follows ?local (if Deref (engageWithLocalCluster (wi_engage input)) np
      then (case kind_ForCluster ?s '''' (host_cluster H) of Inl _ \<Rightarrow> [] | Inr (s, _) \<Rightarrow> [WatchLocal s]) else [])"
    by (auto simp: follows_stop follows_call follows_nothing split: sum.splits prod.splits)
  moreover have "follows ?multi (if Deref (engageWithProviderClusters (wi_engage input)) (\<not> np) then [WatchClusters ?s] else [])"
    by (simp add: follows_call follows_nothing)
  ultimately have "follows (\<lambda>calls. case ?local calls of (Some e, c1) \<Rightarrow> (Some e, c1) | (None, c1) \<Rightarrow> ?multi c1)
      (input_calls E H np ?s input)"
    unfolding input_calls_def by (rule follows_seq)
  moreover have "do_input E H ctl np global obj h input =
      (\<lambda>calls. case ?local calls of (Some e, c1) \<Rightarrow> (Some e, c1) | (None, c1) \<Rightarrow> ?multi c1)"
    by (rule ext) (simp add: do_input_def Let_def split: prod.splits option.splits)
  ultimately show ?thesis by simp
qed

lemma do_owns_follows:
  "follows (do_owns E H ctl np (globalPredicates b) conv obj owns)
     (concat (map (\<lambda>own. input_calls E H np (own_source E conv b obj own) own) owns))"
  by (induction owns) (auto simp: follows_nothing own_source_def intro!: follows_seq do_input_follows)

lemma do_watches_follows:
  "follows (do_watches E H ctl np (globalPredicates b) ws)
     (concat (map (\<lambda>w. input_calls E H np (watch_source E b w) w) ws))"
  by (induction ws) (auto simp: follows_nothing watch_source_def intro!: follows_seq do_input_follows)

lemma do_raw_follows: "follows (do_raw ctl srcs) (map WatchRaw srcs)"
proof (induction srcs)
  case (Cons s srcs)
  from follows_seq[OF follows_call Cons.IH] show ?case by simp
qed (simp add: follows_nothing)

lemma do_for_owns_follows:
  "follows (do_for_owns E H ctl np b)
     (case (for_object (forInput b), be_request E) of
        (Some obj, Some conv) \<Rightarrow>
          input_calls E H np (for_source E conv b obj) (forInput b) @
          concat (map (\<lambda>own. input_calls E H np (own_source E conv b obj own) own) (ownsInput b))
      | _ \<Rightarrow> [])"
proof -
  consider "for_object (forInput b) = None" | obj where "for_object (forInput b) = Some obj" "be_request E = None"
    | obj conv where "for_object (forInput b) = Some obj" "be_request E = Some conv" by fastforce
  then show ?thesis
  proof cases
    case (3 obj conv)
    let ?h = "\<lambda>name cl. Some (conv (EnqueueRequestForObject (be_object E) name cl))"
    have src: "for_source E conv b obj = input_source E (globalPredicates b) obj ?h (forInput b)"
      by (simp add: for_source_def EnqueueRequestForObject_def Lift_def)
    show ?thesis
      by (simp add: do_for_owns_def[abs_def] 3 src follows_seq[OF do_input_follows do_owns_follows])
  qed (simp_all add: do_for_owns_def[abs_def] follows_def)
qed

lemma doWatch_follows: "follows (doWatch E H ctl np b) (planned E H np b)"
proof -
  let ?rest = "concat (map (\<lambda>w. input_calls E H np (watch_source E b w) w) (watchesInput b)) @ map WatchRaw (rawSources b)"
  let ?none = "watchesInput b = [] \<and> for_object (forInput b) = None \<and> rawSources b = []"
  let ?go = "\<lambda>calls. if ?none
      then (Some (Errorf ''there are no watches configured, controller will never get triggered. Use For(), Owns(), Watches() or WatchesRawSource() to set them up'' [] None), calls)
      else (case do_watches E H ctl np (globalPredicates b) (watchesInput b) calls of
              (Some e, calls2) \<Rightarrow> (Some e, calls2) | (None, calls2) \<Rightarrow> do_raw ctl (rawSources b) calls2)"
  have "follows ?go ?rest"
  proof (cases ?none)
    case True
    then show ?thesis by (simp add: follows_stop)
  next
    case False
    show ?thesis
      by (simp only: False if_False follows_seq[OF do_watches_follows do_raw_follows])
  qed
  from follows_seq[OF do_for_owns_follows this] show ?thesis
    unfolding doWatch_def[abs_def] planned_def .
qed

text \<open>What \<open>doController\<close> leaves alone: what is to be watched.\<close>

lemma doController_keeps:
  assumes "doController E H m r b = (err, b1)"
  shows "bl_calls b1 = bl_calls b \<and> planned E H np b1 = planned E H np b \<and> ownsInput b1 = ownsInput b \<and>
    forInput b1 = forInput b \<and> watchesInput b1 = watchesInput b \<and> rawSources b1 = rawSources b"
  using assms
  by (auto simp: doController_def Let_def planned_def for_source_def own_source_def watch_source_def
      split: if_splits sum.splits prod.splits option.splits)

lemma Build_cases:
  assumes "Build E H ctl r b = (res, b')"
  obtains (early) e where "res = Inl e" "b' = b"
  | (controller) m rc e where "r = Some rc" "bl_mgr b = Some m" "doController E H m rc b = (Some e, b')" "res = Inl e"
  | (watched) m rc b1 err calls where "r = Some rc" "bl_mgr b = Some m" "for_err (forInput b) = None"
      "doController E H m rc b = (None, b1)"
      "doWatch E H ctl (no_provider b1) b1 (bl_calls b1) = (err, calls)" "b' = b1\<lparr>bl_calls := calls\<rparr>"
      "res = (case err of None \<Rightarrow> Inr (bl_ctrl b1) | Some e \<Rightarrow> Inl e)"
proof (cases r)
  case None
  with assms show thesis by (intro early) (auto simp: Build_def)
next
  case (Some rc)
  show thesis
  proof (cases "bl_mgr b")
    case None
    with assms Some show thesis by (intro early) (auto simp: Build_def)
  next
    case m: (Some m)
    show thesis
    proof (cases "for_err (forInput b)")
      case None
      obtain e b1 where ctl: "doController E H m rc b = (e, b1)" by fastforce
      obtain err calls where watch: "doWatch E H ctl (no_provider b1) b1 (bl_calls b1) = (err, calls)" by fastforce
      show thesis
      proof (cases e)
        case e: None
        from assms Some m None ctl watch e show thesis
          by (intro watched[OF Some m None _ watch]) (auto simp: Build_def split: option.splits)
      next
        case e: (Some x)
        from assms Some m None ctl e show thesis by (intro controller[OF Some m, of x]) (auto simp: Build_def)
      qed
    next
      case e: (Some e)
      with assms Some m show thesis by (intro early[of e]) (auto simp: Build_def)
    qed
  qed
qed

lemma Build_plan:
  assumes "Build E H ctl r b = (res, b')" and "bl_calls b = []"
  shows "\<exists>rest. planned E H (no_provider b') b = bl_calls b' @ rest \<and> (\<forall>c. res = Inr c \<longrightarrow> rest = [])"
  using assms(1)
proof (cases rule: Build_cases)
  case (controller m rc e)
  with doController_keeps[OF controller(3)] assms(2) show ?thesis by auto
next
  case (watched m rc b1 err calls)
  have keep: "bl_calls b1 = [] \<and> planned E H np b1 = planned E H np b" for np
    using doController_keeps[OF watched(4)] assms(2) by auto
  have np: "no_provider b' = no_provider b1" using watched(6) by (simp add: no_provider_def)
  obtain made rest where "calls = bl_calls b1 @ made" "planned E H (no_provider b1) b1 = made @ rest"
    "err = None \<Longrightarrow> rest = []"
    using follows_result[OF doWatch_follows watched(5)] by blast
  with keep watched(6,7) np show ?thesis by (cases err) auto
qed (use assms(2) in auto)

subsection \<open>Properties\<close>

text \<open>
  C19: a built controller watches what the builder was told, no more and no less. When
  \<open>Build\<close> returns a controller, the calls it made are those for \<open>For\<close>, each \<open>Owns\<close>, each
  \<open>Watches\<close> and the raw sources, in this order; an input is watched in the local cluster or in the
  clusters of the provider by its options, and without options by whether the manager has a
  provider. When \<open>Build\<close> fails, it made an initial part of these calls.
\<close>

theorem Build_watches_as_planned:
  assumes "Build E H ctl r b = (res, b')" and "bl_calls b = []"
  shows "\<exists>rest. planned E H (no_provider b') b = bl_calls b' @ rest \<and> (\<forall>c. res = Inr c \<longrightarrow> rest = [])"
  using assms by (rule Build_plan)

text \<open>A small builder and its environment, for concrete runs.\<close>

definition demo_plain_handler :: "(nat, nsname) event_handler" where
  "demo_plain_handler = (let p = Call (QAdd (NsName ''ns'' ''a'')) (\<lambda>_. Return)
     in \<lparr>h_Create = (\<lambda>_ _. p), h_Update = (\<lambda>_ _ _. p), h_Delete = (\<lambda>_ _. p), h_Generic = (\<lambda>_ _. p)\<rparr>)"

definition demo_builder_env :: "(nat, Request, nat) builder_env" where
  "demo_builder_env =
     \<lparr>be_gvk = (\<lambda>_ _. Inr \<lparr>gvk_Group = ''apps'', gvk_Version = ''v1'', gvk_Kind = ''Deployment''\<rparr>),
      be_partial = (\<lambda>_. 0), be_groupkind = gvk_Kind, be_object = demo_plain_handler, be_owner = (\<lambda>_ _ _. demo_plain_handler),
      be_request = Some id, be_plain = None,
      be_global = \<lparr>go_GroupKindConcurrency = fmempty, go_CacheSyncTimeout = 0\<rparr>, be_logger = [],
      be_new = (\<lambda>name m opts. (Some 1, None, m))\<rparr>"

definition demo_host :: host_iface where
  "demo_host = \<lparr>host_cluster = 1, host_add = (\<lambda>_. None), host_index = (\<lambda>_. None), host_start = (\<lambda>_. None)\<rparr>"

definition demo_builder :: "(nat, Request, nat) builder" where
  "demo_builder = WatchesRawSource 5 (Owns 2 [] (For (Some 1) []
     (ControllerManagedBy (Some \<lparr>mm_provider = None, mm_coord = None, mm_added = []\<rparr>))))"

abbreviation demo_build :: "(go_error + nat option) \<times> (nat, Request, nat) builder" where
  "demo_build \<equiv> Build demo_builder_env demo_host (\<lambda>_ _. None) (Some (\<lambda>_ _. (zero_Result, None))) demo_builder"

lemmas demo_builder_simps =
  demo_builder_def demo_builder_env_def demo_host_def WatchesRawSource_def Owns_def For_def ControllerManagedBy_def
  TypedControllerManagedBy_def for_input_def apply_options_def no_engage_def

lemmas build_simps =
  Build_def doController_def getControllerName_def Let_def Deref_def no_provider_def doWatch_def do_for_owns_def
  do_input_def input_source_def kind_ForCluster_def WithClusterFilter_def WithProjection_def TypedKind_def
  builder_project_def ctrl_do_def

lemma demo_build_result: "fst demo_build = Inr (Some 1)" "no_provider (snd demo_build)" "length (bl_calls (snd demo_build)) = 3"
  by (simp_all add: demo_builder_simps build_simps)

theorem Build_watches_as_planned_witness:
  "planned demo_builder_env demo_host True demo_builder = bl_calls (snd demo_build) \<and>
   length (bl_calls (snd demo_build)) = 3"
  using Build_watches_as_planned[of demo_builder_env demo_host "\<lambda>_ _. None" "Some (\<lambda>_ _. (zero_Result, None))"
      demo_builder "fst demo_build" "snd demo_build"] demo_build_result
  by (simp add: demo_builder_simps)

subsection \<open>When a controller is built\<close>

text \<open>The rules a caller of the builder has to keep.\<close>

definition well_configured ::
  "('o, 'r, 'k) builder_env \<Rightarrow> (value_ctx, 'r) reconciler option \<Rightarrow> ('o, 'r, 'k) builder \<Rightarrow> bool" where
  "well_configured E r b \<longleftrightarrow>
     r \<noteq> None \<and> bl_mgr b \<noteq> None \<and> for_err (forInput b) = None \<and> op_Reconciler (ctrlOptions b) = None \<and>
     (bl_name b \<noteq> '''' \<or> for_object (forInput b) \<noteq> None) \<and>
     (for_object (forInput b) \<noteq> None \<longrightarrow> be_request E \<noteq> None) \<and>
     (ownsInput b \<noteq> [] \<longrightarrow> for_object (forInput b) \<noteq> None) \<and>
     (watchesInput b \<noteq> [] \<or> for_object (forInput b) \<noteq> None \<or> rawSources b \<noteq> [])"

text \<open>An environment in which no call fails.\<close>

definition benign :: "('o, 'r, 'k) builder_env \<Rightarrow> ('o, 'r) ctrl_oracle \<Rightarrow> ('o, 'r, 'k) builder \<Rightarrow> bool" where
  "benign E ctl b \<longleftrightarrow>
     (\<forall>calls c. ctl calls c = None) \<and> (\<forall>cl ob. \<exists>g. be_gvk E cl ob = Inr g) \<and>
     (\<forall>name m opts. fst (snd (Deref (newController b) (be_new E) name m opts)) = None)"

lemma do_input_ok:
  assumes "\<forall>calls c. ctl calls c = None" and "\<forall>cl ob. \<exists>g. be_gvk E cl ob = Inr g"
  shows "fst (do_input E H ctl np global obj h input calls) = None"
proof -
  have "\<exists>ob. builder_project E (wi_projection input) cl obj = Inr ob" for cl
    using assms(2)[rule_format, of cl obj] by (cases "wi_projection input") (auto simp: builder_project_def)
  then have "\<exists>x. kind_ForCluster (input_source E global obj h input) '''' (host_cluster H) = Inr x"
    by (simp add: kind_ForCluster_def input_source_def WithClusterFilter_def WithProjection_def TypedKind_def
        Let_def split: sum.splits) (metis sum.distinct(1))
  with assms(1) show ?thesis
    by (auto simp: do_input_def ctrl_do_def Let_def split: prod.splits option.splits sum.splits if_splits)
qed

lemma do_owns_ok:
  assumes "\<forall>calls c. ctl calls c = None" and "\<forall>cl ob. \<exists>g. be_gvk E cl ob = Inr g"
  shows "fst (do_owns E H ctl np global conv obj owns calls) = None"
proof (induction owns arbitrary: calls)
  case (Cons own owns)
  obtain x calls1 where d: "do_input E H ctl np global (own_object own)
      (owner_handler E conv obj (own_matchEveryOwner own)) own calls = (x, calls1)" by fastforce
  from do_input_ok[OF assms, where H = H and np = np and global = global and obj = "own_object own" and
      h = "owner_handler E conv obj (own_matchEveryOwner own)" and input = own and calls = calls]
  have "x = None" unfolding d by simp
  with d Cons.IH show ?case by simp
qed simp

lemma do_watches_ok:
  assumes "\<forall>calls c. ctl calls c = None" and "\<forall>cl ob. \<exists>g. be_gvk E cl ob = Inr g"
  shows "fst (do_watches E H ctl np global ws calls) = None"
proof (induction ws arbitrary: calls)
  case (Cons w ws)
  obtain x calls1 where d: "do_input E H ctl np global (wa_obj w) (wa_handler w) w calls = (x, calls1)" by fastforce
  from do_input_ok[OF assms, where H = H and np = np and global = global and obj = "wa_obj w" and
      h = "wa_handler w" and input = w and calls = calls]
  have "x = None" unfolding d by simp
  with d Cons.IH show ?case by simp
qed simp

lemma do_raw_ok: "\<forall>calls c. ctl calls c = None \<Longrightarrow> fst (do_raw ctl srcs calls) = None"
  by (induction srcs arbitrary: calls) (simp_all add: ctrl_do_def)

lemma case_error_ok: "fst x = None \<Longrightarrow> (case x of (Some e, c) \<Rightarrow> (Some e, c) | (None, c) \<Rightarrow> g c) = g (snd x)"
  by (cases x) simp

lemma doWatch_ok_iff:
  assumes ctl: "\<forall>calls c. ctl calls c = None" and gvk: "\<forall>cl ob. \<exists>g. be_gvk E cl ob = Inr g"
  shows "fst (doWatch E H ctl np b calls) = None \<longleftrightarrow>
    (for_object (forInput b) \<noteq> None \<longrightarrow> be_request E \<noteq> None) \<and>
    (ownsInput b \<noteq> [] \<longrightarrow> for_object (forInput b) \<noteq> None) \<and>
    (watchesInput b \<noteq> [] \<or> for_object (forInput b) \<noteq> None \<or> rawSources b \<noteq> [])"
proof -
  note ok = do_input_ok[OF ctl gvk] do_owns_ok[OF ctl gvk] do_watches_ok[OF ctl gvk] do_raw_ok[OF ctl]
  have first: "fst (do_for_owns E H ctl np b calls) = None \<longleftrightarrow>
      (for_object (forInput b) \<noteq> None \<longrightarrow> be_request E \<noteq> None) \<and>
      (ownsInput b \<noteq> [] \<longrightarrow> for_object (forInput b) \<noteq> None)"
    by (cases "for_object (forInput b)"; cases "be_request E") (simp_all add: do_for_owns_def case_error_ok ok)
  show ?thesis
  proof (cases "fst (do_for_owns E H ctl np b calls)")
    case None
    then show ?thesis using first by (simp add: doWatch_def case_error_ok ok)
  next
    case (Some e)
    then obtain c where "do_for_owns E H ctl np b calls = (Some e, c)" by (cases "do_for_owns E H ctl np b calls") auto
    with Some first show ?thesis by (auto simp: doWatch_def)
  qed
qed

lemma doController_ok_iff:
  assumes "benign E ctl b"
  shows "fst (doController E H m r b) = None \<longleftrightarrow>
    op_Reconciler (ctrlOptions b) = None \<and> (bl_name b \<noteq> '''' \<or> for_object (forInput b) \<noteq> None)"
proof -
  obtain g where g: "(case for_object (forInput b) of
      None \<Rightarrow> Inr \<lparr>gvk_Group = '''', gvk_Version = '''', gvk_Kind = ''''\<rparr>
    | Some obj \<Rightarrow> be_gvk E (host_cluster H) obj) = Inr g"
    using assms unfolding benign_def by (cases "for_object (forInput b)") (simp, metis option.simps(5))
  have "fst (case Deref (newController b) (be_new E) name m opts of (c, err, m') \<Rightarrow> (err, f c m')) = None"
    for name opts and f :: "'c option \<Rightarrow> mc_manager \<Rightarrow> ('a, 'b, 'c) builder"
    using assms unfolding benign_def by (auto split: prod.splits) (metis fst_conv snd_conv)
  with g show ?thesis
    by (auto simp: doController_def getControllerName_def Let_def)
qed

text \<open>
  \<open>Build\<close> fails exactly for the reasons it names. Where no call of other code fails, it
  returns a controller if and only if the reconciler and the manager are given, \<open>For\<close> was called at
  most once and only with the request type of this package, the reconciler was not set a
  second time through the options, there is a name or an object to take it from, \<open>Owns\<close> comes with
  \<open>For\<close>, and something is watched.
\<close>

theorem Build_succeeds_iff:
  assumes "benign E ctl b"
  shows "(\<exists>c. fst (Build E H ctl r b) = Inr c) \<longleftrightarrow> well_configured E r b"
proof (cases "r \<noteq> None \<and> bl_mgr b \<noteq> None \<and> for_err (forInput b) = None")
  case True
  then obtain rc m where rc: "r = Some rc" "bl_mgr b = Some m" "for_err (forInput b) = None" by auto
  obtain e b1 where d: "doController E H m rc b = (e, b1)" by fastforce
  obtain err calls where w: "doWatch E H ctl (no_provider b1) b1 (bl_calls b1) = (err, calls)" by fastforce
  have "e = None \<longleftrightarrow> op_Reconciler (ctrlOptions b) = None \<and> (bl_name b \<noteq> '''' \<or> for_object (forInput b) \<noteq> None)"
    using doController_ok_iff[OF assms, of H m rc] d by simp
  moreover have "err = None \<longleftrightarrow> (for_object (forInput b) \<noteq> None \<longrightarrow> be_request E \<noteq> None) \<and>
      (ownsInput b \<noteq> [] \<longrightarrow> for_object (forInput b) \<noteq> None) \<and>
      (watchesInput b \<noteq> [] \<or> for_object (forInput b) \<noteq> None \<or> rawSources b \<noteq> [])"
    using doWatch_ok_iff[of ctl E H "no_provider b1" b1 "bl_calls b1"] w assms doController_keeps[OF d]
    by (simp add: benign_def)
  moreover have "(\<exists>c. fst (Build E H ctl r b) = Inr c) \<longleftrightarrow> e = None \<and> err = None"
    using rc d w by (cases e; cases err) (simp_all add: Build_def)
  ultimately show ?thesis using rc by (simp add: well_configured_def)
next
  case False
  then show ?thesis by (auto simp: Build_def well_configured_def split: option.splits)
qed

theorem Build_succeeds_iff_witness:
  "(\<exists>c. fst demo_build = Inr c) = well_configured demo_builder_env (Some (\<lambda>_ _. (zero_Result, None))) demo_builder \<and>
   fst demo_build = Inr (Some 1)"
proof -
  have "benign demo_builder_env (\<lambda>_ _. None) demo_builder"
    by (simp add: benign_def demo_builder_simps Deref_def)
  from Build_succeeds_iff[OF this, of demo_host "Some (\<lambda>_ _. (zero_Result, None))"] demo_build_result(1)
  show ?thesis by simp
qed

subsection \<open>From the builder to the queue\<close>

lemma clusterHandler_delivers:
  assumes "ef_handler f = clusterHandler h n"
    and "Handled p \<in> {AddFunc S f i, UpdateFunc S f i j, DeleteFunc S f i}"
  shows "\<exists>p0. p = wrap_queue (clusterQueue n) clusterQueue_ret p0"
proof -
  have "p = h_Create (ef_handler f) (ef_ctx f) a \<Longrightarrow> ?thesis" "p = h_Update (ef_handler f) (ef_ctx f) a b \<Longrightarrow> ?thesis"
    "p = h_Delete (ef_handler f) (ef_ctx f) a \<Longrightarrow> ?thesis" for a b
    unfolding assms(1) by (auto simp: wrapped_handlers)
  with assms(2) show ?thesis
    by (auto simp: AddFunc_def UpdateFunc_def DeleteFunc_def split: if_splits informer_obj.splits)
qed

lemma kind_ForCluster_result:
  assumes "kind_ForCluster src n cl = Inr (ck, should)"
  shows "ck_clusterName ck = n \<and> ck_h ck = k_handler src"
  using assms by (cases "k_project src cl (k_obj src)") (auto simp: kind_ForCluster_def Let_def)

lemma source_requests_stamped:
  assumes src: "\<forall>n cl. \<exists>h. k_handler src n cl = Some (clusterHandler h n)" and ck: "kind_ForCluster src n m = Inr (ck, should)"
    and f: "buildEventHandler g cx ck = Inr f" and p: "Handled p \<in> {AddFunc S f i, UpdateFunc S f i j, DeleteFunc S f i}"
    and c: "c \<in> set (run_prog q p [])" "call_item c = Some req"
  shows "Request_Cluster req = n"
proof -
  have "ck_clusterName ck = n" and "\<exists>h. ck_h ck n (ck_cl ck) = Some (clusterHandler h n)"
    using src kind_ForCluster_result[OF ck] by metis+
  then obtain h where "ef_handler f = clusterHandler h n"
    using f by (auto simp: buildEventHandler_def split: option.splits)
  from clusterHandler_delivers[OF this p] obtain p0 where "p = wrap_queue (clusterQueue n) clusterQueue_ret p0" ..
  with c liftQueue.run_wrapped_stamped[of c q n p0 "[]" req] show ?thesis by simp
qed

text \<open>A cluster's source that a built controller was given, for the local cluster or for another one.\<close>

definition watched_in :: "('o, 'r, 'k) builder \<Rightarrow> cluster_name \<Rightarrow> cluster_h \<Rightarrow> ('o, 'r) clusterKind \<Rightarrow> bool" where
  "watched_in b n cl ck \<longleftrightarrow>
     WatchLocal ck \<in> set (bl_calls b) \<and> n = '''' \<or>
     (\<exists>src should. WatchClusters src \<in> set (bl_calls b) \<and> kind_ForCluster src n cl = Inr (ck, should))"

lemma input_calls_source:
  assumes "c \<in> set (input_calls E H np src input)"
  shows "c = WatchClusters src \<or>
    (\<exists>ck should. c = WatchLocal ck \<and> kind_ForCluster src '''' (host_cluster H) = Inr (ck, should))"
proof (cases "kind_ForCluster src '''' (host_cluster H)")
  case (Inl e)
  then have "input_calls E H np src input =
      (if Deref (engageWithProviderClusters (wi_engage input)) (\<not> np) then [WatchClusters src] else [])"
    by (simp add: input_calls_def)
  with assms show ?thesis by (simp split: if_splits)
next
  case (Inr x)
  obtain ck should where x: "x = (ck, should)" by fastforce
  with Inr have "input_calls E H np src input =
      (if Deref (engageWithLocalCluster (wi_engage input)) np then [WatchLocal ck] else []) @
      (if Deref (engageWithProviderClusters (wi_engage input)) (\<not> np) then [WatchClusters src] else [])"
    by (simp add: input_calls_def)
  with assms Inr x show ?thesis by (auto split: if_splits)
qed

lemma for_owns_handler:
  assumes "src = for_source E conv b obj \<or> src = own_source E conv b obj own" and "conv = id"
  shows "\<exists>h. k_handler src n cl = Some (clusterHandler h n)"
  using assms
  by (auto simp: for_source_def own_source_def input_source_def WithClusterFilter_def WithProjection_def
      TypedKind_def owner_handler_def TypedForCluster_def TypedLift_def)

lemma planned_for_owns:
  assumes "c \<in> set (planned E H np b)" and "be_request E = Some conv" and "conv = id" and "watchesInput b = []"
    and "\<And>s. c \<noteq> WatchRaw s"
  shows "\<exists>src. (\<forall>n cl. \<exists>h. k_handler src n cl = Some (clusterHandler h n)) \<and>
    (c = WatchClusters src \<or> (\<exists>ck should. c = WatchLocal ck \<and> kind_ForCluster src '''' (host_cluster H) = Inr (ck, should)))"
proof -
  from assms(1,2,4,5) obtain obj own where
    "c \<in> set (input_calls E H np (for_source E conv b obj) (forInput b)) \<or>
     c \<in> set (input_calls E H np (own_source E conv b obj own) own)"
    by (auto simp: planned_def split: option.splits)
  then show ?thesis
  proof
    assume "c \<in> set (input_calls E H np (for_source E conv b obj) (forInput b))"
    from input_calls_source[OF this] show ?thesis
      using for_owns_handler[of "for_source E conv b obj" E conv b obj, OF disjI1[OF refl] assms(3)] by blast
  next
    assume "c \<in> set (input_calls E H np (own_source E conv b obj own) own)"
    from input_calls_source[OF this] show ?thesis
      using for_owns_handler[of "own_source E conv b obj own" E conv b obj own, OF disjI2[OF refl] assms(3)] by blast
  qed
qed

text \<open>
  C20: Requests come from the cluster of their event. In a controller built with \<open>For\<close> and
  \<open>Owns\<close> for the requests of this package, whatever a handler puts on the queue for an event
  (created, updated or deleted, a tombstone included) carries the name of the cluster whose source
  delivered the event, and the empty name for the local cluster.
\<close>

theorem built_requests_on_their_cluster:
  assumes "Build E H ctl r b = (res, b')" and "bl_calls b = []" and "be_request E = Some id"
    and "watchesInput b = []" and "watched_in b' n cl ck" and "buildEventHandler g cx ck = Inr f"
    and "Handled p \<in> {AddFunc S f i, UpdateFunc S f i j, DeleteFunc S f i}"
    and "c \<in> set (run_prog q p [])" and "call_item c = Some req"
  shows "Request_Cluster req = n"
proof -
  have plan: "x \<in> set (planned E H (no_provider b') b)" if "x \<in> set (bl_calls b')" for x
    using Build_plan[OF assms(1,2)] that by auto
  have own: "\<exists>src. (\<forall>n cl. \<exists>h. k_handler src n cl = Some (clusterHandler h n)) \<and>
      (x = WatchClusters src \<or> (\<exists>ck should. x = WatchLocal ck \<and> kind_ForCluster src '''' (host_cluster H) = Inr (ck, should)))"
    if "x \<in> set (bl_calls b')" "\<And>s. x \<noteq> WatchRaw s" for x
    using planned_for_owns[OF plan[OF that(1)] assms(3) refl assms(4) that(2)] .
  obtain src m should where src: "\<forall>n cl. \<exists>h. k_handler src n cl = Some (clusterHandler h n)"
    and ck: "kind_ForCluster src n m = Inr (ck, should)"
    using assms(5) own unfolding watched_in_def by (elim disjE) (force, force)
  then show ?thesis by (rule source_requests_stamped[OF _ _ assms(6-9)])
qed

theorem built_requests_on_their_cluster_witness:
  "Request_Cluster (on_cluster '''' (NsName ''ns'' ''a'')) = ''''"
proof -
  let ?h = "\<lambda>name cl. Some (id (EnqueueRequestForObject demo_plain_handler name cl))"
  let ?ck = "\<lparr>ck_clusterName = '''', ck_cl = 1, ck_obj = 1, ck_h = ?h, ck_preds = [], ck_resync = 0,
      ck_registration = None, ck_activeCtx = None\<rparr>"
  let ?f = "\<lparr>ef_ctx = 0, ef_handler = the (?h '''' 1), ef_preds = []\<rparr>"
  let ?p = "h_Create (the (?h '''' 1)) 0 7"
  show ?thesis
  proof (rule built_requests_on_their_cluster)
    show "demo_build = (fst demo_build, snd demo_build)" by simp
    show "bl_calls demo_builder = []" "watchesInput demo_builder = []" "be_request demo_builder_env = Some id"
      by (simp_all add: demo_builder_simps)
    show "watched_in (snd demo_build) '''' 1 ?ck"
      by (simp add: watched_in_def demo_builder_simps build_simps)
    show "buildEventHandler ''g'' 0 ?ck = Inr ?f" by (simp add: buildEventHandler_def)
    show "Handled ?p \<in> {AddFunc [(None, False)] ?f (IObj 7), UpdateFunc [(None, False)] ?f (IObj 7) (IObj 7),
        DeleteFunc [(None, False)] ?f (IObj 7)}"
      by (simp add: AddFunc_def passCreate_def ctx_err.simps)
    show "QAdd (on_cluster '''' (NsName ''ns'' ''a'')) \<in> set (run_prog (\<lambda>_ _. RNothing) ?p [])"
      by (simp add: EnqueueRequestForObject_def Lift_def TypedLift_def wrapped_handlers demo_plain_handler_def)
  qed simp
qed

end
