(* ===== verification/Webhook.thy ===== *)
theory Webhook
  imports Builder
begin

text \<open>
  \<open>pkg/builder/forked_webhook.go\<close>: the builder of admission and conversion webhooks. Objects,
  defaulters, validators and converters are handles. The webhook server is other code: its
  state is what was registered with it, in order, and its mux, the scheme and the converter
  registry are the environment.
\<close>

subsection \<open>State\<close>

type_synonym object_h = nat

record admission_request =
  rq_Name :: nsname
  rq_Resource :: string
  rq_User :: string
  rq_UID :: string

text \<open>
  A log constructor is the default one, a closure that reads the builder's kind when it is
  called, or one that was set.
\<close>

datatype log_constructor =
    DefaultLogConstructor
  | UserLogConstructor "logger \<Rightarrow> admission_request option \<Rightarrow> logger"

record webhook_builder =
  wh_apiType :: "object_h option"
  wh_customDefaulter :: "nat option"
  wh_defaulter :: "nat option"
  wh_customDefaulterOpts :: "nat list"
  wh_customValidator :: "nat option"
  wh_validator :: "nat option"
  wh_customValidatorCustomPath :: string
  wh_customDefaulterCustomPath :: string
  wh_converterConstructor :: "nat option"
  wh_gvk :: gvk
  wh_config :: "nat option"
  wh_recoverPanic :: "bool option"
  wh_logConstructor :: "log_constructor option"
  wh_contextFunc :: "nat option"
  wh_err :: "go_error option"

text \<open>What \<open>admission.WithDefaulter\<close> and its siblings, and \<open>conversion.NewWebhookHandler\<close>, make.\<close>

datatype webhook_kind =
    Defaulter nat "nat list"
  | CustomDefaulter object_h nat "nat list"
  | Validator nat
  | CustomValidator object_h nat
  | Conversion

record webhook =
  hk_kind :: webhook_kind
  hk_recoverPanic :: "bool option"
  hk_log :: "log_constructor option"
  hk_context :: "nat option"

text \<open>
  \<open>we_mux\<close> is nil, or what its \<open>Handler\<close> returns for a path: whether there is a handler, and
  the pattern that matched.
\<close>

type_synonym server = "(string \<times> webhook) list"

record webhook_env =
  we_gvk :: "object_h \<Rightarrow> gvk \<times> go_error option"
  we_config :: nat
  we_mux :: "server \<Rightarrow> string \<Rightarrow> (bool \<times> string) option"
  we_converter :: "nat \<Rightarrow> go_error + nat"
  we_register :: "gvk \<Rightarrow> nat \<Rightarrow> go_error option"
  we_convertible :: "object_h \<Rightarrow> go_error + bool"

subsection \<open>Builder methods\<close>

definition WebhookManagedBy :: "object_h option \<Rightarrow> webhook_builder" where
  "WebhookManagedBy object =
     \<lparr>wh_apiType = object, wh_customDefaulter = None, wh_defaulter = None, wh_customDefaulterOpts = [],
      wh_customValidator = None, wh_validator = None, wh_customValidatorCustomPath = '''',
      wh_customDefaulterCustomPath = '''', wh_converterConstructor = None,
      wh_gvk = \<lparr>gvk_Group = '''', gvk_Version = '''', gvk_Kind = ''''\<rparr>, wh_config = None,
      wh_recoverPanic = None, wh_logConstructor = None, wh_contextFunc = None, wh_err = None\<rparr>"

definition WithCustomDefaulter :: "nat option \<Rightarrow> nat list \<Rightarrow> webhook_builder \<Rightarrow> webhook_builder" where
  "WithCustomDefaulter defaulter opts b = b\<lparr>wh_customDefaulter := defaulter, wh_customDefaulterOpts := opts\<rparr>"

definition WithDefaulter :: "nat option \<Rightarrow> nat list \<Rightarrow> webhook_builder \<Rightarrow> webhook_builder" where
  "WithDefaulter defaulter opts b = b\<lparr>wh_defaulter := defaulter, wh_customDefaulterOpts := opts\<rparr>"

definition WithCustomValidator :: "nat option \<Rightarrow> webhook_builder \<Rightarrow> webhook_builder" where
  "WithCustomValidator validator b = b\<lparr>wh_customValidator := validator\<rparr>"

definition WithValidator :: "nat option \<Rightarrow> webhook_builder \<Rightarrow> webhook_builder" where
  "WithValidator validator b = b\<lparr>wh_validator := validator\<rparr>"

definition WithConverter :: "nat option \<Rightarrow> webhook_builder \<Rightarrow> webhook_builder" where
  "WithConverter c b = b\<lparr>wh_converterConstructor := c\<rparr>"

definition webhook_WithLogConstructor :: "log_constructor option \<Rightarrow> webhook_builder \<Rightarrow> webhook_builder" where
  "webhook_WithLogConstructor lc b = b\<lparr>wh_logConstructor := lc\<rparr>"

definition WithContextFunc :: "nat option \<Rightarrow> webhook_builder \<Rightarrow> webhook_builder" where
  "WithContextFunc f b = b\<lparr>wh_contextFunc := f\<rparr>"

definition RecoverPanic :: "bool \<Rightarrow> webhook_builder \<Rightarrow> webhook_builder" where
  "RecoverPanic r b = b\<lparr>wh_recoverPanic := Some r\<rparr>"

definition WithValidatorCustomPath :: "string \<Rightarrow> webhook_builder \<Rightarrow> webhook_builder" where
  "WithValidatorCustomPath p b = b\<lparr>wh_customValidatorCustomPath := p\<rparr>"

definition WithDefaulterCustomPath :: "string \<Rightarrow> webhook_builder \<Rightarrow> webhook_builder" where
  "WithDefaulterCustomPath p b = b\<lparr>wh_customDefaulterCustomPath := p\<rparr>"

subsection \<open>Paths\<close>

text \<open>\<open>strings.ReplaceAll(group, ".", "-")\<close>.\<close>

definition dashed :: "string \<Rightarrow> string" where
  "dashed s = map (\<lambda>c. if c = CHR ''.'' then CHR ''-'' else c) s"

definition generateMutatePath :: "gvk \<Rightarrow> string" where
  "generateMutatePath g =
     ''/mutate-'' @ dashed (gvk_Group g) @ ''-'' @ gvk_Version g @ ''-'' @ ToLower (gvk_Kind g)"

definition generateValidatePath :: "gvk \<Rightarrow> string" where
  "generateValidatePath g =
     ''/validate-'' @ dashed (gvk_Group g) @ ''-'' @ gvk_Version g @ ''-'' @ ToLower (gvk_Kind g)"

text \<open>
  The match of \<open>webhookPathStringValidation\<close>, one or more slashes each followed by one or more
  word characters, or a single slash. The flag says whether the segment has a character.
\<close>

definition path_char :: "char \<Rightarrow> bool" where
  "path_char c \<longleftrightarrow>
     (let n = of_char c :: nat
      in 97 \<le> n \<and> n \<le> 122 \<or> 65 \<le> n \<and> n \<le> 90 \<or> 48 \<le> n \<and> n \<le> 57 \<or> n = 45 \<or> n = 95)"

fun match_segments :: "bool \<Rightarrow> string \<Rightarrow> bool" where
  "match_segments some [] = some"
| "match_segments some (c # cs) =
     (if path_char c then match_segments True cs
      else c = CHR ''/'' \<and> some \<and> match_segments False cs)"

fun validWebhookPath :: "string \<Rightarrow> bool" where
  "validWebhookPath [] = False"
| "validWebhookPath (c # cs) = (c = CHR ''/'' \<and> (cs = [] \<or> match_segments False cs))"

definition generateCustomPath :: "string \<Rightarrow> go_error + string" where
  "generateCustomPath customPath =
     (if \<not> validWebhookPath customPath
      then Inl (Errorf ''customPath %q does not match this regex: ^((/[a-zA-Z0-9-_]+)+|/)$'' [customPath] None)
      else Inr customPath)"

subsection \<open>Registration\<close>

definition isAlreadyHandled :: "webhook_env \<Rightarrow> server \<Rightarrow> string \<Rightarrow> bool" where
  "isAlreadyHandled E srv path =
     (case we_mux E srv path of None \<Rightarrow> False | Some (h, p) \<Rightarrow> p = path \<and> h)"

text \<open>Both admission webhooks end this way: a path of its own if one is set, and registered if it is new.\<close>

definition register_at ::
  "webhook_env \<Rightarrow> string \<Rightarrow> string \<Rightarrow> webhook \<Rightarrow> server \<Rightarrow> go_error option \<times> server" where
  "register_at E generated custom wh srv =
     (case (if custom \<noteq> '''' then generateCustomPath custom else Inr generated) of
        Inl err \<Rightarrow> (Some err, srv)
      | Inr path \<Rightarrow> (None, if isAlreadyHandled E srv path then srv else srv @ [(path, wh)]))"

definition getDefaultingWebhook :: "webhook_builder \<Rightarrow> go_error + webhook option" where
  "getDefaultingWebhook b =
     (let make = (\<lambda>k. Inr (Some \<lparr>hk_kind = k, hk_recoverPanic = wh_recoverPanic b, hk_log = None, hk_context = None\<rparr>))
      in case (wh_defaulter b, wh_customDefaulter b) of
           (Some d, Some _) \<Rightarrow> Inl (Errorf ''only one of Defaulter or CustomDefaulter can be set'' [] None)
         | (Some d, None) \<Rightarrow> make (Defaulter d (wh_customDefaulterOpts b))
         | (None, Some d) \<Rightarrow> make (CustomDefaulter (the (wh_apiType b)) d (wh_customDefaulterOpts b))
         | (None, None) \<Rightarrow> Inr None)"

definition getValidatingWebhook :: "webhook_builder \<Rightarrow> go_error + webhook option" where
  "getValidatingWebhook b =
     (let make = (\<lambda>k. Inr (Some \<lparr>hk_kind = k, hk_recoverPanic = wh_recoverPanic b, hk_log = None, hk_context = None\<rparr>))
      in case (wh_validator b, wh_customValidator b) of
           (Some v, Some _) \<Rightarrow> Inl (Errorf ''only one of Validator or CustomValidator can be set'' [] None)
         | (Some v, None) \<Rightarrow> make (Validator v)
         | (None, Some v) \<Rightarrow> make (CustomValidator (the (wh_apiType b)) v)
         | (None, None) \<Rightarrow> Inr None)"

definition registerDefaultingWebhook ::
  "webhook_env \<Rightarrow> webhook_builder \<Rightarrow> server \<Rightarrow> go_error option \<times> server" where
  "registerDefaultingWebhook E b srv =
     (case getDefaultingWebhook b of
        Inl err \<Rightarrow> (Some err, srv)
      | Inr None \<Rightarrow> (None, srv)
      | Inr (Some mwh) \<Rightarrow>
          register_at E (generateMutatePath (wh_gvk b)) (wh_customDefaulterCustomPath b)
            (mwh\<lparr>hk_log := wh_logConstructor b, hk_context := wh_contextFunc b\<rparr>) srv)"

definition registerValidatingWebhook ::
  "webhook_env \<Rightarrow> webhook_builder \<Rightarrow> server \<Rightarrow> go_error option \<times> server" where
  "registerValidatingWebhook E b srv =
     (case getValidatingWebhook b of
        Inl err \<Rightarrow> (Some err, srv)
      | Inr None \<Rightarrow> (None, srv)
      | Inr (Some vwh) \<Rightarrow>
          register_at E (generateValidatePath (wh_gvk b)) (wh_customValidatorCustomPath b)
            (vwh\<lparr>hk_log := wh_logConstructor b, hk_context := wh_contextFunc b\<rparr>) srv)"

definition register_convert :: "webhook_env \<Rightarrow> server \<Rightarrow> server" where
  "register_convert E srv =
     (if isAlreadyHandled E srv ''/convert'' then srv
      else srv @ [(''/convert'', \<lparr>hk_kind = Conversion, hk_recoverPanic = None, hk_log = None, hk_context = None\<rparr>)])"

definition registerConversionWebhook ::
  "webhook_env \<Rightarrow> webhook_builder \<Rightarrow> server \<Rightarrow> go_error option \<times> server" where
  "registerConversionWebhook E b srv =
     (case wh_converterConstructor b of
        Some cc \<Rightarrow>
          (case we_converter E cc of
             Inl err \<Rightarrow> (Some err, srv)
           | Inr converter \<Rightarrow>
               (case we_register E (wh_gvk b) converter of
                  Some err \<Rightarrow> (Some err, srv)
                | None \<Rightarrow> (None, register_convert E srv)))
      | None \<Rightarrow>
          (case we_convertible E (the (wh_apiType b)) of
             Inl err \<Rightarrow> (Some err, srv)
           | Inr ok \<Rightarrow> if \<not> ok then (None, srv) else (None, register_convert E srv)))"

definition getType :: "webhook_builder \<Rightarrow> go_error + object_h" where
  "getType b =
     (case wh_apiType b of
        Some t \<Rightarrow> Inr t
      | None \<Rightarrow> Inl (Errorf ''NewWebhookManagedBy() must be called with a valid object'' [] None))"

definition registerWebhooks ::
  "webhook_env \<Rightarrow> webhook_builder \<Rightarrow> server \<Rightarrow> go_error option \<times> webhook_builder \<times> server" where
  "registerWebhooks E b srv =
     (case getType b of
        Inl err \<Rightarrow> (Some err, b, srv)
      | Inr typ \<Rightarrow>
          (case we_gvk E typ of
             (g, Some err) \<Rightarrow> (Some err, b\<lparr>wh_gvk := g\<rparr>, srv)
           | (g, None) \<Rightarrow>
               (let b1 = b\<lparr>wh_gvk := g\<rparr>
                in case registerDefaultingWebhook E b1 srv of
                     (Some err, srv1) \<Rightarrow> (Some err, b1, srv1)
                   | (None, srv1) \<Rightarrow>
                       (case registerValidatingWebhook E b1 srv1 of
                          (Some err, srv2) \<Rightarrow> (Some err, b1, srv2)
                        | (None, srv2) \<Rightarrow>
                            (case registerConversionWebhook E b1 srv2 of
                               (Some err, srv3) \<Rightarrow> (Some err, b1, srv3)
                             | (None, srv3) \<Rightarrow> (wh_err b1, b1, srv3))))))"

definition loadRestConfig :: "webhook_env \<Rightarrow> webhook_builder \<Rightarrow> webhook_builder" where
  "loadRestConfig E b = b\<lparr>wh_config := (case wh_config b of None \<Rightarrow> Some (we_config E) | Some c \<Rightarrow> Some c)\<rparr>"

definition setLogConstructor :: "webhook_builder \<Rightarrow> webhook_builder" where
  "setLogConstructor b =
     b\<lparr>wh_logConstructor := (case wh_logConstructor b of None \<Rightarrow> Some DefaultLogConstructor | Some lc \<Rightarrow> Some lc)\<rparr>"

fun call_log :: "webhook_builder \<Rightarrow> log_constructor \<Rightarrow> logger \<Rightarrow> admission_request option \<Rightarrow> logger" where
  "call_log b (UserLogConstructor f) base req = f base req"
| "call_log b DefaultLogConstructor base req =
     base @ [(''webhookGroup'', gvk_Group (wh_gvk b)), (''webhookKind'', gvk_Kind (wh_gvk b))] @
     (case req of
        None \<Rightarrow> []
      | Some r \<Rightarrow>
          [(gvk_Kind (wh_gvk b), nsname_string (rq_Name r)), (''namespace'', nn_namespace (rq_Name r)),
           (''name'', nn_name (rq_Name r)), (''resource'', rq_Resource r), (''user'', rq_User r),
           (''requestID'', rq_UID r)])"

definition webhook_Complete ::
  "webhook_env \<Rightarrow> webhook_builder \<Rightarrow> server \<Rightarrow> go_error option \<times> webhook_builder \<times> server" where
  "webhook_Complete E b srv = registerWebhooks E (setLogConstructor (loadRestConfig E b)) srv"

subsection \<open>Registered paths\<close>

text \<open>
  What the mux of the webhook server is relied on for: it reports a path as its own pattern
  exactly if the path was registered, and it is nil only before the first registration.
\<close>

definition mux_exact :: "webhook_env \<Rightarrow> bool" where
  "mux_exact E \<longleftrightarrow>
     (\<forall>srv path. path \<noteq> '''' \<longrightarrow>
        (case we_mux E srv path of
           None \<Rightarrow> srv = []
         | Some (h, p) \<Rightarrow> (h \<and> p = path) = (path \<in> fst ` set srv)))"

lemma isAlreadyHandled_iff:
  "mux_exact E \<Longrightarrow> path \<noteq> '''' \<Longrightarrow> isAlreadyHandled E srv path \<longleftrightarrow> path \<in> fst ` set srv"
  unfolding mux_exact_def isAlreadyHandled_def by (drule spec[of _ srv], drule spec[of _ path]) (auto split: option.splits)

definition grows :: "server \<Rightarrow> server \<Rightarrow> bool" where
  "grows srv srv' \<longleftrightarrow> (\<exists>new. srv' = srv @ new) \<and> (distinct (map fst srv) \<longrightarrow> distinct (map fst srv'))"

lemma grows_refl [simp, intro]: "grows srv srv"
  by (simp add: grows_def)

lemma grows_trans: "grows a b \<Longrightarrow> grows b c \<Longrightarrow> grows a c"
  by (auto simp: grows_def)

lemma grows_set: "grows a b \<Longrightarrow> x \<in> fst ` set a \<Longrightarrow> x \<in> fst ` set b"
  by (auto simp: grows_def)

lemma grows_register:
  assumes "mux_exact E" and "path \<noteq> ''''"
  shows "grows srv (if isAlreadyHandled E srv path then srv else srv @ [(path, wh)]) \<and>
    path \<in> fst ` set (if isAlreadyHandled E srv path then srv else srv @ [(path, wh)])"
  using isAlreadyHandled_iff[OF assms] by (auto simp: grows_def)

lemma generateCustomPath_nonempty: "generateCustomPath p = Inr q \<Longrightarrow> q = p \<and> p \<noteq> ''''"
  by (auto simp: generateCustomPath_def split: if_splits)

lemma register_at_grows:
  assumes "mux_exact E" and "generated \<noteq> ''''" and "register_at E generated custom wh srv = (err, srv')"
  shows "grows srv srv' \<and> (err = None \<longrightarrow> (if custom \<noteq> '''' then custom else generated) \<in> fst ` set srv')"
proof (cases "if custom \<noteq> '''' then generateCustomPath custom else Inr generated")
  case (Inl e)
  with assms(3) show ?thesis by (auto simp: register_at_def)
next
  case (Inr path)
  then have path: "path \<noteq> ''''" "path = (if custom \<noteq> '''' then custom else generated)"
    using assms(2) generateCustomPath_nonempty by (auto split: if_splits)
  from Inr assms(3) have "srv' = (if isAlreadyHandled E srv path then srv else srv @ [(path, wh)])"
    by (auto simp: register_at_def)
  with grows_register[OF assms(1) path(1)] path(2) show ?thesis by simp
qed

definition mutate_path :: "webhook_builder \<Rightarrow> string" where
  "mutate_path b =
     (if wh_customDefaulterCustomPath b \<noteq> '''' then wh_customDefaulterCustomPath b else generateMutatePath (wh_gvk b))"

definition validate_path :: "webhook_builder \<Rightarrow> string" where
  "validate_path b =
     (if wh_customValidatorCustomPath b \<noteq> '''' then wh_customValidatorCustomPath b else generateValidatePath (wh_gvk b))"

lemma registerDefaulting_grows:
  assumes "mux_exact E" and "registerDefaultingWebhook E b srv = (err, srv')"
  shows "grows srv srv' \<and>
    (err = None \<longrightarrow> wh_defaulter b \<noteq> None \<or> wh_customDefaulter b \<noteq> None \<longrightarrow> mutate_path b \<in> fst ` set srv')"
proof -
  have "generateMutatePath (wh_gvk b) \<noteq> ''''" by (simp add: generateMutatePath_def)
  note reg = register_at_grows[OF assms(1) this]
  from assms(2) show ?thesis
    by (auto simp: registerDefaultingWebhook_def getDefaultingWebhook_def mutate_path_def Let_def
        split: option.splits sum.splits dest!: reg intro: rev_image_eqI)
qed

lemma registerValidating_grows:
  assumes "mux_exact E" and "registerValidatingWebhook E b srv = (err, srv')"
  shows "grows srv srv' \<and>
    (err = None \<longrightarrow> wh_validator b \<noteq> None \<or> wh_customValidator b \<noteq> None \<longrightarrow> validate_path b \<in> fst ` set srv')"
proof -
  have "generateValidatePath (wh_gvk b) \<noteq> ''''" by (simp add: generateValidatePath_def)
  note reg = register_at_grows[OF assms(1) this]
  from assms(2) show ?thesis
    by (auto simp: registerValidatingWebhook_def getValidatingWebhook_def validate_path_def Let_def
        split: option.splits sum.splits dest!: reg intro: rev_image_eqI)
qed

lemma registerConversion_grows:
  assumes "mux_exact E" and "registerConversionWebhook E b srv = (err, srv')"
  shows "grows srv srv' \<and> (err = None \<longrightarrow> wh_converterConstructor b \<noteq> None \<longrightarrow> ''/convert'' \<in> fst ` set srv')"
proof -
  have "grows srv (register_convert E srv) \<and> ''/convert'' \<in> fst ` set (register_convert E srv)"
    unfolding register_convert_def by (rule grows_register[OF assms(1)]) simp
  with assms(2) show ?thesis
    by (auto simp: registerConversionWebhook_def split: option.splits sum.splits if_splits)
qed

lemma registerWebhooks_grows:
  assumes mux: "mux_exact E" and run: "registerWebhooks E b srv = (err, b', srv')"
  shows "grows srv srv' \<and> (err = None \<longrightarrow>
      (wh_defaulter b \<noteq> None \<or> wh_customDefaulter b \<noteq> None \<longrightarrow> mutate_path b' \<in> fst ` set srv') \<and>
      (wh_validator b \<noteq> None \<or> wh_customValidator b \<noteq> None \<longrightarrow> validate_path b' \<in> fst ` set srv') \<and>
      (wh_converterConstructor b \<noteq> None \<longrightarrow> ''/convert'' \<in> fst ` set srv'))"
proof (cases "wh_apiType b")
  case None
  with run show ?thesis by (auto simp: registerWebhooks_def getType_def)
next
  case ty: (Some t)
  obtain g x where gx: "we_gvk E t = (g, x)" by fastforce
  define b1 where "b1 = b\<lparr>wh_gvk := g\<rparr>"
  obtain e1 s1 where d: "registerDefaultingWebhook E b1 srv = (e1, s1)" by fastforce
  obtain e2 s2 where v: "registerValidatingWebhook E b1 s1 = (e2, s2)" by fastforce
  obtain e3 s3 where c: "registerConversionWebhook E b1 s2 = (e3, s3)" by fastforce
  have D: "grows srv s1" and V: "grows s1 s2" and C: "grows s2 s3"
    using registerDefaulting_grows[OF mux d] registerValidating_grows[OF mux v] registerConversion_grows[OF mux c]
    by blast+
  have eq: "(err, b', srv') =
      (if x \<noteq> None then (x, b1, srv) else if e1 \<noteq> None then (e1, b1, s1)
       else if e2 \<noteq> None then (e2, b1, s2) else if e3 \<noteq> None then (e3, b1, s3) else (wh_err b1, b1, s3))"
    using run by (auto simp: registerWebhooks_def getType_def ty gx Let_def b1_def[symmetric] d v c
        split: option.splits)
  have grow: "grows srv srv'"
    using eq D V C by (auto split: if_splits intro: grows_trans)
  have "x = None \<and> e1 = None \<and> e2 = None \<and> e3 = None \<and> b' = b1 \<and> srv' = s3" if "err = None"
    using eq that by (auto split: if_splits)
  moreover have "wh_defaulter b1 = wh_defaulter b" "wh_customDefaulter b1 = wh_customDefaulter b"
    "wh_validator b1 = wh_validator b" "wh_customValidator b1 = wh_customValidator b"
    "wh_converterConstructor b1 = wh_converterConstructor b" by (simp_all add: b1_def)
  ultimately show ?thesis
    using grow registerDefaulting_grows[OF mux d] registerValidating_grows[OF mux v] registerConversion_grows[OF mux c]
      grows_set[OF grows_trans[OF V C]] grows_set[OF C] by simp
qed

lemma Complete_grows:
  assumes "mux_exact E" and "webhook_Complete E b srv = (err, b', srv')"
  shows "grows srv srv' \<and> (err = None \<longrightarrow>
      (wh_defaulter b \<noteq> None \<or> wh_customDefaulter b \<noteq> None \<longrightarrow> mutate_path b' \<in> fst ` set srv') \<and>
      (wh_validator b \<noteq> None \<or> wh_customValidator b \<noteq> None \<longrightarrow> validate_path b' \<in> fst ` set srv') \<and>
      (wh_converterConstructor b \<noteq> None \<longrightarrow> ''/convert'' \<in> fst ` set srv'))"
  using registerWebhooks_grows[OF assms(1) assms(2)[unfolded webhook_Complete_def]]
  by (simp add: setLogConstructor_def loadRestConfig_def)

text \<open>Several builders, one after the other, with one server.\<close>

inductive server_step :: "webhook_env \<Rightarrow> server \<Rightarrow> server \<Rightarrow> bool" for E :: webhook_env where
  complete: "webhook_Complete E b srv = (err, b', srv') \<Longrightarrow> server_step E srv srv'"

lemma server_steps_grow: "mux_exact E \<Longrightarrow> (server_step E)\<^sup>*\<^sup>* srv srv' \<Longrightarrow> grows srv srv'"
  by (rotate_tac 1, induction rule: rtranclp_induct)
     (auto elim!: server_step.cases dest: Complete_grows intro: grows_trans)

text \<open>
  Webhooks are registered, and no path twice. Whatever builders complete one after the other,
  with or without errors, the paths on the server are distinct, and what was registered stays.
  When \<open>Complete\<close> returns nil, the defaulting, the validating and the conversion webhook that
  were asked for are reachable under their own or their generated path.
\<close>

theorem webhooks_registered_once:
  assumes "mux_exact E" and "(server_step E)\<^sup>*\<^sup>* [] srv" and "webhook_Complete E b srv = (err, b', srv')"
  shows "distinct (map fst srv') \<and> (\<exists>new. srv' = srv @ new) \<and>
    (err = None \<longrightarrow>
      (wh_defaulter b \<noteq> None \<or> wh_customDefaulter b \<noteq> None \<longrightarrow> mutate_path b' \<in> fst ` set srv') \<and>
      (wh_validator b \<noteq> None \<or> wh_customValidator b \<noteq> None \<longrightarrow> validate_path b' \<in> fst ` set srv') \<and>
      (wh_converterConstructor b \<noteq> None \<longrightarrow> ''/convert'' \<in> fst ` set srv'))"
  using server_steps_grow[OF assms(1,2)] Complete_grows[OF assms(1,3)] by (auto simp: grows_def)

definition demo_webhook_env :: webhook_env where
  "demo_webhook_env =
     \<lparr>we_gvk = (\<lambda>_. (\<lparr>gvk_Group = ''apps.io'', gvk_Version = ''v1'', gvk_Kind = ''Job''\<rparr>, None)), we_config = 0,
      we_mux = (\<lambda>srv path. if srv = [] then None
        else if path \<in> fst ` set srv then Some (True, path) else Some (True, '''')),
      we_converter = Inr, we_register = (\<lambda>_ _. None), we_convertible = (\<lambda>_. Inr False)\<rparr>"

abbreviation demo_complete :: "go_error option \<times> webhook_builder \<times> server" where
  "demo_complete \<equiv> webhook_Complete demo_webhook_env (WithValidator (Some 4) (WebhookManagedBy (Some 1))) []"

theorem webhooks_registered_once_witness:
  "distinct (map fst (snd (snd demo_complete))) \<and> ''/validate-apps-io-v1-job'' \<in> fst ` set (snd (snd demo_complete))"
proof -
  have "mux_exact demo_webhook_env" by (simp add: mux_exact_def demo_webhook_env_def)
  moreover have "demo_complete = (fst demo_complete, fst (snd demo_complete), snd (snd demo_complete))" by simp
  moreover have "ToLower ''Job'' = ''job''" by code_simp
  then have "fst demo_complete = None" "validate_path (fst (snd demo_complete)) = ''/validate-apps-io-v1-job''"
    by (simp_all add: webhook_Complete_def registerWebhooks_def getType_def setLogConstructor_def loadRestConfig_def
        WithValidator_def WebhookManagedBy_def demo_webhook_env_def registerDefaultingWebhook_def
        getDefaultingWebhook_def registerValidatingWebhook_def getValidatingWebhook_def register_at_def
        registerConversionWebhook_def validate_path_def generateValidatePath_def dashed_def)
  moreover have "wh_validator (WithValidator (Some 4) (WebhookManagedBy (Some 1))) \<noteq> None"
    by (simp add: WithValidator_def)
  ultimately show ?thesis
    using webhooks_registered_once[of demo_webhook_env "[]", OF _ rtranclp.rtrancl_refl] by metis
qed

subsection \<open>Custom and generated paths\<close>

text \<open>The language of the regular expression.\<close>

definition path_language :: "string \<Rightarrow> bool" where
  "path_language s \<longleftrightarrow>
     s = ''/'' \<or>
     (\<exists>segs. segs \<noteq> [] \<and> (\<forall>g \<in> set segs. g \<noteq> [] \<and> list_all path_char g) \<and>
        s = concat (map (\<lambda>g. CHR ''/'' # g) segs))"

lemma slash_no_path_char [simp]: "\<not> path_char (CHR ''/'')"
  by (simp add: path_char_def)

lemma match_segments_sound:
  "match_segments some s \<Longrightarrow>
     \<exists>g segs. list_all path_char g \<and> (some \<or> g \<noteq> []) \<and> (\<forall>h \<in> set segs. h \<noteq> [] \<and> list_all path_char h) \<and>
       s = g @ concat (map (\<lambda>h. CHR ''/'' # h) segs)"
proof (induction some s rule: match_segments.induct)
  case (1 some)
  then show ?case by (intro exI[of _ "[]"]) simp
next
  case (2 some c cs)
  show ?case
  proof (cases "path_char c")
    case True
    with 2 obtain g segs where "list_all path_char g" "\<forall>h \<in> set segs. h \<noteq> [] \<and> list_all path_char h"
      "cs = g @ concat (map (\<lambda>h. CHR ''/'' # h) segs)" by auto
    with True show ?thesis by (intro exI[of _ "c # g"] exI[of _ segs]) simp
  next
    case False
    with 2 obtain g segs where "list_all path_char g" "g \<noteq> []" "\<forall>h \<in> set segs. h \<noteq> [] \<and> list_all path_char h"
      "cs = g @ concat (map (\<lambda>h. CHR ''/'' # h) segs)" "c = CHR ''/''" "some" by auto
    then show ?thesis by (intro exI[of _ "[]"] exI[of _ "g # segs"]) simp
  qed
qed

lemma match_segments_append:
  "list_all path_char g \<Longrightarrow> match_segments some (g @ s) = match_segments (some \<or> g \<noteq> []) s"
  by (induction g arbitrary: some) auto

lemma match_segments_complete:
  "\<forall>h \<in> set segs. h \<noteq> [] \<and> list_all path_char h \<Longrightarrow> match_segments True (concat (map (\<lambda>h. CHR ''/'' # h) segs))"
  by (induction segs) (simp_all add: match_segments_append)

text \<open>
  C34: Custom paths are checked against the documented expression. \<open>generateCustomPath\<close> returns
  the path unchanged exactly if it is a single slash or a non-empty sequence of segments, each a
  slash followed by at least one letter, digit, dash or underscore; any other path is an error.
\<close>

theorem generateCustomPath_language:
  "(generateCustomPath p = Inr q \<longleftrightarrow> path_language p \<and> q = p) \<and> ((\<exists>e. generateCustomPath p = Inl e) \<longleftrightarrow> \<not> path_language p)"
proof -
  have "validWebhookPath p \<longleftrightarrow> path_language p"
  proof
    assume "validWebhookPath p"
    then obtain cs where cs: "p = CHR ''/'' # cs" "cs = [] \<or> match_segments False cs" by (cases p) auto
    show "path_language p"
    proof (cases "cs = []")
      case False
      with cs match_segments_sound obtain g segs where "list_all path_char g" "g \<noteq> []"
        "\<forall>h \<in> set segs. h \<noteq> [] \<and> list_all path_char h" "cs = g @ concat (map (\<lambda>h. CHR ''/'' # h) segs)" by blast
      with cs show ?thesis unfolding path_language_def by (intro disjI2 exI[of _ "g # segs"]) simp
    qed (simp add: cs path_language_def)
  next
    assume "path_language p"
    then consider "p = ''/''" | g segs where "g \<noteq> []" "list_all path_char g"
      "\<forall>h \<in> set segs. h \<noteq> [] \<and> list_all path_char h" "p = CHR ''/'' # g @ concat (map (\<lambda>h. CHR ''/'' # h) segs)"
      unfolding path_language_def
    proof (elim disjE exE conjE)
      fix segs
      assume "segs \<noteq> []" "\<forall>g \<in> set segs. g \<noteq> [] \<and> list_all path_char g" "p = concat (map (\<lambda>g. CHR ''/'' # g) segs)"
      then show thesis by (intro that(2)[of "hd segs" "tl segs"]) (cases segs; simp)+
    qed (rule that(1))
    then show "validWebhookPath p"
      by cases (simp_all add: match_segments_append match_segments_complete)
  qed
  then show ?thesis by (auto simp: generateCustomPath_def)
qed

lemma dash_split: "c \<notin> set a \<Longrightarrow> c \<notin> set b \<Longrightarrow> s @ c # a = t @ c # b \<Longrightarrow> s = t \<and> a = b"
proof -
  assume c: "c \<notin> set a" "c \<notin> set b" and eq: "s @ c # a = t @ c # b"
  have "takeWhile (\<lambda>x. x \<noteq> c) (rev (s @ c # a)) = rev a" "takeWhile (\<lambda>x. x \<noteq> c) (rev (t @ c # b)) = rev b"
    using c by (auto simp: takeWhile_tail)
  with eq have "a = b" by simp
  with eq show ?thesis by simp
qed

text \<open>
  Generated paths tell types apart. Where versions and kinds contain no dash, two types
  have the same mutating path exactly if version and lower-case kind agree and the groups
  differ at most in dots and dashes; the same holds for validating paths, and a mutating path is
  never a validating one.
\<close>

theorem generated_paths_separate:
  assumes "CHR ''-'' \<notin> set (gvk_Version g)" and "CHR ''-'' \<notin> set (gvk_Version h)"
    and "CHR ''-'' \<notin> set (ToLower (gvk_Kind g))" and "CHR ''-'' \<notin> set (ToLower (gvk_Kind h))"
  shows "(generateMutatePath g = generateMutatePath h \<longleftrightarrow>
       dashed (gvk_Group g) = dashed (gvk_Group h) \<and> gvk_Version g = gvk_Version h \<and>
       ToLower (gvk_Kind g) = ToLower (gvk_Kind h)) \<and>
     (generateValidatePath g = generateValidatePath h \<longleftrightarrow> generateMutatePath g = generateMutatePath h) \<and>
     generateMutatePath g \<noteq> generateValidatePath h"
proof -
  have split: "s @ CHR ''-'' # gvk_Version g @ CHR ''-'' # ToLower (gvk_Kind g) =
      t @ CHR ''-'' # gvk_Version h @ CHR ''-'' # ToLower (gvk_Kind h) \<longleftrightarrow>
      s = t \<and> gvk_Version g = gvk_Version h \<and> ToLower (gvk_Kind g) = ToLower (gvk_Kind h)" for s t
    using dash_split[OF assms(3,4), of "s @ CHR ''-'' # gvk_Version g" "t @ CHR ''-'' # gvk_Version h"]
      dash_split[OF assms(1,2), of s t] by auto
  show ?thesis by (simp add: generateMutatePath_def generateValidatePath_def split)
qed

theorem generated_paths_separate_witness:
  "generateMutatePath \<lparr>gvk_Group = ''a.b'', gvk_Version = ''v1'', gvk_Kind = ''Job''\<rparr> =
     generateMutatePath \<lparr>gvk_Group = ''a-b'', gvk_Version = ''v1'', gvk_Kind = ''Job''\<rparr> \<and>
   generateMutatePath \<lparr>gvk_Group = ''a.b'', gvk_Version = ''v1'', gvk_Kind = ''Job''\<rparr> \<noteq>
     generateMutatePath \<lparr>gvk_Group = ''a-b'', gvk_Version = ''v2'', gvk_Kind = ''Job''\<rparr>"
proof -
  have "ToLower ''Job'' = ''job''" by code_simp
  then show ?thesis
    using generated_paths_separate[of "\<lparr>gvk_Group = ''a.b'', gvk_Version = ''v1'', gvk_Kind = ''Job''\<rparr>"
        "\<lparr>gvk_Group = ''a-b'', gvk_Version = ''v1'', gvk_Kind = ''Job''\<rparr>"]
      generated_paths_separate[of "\<lparr>gvk_Group = ''a.b'', gvk_Version = ''v1'', gvk_Kind = ''Job''\<rparr>"
        "\<lparr>gvk_Group = ''a-b'', gvk_Version = ''v2'', gvk_Kind = ''Job''\<rparr>"]
    by (simp add: dashed_def)
qed

end
