(* ===== verification/NamespaceRuns.thy ===== *)
theory NamespaceRuns
  imports NamespaceProvider
begin

text \<open>
  The event handlers of \<open>providers/namespace\<close> cut at their locks. An informer calls each handler that
  was added to it from a goroutine of its own, so two handlers of one provider run side by side; a
  provider that was started twice has two. With one handler the pieces add up to the whole
  functions of \<open>NamespaceProvider\<close>; with two they do not.
\<close>

subsection \<open>Pieces\<close>

text \<open>
  Where a handler is: between events; in \<open>AddFunc\<close> after the lookup that found nothing, with a cluster
  inserted and not yet engaged, or refused; in \<open>DeleteFunc\<close> with the cancel function it has read, or
  after calling it.
\<close>

datatype ns_pc =
    NsIdle
  | NsAbsent cluster_name
  | NsInserted cluster_name cluster_h ctx
  | NsRefused cluster_name
  | NsCancel cluster_name ctx
  | NsForget cluster_name

fun ns_begin :: "ns_event \<Rightarrow> namespace_provider \<Rightarrow> ns_pc option" where
  "ns_begin (NsAdded (AnObject ns)) p =
     Some (if fmlookup (np_clusters p) (ob_name ns) \<noteq> None then NsIdle else NsAbsent (ob_name ns))"
| "ns_begin (NsDeleted (AnObject ns)) p =
     Some (case fmlookup (np_cancelFns p) (ob_name ns) of None \<Rightarrow> NsIdle | Some k \<Rightarrow> NsCancel (ob_name ns) k)"
| "ns_begin ev p = None"

definition ns_insert :: "ctx \<Rightarrow> cluster_name \<Rightarrow> namespace_provider \<Rightarrow> ns_pc \<times> namespace_provider" where
  "ns_insert cx name p =
     (let (S, clusterCtx) = with_cancel (np_ctxs p) cx;
          cl = \<lparr>nc_handle = np_next p, nc_clusterName = name\<rparr>
      in (NsInserted name (np_next p) clusterCtx,
          p\<lparr>np_ctxs := S, np_next := np_next p + 1, np_clusters := fmupd name cl (np_clusters p),
            np_cancelFns := fmupd name clusterCtx (np_cancelFns p)\<rparr>))"

text \<open>The next piece; \<open>None\<close> is the panic of calling a cancel function that is no longer in its table.\<close>

fun ns_continue ::
  "(cluster_name \<Rightarrow> go_error option) \<Rightarrow> ctx \<Rightarrow> ns_pc \<Rightarrow> namespace_provider \<Rightarrow> (ns_pc \<times> namespace_provider) option" where
  "ns_continue engage cx NsIdle p = Some (NsIdle, p)"
| "ns_continue engage cx (NsAbsent name) p = Some (ns_insert cx name p)"
| "ns_continue engage cx (NsInserted name cl k) p =
     Some ((case engage name of None \<Rightarrow> NsIdle | Some err \<Rightarrow> NsRefused name),
           p\<lparr>np_engaged := (name, cl, k) # np_engaged p\<rparr>)"
| "ns_continue engage cx (NsRefused name) p = Some (NsIdle, ns_forget name p)"
| "ns_continue engage cx (NsCancel name k) p = Some (NsForget name, p\<lparr>np_ctxs := cancel (np_ctxs p) k\<rparr>)"
| "ns_continue engage cx (NsForget name) p =
     (case fmlookup (np_cancelFns p) name of
        None \<Rightarrow> None
      | Some k \<Rightarrow> Some (NsIdle, ns_forget name (p\<lparr>np_ctxs := cancel (np_ctxs p) k\<rparr>)))"

subsection \<open>Handlers side by side\<close>

text \<open>
  The handlers in \<open>hs\<close> share the provider; \<open>nr_seen\<close> are the events each has received and \<open>nr_panic\<close> says
  that one of them has panicked.
\<close>

record ns_run =
  nr_p :: namespace_provider
  nr_pc :: "nat \<Rightarrow> ns_pc"
  nr_seen :: "nat \<Rightarrow> ns_event list"
  nr_panic :: bool

inductive ns_step :: "(cluster_name \<Rightarrow> go_error option) \<Rightarrow> ctx \<Rightarrow> nat set \<Rightarrow> ns_run \<Rightarrow> ns_run \<Rightarrow> bool" for engage cx hs where
  ns_receive: "i \<in> hs \<Longrightarrow> nr_pc x i = NsIdle \<Longrightarrow> plain_event ev \<Longrightarrow> ns_begin ev (nr_p x) = Some pc \<Longrightarrow>
     ns_step engage cx hs x (x\<lparr>nr_pc := (nr_pc x)(i := pc), nr_seen := (nr_seen x)(i := nr_seen x i @ [ev])\<rparr>)"
| ns_go: "i \<in> hs \<Longrightarrow> ns_continue engage cx (nr_pc x i) (nr_p x) = Some (pc, p) \<Longrightarrow>
     ns_step engage cx hs x (x\<lparr>nr_pc := (nr_pc x)(i := pc), nr_p := p\<rparr>)"
| ns_crash: "i \<in> hs \<Longrightarrow> ns_continue engage cx (nr_pc x i) (nr_p x) = None \<Longrightarrow> ns_step engage cx hs x (x\<lparr>nr_panic := True\<rparr>)"

inductive_cases ns_stepE: "ns_step engage cx hs x y"

definition ns_ready :: "namespace_provider \<Rightarrow> ns_run" where
  "ns_ready p = \<lparr>nr_p = p, nr_pc = (\<lambda>_. NsIdle), nr_seen = (\<lambda>_. []), nr_panic = False\<rparr>"

text \<open>How far a handler has come with an event, in terms of the state \<open>q\<close> before that event.\<close>

definition ns_inserted :: "ctx \<Rightarrow> cluster_name \<Rightarrow> namespace_provider \<Rightarrow> namespace_provider" where
  "ns_inserted cx name q = snd (ns_insert cx name q)"

fun ns_partway :: "(cluster_name \<Rightarrow> go_error option) \<Rightarrow> ctx \<Rightarrow> ns_pc \<Rightarrow> namespace_provider \<Rightarrow> namespace_provider \<Rightarrow> bool" where
  "ns_partway engage cx NsIdle q p \<longleftrightarrow> p = q"
| "ns_partway engage cx (NsAbsent name) q p \<longleftrightarrow> p = q \<and> fmlookup (np_clusters q) name = None"
| "ns_partway engage cx (NsInserted name cl k) q p \<longleftrightarrow>
     fmlookup (np_clusters q) name = None \<and> cl = np_next q \<and> k = length (np_ctxs q) \<and> p = ns_inserted cx name q"
| "ns_partway engage cx (NsRefused name) q p \<longleftrightarrow>
     fmlookup (np_clusters q) name = None \<and> engage name \<noteq> None \<and>
     p = (ns_inserted cx name q)\<lparr>np_engaged := (name, np_next q, length (np_ctxs q)) # np_engaged q\<rparr>"
| "ns_partway engage cx (NsCancel name k) q p \<longleftrightarrow> p = q \<and> fmlookup (np_cancelFns q) name = Some k"
| "ns_partway engage cx (NsForget name) q p \<longleftrightarrow>
     (\<exists>k. fmlookup (np_cancelFns q) name = Some k \<and> p = q\<lparr>np_ctxs := cancel (np_ctxs q) k\<rparr>)"

lemma ns_deliver_append:
  "ns_deliver engage cx (xs @ ys) p = (case ns_deliver engage cx xs p of None \<Rightarrow> None | Some p1 \<Rightarrow> ns_deliver engage cx ys p1)"
  by (induction engage cx xs p rule: ns_deliver.induct) (auto split: option.splits)

text \<open>The event that a handler is at work on.\<close>

fun ns_working :: "ns_pc \<Rightarrow> ns_event \<Rightarrow> bool" where
  "ns_working NsIdle ev \<longleftrightarrow> False"
| "ns_working (NsCancel name k) ev \<longleftrightarrow> (\<exists>ns. ev = NsDeleted (AnObject ns) \<and> ob_name ns = name)"
| "ns_working (NsForget name) ev \<longleftrightarrow> (\<exists>ns. ev = NsDeleted (AnObject ns) \<and> ob_name ns = name)"
| "ns_working (NsAbsent name) ev \<longleftrightarrow> (\<exists>ns. ev = NsAdded (AnObject ns) \<and> ob_name ns = name)"
| "ns_working (NsInserted name cl k) ev \<longleftrightarrow> (\<exists>ns. ev = NsAdded (AnObject ns) \<and> ob_name ns = name)"
| "ns_working (NsRefused name) ev \<longleftrightarrow> (\<exists>ns. ev = NsAdded (AnObject ns) \<and> ob_name ns = name)"

lemma ns_begin_partway:
  assumes "ns_begin ev p = Some pc"
  shows "ns_partway engage cx pc p p" and "pc \<noteq> NsIdle \<Longrightarrow> ns_working pc ev"
    and "pc = NsIdle \<Longrightarrow> ns_deliver engage cx [ev] p = Some p"
  using assms
  by (induction ev p rule: ns_begin.induct)
    (auto simp: ns_AddFunc_def ns_DeleteFunc_def split: option.splits if_splits)

text \<open>A piece of an event leads on with that event, or ends it as the whole function does.\<close>

lemma ns_continue_partway:
  assumes "ns_partway engage cx pc q p" and "ns_working pc ev"
  shows "\<exists>pc' p'. ns_continue engage cx pc p = Some (pc', p') \<and>
    (if pc' = NsIdle then ns_deliver engage cx [ev] q = Some p' else ns_working pc' ev \<and> ns_partway engage cx pc' q p')"
  using assms
proof (cases pc)
  case (NsAbsent name)
  with assms show ?thesis by (auto simp: ns_inserted_def ns_insert_def with_cancel_def Let_def)
next
  case (NsInserted name cl k)
  with assms show ?thesis
    by (cases "engage name") (auto simp: ns_AddFunc_def ns_inserted_def ns_insert_def with_cancel_def Let_def)
next
  case (NsRefused name)
  with assms show ?thesis
    by (auto simp: ns_AddFunc_def ns_inserted_def ns_insert_def with_cancel_def Let_def ns_forget_def)
next
  case (NsCancel name k)
  with assms show ?thesis by auto
next
  case (NsForget name)
  with assms show ?thesis by (auto simp: ns_DeleteFunc_def ns_forget_def Let_def)
qed simp

definition ns_alone :: "(cluster_name \<Rightarrow> go_error option) \<Rightarrow> ctx \<Rightarrow> namespace_provider \<Rightarrow> nat \<Rightarrow> ns_run \<Rightarrow> bool" where
  "ns_alone engage cx p0 i x \<longleftrightarrow> \<not> nr_panic x \<and> list_all plain_event (nr_seen x i) \<and>
     (if nr_pc x i = NsIdle then ns_deliver engage cx (nr_seen x i) p0 = Some (nr_p x)
      else \<exists>evs ev q. nr_seen x i = evs @ [ev] \<and> ns_working (nr_pc x i) ev \<and>
             ns_deliver engage cx evs p0 = Some q \<and> ns_partway engage cx (nr_pc x i) q (nr_p x))"

lemma ns_alone_step:
  assumes "ns_step engage cx {i} x y" and "ns_alone engage cx p0 i x"
  shows "ns_alone engage cx p0 i y"
  using assms(1)
proof cases
  case (ns_receive j ev pc)
  with assms(2) have fin: "ns_deliver engage cx (nr_seen x i) p0 = Some (nr_p x)" by (simp add: ns_alone_def)
  note b = ns_begin_partway[OF ns_receive(5)]
  show ?thesis
  proof (cases "pc = NsIdle")
    case True
    with b(3) fin ns_receive assms(2) show ?thesis by (simp add: ns_alone_def ns_deliver_append)
  next
    case False
    with b(1)[of engage cx] b(2) fin ns_receive assms(2) show ?thesis by (auto simp: ns_alone_def)
  qed
next
  case (ns_go j pc p)
  show ?thesis
  proof (cases "nr_pc x i = NsIdle")
    case True
    with ns_go assms(2) show ?thesis by (simp add: ns_alone_def)
  next
    case False
    with assms(2) obtain evs ev q where at: "nr_seen x i = evs @ [ev]" "ns_working (nr_pc x i) ev"
      "ns_deliver engage cx evs p0 = Some q" "ns_partway engage cx (nr_pc x i) q (nr_p x)"
      by (auto simp: ns_alone_def)
    from ns_continue_partway[OF at(4,2)] ns_go
    have "if pc = NsIdle then ns_deliver engage cx [ev] q = Some p else ns_working pc ev \<and> ns_partway engage cx pc q p" by auto
    with at ns_go assms(2) show ?thesis by (auto simp: ns_alone_def ns_deliver_append split: if_splits)
  qed
next
  case (ns_crash j)
  show ?thesis
  proof (cases "nr_pc x i = NsIdle")
    case False
    with assms(2) obtain ev q where "ns_working (nr_pc x i) ev" "ns_partway engage cx (nr_pc x i) q (nr_p x)"
      by (auto simp: ns_alone_def)
    from ns_continue_partway[OF this(2,1)] ns_crash show ?thesis by auto
  qed (use ns_crash in simp)
qed

text \<open>
  One handler does what the whole functions do. However the pieces of its events are spread over time, a
  provider with one handler never panics, and between events its state is that of delivering the
  events it has received to the functions of \<open>NamespaceProvider\<close>.
\<close>

theorem ns_handler_refines_functions:
  assumes "(ns_step engage cx {i})\<^sup>*\<^sup>* (ns_ready p) x"
  shows "\<not> nr_panic x \<and> (nr_pc x i = NsIdle \<longrightarrow> ns_deliver engage cx (nr_seen x i) p = Some (nr_p x))"
proof -
  have "ns_alone engage cx p i (ns_ready p)" by (simp add: ns_alone_def ns_ready_def)
  with assms have "ns_alone engage cx p i x" by (induction rule: rtranclp_induct) (auto intro: ns_alone_step)
  then show ?thesis by (auto simp: ns_alone_def split: if_splits)
qed

subsection \<open>Schedules\<close>

text \<open>A schedule names the handler that acts next, with the event if it receives one.\<close>

definition ns_act :: "(cluster_name \<Rightarrow> go_error option) \<Rightarrow> ctx \<Rightarrow> nat \<times> ns_event option \<Rightarrow> ns_run \<Rightarrow> ns_run option" where
  "ns_act engage cx a x =
     (case a of
        (i, Some ev) \<Rightarrow>
          if nr_pc x i = NsIdle \<and> plain_event ev
          then map_option (\<lambda>pc. x\<lparr>nr_pc := (nr_pc x)(i := pc), nr_seen := (nr_seen x)(i := nr_seen x i @ [ev])\<rparr>) (ns_begin ev (nr_p x))
          else None
      | (i, None) \<Rightarrow>
          (case ns_continue engage cx (nr_pc x i) (nr_p x) of
             None \<Rightarrow> Some (x\<lparr>nr_panic := True\<rparr>)
           | Some (pc, p) \<Rightarrow> Some (x\<lparr>nr_pc := (nr_pc x)(i := pc), nr_p := p\<rparr>)))"

fun ns_schedule ::
  "(cluster_name \<Rightarrow> go_error option) \<Rightarrow> ctx \<Rightarrow> (nat \<times> ns_event option) list \<Rightarrow> ns_run \<Rightarrow> ns_run option" where
  "ns_schedule engage cx [] x = Some x"
| "ns_schedule engage cx (a # as) x = (case ns_act engage cx a x of None \<Rightarrow> None | Some y \<Rightarrow> ns_schedule engage cx as y)"

lemma ns_act_step: "ns_act engage cx a x = Some y \<Longrightarrow> fst a \<in> hs \<Longrightarrow> ns_step engage cx hs x y"
  by (cases a) (auto simp: ns_act_def intro: ns_step.intros split: option.splits if_splits)

lemma ns_schedule_steps:
  "ns_schedule engage cx as x = Some y \<Longrightarrow> fst ` set as \<subseteq> hs \<Longrightarrow> (ns_step engage cx hs)\<^sup>*\<^sup>* x y"
proof (induction as arbitrary: x)
  case (Cons a as)
  then obtain z where "ns_act engage cx a x = Some z" "ns_schedule engage cx as z = Some y"
    by (auto split: option.splits)
  with Cons show ?case using ns_act_step[of engage cx a x z hs] by (auto intro: converse_rtranclp_into_rtranclp)
qed simp

definition zoo_added :: ns_event where "zoo_added = NsAdded (AnObject \<lparr>ob_namespace = '''', ob_name = ''zoo'', ob_body = 0\<rparr>)"
definition zoo_deleted :: ns_event where "zoo_deleted = NsDeleted (AnObject \<lparr>ob_namespace = '''', ob_name = ''zoo'', ob_body = 0\<rparr>)"

lemmas ns_eval = ns_act_def zoo_added_def zoo_deleted_def ns_ready_def namespace_New_def ns_insert_def
  with_cancel_def ns_forget_def cancel_def

theorem ns_handler_refines_functions_witness:
  "\<exists>x. (ns_step (\<lambda>_. None) 0 {0})\<^sup>*\<^sup>* (ns_ready (namespace_New [(None, False)])) x \<and> nr_seen x 0 = [zoo_added] \<and>
     ns_deliver (\<lambda>_. None) 0 [zoo_added] (namespace_New [(None, False)]) = Some (nr_p x)"
proof -
  have "\<exists>x. ns_schedule (\<lambda>_. None) 0 [(0, Some zoo_added), (0, None), (0, None)] (ns_ready (namespace_New [(None, False)])) = Some x \<and>
      nr_seen x 0 = [zoo_added] \<and> nr_pc x 0 = NsIdle"
    by (simp add: ns_eval)
  then obtain x where x: "ns_schedule (\<lambda>_. None) 0 [(0, Some zoo_added), (0, None), (0, None)] (ns_ready (namespace_New [(None, False)])) = Some x"
    "nr_seen x 0 = [zoo_added]" "nr_pc x 0 = NsIdle" by blast
  have "(ns_step (\<lambda>_. None) 0 {0})\<^sup>*\<^sup>* (ns_ready (namespace_New [(None, False)])) x"
    by (rule ns_schedule_steps[OF x(1)]) simp
  with ns_handler_refines_functions[OF this] x show ?thesis by auto
qed

text \<open>
  Two handlers of one provider, as a provider has that was started twice, get in each other's way. Both
  can find a new namespace absent and engage it: the second cluster replaces the first in the
  tables, and when the namespace is deleted the context of the first is never cancelled.
\<close>

theorem two_handlers_leak_reachable:
  "\<exists>x. (ns_step (\<lambda>_. None) 0 {0, 1})\<^sup>*\<^sup>* (ns_ready (namespace_New [(None, False)])) x \<and>
     (\<forall>i. nr_pc x i = NsIdle) \<and> nr_seen x 0 = [zoo_added, zoo_deleted] \<and> nr_seen x 1 = [zoo_added, zoo_deleted] \<and>
     np_clusters (nr_p x) = fmempty \<and> (\<exists>(n, cl, k) \<in> set (np_engaged (nr_p x)). \<not> ctx_err (np_ctxs (nr_p x)) k)"
proof -
  let ?as = "[(0, Some zoo_added), (1, Some zoo_added), (0, None), (0, None), (1, None), (1, None),
    (0, Some zoo_deleted), (0, None), (0, None), (1, Some zoo_deleted)] :: (nat \<times> ns_event option) list"
  have "\<exists>x. ns_schedule (\<lambda>_. None) 0 ?as (ns_ready (namespace_New [(None, False)])) = Some x \<and>
     (\<forall>i. nr_pc x i = NsIdle) \<and> nr_seen x 0 = [zoo_added, zoo_deleted] \<and> nr_seen x 1 = [zoo_added, zoo_deleted] \<and>
     np_clusters (nr_p x) = fmempty \<and> (\<exists>(n, cl, k) \<in> set (np_engaged (nr_p x)). \<not> ctx_err (np_ctxs (nr_p x)) k)"
    by (simp add: ns_eval) (simp add: ctx_err.simps)
  then show ?thesis using ns_schedule_steps[where hs = "{0, 1}" and as = ?as] by fastforce
qed

text \<open>
  And both can read the cancel function of a namespace that is deleted: the second one to take the lock
  finds it gone from the table and calls nil.
\<close>

theorem two_handlers_panic_reachable:
  "\<exists>x. (ns_step (\<lambda>_. None) 0 {0, 1})\<^sup>*\<^sup>* (ns_ready (namespace_New [(None, False)])) x \<and> nr_panic x"
proof -
  let ?as = "[(0, Some zoo_added), (0, None), (0, None), (0, Some zoo_deleted), (1, Some zoo_deleted),
    (0, None), (0, None), (1, None), (1, None)] :: (nat \<times> ns_event option) list"
  have "\<exists>x. ns_schedule (\<lambda>_. None) 0 ?as (ns_ready (namespace_New [(None, False)])) = Some x \<and> nr_panic x"
    by (simp add: ns_eval)
  then show ?thesis using ns_schedule_steps[where hs = "{0, 1}" and as = ?as] by fastforce
qed

end
