(* ===== verification/Fleet.thy ===== *)
theory Fleet
  imports Builder Registries
begin

text \<open>
  The path from a provider to the reconcilers: a provider with the cluster set of
  \<open>pkg/clusters\<close>, the manager with the basic coordinator and the controllers that were added to
  it, over one store of contexts. \<open>Add\<close> of the cluster set is cut where it gives up the lock and
  where it calls \<open>Engage\<close>, so that removals, returning clusters, new watches and other calls of
  \<open>Add\<close> come in between.
\<close>

subsection \<open>The system\<close>

text \<open>
  \<open>cs_ctxs\<close> of the cluster set is the store of contexts; a controller is called with it.
  \<open>sy_pending\<close> holds the calls of \<open>Add\<close> that have made their entry and not called \<open>Engage\<close> yet.
\<close>

record system =
  sy_set :: cluster_set
  sy_pending :: "(cluster_name \<times> cluster_h \<times> ctx) list"
  sy_mgr :: mc_manager
  sy_ctls :: "aware_h \<Rightarrow> mc_controller"

text \<open>The sources, the watches and the embedded controller of each controller.\<close>

record fleet_env =
  fl_for_cluster :: "aware_h \<Rightarrow> for_cluster"
  fl_watch :: "aware_h \<Rightarrow> watch_result"
  fl_inner :: "aware_h \<Rightarrow> inner_engage"

abbreviation sy_ctxs :: "system \<Rightarrow> ctxs" where "sy_ctxs y \<equiv> cs_ctxs (sy_set y)"

definition on_store :: "system \<Rightarrow> aware_h \<Rightarrow> mc_controller" where
  "on_store y a = (sy_ctls y a)\<lparr>mcc_ctxs := sy_ctxs y\<rparr>"

definition put_ctl :: "aware_h \<Rightarrow> mc_controller \<Rightarrow> system \<Rightarrow> system" where
  "put_ctl a c y = y\<lparr>sy_ctls := (sy_ctls y)(a := c), sy_set := (sy_set y)\<lparr>cs_ctxs := mcc_ctxs c\<rparr>\<rparr>"

definition ctl_Engage :: "fleet_env \<Rightarrow> system \<Rightarrow> aware_call \<Rightarrow> go_error option \<times> mc_controller" where
  "ctl_Engage F y x =
     (case x of (a, cx, n, cl) \<Rightarrow>
        controller_Engage (fl_for_cluster F a) (fl_watch F a) (fl_inner F a) cx n cl (on_store y a))"

definition sys_call :: "fleet_env \<Rightarrow> aware_call \<Rightarrow> system \<Rightarrow> system" where
  "sys_call F x y = put_ctl (fst x) (snd (ctl_Engage F y x)) y"

definition sys_calls :: "fleet_env \<Rightarrow> aware_call list \<Rightarrow> system \<Rightarrow> system" where
  "sys_calls F xs y = fold (sys_call F) xs y"

text \<open>What a controller answers depends on the calls made since the coordinator was called.\<close>

definition sys_oracle :: "fleet_env \<Rightarrow> system \<Rightarrow> nat \<Rightarrow> engage_oracle" where
  "sys_oracle F y k calls x = fst (ctl_Engage F (sys_calls F (drop k calls) y) x)"

definition mgr_calls :: "mc_manager \<Rightarrow> aware_call list" where
  "mgr_calls m = (case mm_coord m of Some (BasicCoord c) \<Rightarrow> b_calls c | _ \<Rightarrow> [])"

definition sys_Engage ::
  "fleet_env \<Rightarrow> (ctx \<Rightarrow> cluster_name \<Rightarrow> cluster_h \<Rightarrow> go_error option) \<Rightarrow> ctx \<Rightarrow> cluster_name \<Rightarrow> cluster_h \<Rightarrow>
   system \<Rightarrow> go_error option \<times> system" where
  "sys_Engage F other cx n cl y =
     (let k = length (mgr_calls (sy_mgr y));
          (err, m) = manager_Engage (sys_oracle F y k) other cx n cl (sy_mgr y)
      in (err, (sys_calls F (drop k (mgr_calls m)) y)\<lparr>sy_mgr := m\<rparr>))"

text \<open>The provider as the manager sees it: the methods of the cluster set that it embeds.\<close>

definition clusters_view :: "cluster_env \<Rightarrow> cluster_name list \<Rightarrow> cluster_set \<Rightarrow> provider_iface" where
  "clusters_view E ord c =
     \<lparr>pv_get = clusters_Get c, pv_index = (\<lambda>i. fst (clusters_IndexField E ord i c)), pv_runnable = True\<rparr>"

inductive sys_step :: "fleet_env \<Rightarrow> system \<Rightarrow> system \<Rightarrow> bool" for F :: fleet_env where
  enter: "clusters_add parent n cl (sy_set y) = (Inr k, c) \<Longrightarrow>
    sys_step F y (y\<lparr>sy_set := c\<lparr>cs_running := cs_running c @ [(n, cl, k)]\<rparr>, sy_pending := (n, cl, k) # sy_pending y\<rparr>)"
| called: "sys_step F y (y\<lparr>sy_set := (sy_set y)\<lparr>cs_calls := xs\<rparr>\<rparr>)"
| engage: "(n, cl, k) \<in> set (sy_pending y) \<Longrightarrow> sys_Engage F other k n cl y = (err, y') \<Longrightarrow>
    sys_step F y (y'\<lparr>sy_pending := remove1 (n, cl, k) (sy_pending y)\<rparr>)"
| gave_up: "sys_step F y (y\<lparr>sy_pending := remove1 p (sy_pending y)\<rparr>)"
| remove: "sys_step F y (y\<lparr>sy_set := clusters_Remove n (sy_set y)\<rparr>)"
| returned: "r \<in> set (cs_running (sy_set y)) \<Longrightarrow> sys_step F y (y\<lparr>sy_set := start_returned r (sy_set y)\<rparr>)"
| index: "iter_order (cs_clusters (sy_set y)) ord \<Longrightarrow> clusters_IndexField E ord i (sy_set y) = (err, c) \<Longrightarrow>
    sys_step F y (y\<lparr>sy_set := c\<rparr>)"
| added: "manager_Add H a (sy_mgr y) = (err, m) \<Longrightarrow> sys_step F y (y\<lparr>sy_mgr := m\<rparr>)"
| watch: "iter_order (mcc_clusters (sy_ctls y a)) ord \<Longrightarrow>
    MultiClusterWatch (fl_for_cluster F a) (fl_watch F a) ord src (on_store y a) = (err, c) \<Longrightarrow>
    sys_step F y (put_ctl a c y)"
| ended: "tok \<in> set (mcc_waiting (sy_ctls y a)) \<Longrightarrow> ctx_err (sy_ctxs y) (ec_ctx tok) \<Longrightarrow>
    sys_step F y (put_ctl a (engagement_done tok (on_store y a)) y)"
| started: "w \<in> set (mcc_watches (sy_ctls y a)) \<Longrightarrow>
    sys_step F y (put_ctl a (startWithinContext w ctl (on_store y a)) y)"
| stopped: "t \<in> set (mcc_started (sy_ctls y a)) \<Longrightarrow> ctx_err (sy_ctxs y) (fst t) \<Longrightarrow>
    sys_step F y (put_ctl a (controller_stopped t (on_store y a)) y)"
| derived: "sys_step F y (y\<lparr>sy_set := (sy_set y)\<lparr>cs_ctxs := fst (with_cancel (sy_ctxs y) p)\<rparr>\<rparr>)"
| cancelled: "sys_step F y (y\<lparr>sy_set := (sy_set y)\<lparr>cs_ctxs := cancel (sy_ctxs y) k\<rparr>\<rparr>)"

definition sys_new :: "ctxs \<Rightarrow> mc_manager \<Rightarrow> (aware_h \<Rightarrow> mc_controller) \<Rightarrow> system" where
  "sys_new S m C = \<lparr>sy_set = clusters_New S, sy_pending = [], sy_mgr = m, sy_ctls = C\<rparr>"


subsection \<open>Stores that only grow\<close>

definition store_ext :: "ctxs \<Rightarrow> ctxs \<Rightarrow> bool" where
  "store_ext S S' \<longleftrightarrow> length S \<le> length S' \<and> (\<forall>k < length S. fst (S' ! k) = fst (S ! k)) \<and>
     (\<forall>k. ctx_err S k \<longrightarrow> ctx_err S' k)"

lemma store_ext_refl [simp]: "store_ext S S"
  by (simp add: store_ext_def)

lemma store_ext_trans: "store_ext S T \<Longrightarrow> store_ext T U \<Longrightarrow> store_ext S U"
  by (simp add: store_ext_def)

lemma store_ext_with_cancel [simp]: "store_ext S (fst (with_cancel S p))"
  using ctx_err_less[of S] by (auto simp: store_ext_def ctx_err_with_cancel_old) (simp add: with_cancel_def nth_append)

lemma store_ext_cancel [simp]: "store_ext S (cancel S k)"
  by (simp add: store_ext_def fst_nth_cancel ctx_err_cancel_mono)

lemma controller_inv_ext: "controller_inv fc c \<Longrightarrow> store_ext (mcc_ctxs c) S \<Longrightarrow> controller_inv fc (c\<lparr>mcc_ctxs := S\<rparr>)"
  by (rule controller_inv_ctxs) (auto simp: store_ext_def)

lemma ctx_err_child:
  assumes "ctx_err S p" and "fst (S ! k) = Some p" and "p < k" and "k < length S"
  shows "ctx_err S k"
  using assms by (subst ctx_err.simps) simp

subsection \<open>Where contexts come from\<close>

text \<open>
  A context that was made for a cluster is done, or the cluster is the one that the set has under
  the name, with this context.
\<close>

definition issued :: "cluster_set \<Rightarrow> cluster_name \<Rightarrow> cluster_h \<Rightarrow> ctx \<Rightarrow> bool" where
  "issued c n cl k \<longleftrightarrow> k < length (cs_ctxs c) \<and>
     (ctx_err (cs_ctxs c) k \<or> fmlookup (cs_cancels c) n = Some k \<and> clusters_known c n = Some cl)"

text \<open>The context of an engagement is derived from the one that \<open>Engage\<close> was called with.\<close>

definition engaged_by :: "aware_call list \<Rightarrow> ctxs \<Rightarrow> cluster_name \<Rightarrow> cluster_h \<Rightarrow> ctx \<Rightarrow> bool" where
  "engaged_by calls S n cl k \<longleftrightarrow> k < length S \<and>
     (\<exists>b cx. (b, cx, n, cl) \<in> set calls \<and> fst (S ! k) = Some cx \<and> cx < k)"

definition ctl_ok :: "aware_call list \<Rightarrow> ctxs \<Rightarrow> mc_controller \<Rightarrow> bool" where
  "ctl_ok calls S c \<longleftrightarrow>
     (\<forall>w \<in> set (mcc_watches c). ctx_err S (w_ctx w) \<or> engaged_by calls S (w_name w) (w_cluster w) (w_ctx w)) \<and>
     (\<forall>n ec. fmlookup (mcc_clusters c) n = Some ec \<longrightarrow>
        ctx_err S (ec_ctx ec) \<or> engaged_by calls S n (ec_cluster ec) (ec_ctx ec))"

lemma engaged_by_mono:
  "engaged_by calls S n cl k \<Longrightarrow> store_ext S S' \<Longrightarrow> set calls \<subseteq> set calls' \<Longrightarrow> engaged_by calls' S' n cl k"
  by (fastforce simp: engaged_by_def store_ext_def)

lemma ctl_ok_mono: "ctl_ok calls S c \<Longrightarrow> store_ext S S' \<Longrightarrow> set calls \<subseteq> set calls' \<Longrightarrow> ctl_ok calls' S' c"
  unfolding ctl_ok_def by (meson engaged_by_mono store_ext_def)

lemma ctl_ok_cong [simp]:
  "ctl_ok calls S (c\<lparr>mcc_ctxs := T\<rparr>) = ctl_ok calls S c" "ctl_ok calls S (c\<lparr>mcc_started := ts\<rparr>) = ctl_ok calls S c"
  "ctl_ok calls S (c\<lparr>mcc_waiting := xs\<rparr>) = ctl_ok calls S c"
  by (simp_all add: ctl_ok_def)

lemma issued_ext: "issued c n cl k \<Longrightarrow> store_ext (cs_ctxs c) S \<Longrightarrow> issued (c\<lparr>cs_ctxs := S\<rparr>) n cl k"
  by (auto simp: issued_def store_ext_def)

lemma issued_cong:
  "cs_ctxs c' = cs_ctxs c \<Longrightarrow> cs_cancels c' = cs_cancels c \<Longrightarrow> cs_clusters c' = cs_clusters c \<Longrightarrow>
   issued c' n cl k = issued c n cl k"
  by (simp add: issued_def)

lemma ctl_ok_engaged:
  assumes "ctl_ok calls S c" and "S' = fst (with_cancel S cx)" and "(a, cx, n, cl) \<in> set calls" and "cx < length S"
    and "\<forall>w \<in> set new. w_name w = n \<and> w_cluster w = cl \<and> w_ctx w = length S"
  shows "ctl_ok calls S' (c\<lparr>mcc_watches := mcc_watches c @ new,
      mcc_clusters := fmupd n \<lparr>ec_name = n, ec_cluster = cl, ec_ctx = length S\<rparr> (mcc_clusters c)\<rparr>)"
proof -
  have "ctl_ok calls S' c" using assms(1,2) by (auto intro: ctl_ok_mono)
  moreover have "engaged_by calls S' n cl (length S)"
    using assms(2-4) by (auto simp: engaged_by_def with_cancel_def)
  ultimately show "ctl_ok calls S' (c\<lparr>mcc_watches := mcc_watches c @ new,
      mcc_clusters := fmupd n \<lparr>ec_name = n, ec_cluster = cl, ec_ctx = length S\<rparr> (mcc_clusters c)\<rparr>)"
    using assms(5) by (auto simp: ctl_ok_def)
qed


lemma ctl_ok_failed:
  assumes "ctl_ok calls S c" and "store_ext S S'" and "\<forall>w \<in> set new. ctx_err S' (w_ctx w)"
  shows "ctl_ok calls S' (c\<lparr>mcc_watches := mcc_watches c @ new\<rparr>)"
  using ctl_ok_mono[OF assms(1,2) subset_refl] assms(3) by (auto simp: ctl_ok_def)

lemma ctl_ok_fmdrop: "ctl_ok calls S c \<Longrightarrow> ctl_ok calls S (c\<lparr>mcc_clusters := fmdrop n (mcc_clusters c)\<rparr>)"
  by (auto simp: ctl_ok_def)

lemma engage_fresh_ok:
  assumes ok: "ctl_ok calls (mcc_ctxs c) c" and e: "engage_fresh fc wt inner cx n cl c = (err, c')"
    and call: "(a, cx, n, cl) \<in> set calls" "cx < length (mcc_ctxs c)"
  shows "ctl_ok calls (mcc_ctxs c') c'" and "store_ext (mcc_ctxs c) (mcc_ctxs c')"
proof -
  let ?S = "fst (with_cancel (mcc_ctxs c) cx)" and ?k = "length (mcc_ctxs c)"
  have "ctl_ok calls (mcc_ctxs c') c' \<and> store_ext (mcc_ctxs c) (mcc_ctxs c')"
    using e
  proof (cases rule: engage_fresh_cases)
    case (failed x new)
    have ext: "store_ext (mcc_ctxs c) (cancel ?S ?k)"
      by (rule store_ext_trans[OF store_ext_with_cancel store_ext_cancel])
    have "ctx_err (cancel ?S ?k) ?k" by (simp add: ctx_err_cancel_self)
    with failed(3) have "\<forall>w \<in> set new. ctx_err (cancel ?S ?k) (w_ctx w)" by auto
    from ctl_ok_failed[OF ok ext this] ext show ?thesis by (simp add: failed(2) ctl_ok_def)
  next
    case (engaged new)
    from ctl_ok_engaged[OF ok refl call engaged(3)] show ?thesis by (simp add: engaged(2) ctl_ok_def)
  qed
  then show "ctl_ok calls (mcc_ctxs c') c'" and "store_ext (mcc_ctxs c) (mcc_ctxs c')" by auto
qed

lemma disengage_ok:
  assumes "ctl_ok calls (mcc_ctxs c) c"
  shows "ctl_ok calls (mcc_ctxs (disengage n old c)) (disengage n old c)"
    and "store_ext (mcc_ctxs c) (mcc_ctxs (disengage n old c))"
proof -
  show ext: "store_ext (mcc_ctxs c) (mcc_ctxs (disengage n old c))" by (simp add: disengage_def)
  from ctl_ok_fmdrop[OF ctl_ok_mono[OF assms ext subset_refl], of n]
  show "ctl_ok calls (mcc_ctxs (disengage n old c)) (disengage n old c)" by (simp add: disengage_def ctl_ok_def)
qed

lemma controller_Engage_ok:
  assumes ok: "ctl_ok calls (mcc_ctxs c) c" and e: "controller_Engage fc wt inner cx n cl c = (err, c')"
    and call: "(a, cx, n, cl) \<in> set calls" "cx < length (mcc_ctxs c)"
  shows "ctl_ok calls (mcc_ctxs c') c'" and "store_ext (mcc_ctxs c) (mcc_ctxs c')"
proof -
  have "ctl_ok calls (mcc_ctxs c') c' \<and> store_ext (mcc_ctxs c) (mcc_ctxs c')"
  proof (cases "fmlookup (mcc_clusters c) n")
    case None
    with e engage_fresh_ok[OF ok _ call] show ?thesis by (auto simp: controller_Engage_def)
  next
    case (Some old)
    note d = disengage_ok[OF ok, of n old]
    have "cx < length (mcc_ctxs (disengage n old c))" using call(2) by (simp add: disengage_def)
    note f = engage_fresh_ok[OF d(1) _ call(1) this]
    show ?thesis
    proof (cases "ec_cluster old = cl \<and> \<not> ctx_err (mcc_ctxs c) (ec_ctx old)")
      case True
      with e Some ok show ?thesis by (auto simp: controller_Engage_def)
    next
      case False
      with e Some have "engage_fresh fc wt inner cx n cl (disengage n old c) = (err, c')" by (auto simp: controller_Engage_def)
      with f store_ext_trans[OF d(2)] show ?thesis by blast
    qed
  qed
  then show "ctl_ok calls (mcc_ctxs c') c'" and "store_ext (mcc_ctxs c) (mcc_ctxs c')" by auto
qed

lemma MultiClusterWatch_ok:
  assumes ok: "ctl_ok calls S c" and ord: "iter_order (mcc_clusters c) ord"
    and st: "MultiClusterWatch fc wt ord src c = (err, c')"
  shows "ctl_ok calls S c'" and "mcc_ctxs c' = mcc_ctxs c"
proof -
  let ?cls = "map (\<lambda>n. (n, the (fmlookup (mcc_clusters c) n))) ord"
  obtain ws where ws: "watch_clusters fc wt src ?cls (mcc_watches c) = (err, ws)"
    and c': "c' = (if err = None then c\<lparr>mcc_watches := ws, mcc_sources := mcc_sources c @ [src]\<rparr>
                   else c\<lparr>mcc_watches := ws\<rparr>)"
    using st by (auto simp: MultiClusterWatch_def split: prod.splits option.splits)
  from watch_clusters_result[OF ws] obtain new where new: "ws = mcc_watches c @ new"
    "\<forall>w \<in> set new. \<exists>eng. (w_name w, eng) \<in> set ?cls \<and> w_cluster w = ec_cluster eng \<and> w_ctx w = ec_ctx eng" by blast
  have "(n, eng) \<in> set ?cls \<longleftrightarrow> fmlookup (mcc_clusters c) n = Some eng" for n eng
    using iter_order_iff[OF ord, of n] by auto
  with new(2) have "\<forall>w \<in> set new. ctx_err S (w_ctx w) \<or> engaged_by calls S (w_name w) (w_cluster w) (w_ctx w)"
    using ok unfolding ctl_ok_def by metis
  with ok new(1) c' show "ctl_ok calls S c'" by (auto simp: ctl_ok_def)
  show "mcc_ctxs c' = mcc_ctxs c" using c' by simp
qed


subsection \<open>The invariant\<close>

definition sys_inv :: "fleet_env \<Rightarrow> system \<Rightarrow> bool" where
  "sys_inv F y \<longleftrightarrow> clusters_inv (sy_set y) \<and>
     (\<forall>(n, cl, k) \<in> set (sy_pending y). issued (sy_set y) n cl k) \<and>
     (\<forall>(b, k, n, cl) \<in> set (mgr_calls (sy_mgr y)). issued (sy_set y) n cl k) \<and>
     (\<forall>a. ctl_ok (mgr_calls (sy_mgr y)) (sy_ctxs y) (sy_ctls y a) \<and> controller_inv (fl_for_cluster F a) (on_store y a))"

lemma sys_invD:
  assumes "sys_inv F y"
  shows "clusters_inv (sy_set y)" and "\<And>n cl k. (n, cl, k) \<in> set (sy_pending y) \<Longrightarrow> issued (sy_set y) n cl k"
    and "\<And>b n cl k. (b, k, n, cl) \<in> set (mgr_calls (sy_mgr y)) \<Longrightarrow> issued (sy_set y) n cl k"
    and "\<And>a. ctl_ok (mgr_calls (sy_mgr y)) (sy_ctxs y) (sy_ctls y a)"
    and "\<And>a. controller_inv (fl_for_cluster F a) (on_store y a)"
  using assms by (auto simp: sys_inv_def)

lemma on_store_sel [simp]:
  "mcc_ctxs (on_store y a) = sy_ctxs y" "mcc_clusters (on_store y a) = mcc_clusters (sy_ctls y a)"
  "mcc_watches (on_store y a) = mcc_watches (sy_ctls y a)" "mcc_waiting (on_store y a) = mcc_waiting (sy_ctls y a)"
  "mcc_sources (on_store y a) = mcc_sources (sy_ctls y a)" "mcc_started (on_store y a) = mcc_started (sy_ctls y a)"
  by (simp_all add: on_store_def)

lemma put_ctl_sel [simp]:
  "sy_ctls (put_ctl a c y) = (sy_ctls y)(a := c)" "sy_ctxs (put_ctl a c y) = mcc_ctxs c"
  "sy_pending (put_ctl a c y) = sy_pending y" "sy_mgr (put_ctl a c y) = sy_mgr y"
  "cs_clusters (sy_set (put_ctl a c y)) = cs_clusters (sy_set y)"
  "cs_cancels (sy_set (put_ctl a c y)) = cs_cancels (sy_set y)"
  by (simp_all add: put_ctl_def)

text \<open>A change of the cluster set that keeps what was issued, and of the store that only extends it.\<close>

lemma sys_inv_set:
  assumes "sys_inv F y" and "clusters_inv c" and "store_ext (sy_ctxs y) (cs_ctxs c)"
    and "\<And>n cl k. issued (sy_set y) n cl k \<Longrightarrow> issued c n cl k"
    and "\<And>n cl k. (n, cl, k) \<in> set ps \<Longrightarrow> (n, cl, k) \<in> set (sy_pending y) \<or> issued c n cl k"
  shows "sys_inv F (y\<lparr>sy_set := c, sy_pending := ps\<rparr>)"
proof -
  have "controller_inv (fl_for_cluster F a) (on_store (y\<lparr>sy_set := c, sy_pending := ps\<rparr>) a)" for a
    using controller_inv_ext[OF sys_invD(5)[OF assms(1), of a], of "cs_ctxs c"] assms(3) by (simp add: on_store_def)
  with sys_invD[OF assms(1)] assms(2-) ctl_ok_mono[OF _ assms(3) subset_refl] show ?thesis
    unfolding sys_inv_def by fastforce
qed

lemma clusters_inv_ext: "clusters_inv c \<Longrightarrow> store_ext (cs_ctxs c) S \<Longrightarrow> clusters_inv (c\<lparr>cs_ctxs := S\<rparr>)"
  unfolding clusters_inv_def store_ext_def by (simp, meson order_less_le_trans)

lemma sys_inv_ctxs:
  assumes "sys_inv F y" and "store_ext (sy_ctxs y) S"
  shows "sys_inv F (y\<lparr>sy_set := (sy_set y)\<lparr>cs_ctxs := S\<rparr>\<rparr>)"
  using sys_inv_set[OF assms(1) clusters_inv_ext[OF sys_invD(1)[OF assms(1)] assms(2)], of "sy_pending y"]
    issued_ext[OF _ assms(2)] assms(2) by simp

lemma sys_inv_put:
  assumes inv: "sys_inv F y" and ok: "ctl_ok (mgr_calls (sy_mgr y)) (mcc_ctxs c) c"
    and ext: "store_ext (sy_ctxs y) (mcc_ctxs c)" and ci: "controller_inv (fl_for_cluster F a) c"
  shows "sys_inv F (put_ctl a c y)"
proof -
  let ?y = "y\<lparr>sy_set := (sy_set y)\<lparr>cs_ctxs := mcc_ctxs c\<rparr>\<rparr>"
  note y = sys_invD[OF sys_inv_ctxs[OF inv ext]]
  have "put_ctl a c y = ?y\<lparr>sy_ctls := (sy_ctls y)(a := c)\<rparr>" by (simp add: put_ctl_def)
  moreover have "controller_inv (fl_for_cluster F b) (on_store (put_ctl a c y) b)" for b
    using y(5)[of b] ci by (cases "b = a") (simp_all add: on_store_def)
  ultimately show ?thesis using y(1-4) ok unfolding sys_inv_def by fastforce
qed

lemma sys_call_inv:
  assumes inv: "sys_inv F y" and x: "x \<in> set (mgr_calls (sy_mgr y))"
  shows "sys_inv F (sys_call F x y)"
proof -
  obtain a cx n cl where x': "x = (a, cx, n, cl)" by (metis prod_cases4)
  obtain err c where e: "ctl_Engage F y x = (err, c)" by fastforce
  then have ce: "controller_Engage (fl_for_cluster F a) (fl_watch F a) (fl_inner F a) cx n cl (on_store y a) = (err, c)"
    by (simp add: ctl_Engage_def x')
  have "ctl_ok (mgr_calls (sy_mgr y)) (mcc_ctxs (on_store y a)) (on_store y a)"
    using sys_invD(4)[OF inv, of a] by (simp add: on_store_def)
  moreover have "cx < length (mcc_ctxs (on_store y a))" using sys_invD(3)[OF inv] x x' by (fastforce simp: issued_def)
  ultimately have "ctl_ok (mgr_calls (sy_mgr y)) (mcc_ctxs c) c" "store_ext (sy_ctxs y) (mcc_ctxs c)"
    using controller_Engage_ok[OF _ ce x[unfolded x']] by simp_all
  moreover have "controller_inv (fl_for_cluster F a) c" by (rule controller_Engage_inv[OF sys_invD(5)[OF inv] ce])
  ultimately show ?thesis using sys_inv_put[OF inv] e by (simp add: sys_call_def x')
qed

lemma sys_call_mgr [simp]: "sy_mgr (sys_call F x y) = sy_mgr y" "sy_pending (sys_call F x y) = sy_pending y"
  by (simp_all add: sys_call_def)

lemma sys_calls_sel [simp]: "sy_mgr (sys_calls F xs y) = sy_mgr y" "sy_pending (sys_calls F xs y) = sy_pending y"
  by (induction xs arbitrary: y) (simp_all add: sys_calls_def)

lemma sys_calls_inv: "sys_inv F y \<Longrightarrow> set xs \<subseteq> set (mgr_calls (sy_mgr y)) \<Longrightarrow> sys_inv F (sys_calls F xs y)"
  by (induction xs arbitrary: y) (simp_all add: sys_calls_def sys_call_inv)

text \<open>The calls that are on record play no part in what a controller does.\<close>

lemma sys_call_upd_mgr: "(sys_call F x y)\<lparr>sy_mgr := m\<rparr> = sys_call F x (y\<lparr>sy_mgr := m\<rparr>)"
  by (simp add: sys_call_def ctl_Engage_def put_ctl_def on_store_def split: prod.splits)

lemma sys_calls_upd_mgr: "(sys_calls F xs y)\<lparr>sy_mgr := m\<rparr> = sys_calls F xs (y\<lparr>sy_mgr := m\<rparr>)"
  by (induction xs arbitrary: y) (simp_all add: sys_calls_def sys_call_upd_mgr)

lemma manager_Engage_calls:
  assumes "manager_Engage aw other cx n cl m = (err, m')"
  obtains ys where "mgr_calls m' = mgr_calls m @ map (\<lambda>a. (a, cx, n, cl)) ys"
proof (cases "\<exists>c. mm_coord m = Some (BasicCoord c)")
  case True
  then obtain c where c: "mm_coord m = Some (BasicCoord c)" by blast
  obtain calls where "engage_awares aw cx n cl (b_awares c) (b_calls c) = (err, calls)"
    and m': "m' = m\<lparr>mm_coord := Some (BasicCoord (c\<lparr>b_calls := calls\<rparr>))\<rparr>"
    using assms c by (auto simp: manager_Engage_def basic_Engage_def split: prod.splits)
  from engage_awares_calls[OF this(1)] obtain ys where "calls = b_calls c @ map (\<lambda>a. (a, cx, n, cl)) ys" by blast
  with that c m' show ?thesis by (simp add: mgr_calls_def)
next
  case False
  then have "m' = m" using assms by (auto simp: manager_Engage_def split: option.splits coord.splits)
  with that[of "[]"] show ?thesis by simp
qed

text \<open>Calls for a context that was made for the cluster can be put on record.\<close>

lemma sys_inv_logged:
  assumes inv: "sys_inv F y" and iss: "issued (sy_set y) n cl k"
    and ys: "mgr_calls m = mgr_calls (sy_mgr y) @ map (\<lambda>a. (a, k, n, cl)) ys"
  shows "sys_inv F (y\<lparr>sy_mgr := m\<rparr>)"
proof -
  have "controller_inv (fl_for_cluster F a) (on_store (y\<lparr>sy_mgr := m\<rparr>) a)" for a
    using sys_invD(5)[OF inv, of a] by (simp add: on_store_def)
  moreover have "ctl_ok (mgr_calls m) (sy_ctxs y) (sy_ctls y a)" for a
    by (rule ctl_ok_mono[OF sys_invD(4)[OF inv] store_ext_refl]) (simp add: ys)
  ultimately show ?thesis
    using sys_invD(1-3)[OF inv] iss unfolding sys_inv_def by (fastforce simp: ys)
qed

lemma sys_Engage_inv:
  assumes inv: "sys_inv F y" and iss: "issued (sy_set y) n cl k" and e: "sys_Engage F other k n cl y = (err, y')"
  shows "sys_inv F y'"
proof -
  let ?k = "length (mgr_calls (sy_mgr y))"
  obtain m where m: "manager_Engage (sys_oracle F y ?k) other k n cl (sy_mgr y) = (err, m)"
    and y': "y' = sys_calls F (drop ?k (mgr_calls m)) (y\<lparr>sy_mgr := m\<rparr>)"
    using e by (auto simp: sys_Engage_def sys_calls_upd_mgr Let_def split: prod.splits)
  from m obtain ys where ys: "mgr_calls m = mgr_calls (sy_mgr y) @ map (\<lambda>a. (a, k, n, cl)) ys"
    by (rule manager_Engage_calls)
  from sys_inv_logged[OF inv iss ys] show ?thesis unfolding y' by (rule sys_calls_inv) (simp add: ys)
qed


lemma sys_inv_pending: "sys_inv F y \<Longrightarrow> set ps \<subseteq> set (sy_pending y) \<Longrightarrow> sys_inv F (y\<lparr>sy_pending := ps\<rparr>)"
  unfolding sys_inv_def by (auto simp: on_store_def)

lemma clusters_Remove_ext: "store_ext (cs_ctxs c) (cs_ctxs (clusters_Remove n c))"
  by (simp add: clusters_Remove_def Let_def split: option.splits)

lemma issued_Remove:
  assumes "clusters_inv c" and "issued c m cl k"
  shows "issued (clusters_Remove n c) m cl k"
proof (cases "ctx_err (cs_ctxs c) k \<or> m \<noteq> n")
  case True
  with assms(2) clusters_Remove_ext[of c n] show ?thesis by (auto simp: issued_def store_ext_def)
next
  case False
  with assms(2) have "fmlookup (cs_cancels c) n = Some k" by (simp add: issued_def)
  with clustersLife.drop_cancels[OF assms(1)] assms(2) show ?thesis by (simp add: issued_def)
qed

lemma issued_add:
  assumes inv: "clusters_inv c" and add: "clusters_add parent n cl c = (Inr k, c')"
  shows "issued c m x j \<Longrightarrow> issued c' m x j" and "issued c' n cl k"
    and "clusters_inv c'" and "store_ext (cs_ctxs c) (cs_ctxs c')"
proof -
  from add have new: "clusters_known c n = None" and k: "k = length (cs_ctxs c)"
    and c': "c' = c\<lparr>cs_ctxs := fst (with_cancel (cs_ctxs c) parent), cs_clusters := fmupd n cl (cs_clusters c),
      cs_cancels := fmupd n k (cs_cancels c)\<rparr>"
    by (auto simp: clusters_add_def with_cancel_def split: option.splits)
  have free: "fmlookup (cs_cancels c) n = None" using clusters_inv_lookup[OF inv] new by simp
  show "issued c m x j \<Longrightarrow> issued c' m x j"
    using free by (auto simp: issued_def c' ctx_err_with_cancel_old less_Suc_eq)
  show "issued c' n cl k" by (simp add: issued_def c' k)
  have "clusters_inv ((entered parent n cl c)\<lparr>cs_running := cs_running c\<rparr>)"
    using entered_inv[OF inv new] by (simp add: clusters_inv_def)
  then show "clusters_inv c'" by (simp add: clusters_inv_def c' k)
  show "store_ext (cs_ctxs c) (cs_ctxs c')" by (simp add: c')
qed

lemma sys_inv_same_set:
  assumes "sys_inv F y" and "cs_ctxs c = sy_ctxs y" "cs_cancels c = cs_cancels (sy_set y)" "cs_clusters c = cs_clusters (sy_set y)"
  shows "sys_inv F (y\<lparr>sy_set := c\<rparr>)"
proof -
  have "clusters_inv c" using sys_invD(1)[OF assms(1)] assms(2-4) by (simp add: clusters_inv_def)
  from sys_inv_set[OF assms(1) this, of "sy_pending y"] assms(2-4) show ?thesis by (simp add: issued_cong[of c "sy_set y"])
qed

lemma sys_inv_remove: "sys_inv F y \<Longrightarrow> sys_inv F (y\<lparr>sy_set := clusters_Remove n (sy_set y)\<rparr>)"
  using sys_inv_set[of F y "clusters_Remove n (sy_set y)" "sy_pending y"]
  by (simp add: sys_invD(1) clusters_Remove_inv clusters_Remove_ext issued_Remove)

lemma manager_Add_calls: "manager_Add H a m = (err, m') \<Longrightarrow> mgr_calls m' = mgr_calls m"
  by (auto simp: manager_Add_def host_Add_def mgr_calls_def basic_AddAware_def split: option.splits coord.splits)

lemma sys_step_inv:
  assumes "sys_step F y y'" and inv: "sys_inv F y"
  shows "sys_inv F y'"
  using assms(1)
proof cases
  case (enter parent n cl k c)
  let ?c = "c\<lparr>cs_running := cs_running c @ [(n, cl, k)]\<rparr>"
  note a = issued_add[OF sys_invD(1)[OF inv] enter(2)]
  have same: "issued ?c m x j = issued c m x j" "clusters_inv ?c = clusters_inv c" for m x j
    by (simp_all add: issued_def clusters_inv_def)
  show ?thesis unfolding enter(1)
    by (rule sys_inv_set[OF inv]) (use a same in auto)
next
  case (engage n cl k other err z)
  have "sys_inv F z" by (rule sys_Engage_inv[OF inv sys_invD(2)[OF inv engage(2)] engage(3)])
  moreover have "sy_pending z = sy_pending y"
    using engage(3) by (auto simp: sys_Engage_def Let_def split: prod.splits)
  ultimately show ?thesis unfolding engage(1) using set_remove1_subset[of _ "sy_pending y"] by (intro sys_inv_pending) auto
next
  case (gave_up p)
  then show ?thesis using sys_inv_pending[OF inv] set_remove1_subset by metis
next
  case (returned r)
  have "sys_inv F (y\<lparr>sy_set := (sy_set y)\<lparr>cs_running := remove1 r (cs_running (sy_set y))\<rparr>\<rparr>)"
    by (rule sys_inv_same_set[OF inv]) simp_all
  from sys_inv_remove[OF this, of "fst r"] show ?thesis by (simp add: returned(1) start_returned_def)
next
  case (index ord E i err c)
  show ?thesis unfolding index(1)
    by (rule sys_inv_same_set[OF inv]) (use index(3) in \<open>auto simp: clusters_IndexField_def Let_def\<close>)
next
  case (added H a err m)
  have "controller_inv (fl_for_cluster F b) (on_store y' b)" for b
    using sys_invD(5)[OF inv, of b] by (simp add: added(1) on_store_def)
  then show ?thesis using sys_invD[OF inv] manager_Add_calls[OF added(2)] unfolding sys_inv_def by (fastforce simp: added(1))
next
  case (watch a ord src err c)
  have "ctl_ok (mgr_calls (sy_mgr y)) (sy_ctxs y) (on_store y a)" using sys_invD(4)[OF inv, of a] by (simp add: on_store_def)
  from MultiClusterWatch_ok[OF this _ watch(3)] watch(2) MultiClusterWatch_inv[OF sys_invD(5)[OF inv] _ watch(3)]
  show ?thesis unfolding watch(1) by (intro sys_inv_put[OF inv]) simp_all
next
  case (ended tok a)
  have "ctl_ok (mgr_calls (sy_mgr y)) (sy_ctxs y) (engagement_done tok (on_store y a))"
    using sys_invD(4)[OF inv, of a] ctl_ok_fmdrop[of _ _ "sy_ctls y a" "ec_name tok"]
    by (auto simp: engagement_done_def Let_def on_store_def ctl_ok_def)
  moreover have "mcc_ctxs (engagement_done tok (on_store y a)) = sy_ctxs y" by (simp add: engagement_done_def Let_def)
  moreover have "controller_inv (fl_for_cluster F a) (engagement_done tok (on_store y a))"
    by (rule engagement_done_inv[OF sys_invD(5)[OF inv]]) (use ended(3) in simp)
  ultimately show ?thesis unfolding ended(1) by (intro sys_inv_put[OF inv]) simp_all
next
  case (started w a ctl)
  let ?c = "startWithinContext w ctl (on_store y a)"
  have S: "mcc_ctxs ?c = fst (with_cancel (sy_ctxs y) (w_ctx w))" by (simp add: startWithinContext_def with_cancel_def)
  have "ctl_ok (mgr_calls (sy_mgr y)) (mcc_ctxs ?c) (sy_ctls y a)"
    unfolding S by (rule ctl_ok_mono[OF sys_invD(4)[OF inv] store_ext_with_cancel subset_refl])
  then have "ctl_ok (mgr_calls (sy_mgr y)) (mcc_ctxs ?c) ?c"
    by (simp add: startWithinContext_def with_cancel_def on_store_def ctl_ok_def)
  moreover have "controller_inv (fl_for_cluster F a) ?c"
    by (rule controller_step_inv[OF controller_step.started sys_invD(5)[OF inv]]) (use started(2) in simp)
  ultimately show ?thesis unfolding started(1) by (intro sys_inv_put[OF inv]) (simp_all add: S)
next
  case (stopped t a)
  let ?c = "controller_stopped t (on_store y a)"
  have S: "mcc_ctxs ?c = cancel (sy_ctxs y) (fst (snd t))" by (simp add: controller_stopped_def)
  have "ctl_ok (mgr_calls (sy_mgr y)) (mcc_ctxs ?c) (sy_ctls y a)"
    unfolding S by (rule ctl_ok_mono[OF sys_invD(4)[OF inv] store_ext_cancel subset_refl])
  then have "ctl_ok (mgr_calls (sy_mgr y)) (mcc_ctxs ?c) ?c" by (simp add: controller_stopped_def on_store_def ctl_ok_def)
  moreover have "controller_inv (fl_for_cluster F a) ?c"
    by (rule controller_step_inv[OF controller_step.stopped sys_invD(5)[OF inv]]) (use stopped(2,3) in simp_all)
  ultimately show ?thesis unfolding stopped(1) by (intro sys_inv_put[OF inv]) (simp_all add: S)
qed (auto intro: sys_inv_ctxs[OF inv] sys_inv_remove[OF inv] sys_inv_same_set[OF inv])


lemma sys_run_inv: "(sys_step F)\<^sup>*\<^sup>* y y' \<Longrightarrow> sys_inv F y \<Longrightarrow> sys_inv F y'"
  by (induction rule: rtranclp_induct) (auto intro: sys_step_inv)

lemma WithMultiCluster_coord: "WithMultiCluster H pv [] = Inr m \<Longrightarrow> mm_coord m = Some (BasicCoord basic_New)"
  by (auto simp: WithMultiCluster_def basic_Runnable_def)

lemma sys_new_inv:
  assumes "WithMultiCluster H pv [] = Inr m" and "\<forall>a. \<exists>ctl. NewTypedUnmanaged dflt cr S (nm a) opts = Inr (ctl, C a)"
  shows "sys_inv F (sys_new S m C)"
proof -
  have "C a = \<lparr>mcc_clusters = fmempty, mcc_sources = [], mcc_ctxs = S, mcc_watches = [], mcc_waiting = [], mcc_started = []\<rparr>" for a
  proof -
    from assms(2) obtain ctl where "NewTypedUnmanaged dflt cr S (nm a) opts = Inr (ctl, C a)" by blast
    then show ?thesis by (auto simp: NewTypedUnmanaged_def split: sum.splits)
  qed
  moreover have "mgr_calls m = []" using WithMultiCluster_coord[OF assms(1)] by (simp add: mgr_calls_def basic_New_def)
  ultimately show ?thesis
    by (simp add: sys_inv_def sys_new_def clusters_New_inv ctl_ok_def on_store_def controller_inv_def covered_def
        current_only_def engagements_ok_def)
qed

lemma live_watch_known:
  assumes "sys_inv F y" and "w \<in> set (mcc_watches (sy_ctls y a))" and "\<not> ctx_err (sy_ctxs y) (w_ctx w)"
  shows "clusters_known (sy_set y) (w_name w) = Some (w_cluster w)"
proof -
  from sys_invD(4)[OF assms(1), of a] assms(2,3)
  have "engaged_by (mgr_calls (sy_mgr y)) (sy_ctxs y) (w_name w) (w_cluster w) (w_ctx w)" by (auto simp: ctl_ok_def)
  then obtain b cx where cx: "(b, cx, w_name w, w_cluster w) \<in> set (mgr_calls (sy_mgr y))" "w_ctx w < length (sy_ctxs y)"
    "fst (sy_ctxs y ! w_ctx w) = Some cx" "cx < w_ctx w" by (auto simp: engaged_by_def)
  then have "\<not> ctx_err (sy_ctxs y) cx" using assms(3) ctx_err_child by blast
  with sys_invD(3)[OF assms(1) cx(1)] show ?thesis by (simp add: issued_def)
qed

text \<open>The manager with the provider as it is in the given state.\<close>

abbreviation sy_manager :: "cluster_env \<Rightarrow> cluster_name list \<Rightarrow> system \<Rightarrow> mc_manager" where
  "sy_manager E ord y \<equiv> (sy_mgr y)\<lparr>mm_provider := Some (clusters_view E ord (sy_set y))\<rparr>"

lemma live_watch_resolves:
  assumes "sys_inv F y" and "w \<in> set (mcc_watches (sy_ctls y a))" and "\<not> ctx_err (sy_ctxs y) (w_ctx w)"
    and "w_name w \<noteq> LocalCluster"
  shows "GetCluster H (sy_manager E ord y) (w_name w) = Inr (w_cluster w)"
  using clustersGet.get_known[OF live_watch_known[OF assms(1-3)]] assms(4) by (simp add: GetCluster_def clusters_view_def)

subsection \<open>One call of Engage\<close>

lemma sys_calls_append: "sys_calls F (xs @ ys) y = sys_calls F ys (sys_calls F xs y)"
  by (simp add: sys_calls_def)

lemma sys_calls_Cons: "sys_calls F (x # xs) y = sys_calls F xs (sys_call F x y)"
  by (simp add: sys_calls_def)

lemma sys_calls_other: "a \<notin> fst ` set xs \<Longrightarrow> sy_ctls (sys_calls F xs y) a = sy_ctls y a"
  by (induction xs arbitrary: y) (auto simp: sys_calls_def sys_call_def)

lemma ctl_Engage_upd_mgr [simp]: "ctl_Engage F (y\<lparr>sy_mgr := m\<rparr>) x = ctl_Engage F y x"
  by (simp add: ctl_Engage_def on_store_def split: prod.splits)

text \<open>The state of a controller after all calls is the one after its own call.\<close>

lemma sys_calls_own:
  assumes "a \<notin> fst ` set later"
  shows "sy_ctls (sys_calls F (pre @ (a, cx, n, cl) # later) y) a = snd (ctl_Engage F (sys_calls F pre y) (a, cx, n, cl))"
  using sys_calls_other[OF assms, of F "sys_call F (a, cx, n, cl) (sys_calls F pre y)"]
  by (simp add: sys_calls_append sys_calls_Cons) (simp add: sys_call_def)

lemma sys_own_call:
  assumes "a \<notin> fst ` set later" and "fst (ctl_Engage F (sys_calls F pre y) (a, cx, n, cl)) = r"
  shows "ctl_Engage F (sys_calls F pre (y\<lparr>sy_mgr := m\<rparr>)) (a, cx, n, cl) =
    (r, sy_ctls (sys_calls F (pre @ (a, cx, n, cl) # later) (y\<lparr>sy_mgr := m\<rparr>)) a)"
  using assms(2) sys_calls_own[OF assms(1), of F pre cx n cl "y\<lparr>sy_mgr := m\<rparr>"]
  by (simp add: prod_eq_iff flip: sys_calls_upd_mgr)

lemma ctl_Engage_books:
  assumes inv: "sys_inv F z" and e: "ctl_Engage F z (a, cx, n, cl) = (err, c)"
  shows "err = None \<Longrightarrow> \<exists>ec. fmlookup (mcc_clusters c) n = Some ec \<and> ec_cluster ec = cl \<and>
      (\<forall>s \<in> set (mcc_sources c). fl_for_cluster F a s n cl = Inr True \<longrightarrow>
         \<lparr>w_source = s, w_name = n, w_cluster = cl, w_ctx = ec_ctx ec\<rparr> \<in> set (mcc_watches c))"
    and "err \<noteq> None \<Longrightarrow> fmlookup (mcc_clusters c) n = None"
proof -
  note e' = e[unfolded ctl_Engage_def, simplified]
  note r = controller_Engage_result[OF sys_invD(5)[OF inv] e'] controller_Engage_inv[OF sys_invD(5)[OF inv] e']
  then show "err = None \<Longrightarrow> \<exists>ec. fmlookup (mcc_clusters c) n = Some ec \<and> ec_cluster ec = cl \<and>
      (\<forall>s \<in> set (mcc_sources c). fl_for_cluster F a s n cl = Inr True \<longrightarrow>
         \<lparr>w_source = s, w_name = n, w_cluster = cl, w_ctx = ec_ctx ec\<rparr> \<in> set (mcc_watches c))"
    by (auto simp: controller_inv_def covered_def)
  from r show "err \<noteq> None \<Longrightarrow> fmlookup (mcc_clusters c) n = None" by auto
qed

lemma removed_not_watched:
  assumes "sys_inv F y" and "w \<in> set (mcc_watches (sy_ctls y a))"
  shows "ctx_err (cs_ctxs (clusters_Remove (w_name w) (sy_set y))) (w_ctx w)"
  using live_watch_known[OF sys_inv_remove[OF assms(1), of "w_name w"], of w a] assms(2) by auto

lemma sys_Engage_cases:
  assumes "sys_Engage F other k n cl y = (err, y')" and "mm_coord (sy_mgr y) = Some (BasicCoord c)"
  obtains (engaged) m where "err = None" "sy_mgr y' = m" "mgr_calls m = b_calls c @ map (\<lambda>a. (a, k, n, cl)) (b_awares c)"
      "y' = sys_calls F (map (\<lambda>a. (a, k, n, cl)) (b_awares c)) (y\<lparr>sy_mgr := m\<rparr>)"
      "\<And>ys a zs. b_awares c = ys @ a # zs \<Longrightarrow>
         fst (ctl_Engage F (sys_calls F (map (\<lambda>a. (a, k, n, cl)) ys) y) (a, k, n, cl)) = None"
  | (refused) e m ys a zs where "err = Some e" "sy_mgr y' = m" "b_awares c = ys @ a # zs"
      "mgr_calls m = b_calls c @ map (\<lambda>a. (a, k, n, cl)) (ys @ [a])"
      "y' = sys_calls F (map (\<lambda>a. (a, k, n, cl)) (ys @ [a])) (y\<lparr>sy_mgr := m\<rparr>)"
      "fst (ctl_Engage F (sys_calls F (map (\<lambda>a. (a, k, n, cl)) ys) y) (a, k, n, cl)) = Some e"
proof -
  let ?k = "length (b_calls c)" and ?call = "\<lambda>a. (a, k, n, cl)"
  have k: "mgr_calls (sy_mgr y) = b_calls c" using assms(2) by (simp add: mgr_calls_def)
  obtain calls m where ea: "engage_awares (sys_oracle F y ?k) k n cl (b_awares c) (b_calls c) = (err, calls)"
    and m: "m = (sy_mgr y)\<lparr>mm_coord := Some (BasicCoord (c\<lparr>b_calls := calls\<rparr>))\<rparr>"
    and y': "y' = sys_calls F (drop ?k (mgr_calls m)) (y\<lparr>sy_mgr := m\<rparr>)"
    using assms k by (auto simp: sys_Engage_def sys_calls_upd_mgr manager_Engage_def basic_Engage_def Let_def split: prod.splits)
  have mc: "mgr_calls m = calls" by (simp add: m mgr_calls_def)
  show ?thesis
  proof (cases err)
    case None
    from engage_awares_calls[OF ea] None have "calls = b_calls c @ map ?call (b_awares c)" by auto
    with None y' mc engage_awares_ok[OF ea[unfolded None]] show ?thesis by (intro engaged[of m]) (auto simp: sys_oracle_def)
  next
    case (Some e)
    from engage_awares_error[OF ea[unfolded Some]] obtain ys a zs where "b_awares c = ys @ a # zs"
      "calls = b_calls c @ map ?call (ys @ [a])" "sys_oracle F y ?k (b_calls c @ map ?call ys) (a, k, n, cl) = Some e" by blast
    with Some y' mc show ?thesis by (intro refused[of e m ys a zs]) (auto simp: sys_oracle_def)
  qed
qed


subsection \<open>Add is a run\<close>

text \<open>
  \<open>Add\<close> of the cluster set with the manager as its aware, cut into steps of the system: whatever
  it returns, the tables and the log it leaves are those of a run in which nothing came in between.
\<close>

definition same_tables :: "cluster_set \<Rightarrow> cluster_set \<Rightarrow> bool" where
  "same_tables c d \<longleftrightarrow> cs_clusters c = cs_clusters d \<and> cs_cancels c = cs_cancels d \<and> cs_running c = cs_running d \<and>
     cs_calls c = cs_calls d \<and> cs_indexers c = cs_indexers d"

lemma same_tables_refl [simp]: "same_tables c c" "same_tables (c\<lparr>cs_ctxs := S\<rparr>) c"
  by (simp_all add: same_tables_def)

lemma same_tables_trans: "same_tables c d \<Longrightarrow> same_tables d e \<Longrightarrow> same_tables c e"
  by (simp add: same_tables_def)

lemma same_tables_Remove: "same_tables c d \<Longrightarrow> same_tables (clusters_Remove n c) (clusters_Remove n d)"
  by (simp add: same_tables_def)

lemma sys_calls_tables: "same_tables (sy_set (sys_calls F xs y)) (sy_set y)"
  by (induction xs arbitrary: y) (simp_all add: sys_calls_def sys_call_def same_tables_def put_ctl_def)

lemma sys_Engage_tables: "sys_Engage F other k n cl y = (err, y') \<Longrightarrow> same_tables (sy_set y') (sy_set y)"
  using sys_calls_tables by (auto simp: sys_Engage_def Let_def split: prod.splits)

lemma sys_enter:
  assumes "clusters_known (sy_set y) n = None"
  shows "(sys_step F)\<^sup>*\<^sup>* y (y\<lparr>sy_set := (entered parent n cl (sy_set y))\<lparr>cs_calls := calls\<rparr>,
    sy_pending := (n, cl, length (sy_ctxs y)) # sy_pending y\<rparr>)"
proof -
  let ?y = "y\<lparr>sy_set := entered parent n cl (sy_set y), sy_pending := (n, cl, length (sy_ctxs y)) # sy_pending y\<rparr>"
  have "sys_step F y ?y"
    using sys_step.enter[of parent n cl y "length (sy_ctxs y)" "snd (clusters_add parent n cl (sy_set y))" F] assms
    by (simp add: clusters_add_def with_cancel_def entered_def)
  moreover have "sys_step F ?y (?y\<lparr>sy_set := (sy_set ?y)\<lparr>cs_calls := calls\<rparr>\<rparr>)" by (rule sys_step.called)
  ultimately have r: "(sys_step F)\<^sup>*\<^sup>* y (?y\<lparr>sy_set := (sy_set ?y)\<lparr>cs_calls := calls\<rparr>\<rparr>)"
    by (rule rtranclp.rtrancl_into_rtrancl[OF r_into_rtranclp])
  have "?y\<lparr>sy_set := (sy_set ?y)\<lparr>cs_calls := calls\<rparr>\<rparr> =
      y\<lparr>sy_set := (entered parent n cl (sy_set y))\<lparr>cs_calls := calls\<rparr>, sy_pending := (n, cl, length (sy_ctxs y)) # sy_pending y\<rparr>"
    by (cases y) simp
  with r show ?thesis by (simp only:)
qed

lemma sys_remove: "(sys_step F)\<^sup>*\<^sup>* x y \<Longrightarrow> (sys_step F)\<^sup>*\<^sup>* x (y\<lparr>sy_set := clusters_Remove n (sy_set y)\<rparr>)"
  by (erule rtranclp.rtrancl_into_rtrancl) (rule sys_step.remove)

lemma Add_is_run:
  assumes add: "clusters_Add E parent n cl (Some a) (sy_set y) = (err, c')"
    and aware: "sys_Engage F other (length (sy_ctxs y)) n cl
      (y\<lparr>sy_set := (entered parent n cl (sy_set y))\<lparr>cs_calls := cs_calls c'\<rparr>,
         sy_pending := (n, cl, length (sy_ctxs y)) # sy_pending y\<rparr>) = (env_engage E a n cl, z)"
    and reached: "reached = (clusters_known (sy_set y) n = None \<and> env_sync E n cl \<and>
      (\<forall>i \<in> set (cs_indexers (sy_set y)). env_index E cl i = None))"
  shows "\<exists>y'. (sys_step F)\<^sup>*\<^sup>* y y' \<and> sy_pending y' = sy_pending y \<and> same_tables (sy_set y') c' \<and>
    sy_ctls y' = (if reached then sy_ctls z else sy_ctls y) \<and> (reached \<longrightarrow> err = env_engage E a n cl)"
proof (cases "clusters_known (sy_set y) n")
  case (Some old)
  with add clusters_Add_exists[OF Some] reached show ?thesis by (intro exI[of _ y]) simp
next
  case None
  let ?y = "y\<lparr>sy_set := (entered parent n cl (sy_set y))\<lparr>cs_calls := cs_calls c'\<rparr>,
    sy_pending := (n, cl, length (sy_ctxs y)) # sy_pending y\<rparr>"
  note r = sys_enter[OF None, where F = F and parent = parent and cl = cl and calls = "cs_calls c'"]
  obtain calls where c': "c' = (if err = None then (entered parent n cl (sy_set y))\<lparr>cs_calls := calls\<rparr>
      else clusters_Remove n ((entered parent n cl (sy_set y))\<lparr>cs_calls := calls\<rparr>))"
    using clusters_Add_new(1)[OF None add] by blast
  then have t: "same_tables (if err = None then sy_set ?y else clusters_Remove n (sy_set ?y)) c'"
    by (auto simp: same_tables_def)
  note ok = clusters_Add_new(2)[OF None add]
  show ?thesis
  proof (cases reached)
    case True
    let ?z = "z\<lparr>sy_pending := sy_pending y\<rparr>"
    have z: "same_tables (sy_set z) (sy_set ?y)" by (rule sys_Engage_tables[OF aware])
    have "sys_step F ?y ?z" using sys_step.engage[OF _ aware] by simp
    with r have rz: "(sys_step F)\<^sup>*\<^sup>* y ?z" by (rule rtranclp.rtrancl_into_rtrancl)
    have err: "err = env_engage E a n cl"
    proof -
      have "fst (apply_indexers E cl (cs_indexers (sy_set y)) (cs_calls (sy_set y))) = None"
        using apply_indexers_fst True reached by blast
      then obtain cs where "apply_indexers E cl (cs_indexers (sy_set y)) (cs_calls (sy_set y)) = (None, cs)"
        by (metis prod.collapse)
      with add None True reached show ?thesis
        by (auto simp: clusters_Add_def clusters_add_def with_cancel_def Let_def split: option.splits)
    qed
    show ?thesis
    proof (cases "err = None")
      case True
      with rz same_tables_trans[OF z] t err \<open>reached\<close> show ?thesis by (intro exI[of _ ?z]) simp
    next
      case False
      with t have "same_tables (clusters_Remove n (sy_set ?y)) c'" by (simp split: if_splits)
      with same_tables_Remove[OF z] have "same_tables (clusters_Remove n (sy_set z)) c'" by (rule same_tables_trans)
      with sys_remove[OF rz, of n] err True show ?thesis
        by (intro exI[of _ "?z\<lparr>sy_set := clusters_Remove n (sy_set ?z)\<rparr>"]) simp
    qed
  next
    case False
    with ok None reached have "err \<noteq> None" by auto
    with t have "same_tables (clusters_Remove n (sy_set ?y)) c'" by (simp split: if_splits)
    moreover have "sys_step F ?y (?y\<lparr>sy_pending := sy_pending y\<rparr>)"
      using sys_step.gave_up[of F ?y "(n, cl, length (sy_ctxs y))"] by simp
    with r have "(sys_step F)\<^sup>*\<^sup>* y (?y\<lparr>sy_pending := sy_pending y\<rparr>)" by (rule rtranclp.rtrancl_into_rtrancl)
    note sys_remove[OF this, of n]
    ultimately show ?thesis using False
      by (intro exI[of _ "?y\<lparr>sy_pending := sy_pending y, sy_set := clusters_Remove n (sy_set ?y)\<rparr>"]) simp
  qed
qed

end
