(* ===== verification/SyncExample.thy ===== *)
theory SyncExample
  imports FileProvider Builder
begin

text \<open>
  \<open>examples/sync-local-to-remote\<close>: two controllers that keep ConfigMaps of provider clusters equal
  to those of the local cluster. The reconcilers are modelled whole; the client of a cluster is
  a parameter with the laws of an object store, and an in-memory store has them.
\<close>

subsection \<open>ConfigMaps and their clients\<close>

text \<open>A nil map is \<open>None\<close>; \<open>cmp.Equal\<close> tells it from an empty one. \<open>cm_rest\<close> is the rest of an object.\<close>

record configmap =
  cm_key :: nsname
  cm_rv :: nat
  cm_Labels :: "(string, string) fmap option"
  cm_Data :: "(string, string) fmap option"
  cm_rest :: string

record 's cm_api =
  cm_get :: "'s \<Rightarrow> cluster_h \<Rightarrow> nsname \<Rightarrow> go_error + configmap"
  cm_create :: "'s \<Rightarrow> cluster_h \<Rightarrow> configmap \<Rightarrow> go_error option \<times> 's"
  cm_update :: "'s \<Rightarrow> cluster_h \<Rightarrow> configmap \<Rightarrow> go_error option \<times> 's"
  cm_delete :: "'s \<Rightarrow> cluster_h \<Rightarrow> nsname \<Rightarrow> go_error option \<times> 's"

subsection \<open>The reconcilers\<close>

text \<open>
  \<open>names\<close> is what \<open>provider.ClusterNames()\<close> returns and \<open>getc\<close> what \<open>provider.Get\<close> does. The loop over the
  clusters that deletes returns at once when a cluster is unknown.
\<close>

fun push_delete ::
  "'s cm_api \<Rightarrow> (cluster_name \<Rightarrow> go_error + cluster_h) \<Rightarrow> nsname \<Rightarrow> cluster_name list \<Rightarrow> go_error option \<Rightarrow> 's \<Rightarrow>
   (go_error + go_error option) \<times> 's" where
  "push_delete A getc key [] errs s = (Inr errs, s)"
| "push_delete A getc key (name # names) errs s =
     (case getc name of
        Inl err \<Rightarrow> (Inl err, s)
      | Inr cl \<Rightarrow>
          (case cm_delete A s cl key of
             (None, s1) \<Rightarrow> push_delete A getc key names errs s1
           | (Some err, s1) \<Rightarrow>
               push_delete A getc key names (if \<not> IsNotFound err then errors_join errs (Some err) else errs) s1))"

definition propagated :: "configmap \<Rightarrow> configmap" where
  "propagated cm = \<lparr>cm_key = cm_key cm, cm_rv = 0, cm_Labels = cm_Labels cm, cm_Data = cm_Data cm, cm_rest = ''''\<rparr>"

text \<open>One iteration of the loop that propagates: an error is joined to the others and the loop goes on.\<close>

definition push_one ::
  "'s cm_api \<Rightarrow> (cluster_name \<Rightarrow> go_error + cluster_h) \<Rightarrow> nsname \<Rightarrow> configmap \<Rightarrow> cluster_name \<Rightarrow>
   go_error option \<times> 's \<Rightarrow> go_error option \<times> 's" where
  "push_one A getc key cm name = (\<lambda>(errs, s).
     (case getc name of
        Inl err \<Rightarrow> (errors_join errs (Some err), s)
      | Inr cl \<Rightarrow>
          (case cm_get A s cl key of
             Inl err \<Rightarrow>
               if \<not> IsNotFound err then (errors_join errs (Some err), s)
               else (case cm_create A s cl (propagated cm) of
                       (Some e, s1) \<Rightarrow> (errors_join errs (Some e), s1)
                     | (None, s1) \<Rightarrow> (errs, s1))
           | Inr existing \<Rightarrow>
               if cm_Data existing = cm_Data cm then (errs, s)
               else (case cm_update A s cl (existing\<lparr>cm_Data := cm_Data cm\<rparr>) of
                       (Some e, s1) \<Rightarrow> (errors_join errs (Some e), s1)
                     | (None, s1) \<Rightarrow> (errs, s1)))))"

definition pushLocalToProvider ::
  "'s cm_api \<Rightarrow> cluster_h \<Rightarrow> cluster_name list \<Rightarrow> (cluster_name \<Rightarrow> go_error + cluster_h) \<Rightarrow> nsname \<Rightarrow> 's \<Rightarrow>
   go_error option \<times> 's" where
  "pushLocalToProvider A loc names getc key s =
     (case cm_get A s loc key of
        Inl err \<Rightarrow>
          if \<not> IsNotFound err then (Some err, s)
          else (case push_delete A getc key names None s of
                  (Inl e, s1) \<Rightarrow> (Some e, s1)
                | (Inr errs, s1) \<Rightarrow> (Some err, s1))
      | Inr cm \<Rightarrow> fold (push_one A getc key cm) names (None, s))"

definition pullProviderFromLocal ::
  "'s cm_api \<Rightarrow> cluster_h \<Rightarrow> (cluster_name \<Rightarrow> go_error + cluster_h) \<Rightarrow> Request \<Rightarrow> 's \<Rightarrow> go_error option \<times> 's" where
  "pullProviderFromLocal A loc getc req s =
     (case getc (rq_ClusterName req) of
        Inl err \<Rightarrow> (Some err, s)
      | Inr cl \<Rightarrow>
     (case cm_get A s cl (rq_key req) of
        Inl err \<Rightarrow> if IsNotFound err then (None, s) else (Some err, s)
      | Inr cm \<Rightarrow>
     (case cm_get A s loc (rq_key req) of
        Inl err \<Rightarrow>
          if \<not> IsNotFound err then (Some err, s)
          else cm_delete A s cl (cm_key cm)
      | Inr localCM \<Rightarrow>
          if cm_Data localCM = cm_Data cm then (None, s)
          else cm_update A s cl (cm\<lparr>cm_Data := cm_Data localCM\<rparr>))))"

subsection \<open>The laws of an object store\<close>

lemma errors_join_Some [simp]: "\<exists>y. errors_join errs (Some e) = Some y"
  by (simp add: errors_join_def split: option.splits)

text \<open>
  Reads may fail, but what they return is current; a write that returns nil took effect, one that
  fails may have; neither touches another object. A reliable cluster answers every call.
\<close>

locale cm_store =
  fixes A :: "'s cm_api"
    and stored :: "'s \<Rightarrow> cluster_h \<Rightarrow> nsname \<Rightarrow> configmap option"
    and good :: "'s \<Rightarrow> bool"
  assumes key_law: "good s \<Longrightarrow> stored s cl k = Some c \<Longrightarrow> cm_key c = k"
    and get_law: "good s \<Longrightarrow> cm_get A s cl k = Inr c \<Longrightarrow> stored s cl k = Some c"
    and gone_law: "good s \<Longrightarrow> cm_get A s cl k = Inl e \<Longrightarrow> IsNotFound e \<Longrightarrow> stored s cl k = None"
    and create_law: "good s \<Longrightarrow> cm_create A s cl c = (r, s') \<Longrightarrow>
      good s' \<and> (\<forall>cl' k. (cl', k) \<noteq> (cl, cm_key c) \<longrightarrow> stored s' cl' k = stored s cl' k) \<and>
      (r \<noteq> None \<and> stored s' cl (cm_key c) = stored s cl (cm_key c) \<or>
       (\<exists>v. stored s' cl (cm_key c) = Some (c\<lparr>cm_rv := v\<rparr>)))"
    and update_law: "good s \<Longrightarrow> cm_update A s cl c = (r, s') \<Longrightarrow>
      good s' \<and> (\<forall>cl' k. (cl', k) \<noteq> (cl, cm_key c) \<longrightarrow> stored s' cl' k = stored s cl' k) \<and>
      (r \<noteq> None \<and> stored s' cl (cm_key c) = stored s cl (cm_key c) \<or>
       (\<exists>v. stored s' cl (cm_key c) = Some (c\<lparr>cm_rv := v\<rparr>)))"
    and delete_law: "good s \<Longrightarrow> cm_delete A s cl k = (r, s') \<Longrightarrow>
      good s' \<and> (\<forall>cl' k'. (cl', k') \<noteq> (cl, k) \<longrightarrow> stored s' cl' k' = stored s cl' k') \<and>
      (r \<noteq> None \<and> stored s' cl k = stored s cl k \<or> stored s' cl k = None) \<and>
      (\<forall>e. r = Some e \<and> IsNotFound e \<longrightarrow> stored s' cl k = None)"
begin

definition reliable :: "cluster_h \<Rightarrow> bool" where
  "reliable cl \<longleftrightarrow> (\<forall>s. good s \<longrightarrow>
     (\<forall>k e. cm_get A s cl k = Inl e \<longrightarrow> IsNotFound e) \<and>
     (\<forall>c. stored s cl (cm_key c) = None \<longrightarrow> fst (cm_create A s cl c) = None) \<and>
     (\<forall>c c0. stored s cl (cm_key c) = Some c0 \<and> cm_rv c0 = cm_rv c \<longrightarrow> fst (cm_update A s cl c) = None) \<and>
     (\<forall>k e. fst (cm_delete A s cl k) = Some e \<longrightarrow> IsNotFound e))"

definition synced :: "configmap \<Rightarrow> nsname \<Rightarrow> cluster_h \<Rightarrow> 's \<Rightarrow> bool" where
  "synced cm k cl s \<longleftrightarrow> (\<exists>c. stored s cl k = Some c \<and> cm_Data c = cm_Data cm)"

text \<open>
  What an iteration for a cluster does: one object changes, and it is in sync if nothing failed. The two
  writes are looked at first.
\<close>

definition pushed :: "configmap \<Rightarrow> nsname \<Rightarrow> cluster_h \<Rightarrow> go_error option \<times> 's \<Rightarrow> go_error option \<times> 's \<Rightarrow> bool" where
  "pushed cm k cl st st' \<longleftrightarrow> good (snd st') \<and> (\<forall>cl' j. j \<noteq> k \<longrightarrow> stored (snd st') cl' j = stored (snd st) cl' j) \<and>
     (\<forall>cl'. synced cm k cl' (snd st) \<longrightarrow> synced cm k cl' (snd st')) \<and>
     (fst st' = None \<longrightarrow> fst st = None \<and> synced cm k cl (snd st')) \<and> (reliable cl \<longrightarrow> synced cm k cl (snd st'))"

lemma push_create:
  assumes "good s" and "cm_key cm = k" and "cm_get A s cl k = Inl e" and "IsNotFound e"
    and c: "cm_create A s cl (propagated cm) = (r, s1)"
  shows "pushed cm k cl (errs, s) (if r = None then errs else errors_join errs r, s1)"
proof -
  have none: "stored s cl k = None" using gone_law[OF assms(1,3,4)] .
  have key: "cm_key (propagated cm) = k" by (simp add: propagated_def assms(2))
  note law = create_law[OF assms(1) c, unfolded key]
  have "r = None" if "reliable cl"
    using that assms(1) none c by (auto simp: reliable_def key dest!: spec[where x = "propagated cm"])
  moreover have "r = None \<longrightarrow> synced cm k cl s1" using law by (auto simp: synced_def propagated_def)
  moreover have "synced cm k cl' s \<longrightarrow> synced cm k cl' s1" for cl'
    using law none by (cases "cl' = cl") (auto simp: synced_def)
  ultimately show ?thesis using law by (auto simp: pushed_def split: if_splits simp del: not_None_eq)
qed

lemma push_update:
  assumes "good s" and got: "cm_get A s cl k = Inr c0" and diff: "cm_Data c0 \<noteq> cm_Data cm"
    and c: "cm_update A s cl (c0\<lparr>cm_Data := cm_Data cm\<rparr>) = (r, s1)"
  shows "pushed cm k cl (errs, s) (if r = None then errs else errors_join errs r, s1)"
proof -
  let ?c = "c0\<lparr>cm_Data := cm_Data cm\<rparr>"
  have st: "stored s cl k = Some c0" using get_law[OF assms(1) got] .
  have key: "cm_key ?c = k" using key_law[OF assms(1) st] by simp
  note law = update_law[OF assms(1) c, unfolded key]
  have "r = None" if "reliable cl"
  proof -
    from that assms(1) have "\<forall>c c0. stored s cl (cm_key c) = Some c0 \<and> cm_rv c0 = cm_rv c \<longrightarrow> fst (cm_update A s cl c) = None"
      by (simp add: reliable_def)
    from this[THEN spec[of _ ?c], THEN spec[of _ c0]] st c show ?thesis by (simp add: key)
  qed
  moreover have "r = None \<longrightarrow> synced cm k cl s1" using law by (auto simp: synced_def)
  moreover have "synced cm k cl' s \<longrightarrow> synced cm k cl' s1" for cl'
    using law st diff by (cases "cl' = cl") (auto simp: synced_def)
  ultimately show ?thesis using law by (auto simp: pushed_def split: if_splits simp del: not_None_eq)
qed

lemma push_one_pushed:
  assumes "good s" and "cm_key cm = k" and "getc n = Inr cl"
  shows "pushed cm k cl (errs, s) (push_one A getc k cm n (errs, s))"
proof (cases "cm_get A s cl k")
  case (Inl e)
  obtain r s1 where c: "cm_create A s cl (propagated cm) = (r, s1)" by fastforce
  show ?thesis
  proof (cases "IsNotFound e")
    case True
    with push_create[OF assms(1,2) Inl True c, of errs] Inl c assms(3) show ?thesis
      by (cases r) (simp_all add: push_one_def)
  qed (use Inl assms in \<open>auto simp: push_one_def pushed_def reliable_def simp del: not_None_eq\<close>)
next
  case (Inr c0)
  obtain r s1 where c: "cm_update A s cl (c0\<lparr>cm_Data := cm_Data cm\<rparr>) = (r, s1)" by fastforce
  show ?thesis
  proof (cases "cm_Data c0 = cm_Data cm")
    case True
    with Inr assms get_law[OF assms(1) Inr] show ?thesis by (auto simp: push_one_def pushed_def synced_def)
  next
    case False
    with push_update[OF assms(1) Inr False c, of errs] Inr c assms(3) show ?thesis
      by (cases r) (simp_all add: push_one_def)
  qed
qed

lemma push_one_step:
  assumes "good s" and "cm_key cm = k" and "push_one A getc k cm n (errs, s) = (errs', s')"
  shows "good s'" and "\<And>cl j. j \<noteq> k \<Longrightarrow> stored s' cl j = stored s cl j"
    and "\<And>cl. synced cm k cl s \<Longrightarrow> synced cm k cl s'"
    and "errs' = None \<Longrightarrow> errs = None \<and> (\<exists>cl. getc n = Inr cl \<and> synced cm k cl s')"
    and "\<And>cl. getc n = Inr cl \<Longrightarrow> reliable cl \<Longrightarrow> synced cm k cl s'"
proof -
  have unknown: "s' = s \<and> errs' \<noteq> None" if "getc n = Inl e" for e
    using that assms(3) by (auto simp: push_one_def simp del: not_None_eq)
  have known: "pushed cm k cl (errs, s) (errs', s')" if "getc n = Inr cl" for cl
    using push_one_pushed[of s cm k getc n cl errs] assms that by simp
  show "good s'" "\<And>cl j. j \<noteq> k \<Longrightarrow> stored s' cl j = stored s cl j" "\<And>cl. synced cm k cl s \<Longrightarrow> synced cm k cl s'"
    "errs' = None \<Longrightarrow> errs = None \<and> (\<exists>cl. getc n = Inr cl \<and> synced cm k cl s')"
    "\<And>cl. getc n = Inr cl \<Longrightarrow> reliable cl \<Longrightarrow> synced cm k cl s'"
    using unknown known assms(1) by (cases "getc n"; simp add: pushed_def)+
qed

lemma push_fold:
  assumes "good s" and "cm_key cm = k" and "fold (push_one A getc k cm) names (errs, s) = (errs', s')"
  shows "good s' \<and> (\<forall>cl j. j \<noteq> k \<longrightarrow> stored s' cl j = stored s cl j) \<and> (\<forall>cl. synced cm k cl s \<longrightarrow> synced cm k cl s') \<and>
    (errs' = None \<longrightarrow> errs = None \<and> (\<forall>n \<in> set names. \<exists>cl. getc n = Inr cl \<and> synced cm k cl s')) \<and>
    (\<forall>n \<in> set names. \<forall>cl. getc n = Inr cl \<longrightarrow> reliable cl \<longrightarrow> synced cm k cl s')"
  using assms
proof (induction names arbitrary: errs s)
  case (Cons n names)
  obtain e1 s1 where one: "push_one A getc k cm n (errs, s) = (e1, s1)" by fastforce
  note p = push_one_step[OF Cons.prems(1,2) one]
  have "fold (push_one A getc k cm) names (e1, s1) = (errs', s')" using Cons.prems(3) one by simp
  note ih = Cons.IH[OF p(1) Cons.prems(2) this]
  show ?case
  proof (intro conjI impI allI ballI)
    show "stored s' cl j = stored s cl j" if "j \<noteq> k" for cl j using ih p(2)[OF that] that by simp
    show "synced cm k cl s'" if "m \<in> set (n # names)" "getc m = Inr cl" "reliable cl" for m cl
      using that ih p(5)[of cl] by auto
    show "\<exists>cl. getc m = Inr cl \<and> synced cm k cl s'" if "errs' = None" "m \<in> set (n # names)" for m
      using that ih p(4) by auto
  qed (use ih p in auto)
qed auto

lemma push_delete_loop:
  assumes "good s" and "push_delete A getc k names errs s = (res, s')"
  shows "good s' \<and> (\<forall>cl j. j \<noteq> k \<longrightarrow> stored s' cl j = stored s cl j) \<and> (\<forall>cl. stored s cl k = None \<longrightarrow> stored s' cl k = None) \<and>
    (\<forall>e. res = Inr e \<longrightarrow> (\<forall>n \<in> set names. \<forall>cl. getc n = Inr cl \<longrightarrow> reliable cl \<longrightarrow> stored s' cl k = None))"
  using assms
proof (induction names arbitrary: errs s)
  case (Cons n names)
  show ?case
  proof (cases "getc n")
    case (Inl e)
    with Cons.prems show ?thesis by auto
  next
    case (Inr cl)
    obtain r s1 where d: "cm_delete A s cl k = (r, s1)" by fastforce
    note law = delete_law[OF Cons.prems(1) d]
    obtain errs1 where "push_delete A getc k names errs1 s1 = (res, s')"
      using Cons.prems(2) Inr d by (auto split: option.splits)
    note ih = Cons.IH[OF _ this]
    have gone: "reliable cl \<Longrightarrow> stored s1 cl k = None"
      using law Cons.prems(1) d by (cases r) (auto simp: reliable_def, metis fst_conv)
    have keep: "stored s cl' k = None \<Longrightarrow> stored s1 cl' k = None" for cl'
      using law by (cases "cl' = cl") auto
    show ?thesis using ih law gone keep Inr by auto
  qed
qed auto

end

subsection \<open>An in-memory store\<close>

text \<open>The clusters in \<open>down\<close> cannot be reached.\<close>

record cm_mem =
  mem_rev :: nat
  mem_objs :: "cluster_h \<times> nsname \<Rightarrow> configmap option"

definition cm_mem_put :: "cm_mem \<Rightarrow> cluster_h \<Rightarrow> configmap \<Rightarrow> cm_mem" where
  "cm_mem_put s cl c =
     s\<lparr>mem_rev := Suc (mem_rev s), mem_objs := (mem_objs s)((cl, cm_key c) \<mapsto> c\<lparr>cm_rv := mem_rev s\<rparr>)\<rparr>"

definition unreachable :: go_error where "unreachable = ErrExt ''unreachable''"

definition cm_mem_api :: "cluster_h list \<Rightarrow> cm_mem cm_api" where
  "cm_mem_api down =
     \<lparr>cm_get = (\<lambda>s cl k. if cl \<in> set down then Inl unreachable
        else (case mem_objs s (cl, k) of None \<Rightarrow> Inl (ErrApi NotFound) | Some c \<Rightarrow> Inr c)),
      cm_create = (\<lambda>s cl c. if cl \<in> set down then (Some unreachable, s)
        else (case mem_objs s (cl, cm_key c) of None \<Rightarrow> (None, cm_mem_put s cl c) | Some _ \<Rightarrow> (Some (ErrApi AlreadyExists), s))),
      cm_update = (\<lambda>s cl c. if cl \<in> set down then (Some unreachable, s)
        else (case mem_objs s (cl, cm_key c) of
                None \<Rightarrow> (Some (ErrApi NotFound), s)
              | Some c0 \<Rightarrow> if cm_rv c0 = cm_rv c then (None, cm_mem_put s cl c) else (Some (ErrApi Conflict), s))),
      cm_delete = (\<lambda>s cl k. if cl \<in> set down then (Some unreachable, s)
        else (case mem_objs s (cl, k) of
                None \<Rightarrow> (Some (ErrApi NotFound), s)
              | Some _ \<Rightarrow> (None, s\<lparr>mem_objs := (mem_objs s)((cl, k) := None)\<rparr>)))\<rparr>"

definition cm_mem_stored :: "cm_mem \<Rightarrow> cluster_h \<Rightarrow> nsname \<Rightarrow> configmap option" where
  "cm_mem_stored s cl k = mem_objs s (cl, k)"

definition cm_mem_good :: "cm_mem \<Rightarrow> bool" where
  "cm_mem_good s \<longleftrightarrow> (\<forall>cl k c. mem_objs s (cl, k) = Some c \<longrightarrow> cm_key c = k)"

lemma unreachable_not_gone [simp]: "\<not> IsNotFound unreachable"
  by (simp add: IsNotFound_def unreachable_def)

lemmas cm_mem_simps = cm_mem_api_def cm_mem_stored_def cm_mem_good_def cm_mem_put_def

interpretation memCM: cm_store "cm_mem_api down" cm_mem_stored cm_mem_good for down
proof unfold_locales
  fix s cl c r s' assume "cm_mem_good s" "cm_create (cm_mem_api down) s cl c = (r, s')"
  then show "cm_mem_good s' \<and> (\<forall>cl' k. (cl', k) \<noteq> (cl, cm_key c) \<longrightarrow> cm_mem_stored s' cl' k = cm_mem_stored s cl' k) \<and>
      (r \<noteq> None \<and> cm_mem_stored s' cl (cm_key c) = cm_mem_stored s cl (cm_key c) \<or>
       (\<exists>v. cm_mem_stored s' cl (cm_key c) = Some (c\<lparr>cm_rv := v\<rparr>)))"
    by (auto simp: cm_mem_simps split: if_splits option.splits)
next
  fix s cl c r s' assume "cm_mem_good s" "cm_update (cm_mem_api down) s cl c = (r, s')"
  then show "cm_mem_good s' \<and> (\<forall>cl' k. (cl', k) \<noteq> (cl, cm_key c) \<longrightarrow> cm_mem_stored s' cl' k = cm_mem_stored s cl' k) \<and>
      (r \<noteq> None \<and> cm_mem_stored s' cl (cm_key c) = cm_mem_stored s cl (cm_key c) \<or>
       (\<exists>v. cm_mem_stored s' cl (cm_key c) = Some (c\<lparr>cm_rv := v\<rparr>)))"
    by (auto simp: cm_mem_simps split: if_splits option.splits)
next
  fix s cl k r s' assume "cm_mem_good s" "cm_delete (cm_mem_api down) s cl k = (r, s')"
  then show "cm_mem_good s' \<and> (\<forall>cl' k'. (cl', k') \<noteq> (cl, k) \<longrightarrow> cm_mem_stored s' cl' k' = cm_mem_stored s cl' k') \<and>
      (r \<noteq> None \<and> cm_mem_stored s' cl k = cm_mem_stored s cl k \<or> cm_mem_stored s' cl k = None) \<and>
      (\<forall>e. r = Some e \<and> IsNotFound e \<longrightarrow> cm_mem_stored s' cl k = None)"
    by (auto simp: cm_mem_simps split: if_splits option.splits)
qed (auto simp: cm_mem_simps split: if_splits option.splits)

lemma reachable_reliable: "cl \<notin> set down \<Longrightarrow> memCM.reliable down cl"
  unfolding memCM.reliable_def by (auto simp: cm_mem_api_def cm_mem_stored_def IsNotFound_def split: option.splits)

subsection \<open>Properties\<close>

text \<open>Two clusters beside the local one, of which the second is down.\<close>

definition demo_cm :: configmap where
  "demo_cm = \<lparr>cm_key = NsName ''ns'' ''cm'', cm_rv = 0, cm_Labels = None, cm_Data = Some (fmupd ''k'' ''v'' fmempty), cm_rest = ''''\<rparr>"

definition demo_cms :: cm_mem where
  "demo_cms = \<lparr>mem_rev = 1, mem_objs = [(0, NsName ''ns'' ''cm'') \<mapsto> demo_cm]\<rparr>"

definition demo_getc :: "cluster_name \<Rightarrow> go_error + cluster_h" where
  "demo_getc n = (if n = ''a'' then Inr 1 else if n = ''b'' then Inr 2 else Inl ErrClusterNotFound)"

lemma demo_cms_good: "cm_mem_good demo_cms"
  by (auto simp: cm_mem_good_def demo_cms_def demo_cm_def split: if_splits)



text \<open>
  Deleting a ConfigMap from the local cluster never reconciles to success. The ConfigMap
  disappears from every cluster that answers, but the reconciler returns the error of its first
  read instead of the errors it has collected: also after a complete deletion it reports
  \<open>NotFound\<close>, so that the request is retried without end, and what went wrong in a cluster is not
  reported at all.
\<close>

theorem push_gone_always_fails:
  assumes "cm_store A stored good" and "good s" and "cm_get A s loc k = Inl e" and "IsNotFound e"
    and "\<forall>n \<in> set names. \<exists>cl. getc n = Inr cl" and "pushLocalToProvider A loc names getc k s = (err, s')"
  shows "err = Some e \<and>
    (\<forall>n \<in> set names. \<forall>cl. getc n = Inr cl \<and> cm_store.reliable A stored good cl \<longrightarrow> stored s' cl k = None)"
proof -
  obtain res s1 where d: "push_delete A getc k names None s = (res, s1)" by fastforce
  have "\<exists>x. fst (push_delete A getc k names errs s) = Inr x" for errs s
    using assms(5) by (induction A getc k names errs s rule: push_delete.induct) (auto split: option.splits prod.splits sum.splits)
  from this[of None s] d obtain x where "res = Inr x" by auto
  with cm_store.push_delete_loop[OF assms(1,2) d] d assms(3,4,6) show ?thesis
    by (auto simp: pushLocalToProvider_def)
qed

theorem push_gone_always_fails_witness:
  "fst (pushLocalToProvider (cm_mem_api []) 0 [''a'', ''b''] demo_getc (NsName ''ns'' ''gone'') demo_cms) = Some (ErrApi NotFound)"
proof -
  have "cm_get (cm_mem_api []) demo_cms 0 (NsName ''ns'' ''gone'') = Inl (ErrApi NotFound)"
    by (simp add: cm_mem_api_def demo_cms_def)
  from push_gone_always_fails[OF memCM.cm_store_axioms[of "[]"] demo_cms_good this _ _ surjective_pairing, of "[''a'', ''b'']" demo_getc]
  show ?thesis by (simp add: IsNotFound_def demo_getc_def)
qed

text \<open>
  A change in a provider cluster is reverted. When the second reconciler returns nil for a
  ConfigMap that the cluster has, the cluster has it with the data of the local one, its other
  fields unchanged, or no longer if the local cluster has none.
\<close>

theorem pull_reverts:
  assumes "cm_store A stored good" and "good s" and "getc (rq_ClusterName req) = Inr cl"
    and "stored s cl (rq_key req) = Some cm" and "pullProviderFromLocal A loc getc req s = (None, s')"
  shows "case stored s loc (rq_key req) of
       None \<Rightarrow> stored s' cl (rq_key req) = None
     | Some orig \<Rightarrow> \<exists>v. stored s' cl (rq_key req) = Some (cm\<lparr>cm_Data := cm_Data orig, cm_rv := v\<rparr>)"
proof -
  note key = cm_store.key_law[OF assms(1,2,4)]
  obtain c0 where c0: "cm_get A s cl (rq_key req) = Inr c0"
    using assms(3-5) cm_store.gone_law[OF assms(1,2), of cl "rq_key req"]
    by (cases "cm_get A s cl (rq_key req)") (auto simp: pullProviderFromLocal_def split: if_splits)
  with cm_store.get_law[OF assms(1,2)] assms(4) have eq: "c0 = cm" by force
  show ?thesis
  proof (cases "cm_get A s loc (rq_key req)")
    case (Inl e)
    with c0 assms(3,5) have e: "IsNotFound e" and d: "cm_delete A s cl (rq_key req) = (None, s')"
      using key eq by (auto simp: pullProviderFromLocal_def split: if_splits)
    from cm_store.gone_law[OF assms(1,2) Inl e] cm_store.delete_law[OF assms(1,2) d] show ?thesis by auto
  next
    case (Inr orig)
    note l = cm_store.get_law[OF assms(1,2) Inr]
    show ?thesis
    proof (cases "cm_Data orig = cm_Data cm")
      case True
      with Inr c0 eq assms(3,5) have "s' = s" by (simp add: pullProviderFromLocal_def)
      with l True assms(4) show ?thesis by (auto intro!: exI[of _ "cm_rv cm"])
    next
      case False
      with Inr c0 eq assms(3,5) have u: "cm_update A s cl (cm\<lparr>cm_Data := cm_Data orig\<rparr>) = (None, s')"
        by (simp add: pullProviderFromLocal_def)
      from cm_store.update_law[OF assms(1,2) u] key l show ?thesis by auto
    qed
  qed
qed

definition demo_changed :: cm_mem where
  "demo_changed = demo_cms\<lparr>mem_objs := (mem_objs demo_cms)((1, NsName ''ns'' ''cm'') \<mapsto> demo_cm\<lparr>cm_Data := None\<rparr>)\<rparr>"

theorem pull_reverts_witness:
  "\<exists>c. cm_mem_stored (snd (pullProviderFromLocal (cm_mem_api []) 0 demo_getc \<lparr>rq_key = NsName ''ns'' ''cm'', rq_ClusterName = ''a''\<rparr>
       demo_changed)) 1 (NsName ''ns'' ''cm'') = Some c \<and> cm_Data c = cm_Data demo_cm"
proof -
  let ?req = "\<lparr>rq_key = NsName ''ns'' ''cm'', rq_ClusterName = ''a''\<rparr>"
  have good: "cm_mem_good demo_changed"
    by (auto simp: cm_mem_good_def demo_changed_def demo_cms_def demo_cm_def split: if_splits)
  have g: "demo_getc (rq_ClusterName ?req) = Inr 1" by (simp add: demo_getc_def)
  have st: "cm_mem_stored demo_changed 1 (rq_key ?req) = Some (demo_cm\<lparr>cm_Data := None\<rparr>)"
    "cm_mem_stored demo_changed 0 (rq_key ?req) = Some demo_cm"
    by (simp_all add: cm_mem_stored_def demo_changed_def demo_cms_def)
  obtain s' where r: "pullProviderFromLocal (cm_mem_api []) 0 demo_getc ?req demo_changed = (None, s')"
    using st by (simp add: pullProviderFromLocal_def g[simplified] cm_mem_api_def cm_mem_stored_def demo_cm_def)
  from pull_reverts[OF memCM.cm_store_axioms[of "[]"] good g st(1) r] st(2) r show ?thesis by auto
qed

end
