(* ===== verification/GoStrings.thy ===== *)
theory GoStrings
  imports Prelude
begin

text \<open>
  What the programs use of Go's \<open>strings\<close> package: splitting at a one-byte separator and trimming, with
  the laws that splitting undoes joining.
\<close>

subsection \<open>Splitting\<close>

text \<open>\<open>strings.Split(s, c)\<close> never returns an empty slice; \<open>strings.SplitN(s, c, 2)\<close> has one or two parts.\<close>

fun go_Split :: "char \<Rightarrow> string \<Rightarrow> string list" where
  "go_Split c [] = [[]]"
| "go_Split c (x # xs) =
     (if x = c then [] # go_Split c xs else (x # hd (go_Split c xs)) # tl (go_Split c xs))"

definition go_SplitN2 :: "char \<Rightarrow> string \<Rightarrow> string list" where
  "go_SplitN2 c s =
     (if c \<in> set s then [takeWhile (\<lambda>x. x \<noteq> c) s, tl (dropWhile (\<lambda>x. x \<noteq> c) s)] else [s])"

text \<open>\<open>parts[i]\<close>, where an index out of range panics.\<close>

definition part :: "'a list \<Rightarrow> nat \<Rightarrow> 'a option" where
  "part xs i = (if i < length xs then Some (xs ! i) else None)"

lemma go_Split_nonempty [simp]: "go_Split c s \<noteq> []"
  by (cases s) auto

lemma go_Split_append:
  "c \<notin> set s \<Longrightarrow> go_Split c (s @ c # rest) = s # go_Split c rest"
  by (induction s) auto

lemma go_Split_plain [simp]: "c \<notin> set s \<Longrightarrow> go_Split c s = [s]"
  by (induction s) auto

lemma set_go_Split: "p \<in> set (go_Split c s) \<Longrightarrow> c \<notin> set p"
proof (induction s arbitrary: p)
  case (Cons x xs)
  obtain y ys where ys: "go_Split c xs = y # ys" by (cases "go_Split c xs") auto
  with Cons.IH have y: "c \<notin> set y" "q \<in> set ys \<Longrightarrow> c \<notin> set q" for q by simp_all
  from Cons.prems ys y show ?case by (cases "x = c") auto
qed simp

text \<open>Lines that end in the separator are what the split lists, followed by an empty part.\<close>

lemma go_Split_lines:
  assumes "\<forall>l \<in> set ls. c \<notin> set l"
  shows "go_Split c (concat (map (\<lambda>l. l @ [c]) ls)) = ls @ [[]]"
  using assms by (induction ls) (auto simp: go_Split_append)

lemma go_SplitN2_append:
  assumes "c \<notin> set a"
  shows "go_SplitN2 c (a @ c # b) = [a, b]"
proof -
  have "takeWhile (\<lambda>x. x \<noteq> c) (a @ c # b) = a" "dropWhile (\<lambda>x. x \<noteq> c) (a @ c # b) = c # b"
    using assms by (induction a) auto
  then show ?thesis by (simp add: go_SplitN2_def)
qed

lemma go_SplitN2_plain: "c \<notin> set s \<Longrightarrow> go_SplitN2 c s = [s]"
  by (simp add: go_SplitN2_def)

lemma part_simps [simp]:
  "part (x # xs) 0 = Some x" "part (x # xs) (Suc i) = part xs i" "part [] i = None"
  by (simp_all add: part_def)

lemma part_one [simp]: "part (x # xs) 1 = part xs 0"
  by (simp add: part_def)

lemma go_SplitN2_first [simp]: "part (go_SplitN2 c s) 0 = Some (takeWhile (\<lambda>x. x \<noteq> c) s)"
  by (auto simp: go_SplitN2_def intro: takeWhile_eq_all_conv[THEN iffD2, symmetric])

subsection \<open>Trimming\<close>

definition go_TrimSuffix :: "string \<Rightarrow> string \<Rightarrow> string" where
  "go_TrimSuffix s suf =
     (if length suf \<le> length s \<and> drop (length s - length suf) s = suf then take (length s - length suf) s else s)"

lemma go_TrimSuffix_append [simp]: "go_TrimSuffix (s @ suf) suf = s"
  by (simp add: go_TrimSuffix_def)

text \<open>
  \<open>strings.TrimSpace\<close>: the code points with the property White Space, by their UTF-8 bytes. A valid
  sequence is recognised alike from either end, since no byte that starts one continues another.
\<close>

definition white_space :: "string list" where
  "white_space =
     map (\<lambda>b. [char_of b]) [9::nat, 10, 11, 12, 13, 32] @
     map (map char_of) ([[0xC2::nat, 0x85], [0xC2, 0xA0], [0xE1, 0x9A, 0x80]] @
       map (\<lambda>i. [0xE2, 0x80, 0x80 + i]) [0..<11] @
       [[0xE2, 0x80, 0xA8], [0xE2, 0x80, 0xA9], [0xE2, 0x80, 0xAF], [0xE2, 0x81, 0x9F], [0xE3, 0x80, 0x80]])"

definition leading :: "string list \<Rightarrow> string \<Rightarrow> string option" where
  "leading ws s = List.find (\<lambda>w. w \<noteq> [] \<and> take (length w) s = w) ws"

lemma leading_Some:
  assumes "leading ws s = Some w"
  shows "w \<in> set ws" "w \<noteq> []" "s = w @ drop (length w) s"
proof -
  from assms have w: "w \<in> set ws" "w \<noteq> []" "take (length w) s = w"
    by (auto simp: leading_def find_Some_iff)
  then show "w \<in> set ws" "w \<noteq> []" by auto
  from w(3) show "s = w @ drop (length w) s" by (metis append_take_drop_id)
qed

function trim_leading :: "string list \<Rightarrow> string \<Rightarrow> string" where
  "trim_leading ws s = (case leading ws s of None \<Rightarrow> s | Some w \<Rightarrow> trim_leading ws (drop (length w) s))"
  by pat_completeness auto
termination
proof (relation "measure (\<lambda>(ws, s). length s)", simp)
  fix ws s w assume "leading ws s = Some w"
  from leading_Some(2,3)[OF this] show "((ws, drop (length w) s), (ws, s)) \<in> measure (\<lambda>(ws, s). length s)"
    by (cases s) auto
qed

declare trim_leading.simps [simp del]

definition go_TrimSpace :: "string \<Rightarrow> string" where
  "go_TrimSpace s = rev (trim_leading (map rev white_space) (rev (trim_leading white_space s)))"

lemma trim_leading_done: "leading ws (trim_leading ws s) = None"
proof (induction ws s rule: trim_leading.induct)
  case (1 ws s)
  then show ?case by (subst trim_leading.simps) (simp split: option.splits)
qed

lemma trim_leading_plain: "leading ws s = None \<Longrightarrow> trim_leading ws s = s"
  by (subst trim_leading.simps) simp

end
