(* ===== verification/Examples.thy ===== *)
theory Examples
  imports SyncExample GoStrings NamespaceProvider Kubeconfig Inventory KindProvider Coordinator Registries
begin

text \<open>
  The main programs under \<open>examples/\<close>: how each wires a provider, a manager and a controller together,
  with every early return and the exit code of the process. Configuration loading, the clients and
  the host manager are parameters; logging is left out.
\<close>

subsection \<open>What the programs share\<close>

text \<open>
  \<open>xw_manager\<close> is \<open>manager.New\<close>, \<open>xw_cluster\<close> \<open>cluster.New\<close> and \<open>xw_Get\<close> the \<open>Get\<close> of the provider when a
  request is reconciled.
\<close>

record ('o, 'k) ex_world =
  xw_E :: "('o, Request, 'k) builder_env"
  xw_ctl :: "('o, Request) ctrl_oracle"
  xw_configmap :: 'o
  xw_config :: "go_error + rest_config"
  xw_manager :: "rest_config \<Rightarrow> go_error + host_iface"
  xw_cluster :: "rest_config \<Rightarrow> go_error + cluster_h"
  xw_client :: "rest_config \<Rightarrow> go_error option"
  xw_Get :: "cluster_name \<Rightarrow> go_error + cluster_h"
  xw_index :: "index \<Rightarrow> go_error option"
  xw_object :: "cluster_h \<Rightarrow> nsname \<Rightarrow> go_error + configmap"

text \<open>
  What a run did: the provider it made, the controllers it built and the manager it started. A
  process ends with an exit code, or with the error that its \<open>run\<close> returned.
\<close>

record ('p, 'o, 'k) ex_ran =
  rn_provider :: "'p option"
  rn_built :: "('o, Request, 'k) builder list"
  rn_started :: "mc_manager option"

definition nothing_ran :: "('p, 'o, 'k) ex_ran" where
  "nothing_ran = \<lparr>rn_provider = None, rn_built = [], rn_started = None\<rparr>"

text \<open>\<open>errors.Is(err, context.Canceled)\<close> and the function of that name that every program has.\<close>

fun is_canceled :: "go_error \<Rightarrow> bool" where
  "is_canceled ErrCtx = True"
| "is_canceled (Errorf f as (Some e)) = is_canceled e"
| "is_canceled (Errorf f as None) = False"
| "is_canceled (ErrJoin es) = list_ex is_canceled es"
| "is_canceled ErrClusterNotFound = False"
| "is_canceled (ErrApi a) = False"
| "is_canceled (ErrExt s) = False"

definition ignoreCanceled :: "go_error option \<Rightarrow> go_error option" where
  "ignoreCanceled err = (case err of None \<Rightarrow> None | Some e \<Rightarrow> if is_canceled e then None else Some e)"

definition ex_provider :: "('o, 'k) ex_world \<Rightarrow> bool \<Rightarrow> provider_iface" where
  "ex_provider X run = \<lparr>pv_get = xw_Get X, pv_index = xw_index X, pv_runnable = run\<rparr>"

text \<open>\<open>mcmanager.New\<close>, with the host manager it made.\<close>

definition ex_manager ::
  "('o, 'k) ex_world \<Rightarrow> rest_config \<Rightarrow> provider_iface \<Rightarrow> manager_option list \<Rightarrow> go_error + host_iface \<times> mc_manager" where
  "ex_manager X cfg prov opts =
     (case xw_manager X cfg of
        Inl err \<Rightarrow> Inl err
      | Inr H \<Rightarrow> (case manager_New (Inr H) (Some prov) opts of Inl err \<Rightarrow> Inl err | Inr m \<Rightarrow> Inr (H, m)))"

text \<open>The reconciler that most programs define in place: it reads the ConfigMap and logs it.\<close>

definition configmap_reconciler :: "('o, 'k) ex_world \<Rightarrow> host_iface \<Rightarrow> mc_manager \<Rightarrow> (value_ctx, Request) reconciler" where
  "configmap_reconciler X H m cx req =
     (case GetCluster H m (rq_ClusterName req) of
        Inl err \<Rightarrow> (zero_Result, Some err)
      | Inr cl \<Rightarrow>
     (case xw_object X cl (rq_key req) of
        Inl err \<Rightarrow> if IsNotFound err then (zero_Result, None) else (zero_Result, Some err)
      | Inr cm \<Rightarrow> (zero_Result, None)))"

definition configmap_builder :: "('o, 'k) ex_world \<Rightarrow> mc_manager \<Rightarrow> ('o, Request, 'k) builder" where
  "configmap_builder X m =
     For (Some (xw_configmap X)) [] (Named ''multicluster-configmaps'' (ControllerManagedBy (Some m)))"

definition complete_on ::
  "('o, 'k) ex_world \<Rightarrow> host_iface \<Rightarrow> (value_ctx, Request) reconciler \<Rightarrow> ('o, Request, 'k) builder \<Rightarrow>
   go_error option \<times> ('o, Request, 'k) builder \<times> mc_manager" where
  "complete_on X H r b =
     (case builder_Complete (xw_E X) H (xw_ctl X) (Some r) b of (err, b') \<Rightarrow> (err, b', the (bl_mgr b')))"

subsection \<open>\<open>examples/kind\<close> and \<open>examples/file\<close>\<close>

text \<open>The program for kind also records an event on a ConfigMap that it found.\<close>

definition kind_recorded :: "('o, 'k) ex_world \<Rightarrow> host_iface \<Rightarrow> mc_manager \<Rightarrow> Request \<Rightarrow> (cluster_h \<times> configmap \<times> string) option" where
  "kind_recorded X H m req =
     (case GetCluster H m (rq_ClusterName req) of
        Inl err \<Rightarrow> None
      | Inr cl \<Rightarrow>
     (case xw_object X cl (rq_key req) of
        Inl err \<Rightarrow> None
      | Inr cm \<Rightarrow> Some (cl, cm, ''ConfigMap found in cluster '' @ rq_ClusterName req)))"

text \<open>\<open>ctrl.GetConfigOrDie\<close> ends the process with code 1; a failed start of either program is only logged.\<close>

definition kind_main :: "('o, 'k) ex_world \<Rightarrow> ctxs \<Rightarrow> nat \<times> (kind_provider, 'o, 'k) ex_ran" where
  "kind_main X S =
     (let p = kind_New ''fleet-'' [] S; ran0 = nothing_ran\<lparr>rn_provider := Some p\<rparr>
      in case xw_config X of Inl err \<Rightarrow> (1, ran0) | Inr cfg \<Rightarrow>
         case ex_manager X cfg (ex_provider X True) [] of Inl err \<Rightarrow> (1, ran0) | Inr (H, m) \<Rightarrow>
         case complete_on X H (configmap_reconciler X H m) (configmap_builder X m) of
           (Some err, b, m1) \<Rightarrow> (1, ran0\<lparr>rn_built := [b]\<rparr>)
         | (None, b, m1) \<Rightarrow>
             (case manager_Start H m1 of (err, m2) \<Rightarrow> (0, ran0\<lparr>rn_built := [b], rn_started := Some m2\<rparr>)))"

definition flag_list :: "string \<Rightarrow> string list" where
  "flag_list v =
     (let fs = go_Split (CHR '','') v in if length fs = 1 \<and> fs ! 0 = '''' then [] else fs)"

definition file_main ::
  "('o, 'k) ex_world \<Rightarrow> file_env \<Rightarrow> string \<Rightarrow> string \<Rightarrow> string \<Rightarrow> ctxs \<Rightarrow> nat \<times> (file_provider, 'o, 'k) ex_ran" where
  "file_main X E fKubeconfigFiles fKubeconfigDirs fGlobs S =
     (let p = file_New E \<lparr>fo_KubeconfigFiles = flag_list fKubeconfigFiles, fo_KubeconfigDirs = flag_list fKubeconfigDirs,
                fo_KubeconfigGlobs = go_Split (CHR '','') fGlobs, fo_Separator = ''''\<rparr> S;
          ran0 = nothing_ran\<lparr>rn_provider := Some p\<rparr>
      in case xw_config X of Inl err \<Rightarrow> (1, ran0) | Inr cfg \<Rightarrow>
         case ex_manager X cfg (ex_provider X True) [] of Inl err \<Rightarrow> (0, ran0) | Inr (H, m) \<Rightarrow>
         case complete_on X H (configmap_reconciler X H m) (configmap_builder X m) of
           (Some err, b, m1) \<Rightarrow> (0, ran0\<lparr>rn_built := [b]\<rparr>)
         | (None, b, m1) \<Rightarrow>
             (case manager_Start H m1 of (err, m2) \<Rightarrow> (0, ran0\<lparr>rn_built := [b], rn_started := Some m2\<rparr>)))"

subsection \<open>\<open>examples/kubeconfig\<close>, \<open>examples/cluster-api\<close> and \<open>examples/cluster-inventory-api\<close>\<close>

text \<open>
  The provider sets a controller of its own up on the manager first; \<open>complete\<close> is what the builder of
  that controller returns. \<open>self\<close> is the manager as the provider's aware.
\<close>

definition kubeconfig_main ::
  "('o, 'k) ex_world \<Rightarrow> aware_h \<Rightarrow> go_error option \<Rightarrow> string \<Rightarrow> string \<Rightarrow> string \<Rightarrow> ctxs \<Rightarrow>
   nat \<times> (kubeconfig_options active_provider, 'o, 'k) ex_ran" where
  "kubeconfig_main X self complete ns label key S =
     (let p = kubeconfig_New \<lparr>ko_Namespace = ns, ko_KubeconfigSecretLabel = label, ko_KubeconfigSecretKey = key,
                ko_RESTOptions = [], ko_ControllerName = ''''\<rparr> S;
          ran0 = nothing_ran\<lparr>rn_provider := Some p\<rparr>
      in case xw_config X of Inl err \<Rightarrow> (1, ran0) | Inr cfg \<Rightarrow>
         case ex_manager X cfg (ex_provider X False) [] of Inl err \<Rightarrow> (1, ran0) | Inr (H, m) \<Rightarrow>
         case kubeconfig_SetupWithManager (Some self) True complete p of
           (Some err, p1) \<Rightarrow> (1, ran0\<lparr>rn_provider := Some p1\<rparr>)
         | (None, p1) \<Rightarrow>
         (case complete_on X H (configmap_reconciler X H m) (configmap_builder X m) of
            (Some err, b, m1) \<Rightarrow> (1, ran0\<lparr>rn_provider := Some p1, rn_built := [b]\<rparr>)
          | (None, b, m1) \<Rightarrow>
              (case manager_Start H m1 of (err, m2) \<Rightarrow>
                 ((if ignoreCanceled err = None then 0 else 1),
                  ran0\<lparr>rn_provider := Some p1, rn_built := [b], rn_started := Some m2\<rparr>))))"

definition capi_main ::
  "('o, 'k) ex_world \<Rightarrow> aware_h \<Rightarrow> go_error option \<Rightarrow> (nsname \<Rightarrow> go_error + string) \<Rightarrow> ctxs \<Rightarrow>
   nat \<times> (capi_options active_provider, 'o, 'k) ex_ran" where
  "capi_main X self complete from_secret S =
     (case xw_config X of Inl err \<Rightarrow> (1, nothing_ran) | Inr cfg \<Rightarrow>
      let p = capi_New from_secret (xw_cluster X) \<lparr>cu_GetSecret = None, cu_NewCluster = None, cu_IsReady = None\<rparr> S;
          ran0 = nothing_ran\<lparr>rn_provider := Some p\<rparr>
      in case ex_manager X cfg (ex_provider X False) [] of Inl err \<Rightarrow> (1, ran0) | Inr (H, m) \<Rightarrow>
         case capi_SetupWithManager (Some self) True complete p of
           (Some err, p1) \<Rightarrow> (1, ran0\<lparr>rn_provider := Some p1\<rparr>)
         | (None, p1) \<Rightarrow>
         (case complete_on X H (configmap_reconciler X H m) (configmap_builder X m) of
            (Some err, b, m1) \<Rightarrow> (1, ran0\<lparr>rn_provider := Some p1, rn_built := [b]\<rparr>)
          | (None, b, m1) \<Rightarrow>
              (case manager_Start H m1 of (err, m2) \<Rightarrow>
                 ((if ignoreCanceled err = None then 0 else 1),
                  ran0\<lparr>rn_provider := Some p1, rn_built := [b], rn_started := Some m2\<rparr>))))"

text \<open>\<open>access\<close> is the configuration that \<open>access.NewFromFile\<close> reads.\<close>

definition inventory_main ::
  "('o, 'k) ex_world \<Rightarrow> aware_h \<Rightarrow> go_error option \<Rightarrow> go_error + nat \<Rightarrow> ctxs \<Rightarrow> nat \<times> (inventory, 'o, 'k) ex_ran" where
  "inventory_main X self complete access S =
     (case xw_config X of Inl err \<Rightarrow> (1, nothing_ran) | Inr cfg \<Rightarrow>
      case access of Inl err \<Rightarrow> (1, nothing_ran) | Inr accessCfg \<Rightarrow>
      case inventory_New (xw_cluster X) \<lparr>io_NewCluster = None, io_IsReady = None\<rparr>
             \<lparr>so_Secret = None, so_AccessProvider = Some (Some accessCfg), so_CredentialsProvider = None\<rparr> S of
        Inl err \<Rightarrow> (1, nothing_ran)
      | Inr p \<Rightarrow>
      let ran0 = nothing_ran\<lparr>rn_provider := Some p\<rparr>
      in case ex_manager X cfg (ex_provider X False) [] of Inl err \<Rightarrow> (1, ran0) | Inr (H, m) \<Rightarrow>
         case inventory_SetupWithManager (Some self) True complete p of
           (Some err, p1) \<Rightarrow> (1, ran0\<lparr>rn_provider := Some p1\<rparr>)
         | (None, p1) \<Rightarrow>
         (case complete_on X H (configmap_reconciler X H m) (configmap_builder X m) of
            (Some err, b, m1) \<Rightarrow> (1, ran0\<lparr>rn_provider := Some p1, rn_built := [b]\<rparr>)
          | (None, b, m1) \<Rightarrow>
              (case manager_Start H m1 of (err, m2) \<Rightarrow>
                 ((if ignoreCanceled err = None then 0 else 1),
                  ran0\<lparr>rn_provider := Some p1, rn_built := [b], rn_started := Some m2\<rparr>))))"

subsection \<open>\<open>examples/namespace\<close>, \<open>examples/registry\<close> and \<open>examples/sharded-namespace\<close>\<close>

text \<open>
  These start the cluster, the manager and more in an \<open>errgroup\<close>. \<open>order\<close> is the order in which the
  goroutines return; \<open>Wait\<close> returns the first error.
\<close>

datatype go_start = GoProvider | GoCluster | GoManager | GoPrint

definition errgroup_Wait :: "(go_start list \<Rightarrow> go_start list) \<Rightarrow> (go_start \<Rightarrow> go_error option) \<Rightarrow> go_start list \<Rightarrow> go_error option" where
  "errgroup_Wait order result gos = first_error result (order gos)"

text \<open>What a run of these returns, with the goroutines it started.\<close>

record ('o, 'k) group_ran = "(namespace_provider, 'o, 'k) ex_ran" +
  gr_gos :: "go_start list"
  gr_created :: "(string \<times> string) list"

definition no_group :: "('o, 'k) group_ran" where
  "no_group = \<lparr>rn_provider = None, rn_built = [], rn_started = None, gr_gos = [], gr_created = []\<rparr>"

text \<open>
  The fixtures of \<open>examples/namespace\<close>: namespaces have no namespace of their own. \<open>runtime.Must\<close> panics on
  any error but one of an object that exists.
\<close>

definition fixtures :: "(string \<times> string) list" where
  "fixtures =
     [('''', ''zoo''), (''zoo'', ''elephant''), (''zoo'', ''lion''), ('''', ''jungle''), (''jungle'', ''monkey''),
      ('''', ''island''), (''island'', ''bird'')]"

fun create_fixtures ::
  "(string \<times> string \<Rightarrow> go_error option) \<Rightarrow> (string \<times> string) list \<Rightarrow> (string \<times> string) list \<Rightarrow> (string \<times> string) list option" where
  "create_fixtures create [] done = Some done"
| "create_fixtures create (f # fs) done =
     (case create f of
        None \<Rightarrow> create_fixtures create fs (done @ [f])
      | Some err \<Rightarrow> if err = ErrApi AlreadyExists then create_fixtures create fs (done @ [f]) else None)"

text \<open>
  \<open>testenv\<close> is the result of starting a test environment, taken when no kubeconfig was given; \<open>None\<close> is
  the panic of a fixture. The provider, the cluster and the manager are started.
\<close>

definition namespace_run ::
  "('o, 'k) ex_world \<Rightarrow> go_error + rest_config \<Rightarrow> (string \<times> string \<Rightarrow> go_error option) \<Rightarrow> (go_start list \<Rightarrow> go_start list) \<Rightarrow>
   (go_start \<Rightarrow> go_error option) \<Rightarrow> string \<Rightarrow> ctxs \<Rightarrow> (go_error option \<times> ('o, 'k) group_ran) option" where
  "namespace_run X testenv create order result kubeconfig S =
     (case (if kubeconfig = ''''
            then (case testenv of Inl err \<Rightarrow> Inl (Errorf ''failed to start local environment: %w'' [] (Some err)) | Inr c \<Rightarrow> Inr c)
            else (case xw_config X of Inl err \<Rightarrow> Inl (Errorf ''failed to get kubeconfig: %w'' [] (Some err)) | Inr c \<Rightarrow> Inr c)) of
        Inl err \<Rightarrow> Some (Some err, no_group)
      | Inr cfg \<Rightarrow>
      case xw_client X cfg of Some err \<Rightarrow> Some (Some (Errorf ''failed to create client: %w'' [] (Some err)), no_group) | None \<Rightarrow>
      case create_fixtures create fixtures [] of None \<Rightarrow> None | Some made \<Rightarrow>
      let ran0 = no_group\<lparr>gr_created := made\<rparr> in
      case xw_cluster X cfg of Inl err \<Rightarrow> Some (Some (Errorf ''failed to create cluster: %w'' [] (Some err)), ran0) | Inr cl \<Rightarrow>
      let ran1 = ran0\<lparr>rn_provider := Some (namespace_New S)\<rparr> in
      case ex_manager X cfg (ex_provider X True) [] of
        Inl err \<Rightarrow> Some (Some (Errorf ''unable to set up overall controller manager: %w'' [] (Some err)), ran1)
      | Inr (H, m) \<Rightarrow>
      case complete_on X H (configmap_reconciler X H m) (configmap_builder X m) of
        (Some err, b, m1) \<Rightarrow> Some (Some (Errorf ''unable to build controller: %w'' [] (Some err)), ran1\<lparr>rn_built := [b]\<rparr>)
      | (None, b, m1) \<Rightarrow>
      (case manager_Start H m1 of (merr, m2) \<Rightarrow>
         (case errgroup_Wait order (\<lambda>g. ignoreCanceled (if g = GoManager then merr else result g)) [GoProvider, GoCluster, GoManager] of
            Some err \<Rightarrow> Some (Some (Errorf ''unable to start: %w'' [] (Some err)),
              ran1\<lparr>rn_built := [b], rn_started := Some m2, gr_gos := [GoProvider, GoCluster, GoManager]\<rparr>)
          | None \<Rightarrow> Some (None, ran1\<lparr>rn_built := [b], rn_started := Some m2, gr_gos := [GoProvider, GoCluster, GoManager]\<rparr>))))"

text \<open>Its exit code; \<open>stop\<close> is the result of stopping the test environment, deferred once that has started.\<close>

definition namespace_main ::
  "go_error + rest_config \<Rightarrow> go_error option \<Rightarrow> string \<Rightarrow> (go_error option \<times> ('o, 'k) group_ran) option \<Rightarrow> nat option" where
  "namespace_main testenv stop kubeconfig res =
     (case res of
        None \<Rightarrow> None
      | Some (err, r) \<Rightarrow>
          if kubeconfig = '''' \<and> \<not> isl testenv \<and> stop \<noteq> None then Some 1
          else Some (if err = None then 0 else 1))"

text \<open>
  \<open>examples/registry\<close> adds a registry to the manager and prints its clusters until the context is done.
  Its manager, without a controller, is started once.
\<close>

definition registry_example_run ::
  "('o, 'k) ex_world \<Rightarrow> (go_start list \<Rightarrow> go_start list) \<Rightarrow> (go_start \<Rightarrow> go_error option) \<Rightarrow> aware_h \<Rightarrow> ctxs \<Rightarrow>
   go_error option \<times> ('o, 'k) group_ran" where
  "registry_example_run X order result registry S =
     (case xw_config X of Inl err \<Rightarrow> (Some (Errorf ''failed to get kubeconfig: %w'' [] (Some err)), no_group) | Inr cfg \<Rightarrow>
      case xw_cluster X cfg of Inl err \<Rightarrow> (Some (Errorf ''failed to create cluster: %w'' [] (Some err)), no_group) | Inr cl \<Rightarrow>
      let ran1 = no_group\<lparr>rn_provider := Some (namespace_New S)\<rparr> in
      case ex_manager X cfg (ex_provider X True) [] of
        Inl err \<Rightarrow> (Some (Errorf ''unable to set up overall controller manager: %w'' [] (Some err)), ran1)
      | Inr (H, m) \<Rightarrow>
      case manager_Add H registry m of
        (Some err, m1) \<Rightarrow> (Some (Errorf ''error adding registry as runnable to manager: %w'' [] (Some err)), ran1)
      | (None, m1) \<Rightarrow>
      (case manager_Start H m1 of (merr, m2) \<Rightarrow>
         (errgroup_Wait order
            (\<lambda>g. if g = GoPrint then None else ignoreCanceled (if g = GoManager then merr else result g))
            [GoCluster, GoManager, GoPrint],
          ran1\<lparr>rn_started := Some m2, gr_gos := [GoCluster, GoManager, GoPrint]\<rparr>)))"

text \<open>\<open>log.Fatalf\<close> ends the process with code 1.\<close>

definition registry_example_main ::
  "('o, 'k) ex_world \<Rightarrow> (go_start list \<Rightarrow> go_start list) \<Rightarrow> (go_start \<Rightarrow> go_error option) \<Rightarrow> aware_h \<Rightarrow> ctxs \<Rightarrow>
   nat \<times> ('o, 'k) group_ran" where
  "registry_example_main X order result registry S =
     (case registry_example_run X order result registry S of (Some err, r) \<Rightarrow> (1, r) | (None, r) \<Rightarrow> (0, r))"

text \<open>One round of the printing goroutine.\<close>

definition registry_lines :: "registry_state \<Rightarrow> string list" where
  "registry_lines r = ''current clusters:'' # map (\<lambda>n. ''  - '' @ n) (registry_ClusterNames r)"

text \<open>The coordinator of \<open>examples/sharded-namespace\<close>; the manager holds it by a handle with its runnable.\<close>

definition sharded_coordinator :: "string \<Rightarrow> ctxs \<Rightarrow> 's \<Rightarrow> 's coordinator" where
  "sharded_coordinator hostname S s =
     coordinator_New hostname [WithShardLease ''kube-system'' ''mcr-shard'', WithPerClusterLease True] S s"

definition sharded_run ::
  "('o, 'k) ex_world \<Rightarrow> (go_start list \<Rightarrow> go_start list) \<Rightarrow> (go_start \<Rightarrow> go_error option) \<Rightarrow> nat \<Rightarrow> nat \<Rightarrow> ctxs \<Rightarrow>
   go_error option \<times> ('o, 'k) group_ran" where
  "sharded_run X order result cd runnable S =
     (case xw_config X of Inl err \<Rightarrow> (Some (Errorf ''get kubeconfig: %w'' [] (Some err)), no_group) | Inr cfg \<Rightarrow>
      case xw_cluster X cfg of Inl err \<Rightarrow> (Some (Errorf ''create host cluster: %w'' [] (Some err)), no_group) | Inr host \<Rightarrow>
      let ran1 = no_group\<lparr>rn_provider := Some (namespace_New S)\<rparr> in
      case xw_client X cfg of Some err \<Rightarrow> (Some (Errorf ''create client: %w'' [] (Some err)), ran1) | None \<Rightarrow>
      case ex_manager X cfg (ex_provider X True) [WithCoordinator (Some (OtherCoord cd (Some runnable) []))] of
        Inl err \<Rightarrow> (Some (Errorf ''create mc manager: %w'' [] (Some err)), ran1)
      | Inr (H, m) \<Rightarrow>
      case complete_on X H (configmap_reconciler X H m) (configmap_builder X m) of
        (Some err, b, m1) \<Rightarrow> (Some (Errorf ''build controller: %w'' [] (Some err)), ran1\<lparr>rn_built := [b]\<rparr>)
      | (None, b, m1) \<Rightarrow>
      (case manager_Start H m1 of (merr, m2) \<Rightarrow>
         (errgroup_Wait order (\<lambda>g. ignoreCanceled (if g = GoManager then merr else result g)) [GoCluster, GoManager],
          ran1\<lparr>rn_built := [b], rn_started := Some m2, gr_gos := [GoCluster, GoManager]\<rparr>)))"

definition sharded_main ::
  "('o, 'k) ex_world \<Rightarrow> (go_start list \<Rightarrow> go_start list) \<Rightarrow> (go_start \<Rightarrow> go_error option) \<Rightarrow> nat \<Rightarrow> nat \<Rightarrow> ctxs \<Rightarrow>
   nat \<times> ('o, 'k) group_ran" where
  "sharded_main X order result cd runnable S =
     (case sharded_run X order result cd runnable S of (Some err, r) \<Rightarrow> (1, r) | (None, r) \<Rightarrow> (0, r))"

subsection \<open>\<open>examples/sync-local-to-remote\<close>\<close>

text \<open>
  \<open>buildConfig\<close> is \<open>clientcmd.BuildConfigFromFlags\<close>, \<open>scheme\<close> the result of the two calls of \<open>AddToScheme\<close>, \<open>selector\<close>
  the label selector predicate. \<open>A\<close>, \<open>now\<close> and \<open>s\<close> are the clients, the provider and what is stored when a
  request is reconciled.
\<close>

definition sync_builder ::
  "('o, 'k) ex_world \<Rightarrow> string \<Rightarrow> EngageOptions \<Rightarrow> 'o predicate \<Rightarrow> mc_manager \<Rightarrow> ('o, Request, 'k) builder" where
  "sync_builder X name engage selector m =
     WithEventFilter selector
       (For (Some (xw_configmap X)) [Engage_Apply engage] (Named name (ControllerManagedBy (Some m))))"

definition sync_doMain ::
  "('o, 'k) ex_world \<Rightarrow> file_env \<Rightarrow> (string \<Rightarrow> go_error + rest_config) \<Rightarrow> go_error option \<times> go_error option \<Rightarrow>
   go_error + 'o predicate \<Rightarrow> 's cm_api \<Rightarrow> file_provider \<Rightarrow> 's \<Rightarrow> string \<Rightarrow> string \<Rightarrow> ctxs \<Rightarrow>
   go_error option \<times> (file_provider, 'o, 'k) ex_ran" where
  "sync_doMain X E buildConfig scheme selector A now s fLocalKubeconfig fProviderKubeconfigs S =
     (let localKubeconfig = go_TrimSpace fLocalKubeconfig in
      if localKubeconfig = '''' then (Some (Errorf ''the --local-kubeconfig flag is required'' [] None), nothing_ran) else
      case buildConfig localKubeconfig of Inl err \<Rightarrow> (Some (Errorf ''error building local kubeconfig: %w'' [] (Some err)), nothing_ran) | Inr localCfg \<Rightarrow>
      case fst scheme of Some err \<Rightarrow> (Some (Errorf ''error adding corev1 to provider scheme: %w'' [] (Some err)), nothing_ran) | None \<Rightarrow>
      let p = file_New E \<lparr>fo_KubeconfigFiles = flag_list fProviderKubeconfigs, fo_KubeconfigDirs = [], fo_KubeconfigGlobs = [],
                fo_Separator = ''''\<rparr> S;
          ran0 = nothing_ran\<lparr>rn_provider := Some p\<rparr> in
      case snd scheme of Some err \<Rightarrow> (Some (Errorf ''error adding corev1 to manager scheme: %w'' [] (Some err)), ran0) | None \<Rightarrow>
      case ex_manager X localCfg (ex_provider X True) [] of Inl err \<Rightarrow> (Some (Errorf ''error setting up mcmanager: %w'' [] (Some err)), ran0) | Inr (H, m) \<Rightarrow>
      case selector of Inl err \<Rightarrow> (Some (Errorf ''failed to build label selector predicate: %w'' [] (Some err)), ran0) | Inr pred \<Rightarrow>
      case complete_on X H
             (\<lambda>cx req. (zero_Result, fst (pushLocalToProvider A (host_cluster H) (ClusterNames (fp_Clusters now)) (file_Get now) (rq_key req) s)))
             (sync_builder X ''local'' (WithEngageWithLocalCluster True) pred m) of
        (Some err, b1, m1) \<Rightarrow> (Some (Errorf ''failed to build controller: %w'' [] (Some err)), ran0\<lparr>rn_built := [b1]\<rparr>)
      | (None, b1, m1) \<Rightarrow>
      (case complete_on X H
              (\<lambda>cx req. (zero_Result, fst (pullProviderFromLocal A (host_cluster H) (file_Get now) req s)))
              (sync_builder X ''provider'' (WithEngageWithProviderClusters True) pred m1) of
         (Some err, b2, m2) \<Rightarrow> (Some (Errorf ''failed to build controller: %w'' [] (Some err)), ran0\<lparr>rn_built := [b1, b2]\<rparr>)
       | (None, b2, m2) \<Rightarrow>
           (case manager_Start H m2 of (err, m3) \<Rightarrow> (err, ran0\<lparr>rn_built := [b1, b2], rn_started := Some m3\<rparr>))))"

text \<open>An error is only logged: the process ends with code 0 in any case.\<close>

definition sync_main ::
  "('o, 'k) ex_world \<Rightarrow> file_env \<Rightarrow> (string \<Rightarrow> go_error + rest_config) \<Rightarrow> go_error option \<times> go_error option \<Rightarrow>
   go_error + 'o predicate \<Rightarrow> 's cm_api \<Rightarrow> file_provider \<Rightarrow> 's \<Rightarrow> string \<Rightarrow> string \<Rightarrow> ctxs \<Rightarrow>
   nat \<times> go_error option \<times> (file_provider, 'o, 'k) ex_ran" where
  "sync_main X E buildConfig scheme selector A now s fLocalKubeconfig fProviderKubeconfigs S =
     (case sync_doMain X E buildConfig scheme selector A now s fLocalKubeconfig fProviderKubeconfigs S of
        (err, r) \<Rightarrow> (0, ignoreCanceled err, r))"

subsection \<open>What the controllers watch\<close>

text \<open>Constructing a controller adds it to the manager and leaves the provider.\<close>

definition keeps_provider :: "('o, Request, 'k) builder_env \<Rightarrow> bool" where
  "keeps_provider E \<longleftrightarrow> (\<forall>name m opts c err m'. be_new E name m opts = (c, err, m') \<longrightarrow> mm_provider m' = mm_provider m)"

lemma Complete_provider:
  assumes "builder_Complete E H ctl (Some r) b = (None, b')" and "keeps_provider E"
    and "newController b = None" and "bl_mgr b = Some m"
  shows "no_provider b' \<longleftrightarrow> mm_provider m = None" and "mm_provider (the (bl_mgr b')) = mm_provider m"
proof -
  have "\<exists>m'. bl_mgr b' = Some m' \<and> mm_provider m' = mm_provider m"
    using assms unfolding builder_Complete_def Build_def doController_def keeps_provider_def Let_def Deref_def
    by (auto split: option.splits sum.splits prod.splits if_splits)
  then show "no_provider b' \<longleftrightarrow> mm_provider m = None" and "mm_provider (the (bl_mgr b')) = mm_provider m"
    by (auto simp: no_provider_def)
qed

lemma Complete_calls:
  assumes "builder_Complete E H ctl (Some r) b = (None, b')" and "bl_calls b = []"
  shows "bl_calls b' = planned E H (no_provider b') b"
proof -
  from assms(1) obtain c where "Build E H ctl (Some r) b = (Inr c, b')"
    by (auto simp: builder_Complete_def split: prod.splits sum.splits)
  from Build_plan[OF this assms(2)] show ?thesis by auto
qed

lemmas example_builders = configmap_builder_def sync_builder_def For_def Named_def ControllerManagedBy_def
  TypedControllerManagedBy_def WithEventFilter_def for_input_def apply_options_def no_engage_def

text \<open>
  The controller that most programs build watches ConfigMaps in the clusters of the provider, and only
  there; the two of the sync program watch those as well, and the first one also the local cluster.
\<close>

lemma configmap_controller_watches:
  assumes "complete_on X H r (configmap_builder X m) = (None, b, m1)"
    and "keeps_provider (xw_E X)" and "be_request (xw_E X) = Some conv" and "mm_provider m \<noteq> None"
  shows "bl_calls b = [WatchClusters (for_source (xw_E X) conv (configmap_builder X m) (xw_configmap X))]"
    and "mm_provider m1 = mm_provider m"
proof -
  have c: "builder_Complete (xw_E X) H (xw_ctl X) (Some r) (configmap_builder X m) = (None, b)" and m1: "m1 = the (bl_mgr b)"
    using assms(1) by (auto simp: complete_on_def split: prod.splits)
  have new: "newController (configmap_builder X m) = None" "bl_mgr (configmap_builder X m) = Some m" "bl_calls (configmap_builder X m) = []"
    by (simp_all add: example_builders)
  note p = Complete_provider[OF c assms(2) new(1,2)]
  from p(2) m1 show "mm_provider m1 = mm_provider m" by simp
  from p(1) assms(4) have "\<not> no_provider b" by simp
  with Complete_calls[OF c new(3)] assms(3)
  show "bl_calls b = [WatchClusters (for_source (xw_E X) conv (configmap_builder X m) (xw_configmap X))]"
    by (simp add: planned_def input_calls_def Deref_def example_builders)
qed

lemma sync_controller_watches:
  assumes "complete_on X H r (sync_builder X name engage selector m) = (None, b, m1)"
    and "keeps_provider (xw_E X)" and "be_request (xw_E X) = Some conv" and "mm_provider m \<noteq> None"
  shows "mm_provider m1 = mm_provider m"
    and "engage = WithEngageWithLocalCluster True \<Longrightarrow>
      \<exists>src. bl_calls b = [WatchLocal src, WatchClusters (for_source (xw_E X) conv (sync_builder X name engage selector m) (xw_configmap X))]"
    and "engage = WithEngageWithProviderClusters True \<Longrightarrow>
      bl_calls b = [WatchClusters (for_source (xw_E X) conv (sync_builder X name engage selector m) (xw_configmap X))]"
proof -
  let ?b = "sync_builder X name engage selector m"
  have c: "builder_Complete (xw_E X) H (xw_ctl X) (Some r) ?b = (None, b)" and m1: "m1 = the (bl_mgr b)"
    using assms(1) by (auto simp: complete_on_def split: prod.splits)
  have new: "newController ?b = None" "bl_mgr ?b = Some m" "bl_calls ?b = []"
    by (simp_all add: example_builders)
  note p = Complete_provider[OF c assms(2) new(1,2)]
  from p(2) m1 show "mm_provider m1 = mm_provider m" by simp
  from p(1) assms(4) have np: "\<not> no_provider b" by simp
  note plan = Complete_calls[OF c new(3), unfolded planned_def]
  show "engage = WithEngageWithLocalCluster True \<Longrightarrow>
      \<exists>src. bl_calls b = [WatchLocal src, WatchClusters (for_source (xw_E X) conv ?b (xw_configmap X))]"
    using plan np assms(3)
    by (simp add: input_calls_def Deref_def example_builders Engage_Apply_def override_def
        WithEngageWithLocalCluster_def for_source_def input_source_def kind_ForCluster_def WithClusterFilter_def
        WithProjection_def TypedKind_def builder_project_def Let_def)
  show "engage = WithEngageWithProviderClusters True \<Longrightarrow>
      bl_calls b = [WatchClusters (for_source (xw_E X) conv ?b (xw_configmap X))]"
    using plan np assms(3)
    by (simp add: input_calls_def Deref_def example_builders Engage_Apply_def override_def
        WithEngageWithProviderClusters_def)
qed

lemma ex_manager_provider:
  assumes "ex_manager X cfg prov opts = Inr (H, m)" and "\<forall>opt \<in> set opts. \<forall>m. mm_provider (opt m) = mm_provider m"
  shows "mm_provider m = Some prov"
proof -
  have fold: "mm_provider (fold (\<lambda>opt m. opt m) opts m0) = mm_provider m0" for m0
    using assms(2) by (induction opts arbitrary: m0) auto
  show ?thesis
    using assms(1) fold
    by (auto simp: ex_manager_def manager_New_def WithMultiCluster_def host_Add_def Let_def
        split: sum.splits option.splits prod.splits if_splits)
qed

text \<open>A program that came to start its manager had built its controller on it, with the provider set.\<close>

definition watches_fleet :: "('p, 'o, 'k, 'z) ex_ran_scheme \<Rightarrow> bool" where
  "watches_fleet r \<longleftrightarrow> (rn_started r \<noteq> None \<longrightarrow> (\<exists>b src. rn_built r = [b] \<and> bl_calls b = [WatchClusters src]))"

lemma watches_fleet_simps [simp]:
  "watches_fleet nothing_ran" "watches_fleet no_group"
  "rn_started r = None \<Longrightarrow> watches_fleet r"
  by (simp_all add: watches_fleet_def nothing_ran_def no_group_def)

lemma built_watches:
  assumes "keeps_provider (xw_E X)" and "be_request (xw_E X) = Some conv"
    and "ex_manager X cfg prov opts = Inr (H, m)" and "opts = [] \<or> (\<exists>c. opts = [WithCoordinator c])"
    and "complete_on X H r (configmap_builder X m) = (None, b, m1)"
  shows "\<exists>src. bl_calls b = [WatchClusters src]"
proof -
  have "mm_provider m = Some prov"
    using ex_manager_provider[OF assms(3)] assms(4) by (auto simp: WithCoordinator_def)
  then show ?thesis using configmap_controller_watches(1)[OF assms(5,1,2)] by simp
qed

lemmas run_splits = sum.splits option.splits prod.splits if_splits

lemma single_controller_watches:
  assumes "keeps_provider (xw_E X)" and "be_request (xw_E X) = Some conv"
  shows "watches_fleet (snd (kind_main X S))" and "watches_fleet (snd (file_main X E f d g S))"
    and "watches_fleet (snd (kubeconfig_main X self complete ns label key S))"
    and "watches_fleet (snd (capi_main X self complete from_secret S))"
    and "watches_fleet (snd (inventory_main X self complete access S))"
    and "watches_fleet (snd (sharded_run X order result cd run S))"
  using built_watches[OF assms] built_watches[OF assms _ disjI2, OF _ exI, OF _ refl]
  unfolding kind_main_def file_main_def kubeconfig_main_def capi_main_def inventory_main_def sharded_run_def Let_def
  by (auto simp: watches_fleet_def nothing_ran_def no_group_def split: run_splits)

lemma namespace_run_watches:
  assumes "keeps_provider (xw_E X)" and "be_request (xw_E X) = Some conv"
    and "namespace_run X testenv create order result kc S = Some (err, r)"
  shows "watches_fleet r"
  using assms(3) built_watches[OF assms(1,2)]
  unfolding namespace_run_def Let_def
  by (auto simp: watches_fleet_def nothing_ran_def no_group_def split: run_splits)

text \<open>
  The programs watch the fleet. Whatever the flags, the environment and the order in which goroutines
  return: an example that comes to start its manager has built one controller, and what that
  watches are the ConfigMaps of the provider's clusters, not of the local cluster.
\<close>

theorem examples_watch_fleet:
  assumes "keeps_provider (xw_E X)" and "be_request (xw_E X) = Some conv"
  shows "watches_fleet (snd (kind_main X S)) \<and> watches_fleet (snd (file_main X E f d g S)) \<and>
    watches_fleet (snd (kubeconfig_main X self complete ns label key S)) \<and>
    watches_fleet (snd (capi_main X self complete from_secret S)) \<and>
    watches_fleet (snd (inventory_main X self complete access S)) \<and>
    watches_fleet (snd (sharded_run X order result cd run S)) \<and>
    (\<forall>err r. namespace_run X testenv create order result kc S = Some (err, r) \<longrightarrow> watches_fleet r)"
  by (intro conjI allI impI single_controller_watches[OF assms]) (rule namespace_run_watches[OF assms])

text \<open>A machine on which everything works.\<close>

definition ex_demo :: "(nat, nat) ex_world" where
  "ex_demo =
     \<lparr>xw_E = demo_builder_env, xw_ctl = (\<lambda>_ _. None), xw_configmap = 1, xw_config = Inr 5, xw_manager = (\<lambda>_. Inr demo_host),
      xw_cluster = (\<lambda>_. Inr 7), xw_client = (\<lambda>_. None), xw_Get = (\<lambda>n. Inl ErrClusterNotFound), xw_index = (\<lambda>_. None),
      xw_object = (\<lambda>cl k. Inl (ErrApi NotFound))\<rparr>"

lemma ex_demo_ok: "keeps_provider (xw_E ex_demo)" "be_request (xw_E ex_demo) = Some id"
  by (auto simp: keeps_provider_def ex_demo_def demo_builder_env_def)

lemmas ex_eval = ex_demo_def complete_on_def builder_Complete_def configmap_builder_def Named_def
  ex_manager_def ex_provider_def manager_New_def WithMultiCluster_def basic_New_def basic_Runnable_def
  manager_Start_def host_Add_def demo_builder_simps build_simps

lemma ex_demo_started: "rn_started (snd (kind_main ex_demo S)) \<noteq> None"
  by (simp add: kind_main_def ex_eval)

theorem examples_watch_fleet_witness:
  "\<exists>b src. rn_built (snd (kind_main ex_demo [])) = [b] \<and> bl_calls b = [WatchClusters src]"
  using examples_watch_fleet[OF ex_demo_ok, THEN conjunct1, of "[]"] ex_demo_started[of "[]"]
  by (simp add: watches_fleet_def)

subsection \<open>The reconciler\<close>

text \<open>
  A request ends without an error, and so without a retry, when its cluster or its ConfigMap is gone:
  the builder wraps the reconciler, and the reconciler itself ignores a missing object.
\<close>

lemma configmap_reconciler_gone:
  assumes "GetCluster H m (rq_ClusterName req) = Inl e \<and> is_cluster_not_found e \<or>
    (\<exists>cl e. GetCluster H m (rq_ClusterName req) = Inr cl \<and> xw_object X cl (rq_key req) = Inl e \<and> IsNotFound e)"
  shows "ClusterNotFoundWrapper (configmap_reconciler X H m) cx req = (zero_Result, None)"
  using assms by (auto simp: ClusterNotFoundWrapper_def configmap_reconciler_def)

text \<open>The program for kind records an event exactly if the ConfigMap was found.\<close>

lemma kind_recorded_iff:
  "kind_recorded X H m req \<noteq> None \<longleftrightarrow>
     (\<exists>cl cm. GetCluster H m (rq_ClusterName req) = Inr cl \<and> xw_object X cl (rq_key req) = Inr cm)"
  by (auto simp: kind_recorded_def split: sum.splits)

subsection \<open>Where the programs do not do what they say\<close>

text \<open>
  The sync program documents one controller that watches ConfigMaps in the local cluster and another
  one that watches those of the provider clusters. The first watches both: its option adds the
  local cluster, and that the provider's clusters are watched is the default of a manager with a
  provider.
\<close>

theorem sync_local_controller_watches_fleet:
  assumes "keeps_provider (xw_E X)" and "be_request (xw_E X) = Some conv"
    and "sync_doMain X E buildConfig scheme selector A now s fl fp S = (err, r)" and "rn_started r \<noteq> None"
  shows "\<exists>b1 b2 src k1 k2. rn_built r = [b1, b2] \<and> bl_calls b1 = [WatchLocal src, WatchClusters k1] \<and> bl_calls b2 = [WatchClusters k2]"
proof -
  obtain cfg H m pred r1 b1 m1 r2 b2 m2 where
    mgr: "ex_manager X cfg (ex_provider X True) [] = Inr (H, m)"
    and b1: "complete_on X H r1 (sync_builder X ''local'' (WithEngageWithLocalCluster True) pred m) = (None, b1, m1)"
    and b2: "complete_on X H r2 (sync_builder X ''provider'' (WithEngageWithProviderClusters True) pred m1) = (None, b2, m2)"
    and built: "rn_built r = [b1, b2]"
    using assms(3,4) unfolding sync_doMain_def Let_def by (auto simp: nothing_ran_def split: run_splits)
  have m: "mm_provider m \<noteq> None" using ex_manager_provider[OF mgr] by simp
  note w1 = sync_controller_watches[OF b1 assms(1,2) m]
  from w1(1) m have "mm_provider m1 \<noteq> None" by simp
  note w2 = sync_controller_watches[OF b2 assms(1,2) this]
  from w1(2)[OF refl] w2(3)[OF refl] built show ?thesis by auto
qed

lemma TrimSpace_k: "go_TrimSpace ''k'' \<noteq> ''''"
proof -
  have "leading white_space ''k'' = None" "leading (map rev white_space) ''k'' = None"
    by code_simp+
  then show ?thesis by (simp add: go_TrimSpace_def trim_leading_plain)
qed

theorem sync_local_controller_watches_fleet_witness:
  "\<exists>b1 b2 src k1 k2.
     rn_built (snd (sync_doMain ex_demo demo_files (\<lambda>_. Inr 5) (None, None) (Inr \<lparr>p_Create = (\<lambda>_. True), p_Update = (\<lambda>_ _. True), p_Delete = (\<lambda>_. True)\<rparr>)
       (cm_mem_api []) demo_file demo_cms ''k'' '''' [(None, False)])) = [b1, b2] \<and>
     bl_calls b1 = [WatchLocal src, WatchClusters k1] \<and> bl_calls b2 = [WatchClusters k2]"
proof (rule sync_local_controller_watches_fleet[OF ex_demo_ok surjective_pairing])
  show "rn_started (snd (sync_doMain ex_demo demo_files (\<lambda>_. Inr 5) (None, None) (Inr \<lparr>p_Create = (\<lambda>_. True), p_Update = (\<lambda>_ _. True), p_Delete = (\<lambda>_. True)\<rparr>)
       (cm_mem_api []) demo_file demo_cms ''k'' '''' [(None, False)])) \<noteq> None"
    using TrimSpace_k
    by (simp add: sync_doMain_def ex_eval sync_builder_def WithEventFilter_def Engage_Apply_def override_def
        WithEngageWithLocalCluster_def WithEngageWithProviderClusters_def)
qed

text \<open>
  The file program passes the split of an empty flag on as its glob patterns. A split is never empty,
  so the default patterns, which the provider takes for none, are never used: without the flag the
  one pattern is the empty string.
\<close>

theorem file_example_no_default_globs:
  "\<exists>p. rn_provider (snd (file_main X E f d g S)) = Some p \<and> fo_KubeconfigGlobs (fp_opts p) = go_Split (CHR '','') g \<and>
     (g = '''' \<longrightarrow> fo_KubeconfigGlobs (fp_opts p) = [''''])"
proof -
  let ?o = "\<lparr>fo_KubeconfigFiles = flag_list f, fo_KubeconfigDirs = flag_list d,
    fo_KubeconfigGlobs = go_Split (CHR '','') g, fo_Separator = ''''\<rparr>"
  have "rn_provider (snd (file_main X E f d g S)) = Some (file_New E ?o S)"
    by (simp add: file_main_def nothing_ran_def Let_def split: sum.split option.split prod.split)
  moreover have "fo_KubeconfigGlobs (fp_opts (file_New E ?o S)) = go_Split (CHR '','') g"
    by (simp add: file_New_def file_defaults_def Let_def)
  moreover have "g = '''' \<Longrightarrow> go_Split (CHR '','') g = ['''']" by simp
  ultimately show ?thesis by metis
qed

text \<open>
  The namespace program starts its provider twice: in a goroutine of its own, and once more by the
  manager, which starts a provider that can be started. The programs that came later leave it to
  the manager.
\<close>

theorem namespace_example_starts_provider_twice:
  assumes "namespace_run X testenv create order result kc S = Some (err, r)" and "rn_started r = Some m"
    and "keeps_provider (xw_E X)" and "be_request (xw_E X) = Some conv"
    and "\<And>cfg H. xw_manager X cfg = Inr H \<Longrightarrow> host_add H ProviderRunnable = None"
  shows "GoProvider \<in> set (gr_gos r) \<and> ProviderRunnable \<in> set (mm_added m)"
proof -
  obtain cfg H m0 b m1 where
    mgr: "ex_manager X cfg (ex_provider X True) [] = Inr (H, m0)"
    and b: "complete_on X H (configmap_reconciler X H m0) (configmap_builder X m0) = (None, b, m1)"
    and m: "m = snd (manager_Start H m1)" and gos: "gr_gos r = [GoProvider, GoCluster, GoManager]"
    using assms(1,2) unfolding namespace_run_def Let_def by (auto simp: no_group_def split: run_splits)
  have p: "mm_provider m0 = Some (ex_provider X True)" using ex_manager_provider[OF mgr] by simp
  with configmap_controller_watches(2)[OF b assms(3,4)] have "mm_provider m1 = Some (ex_provider X True)" by simp
  moreover have "xw_manager X cfg = Inr H" using mgr by (auto simp: ex_manager_def split: sum.splits)
  then have "host_add H ProviderRunnable = None" by (rule assms(5))
  ultimately show ?thesis using m gos by (simp add: manager_Start_def ex_provider_def host_Add_def)
qed

theorem namespace_example_starts_provider_twice_witness:
  "\<exists>err r m. namespace_run ex_demo (Inr 5) (\<lambda>_. None) id (\<lambda>_. None) '''' [] = Some (err, r) \<and> rn_started r = Some m \<and>
     GoProvider \<in> set (gr_gos r) \<and> ProviderRunnable \<in> set (mm_added m)"
proof -
  have "\<exists>err r m. namespace_run ex_demo (Inr 5) (\<lambda>_. None) id (\<lambda>_. None) '''' [] = Some (err, r) \<and> rn_started r = Some m"
    by (simp add: namespace_run_def fixtures_def errgroup_Wait_def ignoreCanceled_def ex_eval no_group_def)
  then obtain err r m where run: "namespace_run ex_demo (Inr 5) (\<lambda>_. None) id (\<lambda>_. None) '''' [] = Some (err, r)"
    and m: "rn_started r = Some m" by blast
  have "GoProvider \<in> set (gr_gos r) \<and> ProviderRunnable \<in> set (mm_added m)"
    by (rule namespace_example_starts_provider_twice[OF run m ex_demo_ok]) (auto simp: ex_demo_def demo_host_def)
  with run m show ?thesis by blast
qed

text \<open>
  The file program ends with code 0 whatever fails after the configuration was loaded, and so does the
  program for kind when its manager fails to start.
\<close>

theorem example_failures_unreported:
  assumes "xw_config X = Inr cfg"
  shows "fst (file_main X E f d g S) = 0 \<and> (rn_started (snd (kind_main X S)) \<noteq> None \<longrightarrow> fst (kind_main X S) = 0)"
  using assms by (auto simp: file_main_def kind_main_def nothing_ran_def Let_def split: run_splits)

theorem example_failures_unreported_witness:
  "fst (file_main (ex_demo\<lparr>xw_manager := (\<lambda>_. Inl (ErrExt ''no manager''))\<rparr>) demo_files '''' '''' '''' []) = 0"
  by (rule example_failures_unreported[THEN conjunct1, of _ 5]) (simp add: ex_demo_def)

end
