(* ===== verification/GoModCheck.thy ===== *)
theory GoModCheck
  imports GoStrings
begin

text \<open>
  \<open>hack/tools/cmd/gomodcheck\<close>: compares the modules this repository requires with the versions the
  upstream modules require. Files, the YAML, go.mod and JSON libraries and the \<open>go mod graph\<close> command
  are parameters; the report is checked against the edges the command prints.
\<close>

subsection \<open>Types\<close>

record gomod_config =
  UpstreamRefs :: "string list"
  ExcludedModules :: "string list"

record upstream =
  us_Ref :: string
  us_Version :: string

record oosMod =
  oos_Name :: string
  oos_Version :: string
  oos_Upstreams :: "upstream list"

text \<open>
  How the process ends: an exit code with what it printed last, or a panic of an index out of range.
  \<open>world\<close> is what other code provides; \<open>md_require\<close> lists the requirements of a parsed go.mod in order.
\<close>

datatype printed = PUsage string | PFatal go_error | PSuccess | PReport string

datatype exit = Exit nat printed | ExitPanic

record world =
  w_ReadFile :: "string \<Rightarrow> go_error + string"
  w_yaml :: "string \<Rightarrow> go_error + gomod_config"
  w_modfile :: "string \<Rightarrow> go_error + (string \<times> string) list"
  w_modgraph :: "go_error + string"
  w_json :: "oosMod list \<Rightarrow> go_error + string"

definition exit_fatal :: "go_error \<Rightarrow> exit" where
  "exit_fatal err = Exit 1 (PFatal err)"

subsection \<open>The modules of the project and of the upstreams\<close>

definition modulesFromGoModFile :: "world \<Rightarrow> go_error + (string, string) fmap" where
  "modulesFromGoModFile w =
     (case w_ReadFile w ''./go.mod'' of
        Inl err \<Rightarrow> Inl err
      | Inr b \<Rightarrow>
     (case w_modfile w b of
        Inl err \<Rightarrow> Inl err
      | Inr require \<Rightarrow> Inr (fold (\<lambda>(path, v) out. fmupd path v out) require fmempty)))"

type_synonym versions = "(string, (string, string) fmap) fmap"

text \<open>\<open>m[name][version] = ref\<close>, with the inner map made when it is missing.\<close>

definition put_version :: "versions \<Rightarrow> string \<Rightarrow> string \<Rightarrow> string \<Rightarrow> versions" where
  "put_version m name version ref =
     (let m1 = (case fmlookup m name of None \<Rightarrow> fmupd name fmempty m | Some _ \<Rightarrow> m)
      in fmupd name (fmupd version ref (the (fmlookup m1 name))) m1)"

text \<open>One line of the graph; \<open>None\<close> is the panic of a missing part.\<close>

definition graph_line ::
  "string \<Rightarrow> (string, bool) fmap \<times> versions \<Rightarrow> ((string, bool) fmap \<times> versions) option" where
  "graph_line line = (\<lambda>(refs, m).
     case part (go_SplitN2 CHR ''@'' line) 0 of None \<Rightarrow> None | Some ref \<Rightarrow>
     if fmlookup refs ref = None then Some (refs, m)
     else
     case part (go_SplitN2 CHR '' '' line) 1 of None \<Rightarrow> None | Some rhs \<Rightarrow>
     case part (go_SplitN2 CHR ''@'' rhs) 0 of None \<Rightarrow> None | Some name \<Rightarrow>
     case part (go_SplitN2 CHR ''@'' rhs) 1 of None \<Rightarrow> None | Some version \<Rightarrow>
     Some (fmupd ref True refs, put_version m name version ref))"

fun graph_lines ::
  "string list \<Rightarrow> (string, bool) fmap \<times> versions \<Rightarrow> ((string, bool) fmap \<times> versions) option" where
  "graph_lines [] st = Some st"
| "graph_lines (l # ls) st = (case graph_line l st of None \<Rightarrow> None | Some st1 \<Rightarrow> graph_lines ls st1)"

text \<open>\<open>ord\<close> is the order in which the set of references is ranged over.\<close>

definition not_found_msg :: "(string, bool) fmap \<Rightarrow> string list \<Rightarrow> string" where
  "not_found_msg refs ord =
     fold (\<lambda>ref acc. if fmlookup refs ref = Some True then acc else acc @ ref @ '', '') ord ''''"

definition modulesFromUpstreamModGraph ::
  "go_error + string \<Rightarrow> string list \<Rightarrow> string list \<Rightarrow> (go_error + versions) option" where
  "modulesFromUpstreamModGraph out upstreamRefList ord =
     (case out of
        Inl err \<Rightarrow> Some (Inl err)
      | Inr graph \<Rightarrow>
     (case graph_lines (go_Split (CHR 0x0A) graph)
             (fold (\<lambda>ref m. fmupd ref False m) upstreamRefList fmempty, fmempty) of
        None \<Rightarrow> None
      | Some (refs, m) \<Rightarrow>
          let notFoundErr = not_found_msg refs ord
          in if notFoundErr \<noteq> ''''
             then Some (Inl (Errorf ''cannot verify modules: the following specified upstream module(s) cannot be found in go.mod: [ %s ]''
                              [go_TrimSuffix notFoundErr '', ''] None))
             else Some (Inr m)))"

subsection \<open>Validation\<close>

text \<open>
  \<open>vord\<close> gives the order in which the versions of a module are ranged over, \<open>ord\<close> that of the modules.
\<close>

definition out_of_sync :: "string \<Rightarrow> (string, string) fmap \<Rightarrow> string list \<Rightarrow> upstream list" where
  "out_of_sync version versionToRef vord =
     map (\<lambda>v. \<lparr>us_Ref = the (fmlookup versionToRef v), us_Version = v\<rparr>) (filter (\<lambda>v. version \<noteq> v) vord)"

definition validate_one ::
  "(string, unit) fmap \<Rightarrow> versions \<Rightarrow> (string \<Rightarrow> string list) \<Rightarrow> string \<times> string \<Rightarrow> oosMod list \<Rightarrow> oosMod list" where
  "validate_one excludedMods ups vord = (\<lambda>(m, version) oosMods.
     if fmlookup excludedMods m \<noteq> None then oosMods
     else (case fmlookup ups m of
             None \<Rightarrow> oosMods
           | Some versionToRef \<Rightarrow>
               let bad = out_of_sync version versionToRef (vord m)
               in if bad = [] then oosMods
                  else oosMods @ [\<lparr>oos_Name = m, oos_Version = version, oos_Upstreams = bad\<rparr>]))"

definition validate ::
  "string list \<Rightarrow> (string, string) fmap \<Rightarrow> versions \<Rightarrow> string list \<Rightarrow> (string \<Rightarrow> string list) \<Rightarrow> oosMod list" where
  "validate excluded mods ups ord vord =
     (let excludedMods = fold (\<lambda>m e. fmupd m () e) excluded fmempty
      in fold (\<lambda>m. validate_one excludedMods ups vord (m, the (fmlookup mods m))) ord [])"

text \<open>The iteration orders depend on the maps that are ranged over.\<close>

record orders =
  o_refs :: "string list \<Rightarrow> string list"
  o_mods :: "(string, string) fmap \<Rightarrow> string list"
  o_versions :: "(string, string) fmap \<Rightarrow> string list"

definition gomod_main :: "world \<Rightarrow> orders \<Rightarrow> string list \<Rightarrow> exit" where
  "gomod_main w ord args =
     (if length args < 2 then (case part args 0 of None \<Rightarrow> ExitPanic | Some prog \<Rightarrow> Exit 1 (PUsage prog))
      else
      case w_ReadFile w (args ! 1) of Inl err \<Rightarrow> exit_fatal err | Inr b \<Rightarrow>
      case w_yaml w b of Inl err \<Rightarrow> exit_fatal err | Inr cfg \<Rightarrow>
      case modulesFromGoModFile w of Inl err \<Rightarrow> exit_fatal err | Inr mods \<Rightarrow>
      case modulesFromUpstreamModGraph (w_modgraph w) (UpstreamRefs cfg) (o_refs ord (UpstreamRefs cfg)) of
        None \<Rightarrow> ExitPanic
      | Some (Inl err) \<Rightarrow> exit_fatal err
      | Some (Inr ups) \<Rightarrow>
          let oosMods = validate (ExcludedModules cfg) mods ups (o_mods ord mods)
                          (\<lambda>m. o_versions ord (the (fmlookup ups m)))
          in if oosMods = [] then Exit 0 PSuccess
             else (case w_json w oosMods of Inl err \<Rightarrow> exit_fatal err | Inr b1 \<Rightarrow> Exit 1 (PReport b1)))"

subsection \<open>What the graph command prints\<close>

text \<open>
  A line of \<open>go mod graph\<close> is an edge: a module and the version at which it requires another. The main
  module has no version. No name or version has blanks, and names have no \<open>@\<close>.
\<close>

record edge =
  e_from :: string
  e_fromv :: "string option"
  e_to :: string
  e_tov :: string

definition print_edge :: "edge \<Rightarrow> string" where
  "print_edge e = e_from e @ (case e_fromv e of None \<Rightarrow> '''' | Some v \<Rightarrow> CHR ''@'' # v) @ CHR '' '' # e_to e @ CHR ''@'' # e_tov e"

definition printed_graph :: "edge list \<Rightarrow> string" where
  "printed_graph es = concat (map (\<lambda>e. print_edge e @ [CHR 0x0A]) es)"

definition blank :: "string \<Rightarrow> bool" where
  "blank s \<longleftrightarrow> CHR '' '' \<in> set s \<or> CHR 0x0A \<in> set s"

definition edge_ok :: "edge \<Rightarrow> bool" where
  "edge_ok e \<longleftrightarrow> \<not> blank (e_from e) \<and> CHR ''@'' \<notin> set (e_from e) \<and>
     (case e_fromv e of None \<Rightarrow> True | Some v \<Rightarrow> \<not> blank v) \<and>
     \<not> blank (e_to e) \<and> CHR ''@'' \<notin> set (e_to e) \<and> \<not> blank (e_tov e)"

definition refs_ok :: "string list \<Rightarrow> bool" where
  "refs_ok refs \<longleftrightarrow> (\<forall>r \<in> set refs. r \<noteq> '''' \<and> \<not> blank r)"

definition upstream_edges :: "string list \<Rightarrow> edge list \<Rightarrow> edge set" where
  "upstream_edges refs es = {e \<in> set es. e_fromv e \<noteq> None \<and> e_from e \<in> set refs}"

text \<open>What an edge does to the two maps.\<close>

definition edge_step :: "edge \<Rightarrow> (string, bool) fmap \<times> versions \<Rightarrow> (string, bool) fmap \<times> versions" where
  "edge_step e = (\<lambda>(refs, m).
     if e_fromv e \<noteq> None \<and> e_from e |\<in>| fmdom refs
     then (fmupd (e_from e) True refs, put_version m (e_to e) (e_tov e) (e_from e)) else (refs, m))"

lemma takeWhile_append_found: "x \<notin> set a \<Longrightarrow> takeWhile (\<lambda>y. y \<noteq> x) (a @ x # b) = a"
  by (induction a) auto

lemma print_edge_newline: "edge_ok e \<Longrightarrow> CHR 0x0A \<notin> set (print_edge e)"
  by (auto simp: print_edge_def edge_ok_def blank_def split: option.splits)

text \<open>The main module's lines begin with a blank before the first \<open>@\<close>, so no reference matches them.\<close>

lemma first_part_edge:
  assumes "edge_ok e"
  shows "takeWhile (\<lambda>x. x \<noteq> CHR ''@'') (print_edge e) =
    (case e_fromv e of None \<Rightarrow> e_from e @ CHR '' '' # e_to e | Some v \<Rightarrow> e_from e)"
proof (cases "e_fromv e")
  case None
  have "CHR ''@'' \<notin> set (e_from e @ CHR '' '' # e_to e)" using assms by (simp add: edge_ok_def)
  from takeWhile_append_found[OF this, of "e_tov e"] None show ?thesis by (simp add: print_edge_def)
next
  case (Some v)
  have "CHR ''@'' \<notin> set (e_from e)" using assms by (simp add: edge_ok_def)
  from takeWhile_append_found[OF this] Some show ?thesis by (simp add: print_edge_def)
qed

lemma second_part_edge:
  assumes "edge_ok e"
  shows "go_SplitN2 CHR '' '' (print_edge e) =
    [e_from e @ (case e_fromv e of None \<Rightarrow> '''' | Some v \<Rightarrow> CHR ''@'' # v), e_to e @ CHR ''@'' # e_tov e]"
  unfolding print_edge_def append_assoc[symmetric]
  by (rule go_SplitN2_append) (use assms in \<open>auto simp: edge_ok_def blank_def split: option.splits\<close>)

lemma target_edge: "edge_ok e \<Longrightarrow> go_SplitN2 CHR ''@'' (e_to e @ CHR ''@'' # e_tov e) = [e_to e, e_tov e]"
  by (rule go_SplitN2_append) (simp add: edge_ok_def)

definition refs_dom_ok :: "(string, bool) fmap \<Rightarrow> bool" where
  "refs_dom_ok refs \<longleftrightarrow> (\<forall>r. r |\<in>| fmdom refs \<longrightarrow> r \<noteq> '''' \<and> \<not> blank r)"

lemma graph_line_edge:
  assumes "edge_ok e" and "refs_dom_ok (fst st)"
  shows "graph_line (print_edge e) st = Some (edge_step e st)"
proof -
  obtain refs m where st: "st = (refs, m)" by (cases st)
  show ?thesis
  proof (cases "e_fromv e")
    case None
    have "e_from e @ CHR '' '' # e_to e |\<notin>| fmdom refs"
      using assms(2) st by (auto simp: refs_dom_ok_def blank_def simp del: not_in_fmdom)
    with None show ?thesis
      using assms(1) by (simp add: st graph_line_def edge_step_def first_part_edge)
  next
    case (Some v)
    with assms(1) show ?thesis
      by (cases "fmlookup refs (e_from e)")
        (simp_all add: st graph_line_def edge_step_def first_part_edge second_part_edge target_edge
          fmlookup_dom_iff)
  qed
qed

lemma edge_step_dom [simp]: "fmdom (fst (edge_step e st)) = fmdom (fst st)"
  by (cases st) (auto simp: edge_step_def)

lemma graph_lines_edges:
  assumes "\<forall>e \<in> set es. edge_ok e" and "refs_dom_ok (fst st)"
  shows "graph_lines (map print_edge es @ [[]]) st = Some (fold edge_step es st)"
  using assms
proof (induction es arbitrary: st)
  case Nil
  have "fmlookup (fst st) '''' = None"
    using Nil.prems(2) unfolding refs_dom_ok_def by (metis not_in_fmdom)
  then show ?case by (cases st) (simp add: graph_line_def)
next
  case (Cons e es)
  then have "refs_dom_ok (fst (edge_step e st))" by (simp add: refs_dom_ok_def)
  with Cons show ?case by (simp add: graph_line_edge)
qed

subsection \<open>The maps after the whole graph\<close>

definition versions_of :: "versions \<Rightarrow> string \<Rightarrow> string set" where
  "versions_of m name = (case fmlookup m name of None \<Rightarrow> {} | Some vm \<Rightarrow> fset (fmdom vm))"

lemma versions_of_put [simp]:
  "versions_of (put_version m name v ref) x = versions_of m x \<union> (if x = name then {v} else {})"
  by (auto simp: versions_of_def put_version_def Let_def split: option.splits)

lemma fold_edges_found:
  "fmlookup (fst (fold edge_step es st)) r = Some True \<longleftrightarrow>
     fmlookup (fst st) r = Some True \<or> r |\<in>| fmdom (fst st) \<and> (\<exists>e \<in> set es. e_fromv e \<noteq> None \<and> e_from e = r)"
proof (induction es arbitrary: st)
  case (Cons e es)
  have "fmlookup (fst (edge_step e st)) r = Some True \<longleftrightarrow>
      fmlookup (fst st) r = Some True \<or> r |\<in>| fmdom (fst st) \<and> e_fromv e \<noteq> None \<and> e_from e = r"
    by (cases st) (auto simp: edge_step_def)
  with Cons.IH[of "edge_step e st"] show ?case by auto
qed simp

lemma fold_edges_versions:
  "versions_of (snd (fold edge_step es st)) x =
     versions_of (snd st) x \<union>
     {e_tov e | e. e \<in> set es \<and> e_fromv e \<noteq> None \<and> e_from e |\<in>| fmdom (fst st) \<and> e_to e = x}"
proof (induction es arbitrary: st)
  case (Cons e es)
  have "versions_of (snd (edge_step e st)) x = versions_of (snd st) x \<union>
      (if e_fromv e \<noteq> None \<and> e_from e |\<in>| fmdom (fst st) \<and> e_to e = x then {e_tov e} else {})"
    by (cases st) (auto simp: edge_step_def simp del: not_in_fmdom)
  with Cons.IH[of "edge_step e st"] show ?case by (auto simp del: not_in_fmdom)
qed simp

lemma initial_refs:
  "fmlookup (fold (\<lambda>ref m. fmupd ref False m) rs m0) r = (if r \<in> set rs then Some False else fmlookup m0 r)"
  by (induction rs arbitrary: m0) auto

lemma not_found_msg_empty:
  "not_found_msg refs ord = '''' \<longleftrightarrow> (\<forall>r \<in> set ord. fmlookup refs r = Some True)"
proof -
  have "fold (\<lambda>ref acc. if fmlookup refs ref = Some True then acc else acc @ ref @ '', '') ord acc = '''' \<longleftrightarrow>
      acc = '''' \<and> (\<forall>r \<in> set ord. fmlookup refs r = Some True)" for acc
    by (induction ord arbitrary: acc) auto
  then show ?thesis by (simp add: not_found_msg_def)
qed

definition all_found :: "string list \<Rightarrow> edge list \<Rightarrow> bool" where
  "all_found refs es \<longleftrightarrow> (\<forall>r \<in> set refs. \<exists>e \<in> set es. e_fromv e \<noteq> None \<and> e_from e = r)"

text \<open>
  On a printed graph the function does not panic; it fails if a reference is missing, and otherwise
  knows for every module the versions that upstream modules require.
\<close>

lemma modulesFromUpstreamModGraph_edges:
  assumes es: "\<forall>e \<in> set es. edge_ok e" and refs: "refs_ok refs" and ord: "set ord = set refs"
  shows "case modulesFromUpstreamModGraph (Inr (printed_graph es)) refs ord of
      None \<Rightarrow> False
    | Some (Inl _) \<Rightarrow> \<not> all_found refs es
    | Some (Inr m) \<Rightarrow> all_found refs es \<and> (\<forall>x. versions_of m x = {e_tov e | e. e \<in> upstream_edges refs es \<and> e_to e = x})"
proof -
  define st0 :: "(string, bool) fmap \<times> versions" where
    "st0 = (fold (\<lambda>ref m. fmupd ref False m) refs fmempty, fmempty)"
  have dom: "r |\<in>| fmdom (fst st0) \<longleftrightarrow> r \<in> set refs" for r
    by (auto simp: st0_def fmlookup_dom_iff initial_refs)
  have "go_Split (CHR 0x0A) (printed_graph es) = map print_edge es @ [[]]"
    using go_Split_lines[of "map print_edge es" "CHR 0x0A"] es print_edge_newline
    by (auto simp: printed_graph_def comp_def)
  moreover have "refs_dom_ok (fst st0)" using refs dom by (simp add: refs_dom_ok_def refs_ok_def)
  ultimately have lines: "graph_lines (go_Split (CHR 0x0A) (printed_graph es)) st0 = Some (fold edge_step es st0)"
    using graph_lines_edges[OF es] by simp
  have found: "(\<forall>r \<in> set ord. fmlookup (fst (fold edge_step es st0)) r = Some True) \<longleftrightarrow> all_found refs es"
    by (auto simp: fold_edges_found all_found_def dom ord) (simp add: st0_def initial_refs split: if_splits)
  have vers: "versions_of (snd (fold edge_step es st0)) x = {e_tov e | e. e \<in> upstream_edges refs es \<and> e_to e = x}" for x
    unfolding fold_edges_versions dom by (auto simp: st0_def versions_of_def upstream_edges_def)
  show ?thesis
    using lines found vers unfolding modulesFromUpstreamModGraph_def st0_def[symmetric]
    by (auto simp: Let_def not_found_msg_empty split: prod.splits)
qed

subsection \<open>The report\<close>

lemma fold_appends: "fold (\<lambda>x acc. acc @ f x) xs acc = acc @ concat (map f xs)"
  by (induction xs arbitrary: acc) auto

text \<open>What a module adds to the report.\<close>

definition entry :: "string set \<Rightarrow> versions \<Rightarrow> (string \<Rightarrow> string list) \<Rightarrow> string \<Rightarrow> string \<Rightarrow> oosMod list" where
  "entry excluded ups vord m version =
     (let bad = out_of_sync version (the (fmlookup ups m)) (vord m)
      in if m \<in> excluded \<or> fmlookup ups m = None \<or> bad = [] then []
         else [\<lparr>oos_Name = m, oos_Version = version, oos_Upstreams = bad\<rparr>])"

lemma lookup_excluded: "fmlookup (fold (\<lambda>m e. fmupd m () e) ms e0) x = (if x \<in> set ms then Some () else fmlookup e0 x)"
  by (induction ms arbitrary: e0) auto

lemma validate_entries:
  "validate excluded mods ups ord vord =
     concat (map (\<lambda>m. entry (set excluded) ups vord m (the (fmlookup mods m))) ord)"
proof -
  have "validate_one (fold (\<lambda>m e. fmupd m () e) excluded fmempty) ups vord (m, v) acc =
      acc @ entry (set excluded) ups vord m v" for m v acc
    by (simp add: validate_one_def entry_def lookup_excluded Let_def split: option.split)
  then have "(\<lambda>m. validate_one (fold (\<lambda>m e. fmupd m () e) excluded fmempty) ups vord (m, the (fmlookup mods m))) =
      (\<lambda>m acc. acc @ entry (set excluded) ups vord m (the (fmlookup mods m)))"
    by (intro ext) simp
  then show ?thesis by (simp add: validate_def fold_appends)
qed

lemma set_out_of_sync:
  assumes "iter_order vm vord"
  shows "us_Version ` set (out_of_sync version vm vord) = fset (fmdom vm) - {version}"
    and "out_of_sync version vm vord = [] \<longleftrightarrow> fset (fmdom vm) \<subseteq> {version}"
proof -
  have "set vord = fset (fmdom vm)" using assms by (simp add: iter_order_def)
  then have dom: "set (filter (\<lambda>v. version \<noteq> v) vord) = fset (fmdom vm) - {version}" by auto
  then show "us_Version ` set (out_of_sync version vm vord) = fset (fmdom vm) - {version}"
    by (simp add: out_of_sync_def image_image del: set_filter)
  from dom show "out_of_sync version vm vord = [] \<longleftrightarrow> fset (fmdom vm) \<subseteq> {version}"
    unfolding out_of_sync_def map_is_Nil_conv by (metis Diff_eq_empty_iff set_empty)
qed

definition reported :: "oosMod list \<Rightarrow> (string \<times> string) set" where
  "reported oos = {(oos_Name q, us_Version u) | q u. q \<in> set oos \<and> u \<in> set (oos_Upstreams q)}"

lemma reported_concat: "reported (concat xss) = (\<Union>xs \<in> set xss. reported xs)"
  by (auto simp: reported_def)

lemma reported_entry:
  assumes "\<And>vm. fmlookup ups m = Some vm \<Longrightarrow> iter_order vm (vord m)"
  shows "reported (entry excluded ups vord m version) =
    (if m \<in> excluded then {} else {m} \<times> (versions_of ups m - {version}))"
proof (cases "fmlookup ups m")
  case None
  then show ?thesis by (simp add: entry_def reported_def versions_of_def)
next
  case (Some vm)
  note ord = set_out_of_sync[OF assms[OF Some], of version]
  have "reported [\<lparr>oos_Name = m, oos_Version = version, oos_Upstreams = bad\<rparr>] = {m} \<times> us_Version ` set bad" for bad
    by (auto simp: reported_def)
  moreover have "reported [] = {}" by (simp add: reported_def)
  ultimately show ?thesis using Some ord by (auto simp: entry_def Let_def versions_of_def)
qed

lemma entry_nonempty: "q \<in> set (entry excluded ups vord m version) \<Longrightarrow> oos_Upstreams q \<noteq> []"
  by (auto simp: entry_def Let_def split: if_splits)

lemma validate_empty: "validate excluded mods ups ord vord = [] \<longleftrightarrow> reported (validate excluded mods ups ord vord) = {}"
proof
  assume empty: "reported (validate excluded mods ups ord vord) = {}"
  have "oos_Upstreams q \<noteq> []" if "q \<in> set (validate excluded mods ups ord vord)" for q
    using that entry_nonempty by (auto simp: validate_entries)
  with empty show "validate excluded mods ups ord vord = []"
    unfolding reported_def by (cases "validate excluded mods ups ord vord") (force simp: neq_Nil_conv)+
qed (simp add: reported_def)

definition orders_ok :: "orders \<Rightarrow> bool" where
  "orders_ok ord \<longleftrightarrow> (\<forall>rs. distinct (o_refs ord rs) \<and> set (o_refs ord rs) = set rs) \<and>
     (\<forall>m. iter_order m (o_mods ord m)) \<and> (\<forall>m. iter_order m (o_versions ord m))"

text \<open>The last requirement of a module counts; \<open>disagreements\<close> are the pairs a correct report lists.\<close>

definition disagreements :: "gomod_config \<Rightarrow> (string \<times> string) list \<Rightarrow> edge list \<Rightarrow> (string \<times> string) set" where
  "disagreements cfg require es =
     {(e_to e, e_tov e) | e. e \<in> upstream_edges (UpstreamRefs cfg) es \<and> e_to e \<notin> set (ExcludedModules cfg) \<and>
        (\<exists>v. map_of (rev require) (e_to e) = Some v \<and> v \<noteq> e_tov e)}"

lemma lookup_required:
  "fmlookup (fold (\<lambda>(path, v) out. fmupd path v out) require m0) m =
     (case map_of (rev require) m of None \<Rightarrow> fmlookup m0 m | Some v \<Rightarrow> Some v)"
  by (induction require arbitrary: m0) (auto simp: map_add_def split: option.splits)

lemma validate_disagreements:
  assumes "orders_ok ord" and m: "\<forall>x. versions_of ups x = {e_tov e | e. e \<in> upstream_edges (UpstreamRefs cfg) es \<and> e_to e = x}"
    and mods: "mods = fold (\<lambda>(path, v) out. fmupd path v out) require fmempty"
  shows "reported (validate (ExcludedModules cfg) mods ups (o_mods ord mods) (\<lambda>m. o_versions ord (the (fmlookup ups m)))) =
    disagreements cfg require es"
proof -
  have req: "fmlookup mods x = map_of (rev require) x" for x
    by (simp add: mods lookup_required split: option.splits)
  have "x \<in> set (o_mods ord mods) \<longleftrightarrow> (\<exists>v. map_of (rev require) x = Some v)" for x
    using iter_order_iff[of mods "o_mods ord mods"] assms(1) by (simp add: orders_ok_def req)
  moreover have "reported (entry (set (ExcludedModules cfg)) ups (\<lambda>m. o_versions ord (the (fmlookup ups m))) x v) =
      (if x \<in> set (ExcludedModules cfg) then {} else {x} \<times> (versions_of ups x - {v}))" for x v
    by (rule reported_entry) (use assms(1) in \<open>simp add: orders_ok_def\<close>)
  ultimately show ?thesis
    unfolding validate_entries reported_concat
    by (auto simp: disagreements_def req m split: if_splits) force
qed

subsection \<open>The whole program\<close>

lemma gomod_main_report:
  assumes args: "2 \<le> length args"
    and files: "w_ReadFile w (args ! 1) = Inr b" "w_yaml w b = Inr cfg" "w_ReadFile w ''./go.mod'' = Inr g" "w_modfile w g = Inr require"
    and graph: "w_modgraph w = Inr (printed_graph es)" "\<forall>e \<in> set es. edge_ok e" "refs_ok (UpstreamRefs cfg)"
    and ord: "orders_ok ord"
  shows "if all_found (UpstreamRefs cfg) es
    then \<exists>oos. reported oos = disagreements cfg require es \<and> (oos = [] \<longleftrightarrow> disagreements cfg require es = {}) \<and>
      gomod_main w ord args =
        (if oos = [] then Exit 0 PSuccess
         else case w_json w oos of Inl err \<Rightarrow> Exit 1 (PFatal err) | Inr out \<Rightarrow> Exit 1 (PReport out))
    else \<exists>err. gomod_main w ord args = Exit 1 (PFatal err)"
proof -
  define mods where "mods = fold (\<lambda>(path, v) out. fmupd path v out) require fmempty"
  have mods: "modulesFromGoModFile w = Inr mods" using files by (simp add: modulesFromGoModFile_def mods_def)
  have "set (o_refs ord (UpstreamRefs cfg)) = set (UpstreamRefs cfg)" using ord by (simp add: orders_ok_def)
  note known = modulesFromUpstreamModGraph_edges[OF graph(2,3) this, folded graph(1)]
  then obtain res where
    res: "modulesFromUpstreamModGraph (w_modgraph w) (UpstreamRefs cfg) (o_refs ord (UpstreamRefs cfg)) = Some res"
    by (auto split: option.splits)
  show ?thesis
  proof (cases res)
    case (Inl err)
    with known res have "\<not> all_found (UpstreamRefs cfg) es" by simp
    with Inl res args files mods show ?thesis by (auto simp: gomod_main_def exit_fatal_def)
  next
    case (Inr ups)
    with known res have all: "all_found (UpstreamRefs cfg) es"
      and ups: "\<forall>x. versions_of ups x = {e_tov e | e. e \<in> upstream_edges (UpstreamRefs cfg) es \<and> e_to e = x}"
      by auto
    define oos where "oos = validate (ExcludedModules cfg) mods ups (o_mods ord mods) (\<lambda>m. o_versions ord (the (fmlookup ups m)))"
    have rep: "reported oos = disagreements cfg require es"
      unfolding oos_def by (rule validate_disagreements[OF ord ups mods_def])
    have "oos = [] \<longleftrightarrow> reported oos = {}" unfolding oos_def by (rule validate_empty)
    moreover have "gomod_main w ord args = (if oos = [] then Exit 0 PSuccess
        else case w_json w oos of Inl err \<Rightarrow> Exit 1 (PFatal err) | Inr out \<Rightarrow> Exit 1 (PReport out))"
      using Inr res args files mods by (simp add: gomod_main_def exit_fatal_def oos_def split: sum.split)
    ultimately show ?thesis using all rep by auto
  qed
qed


text \<open>
  Two upstream references, one of which requires another version of a module: the check fails and
  reports it; with the module excluded it passes.
\<close>

definition wit_cfg :: "string list \<Rightarrow> gomod_config" where
  "wit_cfg ex = \<lparr>UpstreamRefs = [''cr'', ''api''], ExcludedModules = ex\<rparr>"

definition wit_edges :: "edge list" where
  "wit_edges =
     [\<lparr>e_from = ''main'', e_fromv = None, e_to = ''cr'', e_tov = ''v1''\<rparr>,
      \<lparr>e_from = ''cr'', e_fromv = Some ''v1'', e_to = ''api'', e_tov = ''v2''\<rparr>,
      \<lparr>e_from = ''api'', e_fromv = Some ''v2'', e_to = ''yaml'', e_tov = ''v3''\<rparr>]"

definition wit_world :: "string list \<Rightarrow> world" where
  "wit_world ex =
     \<lparr>w_ReadFile = Inr, w_yaml = (\<lambda>_. Inr (wit_cfg ex)), w_modfile = (\<lambda>_. Inr [(''api'', ''v2''), (''yaml'', ''v4'')]),
      w_modgraph = Inr (printed_graph wit_edges), w_json = (\<lambda>oos. Inr (concat (map oos_Name oos)))\<rparr>"

definition wit_orders :: orders where
  "wit_orders = \<lparr>o_refs = remdups, o_mods = sorted_keys, o_versions = sorted_keys\<rparr>"

lemma wit_ok: "orders_ok wit_orders" "\<forall>e \<in> set wit_edges. edge_ok e" "refs_ok (UpstreamRefs (wit_cfg ex))"
  by (simp_all add: wit_orders_def orders_ok_def iter_order_sorted_keys wit_edges_def edge_ok_def blank_def
      refs_ok_def wit_cfg_def)

lemma wit_upstream_edges:
  "upstream_edges (UpstreamRefs (wit_cfg ex)) wit_edges =
     {\<lparr>e_from = ''cr'', e_fromv = Some ''v1'', e_to = ''api'', e_tov = ''v2''\<rparr>,
      \<lparr>e_from = ''api'', e_fromv = Some ''v2'', e_to = ''yaml'', e_tov = ''v3''\<rparr>}"
  by (auto simp: upstream_edges_def wit_cfg_def wit_edges_def)

lemma wit_upstream:
  "all_found (UpstreamRefs (wit_cfg ex)) wit_edges"
  "disagreements (wit_cfg ex) [(''api'', ''v2''), (''yaml'', ''v4'')] wit_edges =
     (if ''yaml'' \<in> set ex then {} else {(''yaml'', ''v3'')})"
  unfolding disagreements_def wit_upstream_edges
  by (auto simp: all_found_def wit_cfg_def wit_edges_def
      intro!: exI[of _ "\<lparr>e_from = ''api'', e_fromv = Some ''v2'', e_to = ''yaml'', e_tov = ''v3''\<rparr>"])


end
