(* ===== verification/Ports.thy ===== *)
theory Ports
  imports Peers
begin

text \<open>
  \<open>internal/forked/testing\<close>: the allocation of ports for tests. A port is taken by locking a file of
  its own in a shared directory; files older than the reservation time are removed first. The
  operating system is a parameter with laws for files, advisory locks and listeners.
\<close>

subsection \<open>Errors and system calls\<close>

datatype port_error =
    ErrAlreadyLocked
  | ErrNotExist
  | ErrExist
  | EWOULDBLOCK
  | ErrSys string
  | CannotLock string port_error
  | NoFreePorts nat

text \<open>\<open>errors.Is\<close>: the error itself or one that it wraps.\<close>

fun is_error :: "port_error \<Rightarrow> port_error \<Rightarrow> bool" where
  "is_error (CannotLock p e) t \<longleftrightarrow> CannotLock p e = t \<or> is_error e t"
| "is_error e t \<longleftrightarrow> e = t"

text \<open>An entry as \<open>fs.WalkDir\<close> hands it to its callback; the path is relative to the directory.\<close>

record visit =
  v_path :: string
  v_err :: "port_error option"
  v_dir :: bool
  v_regular :: bool

text \<open>
  \<open>po_info\<close> is the modification time that \<open>d.Info()\<close> reports, \<open>po_open\<close> returns a descriptor of the file it
  opened or created, \<open>po_listen\<close> the port that was bound for port 0.
\<close>

record 's port_os =
  po_walk :: "'s \<Rightarrow> visit list"
  po_info :: "'s \<Rightarrow> string \<Rightarrow> port_error + int"
  po_now :: "'s \<Rightarrow> int"
  po_remove :: "'s \<Rightarrow> string \<Rightarrow> port_error option \<times> 's"
  po_open :: "'s \<Rightarrow> string \<Rightarrow> (port_error + nat) \<times> 's"
  po_flock :: "'s \<Rightarrow> nat \<Rightarrow> port_error option \<times> 's"
  po_resolve :: "'s \<Rightarrow> string \<Rightarrow> port_error + string"
  po_listen :: "'s \<Rightarrow> string \<Rightarrow> (port_error + nat) \<times> 's"
  po_close :: "'s \<Rightarrow> nat \<Rightarrow> 's"

subsection \<open>Locks and ports\<close>

definition portReserveTime :: int where "portReserveTime = 2 * 60 * second"
definition portConflictRetry :: nat where "portConflictRetry = 100"
definition portFilePrefix :: string where "portFilePrefix = ''port-''"

text \<open>
  \<open>init\<close>: the cache directory of the user, or else the one for temporary files; \<open>None\<close> is the panic when
  neither can be made. Both parts of a join are clean paths.
\<close>

definition filepath_Join :: "string \<Rightarrow> string \<Rightarrow> string" where
  "filepath_Join dir p = dir @ ''/'' @ p"

definition cacheDir_init :: "port_error + string \<Rightarrow> string \<Rightarrow> (string \<Rightarrow> port_error option) \<Rightarrow> string option" where
  "cacheDir_init userCacheDir tempDir mkdirAll =
     (let first = (case userCacheDir of
                     Inl err \<Rightarrow> Inl err
                   | Inr baseDir \<Rightarrow>
                       let d = filepath_Join baseDir ''kubebuilder-envtest''
                       in (case mkdirAll d of None \<Rightarrow> Inr d | Some err \<Rightarrow> Inl err))
      in (case first of
            Inr d \<Rightarrow> Some d
          | Inl err \<Rightarrow>
              let d = filepath_Join tempDir ''kubebuilder-envtest''
              in (case mkdirAll d of None \<Rightarrow> Some d | Some err1 \<Rightarrow> None)))"

definition Acquire :: "'s port_os \<Rightarrow> string \<Rightarrow> 's \<Rightarrow> port_error option \<times> 's" where
  "Acquire A path s =
     (case po_open A s path of
        (Inl err, s1) \<Rightarrow> (Some (if is_error err ErrExist then CannotLock path ErrAlreadyLocked else err), s1)
      | (Inr fd, s1) \<Rightarrow>
          (case po_flock A s1 fd of
             (None, s2) \<Rightarrow> (None, s2)
           | (Some err, s2) \<Rightarrow>
               (Some (if is_error err EWOULDBLOCK then CannotLock path ErrAlreadyLocked else err), s2)))"

text \<open>On systems without file locks every lock is granted.\<close>

definition Acquire_other :: "string \<Rightarrow> 's \<Rightarrow> port_error option \<times> 's" where
  "Acquire_other path s = (None, s)"

fun remove_outdated :: "'s port_os \<Rightarrow> string \<Rightarrow> visit list \<Rightarrow> 's \<Rightarrow> port_error option \<times> 's" where
  "remove_outdated A dir [] s = (None, s)"
| "remove_outdated A dir (v # vs) s =
     (case v_err v of
        Some err \<Rightarrow> (Some err, s)
      | None \<Rightarrow>
          if v_dir v \<or> \<not> v_regular v \<or> take (length portFilePrefix) (v_path v) \<noteq> portFilePrefix
          then remove_outdated A dir vs s
          else (case po_info A s (filepath_Join dir (v_path v)) of
                  Inl err \<Rightarrow> if is_error err ErrNotExist then remove_outdated A dir vs s else (Some err, s)
                | Inr modTime \<Rightarrow>
                    if po_now A s - modTime > portReserveTime
                    then (case po_remove A s (filepath_Join dir (v_path v)) of
                            (None, s1) \<Rightarrow> remove_outdated A dir vs s1
                          | (Some err, s1) \<Rightarrow>
                              if is_error err ErrNotExist then remove_outdated A dir vs s1 else (Some err, s1))
                    else remove_outdated A dir vs s))"

definition port_path :: "string \<Rightarrow> nat \<Rightarrow> string" where
  "port_path dir port = dir @ ''/'' @ portFilePrefix @ format_uint port"

definition port_add :: "'s port_os \<Rightarrow> string \<Rightarrow> nat \<Rightarrow> 's \<Rightarrow> (port_error + bool) \<times> 's" where
  "port_add A dir port s =
     (case remove_outdated A dir (po_walk A s) s of
        (Some err, s1) \<Rightarrow> (Inl err, s1)
      | (None, s1) \<Rightarrow>
          (case Acquire A (port_path dir port) s1 of
             (None, s2) \<Rightarrow> (Inr True, s2)
           | (Some err, s2) \<Rightarrow> ((if is_error err ErrAlreadyLocked then Inr False else Inl err), s2)))"

definition suggest_addr :: "'s port_os \<Rightarrow> string \<Rightarrow> 's \<Rightarrow> (port_error + nat \<times> string) \<times> 's" where
  "suggest_addr A listenHost s =
     (let host = (if listenHost = '''' then ''localhost'' else listenHost)
      in (case po_resolve A s host of
            Inl err \<Rightarrow> (Inl err, s)
          | Inr addr \<Rightarrow>
              (case po_listen A s addr of
                 (Inl err, s1) \<Rightarrow> (Inl err, s1)
               | (Inr port, s1) \<Rightarrow> (Inr (port, addr), s1))))"

text \<open>
  The loop of \<open>Suggest\<close>: \<open>n\<close> rounds are left, \<open>opened\<close> holds the listeners whose \<open>Close\<close> is deferred, the
  latest first. They are closed in that order when the function returns.
\<close>

fun suggest_rounds ::
  "'s port_os \<Rightarrow> string \<Rightarrow> string \<Rightarrow> nat \<Rightarrow> nat list \<Rightarrow> 's \<Rightarrow> (port_error + nat \<times> string) \<times> nat list \<times> 's" where
  "suggest_rounds A dir host 0 opened s = (Inl (NoFreePorts portConflictRetry), opened, s)"
| "suggest_rounds A dir host (Suc n) opened s =
     (case suggest_addr A host s of
        (Inl err, s1) \<Rightarrow> (Inl err, opened, s1)
      | (Inr (port, resolved), s1) \<Rightarrow>
          (case port_add A dir port s1 of
             (Inr True, s2) \<Rightarrow> (Inr (port, resolved), port # opened, s2)
           | (Inr False, s2) \<Rightarrow> suggest_rounds A dir host n (port # opened) s2
           | (Inl err, s2) \<Rightarrow> (Inl err, port # opened, s2)))"

definition Suggest :: "'s port_os \<Rightarrow> string \<Rightarrow> string \<Rightarrow> 's \<Rightarrow> (port_error + nat \<times> string) \<times> 's" where
  "Suggest A dir host s =
     (case suggest_rounds A dir host portConflictRetry [] s of
        (res, opened, s1) \<Rightarrow> (res, fold (\<lambda>port st. po_close A st port) opened s1))"

subsection \<open>The laws of the operating system\<close>

lemma port_path_inj [simp]: "port_path dir p = port_path dir q \<longleftrightarrow> p = q"
  by (metis append_same_eq option.inject parse_digits_format port_path_def same_append_eq)

text \<open>
  \<open>fileat s p\<close> is the file at a path, by its number and modification time; \<open>locked s i\<close> that some process has
  file \<open>i\<close> locked; \<open>listening s\<close> the bound ports. A failed call changes nothing, opening a file that exists
  leaves its modification time, and a lock stays with the file it was taken on. \<open>env\<close> is what else
  happens: time passes, other files and listeners come and go, but no lock is given up.
\<close>

locale port_files =
  fixes A :: "'s port_os"
    and fileat :: "'s \<Rightarrow> string \<Rightarrow> (nat \<times> int) option"
    and locked :: "'s \<Rightarrow> nat \<Rightarrow> bool"
    and listening :: "'s \<Rightarrow> nat set"
    and env :: "'s \<Rightarrow> 's \<Rightarrow> bool"
  assumes info_law: "po_info A s p = Inr t \<Longrightarrow> \<exists>i. fileat s p = Some (i, t)"
    and remove_law: "po_remove A s p = (r, s') \<Longrightarrow>
      fileat s' = (fileat s)(p := if r = None then None else fileat s p) \<and> locked s' = locked s \<and>
      listening s' = listening s \<and> po_now A s \<le> po_now A s'"
    and open_law: "po_open A s p = (Inr i, s') \<Longrightarrow>
      (\<exists>t. fileat s' = (fileat s)(p \<mapsto> (i, t)) \<and>
         (fileat s p = Some (i, t) \<or> fileat s p = None \<and> \<not> locked s i \<and> po_now A s \<le> t \<and> t \<le> po_now A s')) \<and>
      locked s' = locked s \<and> listening s' = listening s \<and> po_now A s \<le> po_now A s'"
    and open_fails: "po_open A s p = (Inl err, s') \<Longrightarrow>
      fileat s' = fileat s \<and> locked s' = locked s \<and> listening s' = listening s \<and> po_now A s \<le> po_now A s'"
    and flock_law: "po_flock A s i = (r, s') \<Longrightarrow>
      (r = None \<longrightarrow> \<not> locked s i) \<and> (r = Some EWOULDBLOCK \<longrightarrow> locked s i) \<and>
      locked s' = (if r = None then (locked s)(i := True) else locked s) \<and>
      fileat s' = fileat s \<and> listening s' = listening s \<and> po_now A s \<le> po_now A s'"
    and listen_law: "po_listen A s a = (Inr port, s') \<Longrightarrow>
      port \<notin> listening s \<and> listening s' = insert port (listening s) \<and> 0 < port \<and> port < 2 ^ 16 \<and>
      fileat s' = fileat s \<and> locked s' = locked s \<and> po_now A s \<le> po_now A s'"
    and listen_fails: "po_listen A s a = (Inl err, s') \<Longrightarrow>
      listening s' = listening s \<and> fileat s' = fileat s \<and> locked s' = locked s \<and> po_now A s \<le> po_now A s'"
    and close_law: "listening (po_close A s port) = listening s - {port} \<and>
      fileat (po_close A s port) = fileat s \<and> locked (po_close A s port) = locked s \<and> po_now A s \<le> po_now A (po_close A s port)"
    and env_law: "env s s' \<Longrightarrow> locked s i \<Longrightarrow> locked s' i \<and> (fileat s p = Some (i, t) \<longrightarrow> fileat s' p = Some (i, t))"
    and env_time: "env s s' \<Longrightarrow> po_now A s \<le> po_now A s'"
begin

definition reserved :: "'s \<Rightarrow> string \<Rightarrow> nat \<Rightarrow> int \<Rightarrow> bool" where
  "reserved s p i t \<longleftrightarrow> fileat s p = Some (i, t) \<and> locked s i"

text \<open>
  \<open>stays s s'\<close>: what happened between two states is what this library does to others: time passes, and
  locked files younger than the reservation time stay in place and locked.
\<close>

definition stays :: "'s \<Rightarrow> 's \<Rightarrow> bool" where
  "stays s s' \<longleftrightarrow> po_now A s \<le> po_now A s' \<and>
     (\<forall>p i t. reserved s p i t \<longrightarrow> po_now A s' \<le> t + portReserveTime \<longrightarrow> reserved s' p i t)"

lemma stays_refl [simp]: "stays s s"
  by (simp add: stays_def)

lemma stays_trans [trans]: "stays s s1 \<Longrightarrow> stays s1 s2 \<Longrightarrow> stays s s2"
  unfolding stays_def by (meson order.trans)

lemma stays_same: "fileat s' = fileat s \<Longrightarrow> locked s' = locked s \<Longrightarrow> po_now A s \<le> po_now A s' \<Longrightarrow> stays s s'"
  by (simp add: stays_def reserved_def)

lemma stays_env: "env s s' \<Longrightarrow> stays s s'"
  using env_law env_time unfolding stays_def reserved_def by meson

lemma stays_remove:
  assumes "po_info A s p = Inr t" and "po_now A s - t > portReserveTime" and "po_remove A s p = (r, s')"
  shows "stays s s'" and "listening s' = listening s"
proof -
  from info_law[OF assms(1)] obtain i where f: "fileat s p = Some (i, t)" by blast
  from remove_law[OF assms(3)] f assms(2) show "stays s s'"
    by (auto simp: stays_def reserved_def)
  from remove_law[OF assms(3)] show "listening s' = listening s" by blast
qed

lemma remove_outdated_stays:
  "remove_outdated A dir vs s = (r, s') \<Longrightarrow> stays s s' \<and> listening s' = listening s"
proof (induction vs arbitrary: s)
  case (Cons v vs)
  show ?case
  proof (cases "v_err v = None \<and> v_regular v \<and> \<not> v_dir v \<and> take (length portFilePrefix) (v_path v) = portFilePrefix")
    case True
    show ?thesis
    proof (cases "po_info A s (filepath_Join dir (v_path v))")
      case (Inl err)
      with True Cons show ?thesis by (auto split: if_splits)
    next
      case (Inr t)
      show ?thesis
      proof (cases "po_now A s - t > portReserveTime")
        case old: True
        obtain r1 s1 where rm: "po_remove A s (filepath_Join dir (v_path v)) = (r1, s1)" by fastforce
        note st = stays_remove[OF Inr old rm]
        have "(r, s') = (Some (the r1), s1) \<or> remove_outdated A dir vs s1 = (r, s')"
          using Cons.prems True Inr old rm by (auto split: option.splits if_splits)
        with Cons.IH[of s1] st stays_trans show ?thesis by auto
      qed (use True Inr Cons in auto)
    qed
  qed (use Cons in \<open>auto split: option.splits\<close>)
qed simp

end

subsection \<open>What an allocation does\<close>

context port_files
begin

text \<open>A lock that was acquired was free before, and holds the file that is at its path.\<close>

lemma Acquire_stays:
  assumes "Acquire A p s = (r, s')"
  shows "stays s s' \<and> listening s' = listening s"
    and "r = None \<Longrightarrow> (\<exists>i t. reserved s' p i t \<and> (fileat s p = None \<longrightarrow> po_now A s \<le> t)) \<and> \<not> reserved s p j u"
proof -
  obtain q s1 where op: "po_open A s p = (q, s1)" by fastforce
  have "(stays s s' \<and> listening s' = listening s) \<and>
    (r = None \<longrightarrow> (\<exists>i t. reserved s' p i t \<and> (fileat s p = None \<longrightarrow> po_now A s \<le> t)) \<and> \<not> reserved s p j u)"
  proof (cases q)
    case (Inl err)
    with op assms open_fails[of s p err s1] show ?thesis by (auto simp: Acquire_def intro: stays_same)
  next
    case (Inr i)
    note ol = open_law[OF op[unfolded Inr]]
    then have st: "stays s s1" by (auto simp: stays_def reserved_def)
    obtain q2 s2 where fl: "po_flock A s1 i = (q2, s2)" by fastforce
    note fll = flock_law[OF fl]
    then have st2: "stays s1 s2" by (auto simp: stays_def reserved_def)
    have s': "s' = s2" "r = None \<longleftrightarrow> q2 = None"
      using assms op fl Inr by (auto simp: Acquire_def split: option.splits)
    from ol fll have "q2 = None \<longrightarrow> (\<exists>i t. reserved s2 p i t \<and> (fileat s p = None \<longrightarrow> po_now A s \<le> t)) \<and> \<not> reserved s p j u"
      by (auto simp: reserved_def)
    with s' stays_trans[OF st st2] ol fll show ?thesis by auto
  qed
  then show "stays s s' \<and> listening s' = listening s"
    and "r = None \<Longrightarrow> (\<exists>i t. reserved s' p i t \<and> (fileat s p = None \<longrightarrow> po_now A s \<le> t)) \<and> \<not> reserved s p j u"
    by blast+
qed

text \<open>What a port that was added was before: not reserved, or reserved too long ago.\<close>

definition lapsed :: "'s \<Rightarrow> string \<Rightarrow> int \<Rightarrow> bool" where
  "lapsed s p now \<longleftrightarrow> (\<forall>j u. reserved s p j u \<longrightarrow> u + portReserveTime < now)"

lemma lapsed_earlier: "stays s s1 \<Longrightarrow> lapsed s1 p now \<Longrightarrow> po_now A s1 \<le> now \<Longrightarrow> lapsed s p now"
  unfolding lapsed_def stays_def by (meson not_le order.trans)

lemma port_add_stays:
  assumes "port_add A dir port s = (r, s')"
  shows "stays s s' \<and> listening s' = listening s"
    and "r = Inr True \<Longrightarrow> (\<exists>i t. reserved s' (port_path dir port) i t) \<and> lapsed s (port_path dir port) (po_now A s')"
proof -
  obtain r1 s1 where rm: "remove_outdated A dir (po_walk A s) s = (r1, s1)" by fastforce
  note st1 = remove_outdated_stays[OF rm]
  obtain r2 s2 where ac: "Acquire A (port_path dir port) s1 = (r2, s2)" by fastforce
  note st2 = Acquire_stays(1)[OF ac]
  show "stays s s' \<and> listening s' = listening s"
    using assms rm ac st1 st2 stays_trans[of s s1 s2] by (auto simp: port_add_def split: option.splits)
  assume "r = Inr True"
  with assms rm ac have ok: "r1 = None" "r2 = None" "s' = s2"
    by (auto simp: port_add_def split: option.splits if_splits)
  from Acquire_stays(2)[OF ac ok(2)] have "lapsed s1 (port_path dir port) (po_now A s')"
    by (simp add: lapsed_def)
  moreover have "po_now A s1 \<le> po_now A s'" using st2 ok(3) by (simp add: stays_def)
  ultimately have "lapsed s (port_path dir port) (po_now A s')" using st1 lapsed_earlier by blast
  with Acquire_stays(2)[OF ac ok(2)] ok(3)
  show "(\<exists>i t. reserved s' (port_path dir port) i t) \<and> lapsed s (port_path dir port) (po_now A s')" by blast
qed

lemma suggest_addr_stays:
  assumes "suggest_addr A host s = (r, s')"
  shows "stays s s'"
    and "r = Inl err \<Longrightarrow> listening s' = listening s"
    and "r = Inr (port, ip) \<Longrightarrow> port \<notin> listening s \<and> listening s' = insert port (listening s) \<and> 0 < port \<and> port < 2 ^ 16"
  using assms listen_law[of s] listen_fails[of s]
  by (auto simp: suggest_addr_def Let_def split: sum.splits prod.splits if_splits intro: stays_same)

text \<open>The loop opens one listener a round, each on another port, and returns the one it has locked.\<close>

lemma suggest_rounds_stays:
  "suggest_rounds A dir host n opened s = (res, opened', s') \<Longrightarrow>
   stays s s' \<and>
   (\<exists>new. opened' = new @ opened \<and> length new \<le> n \<and> distinct new \<and> set new \<inter> listening s = {} \<and>
      listening s' = set new \<union> listening s) \<and>
   (\<forall>port ip. res = Inr (port, ip) \<longrightarrow>
      (\<exists>i t. reserved s' (port_path dir port) i t) \<and> lapsed s (port_path dir port) (po_now A s') \<and>
      0 < port \<and> port < 2 ^ 16)"
proof (induction n arbitrary: opened s)
  case (Suc n)
  obtain r1 s1 where sg: "suggest_addr A host s = (r1, s1)" by fastforce
  show ?case
  proof (cases r1)
    case (Inl err)
    with suggest_addr_stays(1,2)[OF sg] Suc.prems sg show ?thesis by auto
  next
    case (Inr r)
    then obtain port ip where r1: "r1 = Inr (port, ip)" by (cases r) auto
    note sgl = suggest_addr_stays(1)[OF sg] suggest_addr_stays(3)[OF sg r1]
    obtain r2 s2 where ad: "port_add A dir port s1 = (r2, s2)" by fastforce
    note adl = port_add_stays[OF ad]
    have st: "stays s s2" using sgl(1) adl(1) stays_trans by blast
    show ?thesis
    proof (cases "r2 = Inr False")
      case True
      then have run: "suggest_rounds A dir host n (port # opened) s2 = (res, opened', s')"
        using Suc.prems sg r1 ad by simp
      note IH = Suc.IH[OF run]
      then obtain new where new: "opened' = new @ port # opened" "length new \<le> n" "distinct new"
          "set new \<inter> listening s2 = {}" "listening s' = set new \<union> listening s2" by blast
      have "listening s2 = insert port (listening s)" using sgl(2) adl(1) by simp
      with new sgl(2) have "opened' = (new @ [port]) @ opened \<and> length (new @ [port]) \<le> Suc n \<and>
          distinct (new @ [port]) \<and> set (new @ [port]) \<inter> listening s = {} \<and>
          listening s' = set (new @ [port]) \<union> listening s" by auto
      moreover have "stays s s'" "po_now A s2 \<le> po_now A s'"
        using IH st stays_trans by (auto simp: stays_def)
      moreover have "lapsed s2 p now \<Longrightarrow> po_now A s2 \<le> now \<Longrightarrow> lapsed s p now" for p now
        using lapsed_earlier[OF st] by blast
      ultimately show ?thesis using IH by blast
    next
      case False
      then have out: "s' = s2" "opened' = [port] @ opened" and
          res: "res = (case r2 of Inl err \<Rightarrow> Inl err | Inr _ \<Rightarrow> Inr (port, ip))"
        using Suc.prems sg r1 ad by (auto split: sum.splits bool.splits)
      have "res = Inr (port', ip') \<Longrightarrow> r2 = Inr True \<and> port' = port" for port' ip'
        using res False by (auto split: sum.splits)
      moreover have "po_now A s1 \<le> po_now A s2" using adl(1) by (simp add: stays_def)
      ultimately show ?thesis
        using out st sgl adl lapsed_earlier[OF sgl(1)]
        by (intro conjI exI[of _ "[port]"] allI impI) auto
    qed
  qed
qed auto

end

text \<open>Every listener that a call opened is closed again.\<close>

context port_files
begin

lemma close_all:
  "stays s (fold (\<lambda>port st. po_close A st port) ps s) \<and>
   listening (fold (\<lambda>port st. po_close A st port) ps s) = listening s - set ps \<and>
   fileat (fold (\<lambda>port st. po_close A st port) ps s) = fileat s \<and>
   locked (fold (\<lambda>port st. po_close A st port) ps s) = locked s"
proof (induction ps arbitrary: s)
  case (Cons p ps)
  have "stays s (po_close A s p)" using close_law[of s p] by (auto intro: stays_same)
  with Cons[of "po_close A s p"] close_law[of s p] stays_trans show ?case by (auto simp: set_diff_eq)
qed simp

lemma Suggest_facts:
  assumes "Suggest A dir host s = (res, s')"
  shows "stays s s'" and "listening s' = listening s"
    and "res = Inr (port, ip) \<Longrightarrow>
      (\<exists>i t. reserved s' (port_path dir port) i t) \<and> lapsed s (port_path dir port) (po_now A s') \<and> 0 < port \<and> port < 2 ^ 16"
proof -
  obtain opened s1 where run: "suggest_rounds A dir host portConflictRetry [] s = (res, opened, s1)"
    and s': "s' = fold (\<lambda>port st. po_close A st port) opened s1"
    using assms by (auto simp: Suggest_def split: prod.splits)
  note r = suggest_rounds_stays[OF run]
  note c = close_all[of s1 opened, folded s']
  from r c stays_trans show "stays s s'" by blast
  from r c show "listening s' = listening s" by auto
  assume "res = Inr (port, ip)"
  with r have p: "\<exists>i t. reserved s1 (port_path dir port) i t" "lapsed s (port_path dir port) (po_now A s1)"
      "0 < port" "port < 2 ^ 16" by auto
  moreover have "po_now A s1 \<le> po_now A s'" using c by (simp add: stays_def)
  ultimately show "(\<exists>i t. reserved s' (port_path dir port) i t) \<and> lapsed s (port_path dir port) (po_now A s') \<and>
      0 < port \<and> port < 2 ^ 16"
    using c unfolding lapsed_def reserved_def by (metis order_less_le_trans)
qed

end

subsection \<open>Many processes\<close>

text \<open>Any number of processes suggest ports, one call after another, while the rest of the system runs.\<close>

inductive port_run :: "'s port_os \<Rightarrow> ('s \<Rightarrow> 's \<Rightarrow> bool) \<Rightarrow> string \<Rightarrow> 's \<Rightarrow> 's \<Rightarrow> bool" for A env dir where
  port_start: "port_run A env dir s s"
| port_suggest: "port_run A env dir s s1 \<Longrightarrow> Suggest A dir host s1 = (res, s2) \<Longrightarrow> port_run A env dir s s2"
| port_env: "port_run A env dir s s1 \<Longrightarrow> env s1 s2 \<Longrightarrow> port_run A env dir s s2"

context port_files
begin

lemma port_run_stays: "port_run A env dir s s' \<Longrightarrow> stays s s'"
  by (induction rule: port_run.induct) (auto intro: stays_trans Suggest_facts(1) stays_env)

end


text \<open>
  C39: a call is bounded. \<open>Suggest\<close> opens at most a hundred listeners, no two on one port, and closes them
  all before it returns, also with an error; a port it returns is between 1 and 65535.
\<close>

theorem Suggest_bounded:
  assumes "port_files A fileat locked listening env" and "Suggest A dir host s = (res, s')"
  shows "(\<exists>opened s1. suggest_rounds A dir host portConflictRetry [] s = (res, opened, s1) \<and>
       length opened \<le> 100 \<and> distinct opened \<and> listening s1 = listening s \<union> set opened \<and> listening s \<inter> set opened = {}) \<and>
     listening s' = listening s \<and> (\<forall>port ip. res = Inr (port, ip) \<longrightarrow> 1 \<le> port \<and> port \<le> 65535)"
proof -
  obtain opened s1 where run: "suggest_rounds A dir host portConflictRetry [] s = (res, opened, s1)"
    using assms(2) by (auto simp: Suggest_def split: prod.splits)
  from port_files.suggest_rounds_stays[OF assms(1) run] have
    "length opened \<le> 100 \<and> distinct opened \<and> listening s1 = listening s \<union> set opened \<and> listening s \<inter> set opened = {}"
    by (auto simp: portConflictRetry_def)
  moreover have "1 \<le> port \<and> port \<le> 65535" if "res = Inr (port, ip)" for port ip
    using port_files.Suggest_facts(3)[OF assms that] by auto
  ultimately show ?thesis using run port_files.Suggest_facts(2)[OF assms] by blast
qed

subsection \<open>When no call of the system fails\<close>

text \<open>
  Missing files apart no call fails, a lock is only refused when another has it, and a listener is
  found as long as fewer than \<open>capacity\<close> are open.
\<close>

locale working_files = port_files A fileat locked listening env
  for A :: "'s port_os" and fileat locked listening env +
  fixes capacity :: nat
  assumes walk_ok: "v \<in> set (po_walk A s) \<Longrightarrow> v_err v = None"
    and info_ok: "po_info A s p = Inl err \<Longrightarrow> err = ErrNotExist"
    and remove_ok: "po_remove A s p = (Some err, s') \<Longrightarrow> err = ErrNotExist"
    and open_ok: "po_open A s p \<noteq> (Inl err, s')"
    and flock_ok: "po_flock A s i = (Some err, s') \<Longrightarrow> err = EWOULDBLOCK"
    and resolve_ok: "\<exists>a. po_resolve A s h = Inr a"
    and listen_ok: "card (listening s) < capacity \<Longrightarrow> \<exists>p s'. po_listen A s a = (Inr p, s')"
    and listening_finite: "finite (listening s)"
begin

definition busy :: "string \<Rightarrow> 's \<Rightarrow> nat set" where
  "busy dir s = {port. \<exists>i t. reserved s (port_path dir port) i t} - listening s"

lemma remove_outdated_works:
  assumes "\<forall>v \<in> set vs. v_err v = None" and "remove_outdated A dir vs s = (r, s')"
  shows "r = None \<and> (reserved s' p i t \<longrightarrow> reserved s p i t)"
  using assms
proof (induction vs arbitrary: s)
  case (Cons v vs)
  obtain r1 s1 where rm: "po_remove A s (filepath_Join dir (v_path v)) = (r1, s1)" by fastforce
  have "remove_outdated A dir vs s = (r, s') \<or> remove_outdated A dir vs s1 = (r, s')"
    using Cons.prems rm info_ok[of s "filepath_Join dir (v_path v)"] remove_ok[of s "filepath_Join dir (v_path v)"]
    by (auto split: if_splits sum.splits option.splits)
  moreover have "reserved s1 p i t \<longrightarrow> reserved s p i t"
    using remove_law[OF rm] by (auto simp: reserved_def split: if_splits)
  ultimately show ?case using Cons.IH Cons.prems(1) by auto
qed simp

lemma Acquire_works:
  assumes "Acquire A p s = (Some err, s')"
  shows "is_error err ErrAlreadyLocked \<and> (\<exists>i t. reserved s p i t) \<and> (reserved s' q j u \<longrightarrow> reserved s q j u)"
proof -
  obtain r s1 where op: "po_open A s p = (r, s1)" by fastforce
  with open_ok[of s p] obtain fd where fd: "r = Inr fd" by (cases r) auto
  obtain r2 s2 where fl: "po_flock A s1 fd = (r2, s2)" by fastforce
  with assms op fd obtain e where e: "r2 = Some e" "s' = s2" by (cases r2) (auto simp: Acquire_def)
  with flock_ok fl have "e = EWOULDBLOCK" by blast
  then have "err = CannotLock p ErrAlreadyLocked" using assms op fd fl e by (simp add: Acquire_def)
  moreover have "locked s1 fd" using flock_law[OF fl] e \<open>e = EWOULDBLOCK\<close> by simp
  moreover have "reserved s2 q j u \<longrightarrow> reserved s1 q j u" using flock_law[OF fl] e by (simp add: reserved_def)
  moreover have "\<exists>i t. reserved s p i t" "reserved s1 q j u \<longrightarrow> reserved s q j u"
    using open_law[of s p fd s1] op fd \<open>locked s1 fd\<close> by (auto simp: reserved_def split: if_splits)
  ultimately show ?thesis using e by simp
qed

lemma port_add_works:
  assumes "port_add A dir port s = (r, s')" and "r \<noteq> Inr True"
  shows "r = Inr False \<and> (\<exists>i t. reserved s (port_path dir port) i t) \<and> (reserved s' q j u \<longrightarrow> reserved s q j u)"
proof -
  obtain r1 s1 where rm: "remove_outdated A dir (po_walk A s) s = (r1, s1)" by fastforce
  note rw = remove_outdated_works[OF _ rm]
  obtain r2 s2 where ac: "Acquire A (port_path dir port) s1 = (r2, s2)" by fastforce
  have "r1 = None" using rw walk_ok by blast
  with assms rm ac obtain err where err: "r2 = Some err" "s' = s2"
    by (cases r2) (auto simp: port_add_def)
  note aw = Acquire_works[OF ac[unfolded err]]
  from assms rm ac \<open>r1 = None\<close> err aw[THEN conjunct1] have "r = Inr False" by (simp add: port_add_def)
  with aw rw walk_ok err show ?thesis by blast
qed

text \<open>Each refused round strikes one port off the busy ones, so the loop ends with a port.\<close>

lemma suggest_rounds_works:
  assumes "finite (busy dir s)" and "card (busy dir s) < n" and "card (listening s) + n \<le> capacity"
  shows "\<exists>port ip opened' s'. suggest_rounds A dir host n opened s = (Inr (port, ip), opened', s')"
  using assms
proof (induction n arbitrary: opened s)
  case (Suc n)
  obtain a where "po_resolve A s (if host = '''' then ''localhost'' else host) = Inr a" using resolve_ok by blast
  moreover obtain port s1 where "po_listen A s a = (Inr port, s1)" using listen_ok[of s] Suc.prems(3) by fastforce
  ultimately have sg: "suggest_addr A host s = (Inr (port, a), s1)" by (simp add: suggest_addr_def)
  note sgl = suggest_addr_stays(3)[OF sg refl]
  have same: "reserved s1 = reserved s"
    using listen_law[OF \<open>po_listen A s a = (Inr port, s1)\<close>] by (simp add: reserved_def fun_eq_iff)
  obtain r2 s2 where ad: "port_add A dir port s1 = (r2, s2)" by fastforce
  show ?case
  proof (cases "r2 = Inr True")
    case True
    with sg ad show ?thesis by simp
  next
    case False
    note aw = port_add_works[OF ad False, unfolded same]
    have l2: "listening s2 = insert port (listening s)" using port_add_stays(1)[OF ad] sgl by simp
    have "port \<in> busy dir s" using aw sgl by (auto simp: busy_def)
    moreover have "reserved s2 q j u \<Longrightarrow> reserved s q j u" for q j u using aw by blast
    then have sub: "busy dir s2 \<subseteq> busy dir s - {port}" using l2 by (auto simp: busy_def; blast)
    ultimately have "busy dir s2 \<subset> busy dir s" by blast
    with Suc.prems(1,2) have "card (busy dir s2) < n" "finite (busy dir s2)"
      using psubset_card_mono[of "busy dir s" "busy dir s2"] finite_subset[of "busy dir s2"] by auto
    moreover have "card (listening s2) + n \<le> capacity"
      using Suc.prems(3) sgl l2 listening_finite[of s] by simp
    ultimately have "\<exists>p ip op s'. suggest_rounds A dir host n (port # opened) s2 = (Inr (p, ip), op, s')"
      using Suc.IH by blast
    with sg ad aw show ?thesis by simp
  qed
qed simp

end

text \<open>
  C40: \<open>Suggest\<close> finds a free port. When no system call fails and fewer than a hundred ports are reserved,
  the retries end with a port: since the listeners of refused rounds stay open, no port is tried
  twice.
\<close>

theorem Suggest_finds_port:
  assumes "working_files A fileat locked listening env capacity"
    and "finite {port. \<exists>i t. fileat s (port_path dir port) = Some (i, t) \<and> locked s i}"
    and "card {port. \<exists>i t. fileat s (port_path dir port) = Some (i, t) \<and> locked s i} < 100"
    and "card (listening s) + 100 \<le> capacity"
  shows "\<exists>port ip s'. Suggest A dir host s = (Inr (port, ip), s')"
proof -
  note pf = working_files.axioms(1)[OF assms(1)]
  have sub: "working_files.busy fileat locked listening dir s \<subseteq>
      {port. \<exists>i t. fileat s (port_path dir port) = Some (i, t) \<and> locked s i}"
    by (auto simp: working_files.busy_def[OF assms(1)] port_files.reserved_def[OF pf])
  then have "card (working_files.busy fileat locked listening dir s) < portConflictRetry"
    using card_mono[OF assms(2) sub] assms(3) by (simp add: portConflictRetry_def)
  from working_files.suggest_rounds_works[OF assms(1) finite_subset[OF sub assms(2)] this, of host "[]"] assms(4)
  show ?thesis by (auto simp: Suggest_def portConflictRetry_def)
qed

subsection \<open>A system in memory\<close>

text \<open>Ports are given out from the usual range for clients, the lowest free one first.\<close>

record port_mem =
  pm_now :: int
  pm_files :: "(string, nat \<times> int) fmap"
  pm_locks :: "nat list"
  pm_listening :: "nat list"

primrec first_free :: "nat \<Rightarrow> nat \<Rightarrow> nat list \<Rightarrow> nat option" where
  "first_free 0 p used = None"
| "first_free (Suc n) p used = (if p \<in> set used then first_free n (Suc p) used else Some p)"

definition pm_fresh :: "nat list \<Rightarrow> nat" where
  "pm_fresh locks = Suc (fold max locks 0)"

definition pm_api :: "string \<Rightarrow> port_mem port_os" where
  "pm_api dir =
     \<lparr>po_walk = (\<lambda>s. map (\<lambda>p. \<lparr>v_path = drop (Suc (length dir)) p, v_err = None, v_dir = False, v_regular = True\<rparr>)
                    (filter (\<lambda>p. take (Suc (length dir)) p = dir @ ''/'') (sorted_keys (pm_files s)))),
      po_info = (\<lambda>s p. case fmlookup (pm_files s) p of None \<Rightarrow> Inl ErrNotExist | Some (i, t) \<Rightarrow> Inr t),
      po_now = pm_now,
      po_remove = (\<lambda>s p. case fmlookup (pm_files s) p of
                     None \<Rightarrow> (Some ErrNotExist, s) | Some _ \<Rightarrow> (None, s\<lparr>pm_files := fmdrop p (pm_files s)\<rparr>)),
      po_open = (\<lambda>s p. case fmlookup (pm_files s) p of
                   Some (i, t) \<Rightarrow> (Inr i, s)
                 | None \<Rightarrow> (Inr (pm_fresh (pm_locks s)),
                            s\<lparr>pm_files := fmupd p (pm_fresh (pm_locks s), pm_now s) (pm_files s)\<rparr>)),
      po_flock = (\<lambda>s i. if i \<in> set (pm_locks s) then (Some EWOULDBLOCK, s) else (None, s\<lparr>pm_locks := i # pm_locks s\<rparr>)),
      po_resolve = (\<lambda>s h. Inr ''127.0.0.1''),
      po_listen = (\<lambda>s a. case first_free 28232 32768 (pm_listening s) of
                     None \<Rightarrow> (Inl (ErrSys ''address already in use''), s)
                   | Some p \<Rightarrow> (Inr p, s\<lparr>pm_listening := p # pm_listening s\<rparr>)),
      po_close = (\<lambda>s p. s\<lparr>pm_listening := filter (\<lambda>q. q \<noteq> p) (pm_listening s)\<rparr>)\<rparr>"

definition pm_file :: "port_mem \<Rightarrow> string \<Rightarrow> (nat \<times> int) option" where
  "pm_file s p = fmlookup (pm_files s) p"

definition pm_locked :: "port_mem \<Rightarrow> nat \<Rightarrow> bool" where
  "pm_locked s i \<longleftrightarrow> i \<in> set (pm_locks s)"

definition pm_bound :: "port_mem \<Rightarrow> nat set" where
  "pm_bound s = set (pm_listening s)"

definition pm_passes :: "port_mem \<Rightarrow> port_mem \<Rightarrow> bool" where
  "pm_passes s s' \<longleftrightarrow> pm_now s \<le> pm_now s' \<and> s' = s\<lparr>pm_now := pm_now s'\<rparr>"

lemma pm_fresh_not_locked: "pm_fresh locks \<notin> set locks"
proof -
  have "x = m \<or> x \<in> set locks \<Longrightarrow> x \<le> fold max locks m" for x m :: nat
  proof (induction locks arbitrary: x m)
    case (Cons l locks)
    have "max l m \<le> fold max locks (max l m)" using Cons.IH[of "max l m" "max l m"] by simp
    with Cons.prems Cons.IH[of x "max l m"] show ?case by auto
  qed simp
  from this[of "pm_fresh locks" 0] show ?thesis unfolding pm_fresh_def by auto
qed

lemma first_free_Some: "first_free n p used = Some q \<Longrightarrow> q \<notin> set used \<and> p \<le> q \<and> q < p + n"
proof (induction n arbitrary: p)
  case (Suc n)
  then show ?case by (cases "p \<in> set used") (auto dest: Suc.IH)
qed simp

lemma first_free_None: "first_free n p used = None \<Longrightarrow> {p..<p + n} \<subseteq> set used"
proof (induction n arbitrary: p)
  case (Suc n)
  then have "p \<in> set used" "first_free n (Suc p) used = None" by (auto split: if_splits)
  with Suc.IH[of "Suc p"] have "p \<in> set used" "{Suc p..<Suc p + n} \<subseteq> set used" by blast+
  moreover have "{p..<p + Suc n} = insert p {Suc p..<Suc p + n}" by auto
  ultimately show ?case by simp
qed simp

lemma first_free_found: "card (set used) < n \<Longrightarrow> \<exists>q. first_free n p used = Some q"
proof (rule ccontr)
  assume less: "card (set used) < n" and "\<nexists>q. first_free n p used = Some q"
  then have "{p..<p + n} \<subseteq> set used" using first_free_None by simp
  from card_mono[OF _ this] less show False by simp
qed

interpretation memPorts: working_files "pm_api dir" pm_file pm_locked pm_bound pm_passes 28232 for dir
proof unfold_locales
  fix s s' :: port_mem and p h a :: string and i port :: nat and t :: int and err :: port_error
    and r :: "port_error option" and v :: visit
  show "po_info (pm_api dir) s p = Inr t \<Longrightarrow> \<exists>i. pm_file s p = Some (i, t)"
    by (auto simp: pm_api_def pm_file_def split: option.splits)
  show "po_remove (pm_api dir) s p = (r, s') \<Longrightarrow>
      pm_file s' = (pm_file s)(p := if r = None then None else pm_file s p) \<and> pm_locked s' = pm_locked s \<and>
      pm_bound s' = pm_bound s \<and> po_now (pm_api dir) s \<le> po_now (pm_api dir) s'"
    by (auto simp: pm_api_def pm_file_def pm_locked_def pm_bound_def fun_eq_iff split: option.splits)
  show "po_open (pm_api dir) s p = (Inr i, s') \<Longrightarrow>
      (\<exists>t. pm_file s' = (pm_file s)(p \<mapsto> (i, t)) \<and>
         (pm_file s p = Some (i, t) \<or> pm_file s p = None \<and> \<not> pm_locked s i \<and> po_now (pm_api dir) s \<le> t \<and> t \<le> po_now (pm_api dir) s')) \<and>
      pm_locked s' = pm_locked s \<and> pm_bound s' = pm_bound s \<and> po_now (pm_api dir) s \<le> po_now (pm_api dir) s'"
    by (auto simp: pm_api_def pm_file_def pm_locked_def pm_bound_def fun_eq_iff pm_fresh_not_locked split: option.splits)
  show "po_flock (pm_api dir) s i = (r, s') \<Longrightarrow>
      (r = None \<longrightarrow> \<not> pm_locked s i) \<and> (r = Some EWOULDBLOCK \<longrightarrow> pm_locked s i) \<and>
      pm_locked s' = (if r = None then (pm_locked s)(i := True) else pm_locked s) \<and>
      pm_file s' = pm_file s \<and> pm_bound s' = pm_bound s \<and> po_now (pm_api dir) s \<le> po_now (pm_api dir) s'"
    by (auto simp: pm_api_def pm_file_def pm_locked_def pm_bound_def fun_eq_iff split: if_splits)
  show "po_listen (pm_api dir) s a = (Inr port, s') \<Longrightarrow>
      port \<notin> pm_bound s \<and> pm_bound s' = insert port (pm_bound s) \<and> 0 < port \<and> port < 2 ^ 16 \<and>
      pm_file s' = pm_file s \<and> pm_locked s' = pm_locked s \<and> po_now (pm_api dir) s \<le> po_now (pm_api dir) s'"
    by (auto simp: pm_api_def pm_file_def pm_locked_def pm_bound_def fun_eq_iff split: option.splits
        dest!: first_free_Some)
  show "card (pm_bound s) < 28232 \<Longrightarrow> \<exists>p s'. po_listen (pm_api dir) s a = (Inr p, s')"
    using first_free_found[of "pm_listening s" 28232 32768] by (auto simp: pm_api_def pm_bound_def)
  show "pm_bound (po_close (pm_api dir) s port) = pm_bound s - {port} \<and>
      pm_file (po_close (pm_api dir) s port) = pm_file s \<and> pm_locked (po_close (pm_api dir) s port) = pm_locked s \<and>
      po_now (pm_api dir) s \<le> po_now (pm_api dir) (po_close (pm_api dir) s port)"
    by (auto simp: pm_api_def pm_file_def pm_locked_def pm_bound_def fun_eq_iff)
  show "pm_passes s s' \<Longrightarrow> pm_locked s i \<Longrightarrow> pm_locked s' i \<and> (pm_file s p = Some (i, t) \<longrightarrow> pm_file s' p = Some (i, t))"
    unfolding pm_passes_def pm_locked_def pm_file_def by (metis port_mem.ext_inject port_mem.surjective port_mem.update_convs(1))
qed (auto simp: pm_api_def pm_passes_def pm_bound_def split: option.splits if_splits)

subsection \<open>A machine with two calls\<close>

lemma first_free_numeral:
  "first_free (numeral k) p used = (if p \<in> set used then first_free (pred_numeral k) (Suc p) used else Some p)"
  by (simp add: numeral_eq_Suc)

lemmas suggest_rounds_numeral =
  suggest_rounds.simps(2)[of _ _ _ "pred_numeral k" for k, folded numeral_eq_Suc]

lemma sorted_keys_empty [simp]: "sorted_keys fmempty = []"
  by (simp add: sorted_keys_def sorted_list_of_fset.rep_eq)

lemma sorted_keys_single [simp]: "sorted_keys (fmupd k v fmempty) = [k]"
  by (simp add: sorted_keys_def sorted_list_of_fset.rep_eq)


lemma pm_first_add:
  "port_add (pm_api ''/c'') ''/c'' 32768 \<lparr>pm_now = now, pm_files = fmempty, pm_locks = [], pm_listening = bound\<rparr> =
     (Inr True, \<lparr>pm_now = now, pm_files = fmupd (port_path ''/c'' 32768) (1, now) fmempty, pm_locks = [1], pm_listening = bound\<rparr>)"
  by (simp add: port_add_def Acquire_def pm_api_def pm_fresh_def)

text \<open>Adding a port when there is one file: it is removed if outdated, and left in place otherwise.\<close>

definition pm_one :: "int \<Rightarrow> nat \<Rightarrow> int \<Rightarrow> nat list \<Rightarrow> nat list \<Rightarrow> port_mem" where
  "pm_one now i t locks bound =
     \<lparr>pm_now = now, pm_files = fmupd (port_path ''/c'' 32768) (i, t) fmempty, pm_locks = locks, pm_listening = bound\<rparr>"

lemma pm_walk_one:
  "po_walk (pm_api ''/c'') (pm_one now i t locks bound) =
     [\<lparr>v_path = ''port-'' @ format_uint 32768, v_err = None, v_dir = False, v_regular = True\<rparr>]"
  by (simp add: pm_api_def pm_one_def port_path_def portFilePrefix_def)

lemma pm_young:
  "now - t \<le> portReserveTime \<Longrightarrow>
   remove_outdated (pm_api ''/c'') ''/c'' (po_walk (pm_api ''/c'') (pm_one now i t locks bound)) (pm_one now i t locks bound) =
     (None, pm_one now i t locks bound)"
  unfolding pm_walk_one by (simp add: pm_api_def pm_one_def filepath_Join_def port_path_def portFilePrefix_def)

lemma pm_old:
  "now - t > portReserveTime \<Longrightarrow>
   remove_outdated (pm_api ''/c'') ''/c'' (po_walk (pm_api ''/c'') (pm_one now i t locks bound)) (pm_one now i t locks bound) =
     (None, \<lparr>pm_now = now, pm_files = fmempty, pm_locks = locks, pm_listening = bound\<rparr>)"
  unfolding pm_walk_one by (simp add: pm_api_def pm_one_def filepath_Join_def port_path_def portFilePrefix_def)

lemma pm_add_young:
  assumes "now - t \<le> portReserveTime"
  shows "port_add (pm_api ''/c'') ''/c'' 32768 (pm_one now i t locks bound) =
    (if i \<in> set locks then (Inr False, pm_one now i t locks bound) else (Inr True, pm_one now i t (i # locks) bound))"
  unfolding port_add_def pm_young[OF assms] by (simp add: Acquire_def pm_api_def pm_one_def)

lemma pm_add_old:
  assumes "now - t > portReserveTime"
  shows "port_add (pm_api ''/c'') ''/c'' 32768 (pm_one now i t locks bound) =
    (Inr True, pm_one now (pm_fresh locks) now (pm_fresh locks # locks) bound)"
  unfolding port_add_def pm_old[OF assms]
  by (simp add: Acquire_def pm_api_def pm_one_def pm_fresh_not_locked)

text \<open>A first round that adds its port ends the call.\<close>

lemma pm_suggest_added:
  assumes "pm_listening s = []"
    and "port_add (pm_api ''/c'') ''/c'' 32768 (s\<lparr>pm_listening := [32768]\<rparr>) = (Inr True, pm_one now i t locks [32768])"
  shows "Suggest (pm_api ''/c'') ''/c'' '''' s = (Inr (32768, ''127.0.0.1''), pm_one now i t locks [])"
proof -
  have "suggest_addr (pm_api ''/c'') '''' s = (Inr (32768, ''127.0.0.1''), s\<lparr>pm_listening := [32768]\<rparr>)"
    using assms(1) by (simp add: suggest_addr_def pm_api_def first_free_numeral)
  with assms(2) have "suggest_rounds (pm_api ''/c'') ''/c'' '''' portConflictRetry [] s =
      (Inr (32768, ''127.0.0.1''), [32768], pm_one now i t locks [32768])"
    by (simp add: portConflictRetry_def suggest_rounds_numeral)
  then show ?thesis by (simp add: Suggest_def pm_api_def pm_one_def)
qed

definition pm_start :: "int \<Rightarrow> port_mem" where
  "pm_start now = \<lparr>pm_now = now, pm_files = fmempty, pm_locks = [], pm_listening = []\<rparr>"

lemma pm_first: "Suggest (pm_api ''/c'') ''/c'' '''' (pm_start now) = (Inr (32768, ''127.0.0.1''), pm_one now 1 now [1] [])"
  by (rule pm_suggest_added) (simp_all add: pm_start_def pm_first_add, simp add: pm_one_def)

lemma pm_add_next:
  assumes "now - t \<le> portReserveTime"
  shows "\<exists>s'. port_add (pm_api ''/c'') ''/c'' 32769 (pm_one now i t locks bound) = (Inr True, s') \<and> pm_now s' = now"
  unfolding port_add_def pm_young[OF assms]
  by (simp add: Acquire_def pm_api_def pm_one_def pm_fresh_not_locked)

lemma pm_suggest_next:
  assumes "now - t \<le> portReserveTime" and "i \<in> set locks"
  shows "\<exists>s'. Suggest (pm_api ''/c'') ''/c'' '''' (pm_one now i t locks []) = (Inr (32769, ''127.0.0.1''), s') \<and> pm_now s' = now"
proof -
  let ?A = "pm_api ''/c''"
  have a1: "suggest_addr ?A '''' (pm_one now i t locks []) = (Inr (32768, ''127.0.0.1''), pm_one now i t locks [32768])"
    and a2: "suggest_addr ?A '''' (pm_one now i t locks [32768]) = (Inr (32769, ''127.0.0.1''), pm_one now i t locks [32769, 32768])"
    by (simp_all add: suggest_addr_def pm_api_def pm_one_def first_free_numeral)
  obtain s2 where s2: "port_add ?A ''/c'' 32769 (pm_one now i t locks [32769, 32768]) = (Inr True, s2)" "pm_now s2 = now"
    using pm_add_next[OF assms(1)] by blast
  have "suggest_rounds ?A ''/c'' '''' portConflictRetry [] (pm_one now i t locks []) =
      (Inr (32769, ''127.0.0.1''), [32769, 32768], s2)"
    using a1 a2 s2 assms by (simp add: portConflictRetry_def suggest_rounds_numeral pm_add_young)
  with s2 show ?thesis by (simp add: Suggest_def pm_api_def)
qed


theorem Suggest_bounded_witness:
  "pm_bound (snd (Suggest (pm_api ''/c'') ''/c'' '''' (pm_start 0))) = {}"
  unfolding pm_first snd_conv
  using Suggest_bounded[OF memPorts.port_files_axioms pm_first[of 0]] by (simp add: pm_bound_def pm_start_def)

theorem Suggest_finds_port_witness:
  "\<exists>port ip s'. Suggest (pm_api ''/c'') ''/c'' '''' (pm_start 0) = (Inr (port, ip), s')"
  by (rule Suggest_finds_port[OF memPorts.working_files_axioms]) (simp_all add: pm_start_def pm_file_def pm_bound_def)

subsection \<open>Where the comments promise more\<close>

text \<open>
  \<open>Acquire\<close> is not reentrant, though its comment says so: a lock belongs to the open file, and every call
  opens the file anew, so a second call of the process that has the lock fails like any other.
\<close>

theorem Acquire_not_reentrant:
  assumes "port_files A fileat locked listening env" and "Acquire A p s = (None, s1)"
  shows "\<exists>err s2. Acquire A p s1 = (Some err, s2)"
proof -
  obtain r s2 where ac: "Acquire A p s1 = (r, s2)" by fastforce
  from port_files.Acquire_stays(2)[OF assms refl] obtain i t
    where "port_files.reserved fileat locked s1 p i t" by blast
  with port_files.Acquire_stays(2)[OF assms(1) ac] have "r \<noteq> None" by blast
  with ac show ?thesis by auto
qed

theorem Acquire_not_reentrant_witness:
  "\<exists>err s2. Acquire (pm_api ''/c'') ''f'' (snd (Acquire (pm_api ''/c'') ''f'' (pm_start 0))) = (Some err, s2)"
proof -
  have "fst (Acquire (pm_api ''/c'') ''f'' (pm_start 0)) = None"
    by (simp add: Acquire_def pm_api_def pm_fresh_def pm_start_def)
  then show ?thesis
    using Acquire_not_reentrant[OF memPorts.port_files_axioms, of _ "''f''" "pm_start 0"] by (metis prod.collapse)
qed

text \<open>
  The reservation counts from the file's modification time and not from the call that took the port. A
  file that a finished process left behind, just short of two minutes old, is locked again and
  keeps its time; two seconds later it is removed as outdated, and the same port is suggested to
  another process.
\<close>

theorem stale_file_cuts_reservation:
  "\<exists>s s1 s2 s3. Suggest (pm_api ''/c'') ''/c'' '''' s = (Inr (32768, ''127.0.0.1''), s1) \<and>
     pm_passes s1 s2 \<and> pm_now s2 = pm_now s1 + 2 * second \<and>
     Suggest (pm_api ''/c'') ''/c'' '''' s2 = (Inr (32768, ''127.0.0.1''), s3)"
proof -
  define t :: int where "t = 119 * second"
  have "Suggest (pm_api ''/c'') ''/c'' '''' (pm_one t 1 0 [] []) = (Inr (32768, ''127.0.0.1''), pm_one t 1 0 [1] [])"
    using pm_add_young[of t 0 1 "[]" "[32768]"]
    by (intro pm_suggest_added) (simp_all add: pm_one_def t_def portReserveTime_def second_def)
  moreover have "pm_passes (pm_one t 1 0 [1] []) (pm_one (t + 2 * second) 1 0 [1] [])"
    by (simp add: pm_passes_def pm_one_def second_def)
  moreover have "Suggest (pm_api ''/c'') ''/c'' '''' (pm_one (t + 2 * second) 1 0 [1] []) =
      (Inr (32768, ''127.0.0.1''), pm_one (t + 2 * second) (pm_fresh [1]) (t + 2 * second) [pm_fresh [1], 1] [])"
    using pm_add_old[of "t + 2 * second" 0 1 "[1]" "[32768]"]
    by (intro pm_suggest_added) (simp_all add: pm_one_def t_def portReserveTime_def second_def)
  moreover have "pm_now (pm_one (t + 2 * second) 1 0 [1] []) = pm_now (pm_one t 1 0 [1] []) + 2 * second"
    by (simp add: pm_one_def)
  ultimately show ?thesis by blast
qed

end
