(* ===== verification/Spec2Isabelle.thy ===== *)
theory Spec2Isabelle
  imports Sanitize Sharding Fencing Settling Registries MultiProvider Controller Kubeconfig Inventory
    KindProvider NamespaceProvider FileProvider Webhook NamespaceRuns Fleet Examples GoModCheck Ports
begin

text \<open>
  multicluster-runtime lets the controllers of controller-runtime work on a changing fleet of
  clusters. This library models its Go packages and proves what they promise one another.

  \<^bold>\<open>The program.\<close> A \<^emph>\<open>provider\<close> discovers clusters (secrets, Cluster API objects, cluster
  profiles, kind, files, namespaces) and calls \<open>Engage\<close> of the \<^emph>\<open>manager\<close> for each, with a
  context that ends with the cluster. The manager hands the call to its \<^emph>\<open>coordinator\<close>. The
  basic coordinator engages every controller at once. The sharded one runs in several processes:
  each publishes itself in a \<^emph>\<open>peer registry\<close>, a \<^emph>\<open>sharder\<close> chooses the process that owns a
  cluster, and a Lease per cluster, the \<^emph>\<open>fence\<close>, keeps two processes from working on it at the
  same time. An engaged \<^emph>\<open>controller\<close> starts its \<^emph>\<open>sources\<close> in the cluster; their \<^emph>\<open>event
  handlers\<close> put requests that carry the name of the cluster into the queue, and the
  \<^emph>\<open>reconcilers\<close> get the cluster back from the manager by that name. \<^emph>\<open>Builders\<close> put controllers
  and webhooks together.

  \<^bold>\<open>Theories and sources.\<close> Paths are relative to the repository.

    \<^item> \<open>Prelude\<close>: cluster names, Go errors with their wrapping, maps with an explicit order of
      iteration, loops that return on the first error, time. \<open>Runtime\<close>: contexts of Go as a store
      of nodes with a parent and a cancelled flag.
    \<^item> \<open>Sanitize\<close>: \<open>pkg/util/sanitize\<close>, on bytes and with Go's decoding of UTF-8.
    \<^item> \<open>Sharder\<close>: \<open>sharded/sharder\<close>, FNV-1a and the weighted rendezvous choice on 64-bit words.
      (\<open>sharded\<close> is \<open>pkg/manager/coordinator/sharded\<close>.)
    \<^item> \<open>KubeApi\<close>: Lease objects, the API client as a parameter, the laws the sources rely on, and
      an in-memory server that has them. \<open>LeaseGuard\<close>: \<open>sharded/leaseguard.go\<close>. \<open>Fencing\<close>: many
      guards on one Lease, their methods cut at the API calls and interleaved freely.
    \<^item> \<open>Peers\<close>: \<open>sharded/peers/registry.go\<close>. \<open>Coordinator\<close>: \<open>sharded/coordinator.go\<close> and
      \<open>options.go\<close>, with goroutines and callbacks as steps. \<open>Sharding\<close>: what the four promise
      together. \<open>FenceRuns\<close>: what each operation of a coordinator does to the Leases, as a guarantee
      that composes. \<open>Shards\<close>: any number of coordinators over one API server, with
      processes that end and start. \<open>Settling\<close>: how such a fleet comes to run a cluster.
    \<^item> \<open>Clusters\<close>: \<open>pkg/clusters/clusters.go\<close> and the interface \<open>Provider.Get\<close> of
      \<open>pkg/multicluster\<close>. \<open>Registries\<close>: \<open>pkg/clusters/registry.go\<close> and \<open>providers/clusters\<close>.
    \<^item> \<open>Reconcile\<close>: \<open>pkg/reconcile\<close> and \<open>pkg/context\<close>. \<open>Manager\<close>: \<open>pkg/manager/manager.go\<close>,
      \<open>coordinator.go\<close> and \<open>coordinator/basic\<close>.
    \<^item> \<open>Handler\<close>: \<open>pkg/handler\<close>. \<open>Source\<close>: \<open>pkg/source/kind.go\<close>. \<open>Controller\<close>:
      \<open>pkg/controller/controller.go\<close>.
    \<^item> \<open>MultiProvider\<close>: \<open>providers/multi\<close>. \<open>Tracking\<close>: what the providers that create clusters
      share. \<open>Kubeconfig\<close>: \<open>providers/kubeconfig\<close> and \<open>providers/cluster-api\<close>. \<open>Inventory\<close>:
      \<open>providers/cluster-inventory-api\<close>. \<open>KindProvider\<close>, \<open>NamespaceProvider\<close>: the providers of
      these names. \<open>NamespaceRuns\<close>: the event handlers of the latter cut at their locks. \<open>FileProvider\<close>: \<open>providers/file\<close>, \<open>single\<close> and \<open>nop\<close>.
    \<^item> \<open>Builder\<close>: \<open>pkg/builder/forked_controller.go\<close>, \<open>forked_options.go\<close> and
      \<open>multicluster_options.go\<close>. \<open>Webhook\<close>: \<open>pkg/builder/forked_webhook.go\<close>.
    \<^item> \<open>SyncExample\<close>: the reconcilers of \<open>examples/sync-local-to-remote\<close>. \<open>Examples\<close>: the main programs
      under \<open>examples\<close>. \<open>GoStrings\<close>: splitting and trimming of Go's \<open>strings\<close>. \<open>GoModCheck\<close>:
      \<open>hack/tools/cmd/gomodcheck\<close>. \<open>Ports\<close>: \<open>internal/forked/testing\<close>, lock files and ports for tests.
    \<^item> \<open>Fleet\<close>: the cluster set of a provider, the manager with the basic coordinator and its
      controllers over one store of contexts. This theory: the properties of that composition.

  \<^bold>\<open>Reading the model.\<close> A struct is a record, an interface value a handle or a datatype of its
  implementations, a map a finite map; where Go ranges over a map the order is an argument, and
  the properties hold for all orders. A method is a function that returns the changed state. What
  runs in a goroutine is a step of an inductive relation, or a state transformer that the
  environment applies at any later time; a lock that covers a whole method makes the method one
  step. Errors are values of \<open>go_error\<close>, and each early return is a branch. Clocks are arguments.
  Endless loops (\<open>Run\<close> of the peer registry, the renewer of a fence, the runnable of the
  coordinator, the poll of the kind provider, the event loop of the file provider) are recursions
  over the list of their rounds: each round is given by what the environment did in it, the list
  is arbitrary, so a property that holds for all lists holds however long the loop runs, and there
  is no fuel to run out of. Integers have their width where it matters: hash values and weights
  are words, lease durations go through 32 bits.

  \<^bold>\<open>Code outside of the repository\<close> is an argument of the definitions that call it: the API
  client, \<open>cluster.New\<close>, the host manager, the embedded controller, informers, the stock event
  handlers of controller-runtime, the kind library, the file system and its watcher, the webhook
  server, the \<open>go\<close> command, files, locks and sockets of the operating system. Laws that are needed of it are the assumptions of a locale or named premises, and a
  concrete instance satisfies them.

  \<^bold>\<open>Interfaces.\<close> Each is a locale whose lemmas are proved once and used through its
  interpretations: \<open>sharder\<close> (HRW) and \<open>membership\<close>, which extends it (the lease registry);
  \<open>lease_api\<close>, \<open>lease_store\<close>, which extends it, and \<open>live_store\<close>, which extends that one (the
  in-memory server); \<open>cm_store\<close> (stored
  ConfigMaps); \<open>port_files\<close> and \<open>working_files\<close>, which extends it (files, locks and listeners); \<open>provider_get\<close> (the cluster set, the registry and the
  providers); \<open>cluster_lifecycle\<close> and \<open>cluster_tracking\<close>, which extends it (the cluster set, the
  providers with tables of their own); \<open>coordinator_if\<close> (the basic coordinator); \<open>cluster_aware\<close>
  (requests) and \<open>stamping_queue\<close> (lifted and injecting queues, the latter by a sublocale);
  \<open>scoped_call\<close> (the calls of the namespaced client).

  \<^bold>\<open>What is shown.\<close>

    \<^item> Sharding: two fences on one Lease are never fresh at the same time, however the calls of the
      peers interleave; the methods of a guard are runs of that transition system; a cluster is
      started only by its owner and with a fence, its workers are cancelled when it moves away or
      the fence is lost, and an owner with a free fence does start it; over all processes, in every
      interleaving of their methods and goroutines and with processes that end and are replaced, a
      cluster runs in one process at a time as long as releases finish before the next decision;
      when the processes agree on the peers, one round of decisions starts a cluster whose Lease is
      free in its owner and in no other process; peers that see the same registry choose one owner,
      the choice is minimal in the disruption it causes, and a published peer comes back as it was
      published.
    \<^item> Engagement: \<open>Engage\<close> of a controller is all or nothing; what is engaged is watched; the
      manager reaches every controller that was added to it; a built controller watches what the
      options say, and its requests name the cluster of the event; a request from a watch that lives
      leads the reconciler back to the cluster of the event, and no watch outlives its cluster.
    \<^item> Providers: the tables of a provider agree, a cluster that runs is known or cancelled, each
      reconciliation brings the tables in line with the object that was read, and the namespace
      provider refines the plain set of namespaces, also when its handler is cut at the locks. The
      clients it hands out stay in their namespace.
    \<^item> Multi provider: names with a prefix lead back to the provider and the cluster; a provider
      runs at most once.
    \<^item> Handlers, webhooks, names: a lifted handler does what the original does with the cluster
      stamped on; each path is registered once; the pattern of custom paths is the language of the
      regular expression; sanitized names have the characters, the ends and the length promised.
    \<^item> Programs: the sync reconcilers bring the ConfigMaps of the clusters in line with the local
      ones; every example watches the provider's clusters; the module check reports exactly the
      versions in disagreement; a suggested port is reserved, a call tries at most a hundred ports
      and finds one if fewer are reserved.

  \<^bold>\<open>What the model brought to light.\<close> Theorems that exhibit behaviour the code does not intend:
  \<open>started_without_fence_reachable\<close>, \<open>split_brain_reachable\<close> and \<open>unowned_fence_kept_reachable\<close> (an
  unwaited release, two processes on one cluster because of it, and a fence without a started
  cluster), \<open>started_under_foreign_context_reachable\<close> (a cluster that ends with another one),
  \<open>late_engage_displaces_current\<close> (a late \<open>Engage\<close> of a cluster that was replaced),
  \<open>odd_weight_no_bias\<close> (weights modulo \<open>2 ^ 64\<close>), \<open>DNS1123_gaps\<close>,
  \<open>replaced_cluster_removed_by_predecessor\<close> and \<open>readded_provider_removed_by_predecessor\<close> (cleanup
  that goes by name), \<open>registry_equal_reengage_lost\<close>, \<open>AddProvider_blocks_when_full\<close>,
  \<open>multi_separator_in_name_lost\<close>, \<open>failed_watch_keeps_running\<close>, \<open>inventory_refused_cluster_leaks\<close>,
  \<open>kind_refused_cluster_blocks_and_leaks\<close>, \<open>namespace_handlers_gaps\<close>, \<open>Apply_not_isolated\<close>,
  \<open>two_handlers_leak_reachable\<close> and \<open>two_handlers_panic_reachable\<close> (a namespace provider started twice),
  \<open>push_gone_always_fails\<close>, \<open>sync_local_controller_watches_fleet\<close>, \<open>file_example_no_default_globs\<close>,
  \<open>namespace_example_starts_provider_twice\<close>, \<open>example_failures_unreported\<close> (the example programs),
  \<open>stale_file_cuts_reservation\<close> and \<open>Acquire_not_reentrant\<close> (the ports for tests).

  \<^bold>\<open>Grain and bounds.\<close> In \<open>Shards\<close> a step is a whole method or goroutine of one process; that the
  API calls of different processes interleave inside of these is covered by \<open>Fencing\<close>, which cuts
  the methods of a guard at their calls. In \<open>Ports\<close> a call of \<open>Suggest\<close> is one step. The retry loop
  there runs at most a hundred rounds, as in the source.

  \<^bold>\<open>Not modelled.\<close> \<open>alias.go\<close>, \<open>pkg/source/source.go\<close> and the other files of aliases and interface
  declarations, which hold no code of their own; logging and metrics throughout; reads of a client
  that pass an informer cache, beyond what they return; the test suites.
\<close>

section \<open>From the provider to the reconcilers\<close>

text \<open>
  C10: engaging a cluster reaches every controller. When \<open>Engage\<close> of a manager with the basic
  coordinator returns nil for a cluster that a provider has entered, every controller that was
  added has the cluster on its books and a watch in it for each of its sources that wants the
  cluster. If it returns an error, the controller that refused has no entry under that name, the
  controllers after it are as they were, and with the removal that follows no watch for the
  cluster lives in any controller.
\<close>

theorem manager_engages_every_controller:
  assumes "WithMultiCluster H pv [] = Inr m" and "\<forall>a. \<exists>ctl. NewTypedUnmanaged dflt cr S (nm a) opts = Inr (ctl, C a)"
    and "(sys_step F)\<^sup>*\<^sup>* (sys_new S m C) y" and "(n, cl, cx) \<in> set (sy_pending y)"
    and "mm_coord (sy_mgr y) = Some (BasicCoord c)" and "distinct (b_awares c)"
    and "sys_Engage F other cx n cl y = (err, y')"
  shows "case err of
       None \<Rightarrow> \<forall>a \<in> set (b_awares c). \<exists>ec.
         fmlookup (mcc_clusters (sy_ctls y' a)) n = Some ec \<and> ec_cluster ec = cl \<and>
         (\<forall>s \<in> set (mcc_sources (sy_ctls y' a)). fl_for_cluster F a s n cl = Inr True \<longrightarrow>
            \<lparr>w_source = s, w_name = n, w_cluster = cl, w_ctx = ec_ctx ec\<rparr> \<in> set (mcc_watches (sy_ctls y' a)))
     | Some e \<Rightarrow> (\<exists>ys a zs. b_awares c = ys @ a # zs \<and> fmlookup (mcc_clusters (sy_ctls y' a)) n = None \<and>
         (\<forall>b \<in> set zs. sy_ctls y' b = sy_ctls y b)) \<and>
         (\<forall>b. \<forall>w \<in> set (mcc_watches (sy_ctls y' b)). w_name w = n \<longrightarrow>
            ctx_err (cs_ctxs (clusters_Remove n (sy_set y'))) (w_ctx w))"
proof -
  let ?call = "\<lambda>a. (a, cx, n, cl)"
  have inv: "sys_inv F y" by (rule sys_run_inv[OF assms(3) sys_new_inv[OF assms(1,2)]])
  note iss = sys_invD(2)[OF inv assms(4)]
  have mc: "mgr_calls (sy_mgr y) = b_calls c" using assms(5) by (simp add: mgr_calls_def)
  have books: "sys_inv F (sys_calls F (map ?call ys) (y\<lparr>sy_mgr := m'\<rparr>))"
    if "mgr_calls m' = b_calls c @ map ?call (ys @ zs)" for m' ys zs
    using sys_inv_logged[OF inv iss that[folded mc]] that by (intro sys_calls_inv) auto
  from assms(7,5) show ?thesis
  proof (cases rule: sys_Engage_cases)
    case (engaged m')
    have "\<exists>ec. fmlookup (mcc_clusters (sy_ctls y' a)) n = Some ec \<and> ec_cluster ec = cl \<and>
         (\<forall>s \<in> set (mcc_sources (sy_ctls y' a)). fl_for_cluster F a s n cl = Inr True \<longrightarrow>
            \<lparr>w_source = s, w_name = n, w_cluster = cl, w_ctx = ec_ctx ec\<rparr> \<in> set (mcc_watches (sy_ctls y' a)))"
      if "a \<in> set (b_awares c)" for a
    proof -
      from that obtain ys zs where split: "b_awares c = ys @ a # zs" by (auto dest: split_list)
      let ?z = "sys_calls F (map ?call ys) (y\<lparr>sy_mgr := m'\<rparr>)"
      have "a \<notin> fst ` set (map ?call zs)" using assms(6) split by auto
      from sys_own_call[OF this engaged(5)[OF split]]
      have e: "ctl_Engage F ?z (a, cx, n, cl) = (None, sy_ctls y' a)" by (simp add: engaged(4) split)
      have "sys_inv F ?z" by (rule books[of m' ys "a # zs"]) (simp add: engaged(3) split)
      from ctl_Engage_books(1)[OF this e refl] show ?thesis .
    qed
    with engaged(1) show ?thesis by simp
  next
    case (refused e m' ys a zs)
    let ?z = "sys_calls F (map ?call ys) (y\<lparr>sy_mgr := m'\<rparr>)"
    have en: "ctl_Engage F ?z (a, cx, n, cl) = (Some e, sy_ctls y' a)"
      using sys_own_call[of a "[]", OF _ refused(6)] by (simp add: refused(5))
    have "sys_inv F ?z" by (rule books[of m' ys "[a]"]) (simp add: refused(4))
    from ctl_Engage_books(2)[OF this en] have "fmlookup (mcc_clusters (sy_ctls y' a)) n = None" by simp
    moreover have "sy_ctls y' b = sy_ctls y b" if "b \<in> set zs" for b
    proof -
      have "b \<notin> fst ` set (map ?call (ys @ [a]))" using that assms(6) refused(3) by auto
      from sys_calls_other[OF this, of F "y\<lparr>sy_mgr := m'\<rparr>"] show ?thesis by (simp add: refused(5))
    qed
    moreover have "ctx_err (cs_ctxs (clusters_Remove n (sy_set y'))) (w_ctx w)"
      if "w \<in> set (mcc_watches (sy_ctls y' b))" "w_name w = n" for b w
      using removed_not_watched[OF sys_Engage_inv[OF inv iss assms(7)] that(1)] that(2) by simp
    ultimately show ?thesis using refused(1,3) by auto
  qed
qed

text \<open>A run with one controller: it is added, gets a source, and a cluster is entered and engaged.\<close>

definition demo_fleet :: fleet_env where
  "demo_fleet = \<lparr>fl_for_cluster = (\<lambda>_ _ _ _. Inr True), fl_watch = (\<lambda>_ _ _. None), fl_inner = (\<lambda>_. None)\<rparr>"

definition demo_ctl0 :: mc_controller where
  "demo_ctl0 = \<lparr>mcc_clusters = fmempty, mcc_sources = [], mcc_ctxs = [(None, False)], mcc_watches = [],
     mcc_waiting = [], mcc_started = []\<rparr>"

definition demo_mgr0 :: mc_manager where
  "demo_mgr0 = \<lparr>mm_provider = None, mm_coord = Some (BasicCoord basic_New), mm_added = []\<rparr>"

definition demo_mgr :: mc_manager where
  "demo_mgr = \<lparr>mm_provider = None, mm_coord = Some (BasicCoord \<lparr>b_awares = [3], b_calls = []\<rparr>), mm_added = [UserRunnable 3]\<rparr>"

definition demo_watching :: system where
  "demo_watching = \<lparr>sy_set = clusters_New [(None, False)], sy_pending = [], sy_mgr = demo_mgr,
     sy_ctls = (\<lambda>_. demo_ctl0)(3 := demo_controller)\<rparr>"

definition demo_entered :: system where
  "demo_entered = demo_watching\<lparr>sy_set := entered 0 ''a'' 9 (clusters_New [(None, False)]), sy_pending := [(''a'', 9, 1)]\<rparr>"

definition demo_sys :: system where
  "demo_sys = (snd (sys_Engage demo_fleet (\<lambda>_ _ _. None) 1 ''a'' 9 demo_entered))\<lparr>sy_pending := []\<rparr>"

lemma demo_sys_new:
  "WithMultiCluster demo_host None [] = Inr demo_mgr0"
  "\<forall>a. \<exists>ctl. NewTypedUnmanaged id (\<lambda>_ _. Inr ()) [(None, False)] ''ctl'' () = Inr (ctl, demo_ctl0)"
  by (simp_all add: WithMultiCluster_def basic_Runnable_def demo_mgr0_def NewTypedUnmanaged_def demo_ctl0_def)

lemma demo_watching_reach: "(sys_step F)\<^sup>*\<^sup>* (sys_new [(None, False)] demo_mgr0 (\<lambda>_. demo_ctl0)) demo_watching"
proof -
  let ?y0 = "sys_new [(None, False)] demo_mgr0 (\<lambda>_. demo_ctl0)"
  have "manager_Add demo_host 3 (sy_mgr ?y0) = (None, demo_mgr)"
    by (simp add: sys_new_def manager_Add_def host_Add_def demo_host_def demo_mgr0_def demo_mgr_def basic_New_def basic_AddAware_def)
  then have "sys_step F ?y0 (?y0\<lparr>sy_mgr := demo_mgr\<rparr>)" by (rule sys_step.added)
  moreover have "sys_step F (?y0\<lparr>sy_mgr := demo_mgr\<rparr>) (put_ctl 3 demo_controller (?y0\<lparr>sy_mgr := demo_mgr\<rparr>))"
    by (rule sys_step.watch[where ord = "[]" and src = 5 and err = None])
       (simp_all add: iter_order_def sys_new_def demo_ctl0_def MultiClusterWatch_def demo_controller_def on_store_def clusters_New_def)
  moreover have "put_ctl 3 demo_controller (?y0\<lparr>sy_mgr := demo_mgr\<rparr>) = demo_watching"
    by (simp add: put_ctl_def sys_new_def demo_watching_def clusters_New_def demo_controller_def)
  ultimately show ?thesis by (metis converse_rtranclp_into_rtranclp r_into_rtranclp)
qed

lemma demo_entered_reach: "(sys_step F)\<^sup>*\<^sup>* (sys_new [(None, False)] demo_mgr0 (\<lambda>_. demo_ctl0)) demo_entered"
proof -
  have "sys_step F demo_watching demo_entered"
    using sys_step.enter[of 0 "''a''" 9 demo_watching 1 "snd (clusters_add 0 ''a'' 9 (clusters_New [(None, False)]))" F]
    by (simp add: demo_watching_def demo_entered_def clusters_add_def with_cancel_def entered_def clusters_New_def)
  with demo_watching_reach show ?thesis by (rule rtranclp.rtrancl_into_rtrancl)
qed

lemmas demo_sys_simps = demo_entered_def demo_watching_def demo_mgr_def sys_Engage_def manager_Engage_def basic_Engage_def
  mgr_calls_def sys_oracle_def sys_calls_def sys_call_def ctl_Engage_def put_ctl_def on_store_def controller_Engage_def
  engage_fresh_def demo_controller_def demo_fleet_def with_cancel_def clusters_New_def entered_def Let_def

lemma demo_engage_ok: "fst (sys_Engage demo_fleet (\<lambda>_ _ _. None) 1 ''a'' 9 demo_entered) = None"
  by (simp add: demo_sys_simps)

lemma demo_sys_sel:
  "sy_ctxs demo_sys = [(None, False), (Some 0, False), (Some 1, False)]"
  "mcc_watches (sy_ctls demo_sys 3) = [\<lparr>w_source = 5, w_name = ''a'', w_cluster = 9, w_ctx = 2\<rparr>]"
  by (simp_all add: demo_sys_def demo_sys_simps)

lemma demo_sys_reach: "(sys_step demo_fleet)\<^sup>*\<^sup>* (sys_new [(None, False)] demo_mgr0 (\<lambda>_. demo_ctl0)) demo_sys"
proof -
  have "sys_step demo_fleet demo_entered demo_sys"
    using sys_step.engage[of "''a''" 9 1 demo_entered demo_fleet "\<lambda>_ _ _. None", OF _ surjective_pairing]
    by (simp add: demo_sys_def demo_entered_def)
  with demo_entered_reach show ?thesis by (rule rtranclp.rtrancl_into_rtrancl)
qed

theorem manager_engages_every_controller_witness:
  "\<exists>ec. fmlookup (mcc_clusters (sy_ctls demo_sys 3)) ''a'' = Some ec \<and> ec_cluster ec = 9"
proof -
  let ?r = "sys_Engage demo_fleet (\<lambda>_ _ _. None) 1 ''a'' 9 demo_entered"
  have c: "mm_coord (sy_mgr demo_entered) = Some (BasicCoord \<lparr>b_awares = [3], b_calls = []\<rparr>)"
    and p: "(''a'', 9, 1) \<in> set (sy_pending demo_entered)" by (simp_all add: demo_entered_def demo_watching_def demo_mgr_def)
  have r: "?r = (None, snd ?r)" using demo_engage_ok by (simp add: prod_eq_iff)
  from manager_engages_every_controller[OF demo_sys_new demo_entered_reach p c _ r] show ?thesis
    by (auto simp: demo_sys_def)
qed

text \<open>
  C9: A reconciler works on the cluster of the event. A provider adds, replaces and removes clusters,
  the manager hands them to its controllers, and controllers start and end watches, in any order.
  As long as the watch in a cluster is alive, every request that its source's handler makes of an
  event leads the reconciler, through the name in the request and the manager, back to that very
  cluster.
\<close>

theorem request_reaches_its_cluster:
  assumes "WithMultiCluster H pv [] = Inr m" and "\<forall>a. \<exists>ctl. NewTypedUnmanaged dflt cr S (nm a) opts = Inr (ctl, C a)"
    and "(sys_step F)\<^sup>*\<^sup>* (sys_new S m C) y"
    and "w \<in> set (mcc_watches (sy_ctls y a))" and "\<not> ctx_err (sy_ctxs y) (w_ctx w)" and "w_name w \<noteq> LocalCluster"
    and "\<forall>n cl. \<exists>h. k_handler src n cl = Some (clusterHandler h n)"
    and "kind_ForCluster src (w_name w) (w_cluster w) = Inr (ck, True)" and "buildEventHandler g cx ck = Inr f"
    and "Handled p \<in> {AddFunc T f i, UpdateFunc T f i j, DeleteFunc T f i}"
    and "c \<in> set (run_prog q p [])" and "call_item c = Some req"
  shows "ReconcilerWithClusterInContext (\<lambda>vc key. body (ClusterFromContext H (sy_manager E ord y) vc) key) vc req =
    body (Inr (ck_cl ck)) (rq_key req)"
proof -
  have inv: "sys_inv F y" by (rule sys_run_inv[OF assms(3) sys_new_inv[OF assms(1,2)]])
  have "Request_Cluster req = w_name w" by (rule source_requests_stamped[OF assms(7-12)])
  moreover have "ck_cl ck = w_cluster w" using assms(8) by (auto simp: kind_ForCluster_def Let_def split: sum.splits)
  moreover have "GetCluster H (sy_manager E ord y) (w_name w) = Inr (w_cluster w)"
    by (rule live_watch_resolves[OF inv assms(4-6)])
  ultimately show ?thesis
    by (simp add: ReconcilerWithClusterInContext_def ClusterFromContext_def ctx_ClusterFrom_def ctx_WithCluster_def
        Request_Cluster_def)
qed



definition demo_kind :: "(nat, Request) kind" where
  "demo_kind = TypedKind 3 (\<lambda>n cl. Some (EnqueueRequestForObject demo_plain_handler n cl)) []"

theorem request_reaches_its_cluster_witness:
  "ReconcilerWithClusterInContext (\<lambda>vc key. (zero_Result, if ClusterFromContext demo_host (sy_manager calm_env [] demo_sys) vc = Inr 9
      then None else Some ErrCtx)) \<lparr>vc_cluster = None\<rparr> (on_cluster ''a'' (NsName ''ns'' ''a'')) = (zero_Result, None)"
proof -
  let ?w = "\<lparr>w_source = 5, w_name = ''a'', w_cluster = 9, w_ctx = 2\<rparr>"
  let ?ck = "fst (projr (kind_ForCluster demo_kind ''a'' 9))"
  let ?f = "\<lparr>ef_ctx = 0, ef_handler = EnqueueRequestForObject demo_plain_handler ''a'' 9, ef_preds = []\<rparr>"
  let ?p = "h_Create (ef_handler ?f) 0 7"
  have w: "?w \<in> set (mcc_watches (sy_ctls demo_sys 3))" "\<not> ctx_err (sy_ctxs demo_sys) (w_ctx ?w)" "w_name ?w \<noteq> LocalCluster"
    by (simp_all add: demo_sys_sel ctx_err.simps LocalCluster_def)
  have h: "\<forall>n cl. \<exists>h. k_handler demo_kind n cl = Some (clusterHandler h n)"
    by (auto simp: demo_kind_def TypedKind_def EnqueueRequestForObject_def Lift_def TypedLift_def)
  have ck: "kind_ForCluster demo_kind (w_name ?w) (w_cluster ?w) = Inr (?ck, True)"
    by (simp add: demo_kind_def TypedKind_def kind_ForCluster_def)
  have f: "buildEventHandler ''g'' 0 ?ck = Inr ?f"
    by (simp add: buildEventHandler_def demo_kind_def TypedKind_def kind_ForCluster_def)
  have p: "Handled ?p \<in> {AddFunc [(None, False)] ?f (IObj 7), UpdateFunc [(None, False)] ?f (IObj 7) (IObj 7),
      DeleteFunc [(None, False)] ?f (IObj 7)}"
    by (simp add: AddFunc_def passCreate_def ctx_err.simps)
  have c: "QAdd (on_cluster ''a'' (NsName ''ns'' ''a'')) \<in> set (run_prog (\<lambda>_ _. RNothing) ?p [])"
    "call_item (QAdd (on_cluster ''a'' (NsName ''ns'' ''a''))) = Some (on_cluster ''a'' (NsName ''ns'' ''a''))"
    by (simp_all add: EnqueueRequestForObject_def Lift_def TypedLift_def wrapped_handlers demo_plain_handler_def)
  have "ck_cl ?ck = 9" by (simp add: demo_kind_def TypedKind_def kind_ForCluster_def)
  with request_reaches_its_cluster[OF demo_sys_new demo_sys_reach w h ck f p c,
      of "\<lambda>r _. (zero_Result, if r = Inr 9 then None else Some ErrCtx)"] show ?thesis by simp
qed


subsection \<open>Two calls of Add for one name\<close>

definition demo_readded :: system where
  "demo_readded = demo_entered\<lparr>sy_set := entered 0 ''a'' 8 (clusters_Remove ''a'' (sy_set demo_entered)),
     sy_pending := [(''a'', 8, 2), (''a'', 9, 1)]\<rparr>"

definition demo_second :: system where
  "demo_second = (snd (sys_Engage demo_fleet (\<lambda>_ _ _. None) 2 ''a'' 8 demo_readded))\<lparr>sy_pending := [(''a'', 9, 1)]\<rparr>"

definition demo_late :: system where
  "demo_late = (snd (sys_Engage demo_fleet (\<lambda>_ _ _. None) 1 ''a'' 9 demo_second))\<lparr>sy_pending := []\<rparr>"

lemma demo_late_reach: "(sys_step demo_fleet)\<^sup>*\<^sup>* (sys_new [(None, False)] demo_mgr0 (\<lambda>_. demo_ctl0)) demo_late"
proof -
  let ?r = "demo_entered\<lparr>sy_set := clusters_Remove ''a'' (sy_set demo_entered)\<rparr>"
  have "sys_step demo_fleet demo_entered ?r" by (rule sys_step.remove)
  moreover have "sys_step demo_fleet ?r demo_readded"
    using sys_step.enter[of 0 "''a''" 8 ?r 2 "snd (clusters_add 0 ''a'' 8 (sy_set ?r))" demo_fleet]
    by (simp add: demo_readded_def demo_entered_def clusters_add_def with_cancel_def entered_def clusters_New_def
        clusters_Remove_def numeral_eq_Suc)
  moreover have "sys_step demo_fleet demo_readded demo_second"
    using sys_step.engage[of "''a''" 8 2 demo_readded demo_fleet "\<lambda>_ _ _. None", OF _ surjective_pairing]
    by (simp add: demo_second_def demo_readded_def)
  moreover have "sys_step demo_fleet demo_second demo_late"
    using sys_step.engage[of "''a''" 9 1 demo_second demo_fleet "\<lambda>_ _ _. None", OF _ surjective_pairing]
    by (simp add: demo_late_def demo_second_def)
  ultimately show ?thesis using demo_entered_reach by (meson rtranclp.rtrancl_into_rtrancl)
qed

lemma demo_second_eq:
  "demo_second = demo_readded\<lparr>sy_pending := [(''a'', 9, 1)], sy_set := (sy_set demo_readded)\<lparr>cs_ctxs :=
       [(None, False), (Some 0, True), (Some 0, False), (Some 2, False)]\<rparr>,
     sy_mgr := demo_mgr\<lparr>mm_coord := Some (BasicCoord \<lparr>b_awares = [3], b_calls = [(3, 2, ''a'', 8)]\<rparr>)\<rparr>,
     sy_ctls := (\<lambda>_. demo_ctl0)(3 := demo_controller\<lparr>mcc_clusters := fmupd ''a'' \<lparr>ec_name = ''a'', ec_cluster = 8, ec_ctx = 3\<rparr> fmempty,
       mcc_ctxs := [(None, False), (Some 0, True), (Some 0, False), (Some 2, False)],
       mcc_watches := [\<lparr>w_source = 5, w_name = ''a'', w_cluster = 8, w_ctx = 3\<rparr>],
       mcc_waiting := [\<lparr>ec_name = ''a'', ec_cluster = 8, ec_ctx = 3\<rparr>]\<rparr>)\<rparr>"
  by (simp add: demo_second_def demo_readded_def demo_sys_simps clusters_Remove_def cancel_def numeral_eq_Suc)

text \<open>
  A late \<open>Engage\<close> displaces the current one. A cluster is entered, removed before its \<open>Engage\<close> is
  made, and another one is entered and engaged under the name. When the first \<open>Engage\<close> comes, with a
  context that is done already, the controller ends the live engagement and takes the dead one: the
  provider has the new cluster, in a live context, and no controller watches it any more.
\<close>

theorem late_engage_displaces_current:
  "\<exists>y. (sys_step demo_fleet)\<^sup>*\<^sup>* (sys_new [(None, False)] demo_mgr0 (\<lambda>_. demo_ctl0)) y \<and> sy_pending y = [] \<and>
     clusters_known (sy_set y) ''a'' = Some 8 \<and> fmlookup (cs_cancels (sy_set y)) ''a'' = Some 2 \<and>
     \<not> ctx_err (sy_ctxs y) 2 \<and> mcc_sources (sy_ctls y 3) = [5] \<and>
     (\<forall>w \<in> set (mcc_watches (sy_ctls y 3)). ctx_err (sy_ctxs y) (w_ctx w))"
proof -
  have "sy_pending demo_late = []" "clusters_known (sy_set demo_late) ''a'' = Some 8"
    "fmlookup (cs_cancels (sy_set demo_late)) ''a'' = Some 2" "mcc_sources (sy_ctls demo_late 3) = [5]"
    "sy_ctxs demo_late = [(None, False), (Some 0, True), (Some 0, False), (Some 2, True), (Some 1, False)]"
    "map w_ctx (mcc_watches (sy_ctls demo_late 3)) = [3, 4]"
    unfolding demo_late_def demo_second_eq
    by (simp_all add: demo_readded_def demo_sys_simps clusters_Remove_def cancel_def disengage_def ctx_err.simps numeral_eq_Suc)
  with demo_late_reach show ?thesis by (intro exI[of _ demo_late]) (auto simp: ctx_err.simps map_eq_Cons_conv)
qed

end
